(* ===== verification/Tn_Prelude.thy ===== *)
theory Tn_Prelude
  imports Main "HOL-Library.Word" "HOL-Library.Monad_Syntax" "HOL-Library.Multiset"
begin

text \<open>
  Shared vocabulary of the development.

  Machine integers are words of the C type's width; \<open>size_t\<close>, \<open>uint64_t\<close> and
  addresses are 64 bits wide (the targets of the build are 64-bit). C return codes are
  \<open>int\<close> values with the names of \<open>include/tn/error.h\<close>.

  An operation of the C code is a function that returns the return code together with the
  updated state and out-parameters, wrapped in \<open>option\<close>. \<open>None\<close> stands for a program
  without defined behaviour from that point on: a failed \<open>TN_ASSERT\<close>, an array access out of
  range, a NULL dereference or a division by zero. A theorem that an operation equals
  \<open>Some ...\<close> therefore also says that none of these happens.

  A NULL result pointer is \<open>None\<close> of an inner \<open>option\<close>. Memory that \<open>malloc\<close> returned
  but nobody wrote yet has arbitrary content, given by a function from indices to contents over
  which every theorem quantifies; whether \<open>malloc\<close> succeeds is a Boolean input.
\<close>

unbundle bit_operations_syntax

named_theorems tn_defs \<open>definitions of operations, unfolded in their component's lemmas\<close>

type_synonym u8 = "8 word"
type_synonym u16 = "16 word"
type_synonym u32 = "32 word"
type_synonym u64 = "64 word"
type_synonym size_t = "64 word"
type_synonym addr = "64 word"

section \<open>Return codes\<close>

definition TN_SUCCESS :: int where [simp]: "TN_SUCCESS = 0"
definition TN_ERROR :: int where [simp]: "TN_ERROR = -1"

definition TN_QUEUE_EMPTY :: int where [simp]: "TN_QUEUE_EMPTY = -100"
definition TN_QUEUE_FULL :: int where [simp]: "TN_QUEUE_FULL = -101"

definition TN_EVENT_NOCHAN :: int where [simp]: "TN_EVENT_NOCHAN = -201"

definition TN_SEND_NOREQ :: int where [simp]: "TN_SEND_NOREQ = -301"
definition TN_SEND_NOBUF :: int where [simp]: "TN_SEND_NOBUF = -302"

definition TN_RECV_ERROR :: int where [simp]: "TN_RECV_ERROR = -400"
definition TN_RECV_EBUF :: int where [simp]: "TN_RECV_EBUF = -401"
definition TN_RECV_EVTPOP :: int where [simp]: "TN_RECV_EVTPOP = -402"
definition TN_RECV_EVTPUSH :: int where [simp]: "TN_RECV_EVTPUSH = -403"

definition AWS_OP_SUCCESS :: int where [simp]: "AWS_OP_SUCCESS = 0"
definition AWS_OP_ERR :: int where [simp]: "AWS_OP_ERR = -1"

section \<open>Assertions, arrays, allocation\<close>

text \<open>\<open>TN_ASSERT(expr)\<close>: the program stops when \<open>expr\<close> is false.\<close>

definition tn_assert :: "bool \<Rightarrow> unit option" where
  "tn_assert P = (if P then Some () else None)"

text \<open>Array accesses, without defined behaviour out of range.\<close>

definition arr_get :: "'a list \<Rightarrow> nat \<Rightarrow> 'a option" where
  "arr_get xs i = (if i < length xs then Some (xs ! i) else None)"

definition arr_set :: "'a list \<Rightarrow> nat \<Rightarrow> 'a \<Rightarrow> 'a list option" where
  "arr_set xs i v = (if i < length xs then Some (xs[i := v]) else None)"

text \<open>
  \<open>malloc\<close> as the code uses it for arrays: \<open>ok\<close> tells whether the allocation succeeds,
  \<open>junk\<close> is the indeterminate content and \<open>n\<close> the number of whole elements that fit into the
  requested number of bytes. The empty array stands for NULL: no element of it can be accessed.
\<close>

definition tn_mem_acquire :: "bool \<Rightarrow> (nat \<Rightarrow> 'a) \<Rightarrow> nat \<Rightarrow> 'a list option" where
  "tn_mem_acquire ok junk n = (if ok then Some (map junk [0..<n]) else None)"

lemma tn_assert_True [simp]: "tn_assert True = Some ()"
  by (simp add: tn_assert_def)

lemma tn_assert_False [simp]: "tn_assert False = None"
  by (simp add: tn_assert_def)

lemma bind_tn_assert [simp]: "(tn_assert P \<bind> f) = (if P then f () else None)"
  by (simp add: tn_assert_def)

lemma arr_get_in [simp]: "i < length xs \<Longrightarrow> arr_get xs i = Some (xs ! i)"
  by (simp add: arr_get_def)

lemma arr_set_in [simp]: "i < length xs \<Longrightarrow> arr_set xs i v = Some (xs[i := v])"
  by (simp add: arr_set_def)

lemma arr_get_Some_iff: "arr_get xs i = Some v \<longleftrightarrow> i < length xs \<and> xs ! i = v"
  by (auto simp: arr_get_def)

lemma arr_set_Some_iff: "arr_set xs i v = Some ys \<longleftrightarrow> i < length xs \<and> ys = xs[i := v]"
  by (auto simp: arr_set_def)

lemma tn_mem_acquire_True [simp]: "tn_mem_acquire True junk n = Some (map junk [0..<n])"
  by (simp add: tn_mem_acquire_def)

lemma tn_mem_acquire_False [simp]: "tn_mem_acquire False junk n = None"
  by (simp add: tn_mem_acquire_def)

section \<open>Words\<close>

lemma unat_lt64: "unat (x :: u64) < 2 ^ 64"
  using unsigned_less [of x] by simp

lemma unat_add64:
  "unat (a :: u64) + unat b < 2 ^ 64 \<Longrightarrow> unat (a + b) = unat a + unat b"
  by (simp only: unat_word_ariths) simp

lemma unat_sub64: "unat (b :: u64) \<le> unat a \<Longrightarrow> unat (a - b) = unat a - unat b"
  by (simp only: unat_sub_if') simp

lemma unat_mult64:
  "unat (a :: u64) * unat b < 2 ^ 64 \<Longrightarrow> unat (a * b) = unat a * unat b"
  by (simp only: unat_word_ariths) simp

lemma unat_of_nat64: "n < 2 ^ 64 \<Longrightarrow> unat (of_nat n :: u64) = n"
  by (simp only: unat_of_nat) simp

lemma unat_pow2_64: "k < 64 \<Longrightarrow> unat (2 ^ k :: u64) = 2 ^ k"
proof -
  assume "k < 64"
  then have "(2::nat) ^ k < 2 ^ 64" by (intro power_strict_increasing) auto
  then have "unat (of_nat (2 ^ k) :: u64) = 2 ^ k" by (rule unat_of_nat64)
  then show ?thesis by simp
qed

lemma unat_diff_Suc64:
  assumes "unat (h - t :: u64) < 2 ^ 64 - 1"
  shows "unat (h + 1 - t) = Suc (unat (h - t))"
proof -
  have "h + 1 - t = (h - t) + 1" by simp
  then show ?thesis using assms by (simp only: unat_word_ariths) simp
qed

lemma unat_diff_pred64:
  assumes "h \<noteq> (t :: u64)"
  shows "Suc (unat (h - (t + 1))) = unat (h - t)"
proof -
  have e: "h - (t + 1) = (h - t) - 1" by simp
  have n: "h - t \<noteq> 0" using assms by simp
  then have "0 < unat (h - t)" by (rule unat_gt_0 [THEN iffD2])
  then show ?thesis by (simp only: e unat_minus_one [OF n])
qed

lemma unat_ucast_32_64: "unat (ucast (x :: u32) :: u64) = unat x"
proof -
  have "unat x < 2 ^ 32" using unsigned_less [of x, where 'a = nat] by simp
  then have "unat x < 2 ^ 64" by simp
  then show ?thesis by (simp add: unsigned_ucast_eq take_bit_nat_eq_self)
qed

text \<open>Masking with \<open>2 ^ k - 1\<close> is reduction modulo \<open>2 ^ k\<close>.\<close>

lemma unat_and_pow2_mask: "unat (x AND (2 ^ k - 1) :: u64) = unat x mod 2 ^ k"
proof -
  have "x AND (2 ^ k - 1) = take_bit k x"
    by (simp only: flip: mask_eq_exp_minus_1 take_bit_eq_mask)
  then have "unat (x AND (2 ^ k - 1)) = take_bit k (unat x)"
    by (simp only: unsigned_take_bit_eq)
  then show ?thesis by (simp only: take_bit_eq_mod)
qed

text \<open>Positions less than \<open>n\<close> apart fall into different slots of a ring of \<open>n\<close> slots.\<close>

lemma ring_slot_inj:
  fixes a :: nat
  assumes "(a + i) mod n = (a + j) mod n" and "i < n" and "j < n"
  shows "i = j"
proof (cases "i \<le> j")
  case True
  then have "n dvd (a + j) - (a + i)"
    using assms(1) mod_eq_dvd_iff_nat [of "a + i" "a + j" n] by simp
  then show ?thesis using assms(2,3) True by (auto dest: dvd_imp_le)
next
  case False
  then have "n dvd (a + i) - (a + j)"
    using assms(1) mod_eq_dvd_iff_nat [of "a + j" "a + i" n] by simp
  then show ?thesis using assms(2,3) False by (auto dest: dvd_imp_le)
qed

text \<open>The slot of a 64-bit position survives the wrap-around of the position counter.\<close>

lemma unat_add_mod_pow2:
  assumes "k \<le> 64"
  shows "unat (t + of_nat i :: u64) mod 2 ^ k = (unat t + i) mod 2 ^ k"
proof -
  have "unat (t + of_nat i) = (unat t + i) mod 2 ^ 64"
    by (simp only: unat_word_ariths unat_of_nat) (simp add: mod_simps)
  moreover have "(2::nat) ^ k dvd 2 ^ 64" using assms by (rule le_imp_power_dvd)
  ultimately show ?thesis by (simp only: mod_mod_cancel)
qed

end
