(* ===== verification/Tn_Handles.thy ===== *)
theory Tn_Handles
  imports Tn_Prelude
begin

text \<open>
  The contract of a pool of preallocated objects. The buffer pools, the events, the channels and
  the write requests of the service are arrays allocated once; an object is identified by its
  index in the array (its handle), and a free list says which objects may be taken.

  The locale \<open>handle_pool\<close> states what the two operations of a free list promise. Inside it the
  conservation law is proved once, for every sequence of calls of a client that gives back only
  what it holds: no handle is ever lost, handed out twice or made up.
\<close>

datatype pool_op = Acquire | Release nat

text \<open>
  The calls of one client. \<open>Release k\<close> gives back the \<open>k\<close>-th of the handles the client holds, if
  it holds that many. The result of each call is its return code and the handle taken or given back.
\<close>

definition drop_nth :: "nat \<Rightarrow> 'a list \<Rightarrow> 'a list" where
  "drop_nth k xs = take k xs @ drop (Suc k) xs"

fun pool_exec ::
  "('s \<Rightarrow> (int \<times> nat option \<times> 's) option) \<Rightarrow> ('s \<Rightarrow> nat \<Rightarrow> (int \<times> 's) option) \<Rightarrow>
   's \<Rightarrow> nat list \<Rightarrow> pool_op \<Rightarrow> ((int \<times> nat option) \<times> nat list \<times> 's) option" where
  "pool_exec acquire release s held Acquire = do {
     (rc, h, s) \<leftarrow> acquire s;
     Some ((rc, h), if rc = 0 then the h # held else held, s)
   }"
| "pool_exec acquire release s held (Release k) =
     (if k < length held then do {
        (rc, s) \<leftarrow> release s (held ! k);
        Some ((rc, Some (held ! k)), if rc = 0 then drop_nth k held else held, s)
      }
      else Some ((TN_ERROR, None), held, s))"

fun pool_run ::
  "('s \<Rightarrow> (int \<times> nat option \<times> 's) option) \<Rightarrow> ('s \<Rightarrow> nat \<Rightarrow> (int \<times> 's) option) \<Rightarrow>
   's \<Rightarrow> nat list \<Rightarrow> pool_op list \<Rightarrow> ((int \<times> nat option) list \<times> nat list \<times> 's) option" where
  "pool_run acquire release s held [] = Some ([], held, s)"
| "pool_run acquire release s held (op # ops) = do {
     (out, held, s) \<leftarrow> pool_exec acquire release s held op;
     (outs, held, s) \<leftarrow> pool_run acquire release s held ops;
     Some (out # outs, held, s)
   }"

text \<open>Every handle is either held or free, and only once.\<close>

definition conserved :: "nat \<Rightarrow> nat list \<Rightarrow> nat list \<Rightarrow> bool" where
  "conserved tot held free \<longleftrightarrow> distinct (held @ free) \<and> set (held @ free) = {..<tot}"

lemma mset_drop_nth:
  assumes "k < length xs"
  shows "add_mset (xs ! k) (mset (drop_nth k xs)) = mset xs"
proof -
  have "mset xs = mset (take k xs @ xs ! k # drop (Suc k) xs)" using id_take_nth_drop [OF assms] by simp
  then show ?thesis by (simp add: drop_nth_def)
qed

text \<open>Conservation only depends on the multiset of the handles.\<close>

lemma conserved_mset:
  "conserved tot held free \<longleftrightarrow> mset held + mset free = mset [0..<tot]"
proof
  assume "conserved tot held free"
  then have "distinct (held @ free)" and "set (held @ free) = set [0..<tot]"
    unfolding conserved_def by (simp_all only: set_upt lessThan_atLeast0)
  then have "mset (held @ free) = mset [0..<tot]"
    by (simp only: set_eq_iff_mset_eq_distinct distinct_upt)
  then show "mset held + mset free = mset [0..<tot]" by simp
next
  assume "mset held + mset free = mset [0..<tot]"
  then have m: "mset (held @ free) = mset [0..<tot]" by simp
  have "distinct (held @ free)" using mset_eq_imp_distinct_iff [OF m] by (simp only: distinct_upt)
  moreover have "set (held @ free) = {..<tot}" using mset_eq_setD [OF m] by (simp only: set_upt lessThan_atLeast0)
  ultimately show "conserved tot held free" by (simp add: conserved_def)
qed

lemma conserved_take: "conserved tot held (h # free) \<Longrightarrow> conserved tot (h # held) free"
  by (simp add: conserved_mset)

lemma conserved_give:
  assumes "conserved tot held free" and "k < length held"
  shows "conserved tot (drop_nth k held) (free @ [held ! k])"
    and "held ! k < tot" and "held ! k \<notin> set free"
proof -
  show "conserved tot (drop_nth k held) (free @ [held ! k])"
    using assms(1) by (simp add: conserved_mset mset_drop_nth [OF assms(2), symmetric])
  show "held ! k < tot" "held ! k \<notin> set free"
    using assms(1) nth_mem [OF assms(2)] unfolding conserved_def distinct_append set_append
    by blast+
qed

lemma conserved_length: "conserved tot held free \<Longrightarrow> length held + length free = tot"
  unfolding conserved_mset by (drule arg_cong [where f = size]) simp

text \<open>A free list that lacks one of the handles is not full.\<close>

lemma distinct_room:
  assumes "distinct xs" and "set xs \<subseteq> {..<n}" and "h < n" and "h \<notin> set xs"
  shows "length xs < n"
proof -
  have "set xs \<subseteq> {..<n} - {h}" using assms(2,4) by blast
  then have "card (set xs) \<le> card ({..<n} - {h})" by (intro card_mono) auto
  also have "\<dots> < n" using assms(3) by (simp add: card_Diff_singleton)
  finally show ?thesis using assms(1) by (simp add: distinct_card)
qed

locale handle_pool =
  fixes inv :: "'s \<Rightarrow> bool"
    and free :: "'s \<Rightarrow> nat list"
    and tot :: "'s \<Rightarrow> nat"
    and acquire :: "'s \<Rightarrow> (int \<times> nat option \<times> 's) option"
    and release :: "'s \<Rightarrow> nat \<Rightarrow> (int \<times> 's) option"
  assumes acquire_some: "inv s \<Longrightarrow> free s \<noteq> [] \<Longrightarrow>
      \<exists>h s'. acquire s = Some (TN_SUCCESS, Some h, s') \<and> inv s' \<and>
        mset (free s) = add_mset h (mset (free s')) \<and> tot s' = tot s"
    and acquire_none: "inv s \<Longrightarrow> free s = [] \<Longrightarrow> \<exists>rc. acquire s = Some (rc, None, s) \<and> rc \<noteq> 0"
    and release_ok: "inv s \<Longrightarrow> h < tot s \<Longrightarrow> h \<notin> set (free s) \<Longrightarrow>
      \<exists>s'. release s h = Some (TN_SUCCESS, s') \<and> inv s' \<and>
        mset (free s') = add_mset h (mset (free s)) \<and> tot s' = tot s"
begin

lemma exec_conserves:
  assumes "inv s" and "conserved (tot s) held (free s)"
  shows "\<exists>rc h held' s'. pool_exec acquire release s held op = Some ((rc, h), held', s') \<and> inv s' \<and>
    tot s' = tot s \<and> conserved (tot s) held' (free s') \<and>
    (op = Acquire \<longrightarrow> (rc = 0 \<longleftrightarrow> length held < tot s)) \<and>
    (op = Acquire \<and> rc = 0 \<longrightarrow> the h \<notin> set held)"
proof (cases op)
  case Acquire
  show ?thesis
  proof (cases "free s = []")
    case True
    then have "length held = tot s" using conserved_length [OF assms(2)] by simp
    then show ?thesis using acquire_none [OF assms(1) True] Acquire assms by auto
  next
    case False
    then obtain h s' where a: "acquire s = Some (TN_SUCCESS, Some h, s')" "inv s'"
        "mset (free s) = add_mset h (mset (free s'))" "tot s' = tot s"
      using acquire_some [OF assms(1)] by blast
    have l: "length held < tot s" using conserved_length [OF assms(2)] False by (cases "free s") auto
    have "h \<in> set (free s)" using arg_cong [OF a(3), of set_mset] by simp
    then have "h \<notin> set held" using assms(2) by (auto simp: conserved_def)
    then show ?thesis using a Acquire assms(2) l by (simp add: conserved_mset)
  qed
next
  case (Release k)
  show ?thesis
  proof (cases "k < length held")
    case True
    note give = conserved_give [OF assms(2) True]
    obtain s' where r: "release s (held ! k) = Some (TN_SUCCESS, s')" "inv s'"
        "mset (free s') = add_mset (held ! k) (mset (free s))" "tot s' = tot s"
      using release_ok [OF assms(1) give(2,3)] by blast
    then show ?thesis using Release True give(1) by (simp add: conserved_mset)
  next
    case False
    then show ?thesis using Release assms by simp
  qed
qed

lemma run_conserves:
  assumes "inv s" and "conserved (tot s) held (free s)"
  shows "\<exists>outs held' s'. pool_run acquire release s held ops = Some (outs, held', s') \<and> inv s' \<and>
    tot s' = tot s \<and> conserved (tot s) held' (free s')"
  using assms
proof (induction ops arbitrary: s held)
  case Nil
  then show ?case by simp
next
  case (Cons op ops)
  then obtain rc h held1 s1 where e: "pool_exec acquire release s held op = Some ((rc, h), held1, s1)"
      "inv s1" "tot s1 = tot s" "conserved (tot s) held1 (free s1)"
    using exec_conserves [of s held op] by blast
  then show ?case using Cons.IH [of s1 held1] by auto
qed

end

end
