(* ===== verification/Tn_Stack.thy ===== *)
theory Tn_Stack
  imports Tn_Prelude "HOL-Library.Multiset"
begin

text \<open>
  The contract of a bounded stack that also removes by index, moving its last item into the gap: what \<open>list_ptr.c\<close> and
  \<open>list_block.c\<close> both promise. The locale proves once that any sequence of calls gives the results of a list.
\<close>

section \<open>The abstract stack\<close>

datatype 'p stack_op = St_push 'p | St_pop | St_remove u64

text \<open>Removing an index out of range is not allowed.\<close>

fun stack_spec :: "nat \<Rightarrow> 'p list \<Rightarrow> 'p stack_op \<Rightarrow> (int \<times> 'p option) \<times> 'p list" where
  "stack_spec cap xs (St_push p) = (if length xs < cap then ((TN_SUCCESS, None), xs @ [p]) else ((TN_ERROR, None), xs))"
| "stack_spec cap xs St_pop = (if xs = [] then ((TN_ERROR, None), xs) else ((TN_SUCCESS, Some (last xs)), butlast xs))"
| "stack_spec cap xs (St_remove i) = ((TN_SUCCESS, None), butlast (xs[unat i := last xs]))"

fun op_allowed :: "('p \<Rightarrow> bool) \<Rightarrow> 'p list \<Rightarrow> 'p stack_op \<Rightarrow> bool" where
  "op_allowed item_ok xs (St_push p) = item_ok p"
| "op_allowed item_ok xs St_pop = True"
| "op_allowed item_ok xs (St_remove i) = (unat i < length xs)"

fun stack_spec_run :: "nat \<Rightarrow> 'p list \<Rightarrow> 'p stack_op list \<Rightarrow> (int \<times> 'p option) list" where
  "stack_spec_run cap xs [] = []"
| "stack_spec_run cap xs (op # ops) = fst (stack_spec cap xs op) # stack_spec_run cap (snd (stack_spec cap xs op)) ops"

fun ops_allowed :: "('p \<Rightarrow> bool) \<Rightarrow> nat \<Rightarrow> 'p list \<Rightarrow> 'p stack_op list \<Rightarrow> bool" where
  "ops_allowed item_ok cap xs [] = True"
| "ops_allowed item_ok cap xs (op # ops) = (op_allowed item_ok xs op \<and> ops_allowed item_ok cap (snd (stack_spec cap xs op)) ops)"

text \<open>The same calls on an implementation given by its operations.\<close>

fun stack_do ::
  "('s \<Rightarrow> 'p \<Rightarrow> (int \<times> 's) option) \<Rightarrow> ('s \<Rightarrow> (int \<times> 'p option \<times> 's) option) \<Rightarrow> ('s \<Rightarrow> u64 \<Rightarrow> (int \<times> 's) option) \<Rightarrow>
   's \<Rightarrow> 'p stack_op \<Rightarrow> ((int \<times> 'p option) \<times> 's) option" where
  "stack_do push pop_back remove s (St_push p) = do { (rc, s) \<leftarrow> push s p; Some ((rc, None), s) }"
| "stack_do push pop_back remove s St_pop = do { (rc, p, s) \<leftarrow> pop_back s; Some ((rc, p), s) }"
| "stack_do push pop_back remove s (St_remove i) = do { (rc, s) \<leftarrow> remove s i; Some ((rc, None), s) }"

fun stack_results :: "('s \<Rightarrow> 'p stack_op \<Rightarrow> ((int \<times> 'p option) \<times> 's) option) \<Rightarrow> 's \<Rightarrow> 'p stack_op list \<Rightarrow> (int \<times> 'p option) list option" where
  "stack_results exec s [] = Some []"
| "stack_results exec s (op # ops) = do { (out, s) \<leftarrow> exec s op; outs \<leftarrow> stack_results exec s ops; Some (out # outs) }"

text \<open>Moving the last item into a gap removes exactly the item that was there.\<close>

lemma swap_remove_mset:
  assumes "i < length xs"
  shows "add_mset (xs ! i) (mset (butlast (xs[i := last xs]))) = mset xs"
proof -
  let ?ys = "xs[i := last xs]"
  have ne: "?ys \<noteq> []" using assms by auto
  have "last ?ys = last xs" using assms ne by (auto simp: last_conv_nth nth_list_update)
  then have "mset ?ys = mset (butlast ?ys @ [last xs])" using append_butlast_last_id [OF ne] by metis
  then have "add_mset (last xs) (mset (butlast ?ys)) = add_mset (last xs) (mset xs - {#xs ! i#})"
    using mset_update [OF assms, of "last xs"] by simp
  then have "mset (butlast ?ys) = mset xs - {#xs ! i#}" by simp
  then show ?thesis using assms by (simp add: insert_DiffM)
qed

lemma ops_allowed_weaken: "ops_allowed ok cap xs ops \<Longrightarrow> ops_allowed (\<lambda>_. True) cap xs ops"
proof (induction ops arbitrary: xs)
  case (Cons op ops)
  then show ?case by (cases op) simp_all
qed simp

section \<open>The contract\<close>

locale bounded_stack =
  fixes inv :: "'s \<Rightarrow> bool"
    and elems :: "'s \<Rightarrow> 'p list"
    and cap :: "'s \<Rightarrow> nat"
    and item_ok :: "'p \<Rightarrow> bool"
    and push :: "'s \<Rightarrow> 'p \<Rightarrow> (int \<times> 's) option"
    and pop_back :: "'s \<Rightarrow> (int \<times> 'p option \<times> 's) option"
    and remove :: "'s \<Rightarrow> u64 \<Rightarrow> (int \<times> 's) option"
  assumes within_cap: "inv s \<Longrightarrow> length (elems s) \<le> cap s"
    and push_room: "inv s \<Longrightarrow> item_ok p \<Longrightarrow> length (elems s) < cap s \<Longrightarrow>
      \<exists>s'. push s p = Some (TN_SUCCESS, s') \<and> inv s' \<and> elems s' = elems s @ [p] \<and> cap s' = cap s"
    and push_full: "inv s \<Longrightarrow> item_ok p \<Longrightarrow> length (elems s) = cap s \<Longrightarrow> push s p = Some (TN_ERROR, s)"
    and pop_some: "inv s \<Longrightarrow> elems s = xs @ [x] \<Longrightarrow>
      \<exists>s'. pop_back s = Some (TN_SUCCESS, Some x, s') \<and> inv s' \<and> elems s' = xs \<and> cap s' = cap s"
    and pop_none: "inv s \<Longrightarrow> elems s = [] \<Longrightarrow> pop_back s = Some (TN_ERROR, None, s)"
    and remove_ok: "inv s \<Longrightarrow> unat i < length (elems s) \<Longrightarrow>
      \<exists>s'. remove s i = Some (TN_SUCCESS, s') \<and> inv s' \<and> elems s' = butlast ((elems s)[unat i := last (elems s)]) \<and> cap s' = cap s"
begin

lemma do_refines:
  assumes "inv s" and "op_allowed item_ok (elems s) op"
  shows "\<exists>s'. stack_do push pop_back remove s op = Some (fst (stack_spec (cap s) (elems s) op), s') \<and>
    inv s' \<and> elems s' = snd (stack_spec (cap s) (elems s) op) \<and> cap s' = cap s"
proof (cases op)
  case (St_push p)
  then have ok: "item_ok p" using assms(2) by simp
  show ?thesis
  proof (cases "length (elems s) < cap s")
    case True
    then show ?thesis using push_room [OF assms(1) ok True] St_push by auto
  next
    case False
    then have "length (elems s) = cap s" using within_cap [OF assms(1)] by simp
    then show ?thesis using push_full [OF assms(1) ok] assms(1) St_push by simp
  qed
next
  case St_pop
  then show ?thesis using assms(1) pop_some [OF assms(1)] pop_none [OF assms(1)]
    by (cases "elems s" rule: rev_cases) force+
next
  case (St_remove i)
  then show ?thesis using remove_ok [OF assms(1), of i] assms(2) by auto
qed

lemma results_refine:
  assumes "inv s" and "ops_allowed item_ok (cap s) (elems s) ops"
  shows "stack_results (stack_do push pop_back remove) s ops = Some (stack_spec_run (cap s) (elems s) ops)"
  using assms
proof (induction ops arbitrary: s)
  case (Cons op ops)
  obtain s' where "stack_do push pop_back remove s op = Some (fst (stack_spec (cap s) (elems s) op), s')" "inv s'"
      "elems s' = snd (stack_spec (cap s) (elems s) op)" "cap s' = cap s"
    using do_refines [OF Cons.prems(1)] Cons.prems(2) by auto
  then show ?case using Cons.IH [of s'] Cons.prems(2) by simp
qed simp

end

end
