(* ===== verification/Tn_List_Ptr.thy ===== *)
theory Tn_List_Ptr
  imports Tn_Handles Tn_Stack
begin

text \<open>
  The pointer array of \<open>src/list_ptr.c\<close>: a stack with a fixed capacity, used as the free list of
  the channels. Items are pointers of the client, so their type is a parameter; the data array
  is \<open>None\<close> when it is NULL.
\<close>

record 'p tn_list_ptr =
  lp_data :: "'p list option"
  lp_capacity :: u64
  lp_index :: u64

section \<open>Operations\<close>

text \<open>The allocation has \<open>capacity * sizeof(uintptr_t)\<close> bytes, computed modulo \<open>2 ^ 64\<close>.\<close>

definition tn_list_ptr_setup ::
  "bool \<Rightarrow> (nat \<Rightarrow> 'p) \<Rightarrow> u64 \<Rightarrow> int \<times> 'p tn_list_ptr" where
  "tn_list_ptr_setup ok junk capacity =
     (case tn_mem_acquire ok junk (unat (capacity * 8) div 8) of
        None \<Rightarrow> (TN_ERROR, \<lparr>lp_data = None, lp_capacity = capacity, lp_index = 0\<rparr>)
      | Some xs \<Rightarrow> (TN_SUCCESS, \<lparr>lp_data = Some xs, lp_capacity = capacity, lp_index = 0\<rparr>))"

text \<open>The pointer is not reset; the array behind it has no elements any more.\<close>

definition tn_list_ptr_cleanup :: "'p tn_list_ptr \<Rightarrow> 'p tn_list_ptr" where
  "tn_list_ptr_cleanup l = l\<lparr>lp_data := map_option (\<lambda>_. []) (lp_data l)\<rparr>"

definition tn_list_ptr_push_back :: "'p tn_list_ptr \<Rightarrow> 'p \<Rightarrow> (int \<times> 'p tn_list_ptr) option" where
  "tn_list_ptr_push_back l item = do {
     xs \<leftarrow> lp_data l;
     if lp_index l \<ge> lp_capacity l then Some (TN_ERROR, l)
     else do {
       xs \<leftarrow> arr_set xs (unat (lp_index l)) item;
       Some (TN_SUCCESS, l\<lparr>lp_data := Some xs, lp_index := lp_index l + 1\<rparr>)
     }
   }"

definition tn_list_ptr_pop_back :: "'p tn_list_ptr \<Rightarrow> (int \<times> 'p option \<times> 'p tn_list_ptr) option" where
  "tn_list_ptr_pop_back l = do {
     xs \<leftarrow> lp_data l;
     if lp_index l = 0 then Some (TN_ERROR, None, l)
     else do {
       let l = l\<lparr>lp_index := lp_index l - 1\<rparr>;
       item \<leftarrow> arr_get xs (unat (lp_index l));
       Some (TN_SUCCESS, Some item, l)
     }
   }"

definition tn_list_ptr_count :: "'p tn_list_ptr \<Rightarrow> u64" where
  "tn_list_ptr_count l = lp_index l"

definition tn_list_ptr_clear :: "'p tn_list_ptr \<Rightarrow> 'p tn_list_ptr" where
  "tn_list_ptr_clear l = l\<lparr>lp_index := 0\<rparr>"

definition tn_list_ptr_get :: "'p tn_list_ptr \<Rightarrow> u64 \<Rightarrow> 'p option" where
  "tn_list_ptr_get l index = do { xs \<leftarrow> lp_data l; arr_get xs (unat index) }"

definition tn_list_ptr_swap :: "'p tn_list_ptr \<Rightarrow> u64 \<Rightarrow> u64 \<Rightarrow> 'p tn_list_ptr option" where
  "tn_list_ptr_swap l index1 index2 = do {
     xs \<leftarrow> lp_data l;
     tmp \<leftarrow> arr_get xs (unat index1);
     v \<leftarrow> arr_get xs (unat index2);
     xs \<leftarrow> arr_set xs (unat index1) v;
     xs \<leftarrow> arr_set xs (unat index2) tmp;
     Some (l\<lparr>lp_data := Some xs\<rparr>)
   }"

definition tn_list_ptr_remove :: "'p tn_list_ptr \<Rightarrow> u64 \<Rightarrow> (int \<times> 'p tn_list_ptr) option" where
  "tn_list_ptr_remove l index =
     (if lp_index l = 0 then Some (TN_ERROR, l)
      else do {
        let l = l\<lparr>lp_index := lp_index l - 1\<rparr>;
        xs \<leftarrow> lp_data l;
        v \<leftarrow> arr_get xs (unat (lp_index l));
        xs \<leftarrow> arr_set xs (unat index) v;
        Some (TN_SUCCESS, l\<lparr>lp_data := Some xs\<rparr>)
      })"

section \<open>Invariant and content\<close>

definition lp_inv :: "'p tn_list_ptr \<Rightarrow> bool" where
  "lp_inv l \<longleftrightarrow> (\<exists>xs. lp_data l = Some xs \<and> length xs = unat (lp_capacity l)) \<and>
     unat (lp_index l) \<le> unat (lp_capacity l)"

definition lp_elems :: "'p tn_list_ptr \<Rightarrow> 'p list" where
  "lp_elems l = (case lp_data l of None \<Rightarrow> [] | Some xs \<Rightarrow> take (unat (lp_index l)) xs)"

abbreviation lp_cap :: "'p tn_list_ptr \<Rightarrow> nat" where
  "lp_cap l \<equiv> unat (lp_capacity l)"

lemma lp_length: "lp_inv l \<Longrightarrow> length (lp_elems l) = unat (lp_index l)"
  by (auto simp: lp_inv_def lp_elems_def)

lemma lp_setup_ok:
  assumes "unat c < 2 ^ 61"
  shows "\<exists>l. tn_list_ptr_setup True junk c = (TN_SUCCESS, l) \<and> lp_inv l \<and> lp_elems l = [] \<and> lp_cap l = unat c"
proof -
  have "unat (c * 8) = unat c * 8" using assms by (subst unat_mult64) simp_all
  then have "unat (c * 8) div 8 = unat c" by simp
  then show ?thesis by (simp add: tn_list_ptr_setup_def lp_inv_def lp_elems_def)
qed

lemma lp_push_ok:
  assumes "lp_inv l" and "length (lp_elems l) < lp_cap l"
  shows "\<exists>l'. tn_list_ptr_push_back l p = Some (TN_SUCCESS, l') \<and> lp_inv l' \<and>
    lp_elems l' = lp_elems l @ [p] \<and> lp_cap l' = lp_cap l"
proof -
  obtain xs where xs: "lp_data l = Some xs" "length xs = lp_cap l" using assms(1) by (auto simp: lp_inv_def)
  have i: "unat (lp_index l) < lp_cap l" using assms by (simp add: lp_length)
  then have s: "unat (lp_index l + 1) = Suc (unat (lp_index l))"
    using unat_lt64 [of "lp_capacity l"] by (subst unat_add64) simp_all
  have "\<not> lp_index l \<ge> lp_capacity l" using i by (simp add: word_le_nat_alt)
  then show ?thesis using xs i s
    by (simp add: tn_list_ptr_push_back_def lp_inv_def lp_elems_def take_Suc_conv_app_nth)
qed

lemma lp_push_full:
  assumes "lp_inv l" and "length (lp_elems l) = lp_cap l"
  shows "tn_list_ptr_push_back l p = Some (TN_ERROR, l)"
  using assms by (auto simp: lp_inv_def tn_list_ptr_push_back_def word_le_nat_alt lp_length [OF assms(1)])

lemma lp_pop_ok:
  assumes "lp_inv l" and "lp_elems l = xs @ [p]"
  shows "\<exists>l'. tn_list_ptr_pop_back l = Some (TN_SUCCESS, Some p, l') \<and> lp_inv l' \<and> lp_elems l' = xs \<and>
    lp_cap l' = lp_cap l"
proof -
  obtain ys where ys: "lp_data l = Some ys" "length ys = lp_cap l" "unat (lp_index l) \<le> lp_cap l"
    using assms(1) by (auto simp: lp_inv_def)
  have n: "unat (lp_index l) = Suc (length xs)" using lp_length [OF assms(1)] assms(2) by simp
  then have nz: "lp_index l \<noteq> 0" by auto
  then have s: "unat (lp_index l - 1) = length xs" using n by (simp add: unat_minus_one)
  have t: "take (Suc (length xs)) ys = xs @ [p]" using assms(2) ys(1) n by (simp add: lp_elems_def)
  have l: "length xs < length ys" using ys(2,3) n by simp
  then have "take (length xs) ys @ [ys ! length xs] = xs @ [p]" using t by (simp add: take_Suc_conv_app_nth)
  then have "take (length xs) ys = xs" "ys ! length xs = p" by simp_all
  then show ?thesis using ys nz s l by (simp add: tn_list_ptr_pop_back_def lp_inv_def lp_elems_def Let_def)
qed

lemma lp_pop_empty:
  assumes "lp_inv l" and "lp_elems l = []"
  shows "tn_list_ptr_pop_back l = Some (TN_ERROR, None, l)"
proof -
  have "lp_index l = 0" using lp_length [OF assms(1)] assms(2) by (simp add: unat_eq_zero)
  then show ?thesis using assms(1) by (auto simp: tn_list_ptr_pop_back_def lp_inv_def)
qed

lemma lp_remove_ok:
  assumes "lp_inv l" and "unat i < length (lp_elems l)"
  shows "\<exists>l'. tn_list_ptr_remove l i = Some (TN_SUCCESS, l') \<and> lp_inv l' \<and>
    lp_elems l' = butlast ((lp_elems l)[unat i := last (lp_elems l)]) \<and> lp_cap l' = lp_cap l"
proof -
  obtain xs where xs: "lp_data l = Some xs" "length xs = lp_cap l" "unat (lp_index l) \<le> lp_cap l"
    using assms(1) by (auto simp: lp_inv_def)
  let ?n = "unat (lp_index l)"
  have i: "unat i < ?n" using assms(2) lp_length [OF assms(1)] by simp
  then have nz: "lp_index l \<noteq> 0" by auto
  then have s: "unat (lp_index l - 1) = ?n - 1" by (simp add: unat_minus_one)
  have e: "lp_elems l = take ?n xs" using xs(1) by (simp add: lp_elems_def)
  have last: "last (take ?n xs) = xs ! (?n - 1)" using i xs by (subst last_conv_nth) auto
  let ?l = "l\<lparr>lp_index := lp_index l - 1, lp_data := Some (xs[unat i := xs ! (?n - 1)])\<rparr>"
  have "tn_list_ptr_remove l i = Some (TN_SUCCESS, ?l)" using nz s i xs by (simp add: tn_list_ptr_remove_def Let_def)
  moreover have "lp_inv ?l" using xs s by (simp add: lp_inv_def)
  moreover have "lp_elems ?l = butlast ((lp_elems l)[unat i := last (lp_elems l)])"
    using xs i s by (simp add: e last) (simp add: lp_elems_def take_update_swap butlast_conv_take)
  ultimately show ?thesis by force
qed

interpretation lp: bounded_stack lp_inv lp_elems lp_cap "\<lambda>_. True" tn_list_ptr_push_back tn_list_ptr_pop_back tn_list_ptr_remove
proof (unfold_locales, goal_cases)
  case (1 l)
  then show ?case by (auto simp: lp_length lp_inv_def)
next
  case (2 l p)
  then show ?case by (intro lp_push_ok)
next
  case (3 l p)
  then show ?case by (intro lp_push_full)
next
  case (4 l xs x)
  then show ?case by (intro lp_pop_ok)
next
  case (5 l)
  then show ?case by (intro lp_pop_empty)
next
  case (6 l i)
  then show ?case by (intro lp_remove_ok)
qed

section \<open>Properties\<close>

text \<open>Removing by index replaces the item by the last one: exactly that item disappears, the order of the
  others apart from the moved one is kept, and the array shrinks by one.\<close>

theorem list_remove_swaps_last:
  assumes "lp_inv l" and "unat i < length (lp_elems l)"
  shows "\<exists>l'. tn_list_ptr_remove l i = Some (TN_SUCCESS, l') \<and> lp_inv l' \<and>
    lp_elems l' = butlast ((lp_elems l)[unat i := last (lp_elems l)]) \<and>
    add_mset (lp_elems l ! unat i) (mset (lp_elems l')) = mset (lp_elems l)"
  using lp_remove_ok [OF assms] swap_remove_mset [OF assms(2)] by auto

theorem list_remove_swaps_last_witness:
  "\<exists>l'. tn_list_ptr_remove \<lparr>lp_data = Some [4, 5, 6, 0 :: nat], lp_capacity = 4, lp_index = 3\<rparr> 0 =
     Some (TN_SUCCESS, l') \<and> lp_elems l' = [6, 5]"
proof -
  let ?l = "\<lparr>lp_data = Some [4, 5, 6, 0 :: nat], lp_capacity = 4, lp_index = 3\<rparr>"
  have "lp_inv ?l" and "unat (0 :: u64) < length (lp_elems ?l)"
    by (simp_all add: lp_inv_def lp_elems_def)
  from list_remove_swaps_last [OF this] show ?thesis by (auto simp: lp_elems_def)
qed

end
