(* ===== verification/Tn_Fifo.thy ===== *)
theory Tn_Fifo
  imports Tn_Prelude
begin

text \<open>
  What the clients of a queue rely on: the abstract bounded FIFO as a list with a capacity, and
  the contract of a queue implementation as two locales. \<open>bounded_fifo\<close> has insertion and
  removal; \<open>peekable_fifo\<close> adds the two-phase removal (\<open>peek\<close>, then \<open>pop\<close> or
  \<open>pop_cached\<close>). The locales prove once that any sequence of calls gives the results of the
  list, and that a loop inserting a list of pointers succeeds when there is room.
\<close>

section \<open>The abstract bounded FIFO\<close>

datatype 'p fifo_op = Op_push 'p | Op_pop_back | Op_peek | Op_pop

fun fifo_spec :: "nat \<Rightarrow> 'p list \<Rightarrow> 'p fifo_op \<Rightarrow> (int \<times> 'p option) \<times> 'p list" where
  "fifo_spec cap xs (Op_push p) =
     (if length xs < cap then ((TN_SUCCESS, None), xs @ [p]) else ((TN_QUEUE_FULL, None), xs))"
| "fifo_spec cap [] _ = ((TN_QUEUE_EMPTY, None), [])"
| "fifo_spec cap (x # xs) Op_pop_back = ((TN_SUCCESS, Some x), xs)"
| "fifo_spec cap (x # xs) Op_peek = ((TN_SUCCESS, Some x), x # xs)"
| "fifo_spec cap (x # xs) Op_pop = ((TN_SUCCESS, None), xs)"

fun fifo_spec_run ::
  "nat \<Rightarrow> 'p list \<Rightarrow> 'p fifo_op list \<Rightarrow> (int \<times> 'p option) list \<times> 'p list" where
  "fifo_spec_run cap xs [] = ([], xs)"
| "fifo_spec_run cap xs (op # ops) =
     (let (out, ys) = fifo_spec cap xs op; (outs, zs) = fifo_spec_run cap ys ops
      in (out # outs, zs))"

text \<open>The same calls on an implementation given by its operations.\<close>

fun fifo_exec ::
  "('q \<Rightarrow> 'p \<Rightarrow> (int \<times> 'q) option) \<Rightarrow> ('q \<Rightarrow> (int \<times> 'p option \<times> 'q) option) \<Rightarrow>
   ('q \<Rightarrow> (int \<times> 'p option \<times> 'q) option) \<Rightarrow> ('q \<Rightarrow> int \<times> 'q) \<Rightarrow>
   'q \<Rightarrow> 'p fifo_op \<Rightarrow> ((int \<times> 'p option) \<times> 'q) option" where
  "fifo_exec push pop_back peek pop q (Op_push p) = do { (rc, q) \<leftarrow> push q p; Some ((rc, None), q) }"
| "fifo_exec push pop_back peek pop q Op_pop_back =
     do { (rc, p, q) \<leftarrow> pop_back q; Some ((rc, p), q) }"
| "fifo_exec push pop_back peek pop q Op_peek = do { (rc, p, q) \<leftarrow> peek q; Some ((rc, p), q) }"
| "fifo_exec push pop_back peek pop q Op_pop = (case pop q of (rc, q) \<Rightarrow> Some ((rc, None), q))"

fun fifo_run ::
  "('q \<Rightarrow> 'p fifo_op \<Rightarrow> ((int \<times> 'p option) \<times> 'q) option) \<Rightarrow>
   'q \<Rightarrow> 'p fifo_op list \<Rightarrow> ((int \<times> 'p option) list \<times> 'q) option" where
  "fifo_run exec q [] = Some ([], q)"
| "fifo_run exec q (op # ops) = do {
     (out, q) \<leftarrow> exec q op;
     (outs, q) \<leftarrow> fifo_run exec q ops;
     Some (out # outs, q)
   }"

text \<open>A loop that inserts the pointers of a list and stops at the first failure.\<close>

fun push_all ::
  "('q \<Rightarrow> 'p \<Rightarrow> (int \<times> 'q) option) \<Rightarrow> 'q \<Rightarrow> 'p list \<Rightarrow> (int \<times> 'q) option" where
  "push_all push q [] = Some (TN_SUCCESS, q)"
| "push_all push q (p # ps) = do {
     (rc, q) \<leftarrow> push q p;
     if rc \<noteq> 0 then Some (TN_ERROR, q) else push_all push q ps
   }"

section \<open>Contracts\<close>

locale bounded_fifo =
  fixes inv :: "'q \<Rightarrow> bool"
    and elems :: "'q \<Rightarrow> 'p list"
    and cap :: "'q \<Rightarrow> nat"
    and push :: "'q \<Rightarrow> 'p \<Rightarrow> (int \<times> 'q) option"
    and pop_back :: "'q \<Rightarrow> (int \<times> 'p option \<times> 'q) option"
  assumes within_cap: "inv q \<Longrightarrow> length (elems q) \<le> cap q"
    and push_room: "inv q \<Longrightarrow> length (elems q) < cap q \<Longrightarrow>
      \<exists>q'. push q p = Some (TN_SUCCESS, q') \<and> inv q' \<and> elems q' = elems q @ [p] \<and> cap q' = cap q"
    and push_full: "inv q \<Longrightarrow> length (elems q) = cap q \<Longrightarrow> push q p = Some (TN_QUEUE_FULL, q)"
    and pop_back_some: "inv q \<Longrightarrow> elems q = x # xs \<Longrightarrow>
      \<exists>q'. pop_back q = Some (TN_SUCCESS, Some x, q') \<and> inv q' \<and> elems q' = xs \<and> cap q' = cap q"
    and pop_back_none: "inv q \<Longrightarrow> elems q = [] \<Longrightarrow> pop_back q = Some (TN_QUEUE_EMPTY, None, q)"
begin

lemma push_all_room:
  assumes "inv q" and "length (elems q) + length ps \<le> cap q"
  shows "\<exists>q'. push_all push q ps = Some (TN_SUCCESS, q') \<and> inv q' \<and>
    elems q' = elems q @ ps \<and> cap q' = cap q"
  using assms
proof (induction ps arbitrary: q)
  case Nil
  then show ?case by simp
next
  case (Cons p ps)
  then obtain q1 where q1: "push q p = Some (TN_SUCCESS, q1)" "inv q1"
    "elems q1 = elems q @ [p]" "cap q1 = cap q"
    using push_room [of q p] by auto
  then have "length (elems q1) + length ps \<le> cap q1" using Cons.prems by simp
  from Cons.IH [OF q1(2) this] q1 show ?case by auto
qed

end

locale peekable_fifo = bounded_fifo inv elems cap push pop_back
  for inv :: "'q \<Rightarrow> bool"
    and elems :: "'q \<Rightarrow> 'p list"
    and cap :: "'q \<Rightarrow> nat"
    and push :: "'q \<Rightarrow> 'p \<Rightarrow> (int \<times> 'q) option"
    and pop_back :: "'q \<Rightarrow> (int \<times> 'p option \<times> 'q) option" +
  fixes peek :: "'q \<Rightarrow> (int \<times> 'p option \<times> 'q) option"
    and pop :: "'q \<Rightarrow> int \<times> 'q"
    and pop_cached :: "'q \<Rightarrow> 'q"
    and peeked :: "'q \<Rightarrow> bool"
  assumes peek_some: "inv q \<Longrightarrow> elems q = x # xs \<Longrightarrow>
      \<exists>q'. peek q = Some (TN_SUCCESS, Some x, q') \<and> inv q' \<and> elems q' = elems q \<and>
        cap q' = cap q \<and> peeked q'"
    and peek_none: "inv q \<Longrightarrow> elems q = [] \<Longrightarrow> peek q = Some (TN_QUEUE_EMPTY, None, q)"
    and pop_some: "inv q \<Longrightarrow> elems q = x # xs \<Longrightarrow>
      \<exists>q'. pop q = (TN_SUCCESS, q') \<and> inv q' \<and> elems q' = xs \<and> cap q' = cap q"
    and pop_none: "inv q \<Longrightarrow> elems q = [] \<Longrightarrow> pop q = (TN_QUEUE_EMPTY, q)"
    and pop_cached_some: "inv q \<Longrightarrow> peeked q \<Longrightarrow> elems q = x # xs \<Longrightarrow>
      inv (pop_cached q) \<and> elems (pop_cached q) = xs \<and> cap (pop_cached q) = cap q"
begin

lemma exec_refines:
  assumes "inv q"
  shows "\<exists>q'. fifo_exec push pop_back peek pop q op = Some (fst (fifo_spec (cap q) (elems q) op), q') \<and>
    inv q' \<and> elems q' = snd (fifo_spec (cap q) (elems q) op) \<and> cap q' = cap q"
proof (cases op)
  case (Op_push p)
  show ?thesis
  proof (cases "length (elems q) < cap q")
    case True
    then show ?thesis using push_room [OF assms True, of p] Op_push by auto
  next
    case False
    then have "length (elems q) = cap q" using within_cap [OF assms] by simp
    then show ?thesis using push_full [OF assms, of p] assms Op_push by simp
  qed
next
  case Op_pop_back
  then show ?thesis using assms pop_back_some [OF assms] pop_back_none [OF assms]
    by (cases "elems q") force+
next
  case Op_peek
  then show ?thesis using assms peek_some [OF assms] peek_none [OF assms]
    by (cases "elems q") force+
next
  case Op_pop
  then show ?thesis using assms pop_some [OF assms] pop_none [OF assms]
    by (cases "elems q") force+
qed

lemma run_refines:
  assumes "inv q"
  shows "\<exists>q'. fifo_run (fifo_exec push pop_back peek pop) q ops =
      Some (fst (fifo_spec_run (cap q) (elems q) ops), q') \<and>
    inv q' \<and> elems q' = snd (fifo_spec_run (cap q) (elems q) ops) \<and> cap q' = cap q"
  using assms
proof (induction ops arbitrary: q)
  case Nil
  then show ?case by simp
next
  case (Cons op ops)
  obtain out ys where spec: "fifo_spec (cap q) (elems q) op = (out, ys)" by fastforce
  obtain q1 where q1: "fifo_exec push pop_back peek pop q op = Some (out, q1)" "inv q1"
    "elems q1 = ys" "cap q1 = cap q"
    using exec_refines [OF Cons.prems, of op] spec by auto
  obtain outs zs where run: "fifo_spec_run (cap q) ys ops = (outs, zs)" by fastforce
  show ?case using Cons.IH [OF q1(2)] q1 spec run by auto
qed

end

end
