(* ===== verification/Tn_Queue.thy ===== *)
theory Tn_Queue
  imports Tn_Fifo
begin

text \<open>
  The single-producer single-consumer ring queue of \<open>src/queue_spsc.c\<close>: its struct, every
  operation, the rounding of the capacity to a power of two, and the proof that the ring
  implements a bounded FIFO. The contract is stated as the locales \<open>bounded_fifo\<close> and
  \<open>peekable_fifo\<close>, which the buffer pool, the event list and the service use.

  Here each operation runs to completion before the next one starts; the interleaving of a
  producer and a consumer thread is the subject of \<open>Tn_Queue_Conc\<close>. Elements are pointers of
  the client; the queue never looks at them, so their type is a parameter.
\<close>

section \<open>The queue\<close>

record 'p tn_queue_spsc =
  q_capacity :: u64
  q_mask :: u64
  q_buffer :: "'p list"
  q_head :: u64
  q_tail :: u64
  q_tail_cache :: u64

text \<open>The bit-smearing of \<open>tn_queue_spsc_setup\<close>: the capacity rounded up to a power of two.\<close>

definition smear_step :: "nat \<Rightarrow> u64 \<Rightarrow> u64" where
  "smear_step n c = c OR drop_bit n c"

definition round_capacity :: "u64 \<Rightarrow> u64" where
  "round_capacity capacity =
     (if capacity AND (capacity - 1) \<noteq> 0 then
        let c0 = capacity - 1;
            c1 = smear_step 1 c0;
            c2 = smear_step 2 c1;
            c3 = smear_step 4 c2;
            c4 = smear_step 8 c3;
            c5 = smear_step 16 c4;
            c6 = smear_step 32 c5
        in c6 + 1
      else capacity)"

text \<open>
  The array has \<open>sizeof(uintptr_t) * (1 + capacity)\<close> bytes, computed modulo \<open>2 ^ 64\<close>; as many
  elements as fit into them can be accessed.
\<close>

definition tn_queue_spsc_setup ::
  "bool \<Rightarrow> (nat \<Rightarrow> 'p) \<Rightarrow> 'p tn_queue_spsc \<Rightarrow> u64 \<Rightarrow> (int \<times> 'p tn_queue_spsc) option" where
  "tn_queue_spsc_setup ok junk q capacity = do {
     tn_assert (0 < capacity);
     let capacity = round_capacity capacity;
     tn_assert (capacity AND (capacity - 1) = 0);
     (case tn_mem_acquire ok junk (unat (8 * (1 + capacity)) div 8) of
        None \<Rightarrow> Some (TN_ERROR, q\<lparr>q_buffer := []\<rparr>)
      | Some buffer \<Rightarrow>
          Some (TN_SUCCESS, q\<lparr>q_buffer := buffer, q_head := 0, q_tail := 0, q_tail_cache := 0,
                              q_capacity := capacity, q_mask := capacity - 1\<rparr>))
   }"

definition tn_queue_spsc_cleanup :: "'p tn_queue_spsc \<Rightarrow> 'p tn_queue_spsc" where
  "tn_queue_spsc_cleanup q = q\<lparr>q_buffer := []\<rparr>"

definition tn_queue_spsc_count :: "'p tn_queue_spsc \<Rightarrow> u64" where
  "tn_queue_spsc_count q = q_head q - q_tail q"

definition tn_queue_spsc_capacity :: "'p tn_queue_spsc \<Rightarrow> u64" where
  "tn_queue_spsc_capacity q = q_capacity q"

definition tn_queue_spsc_empty :: "'p tn_queue_spsc \<Rightarrow> bool" where
  "tn_queue_spsc_empty q \<longleftrightarrow> tn_queue_spsc_count q = 0"

definition tn_queue_spsc_full :: "'p tn_queue_spsc \<Rightarrow> bool" where
  "tn_queue_spsc_full q \<longleftrightarrow> tn_queue_spsc_count q = q_capacity q"

definition tn_queue_spsc_push ::
  "'p tn_queue_spsc \<Rightarrow> 'p \<Rightarrow> (int \<times> 'p tn_queue_spsc) option" where
  "tn_queue_spsc_push q ptr =
     (let head = q_head q; tail = q_tail q; size = head - tail in
      if size = q_capacity q then Some (TN_QUEUE_FULL, q)
      else do {
        buffer \<leftarrow> arr_set (q_buffer q) (unat (head AND q_mask q)) ptr;
        Some (TN_SUCCESS, q\<lparr>q_buffer := buffer, q_head := head + 1\<rparr>)
      })"

definition tn_queue_spsc_peek ::
  "'p tn_queue_spsc \<Rightarrow> (int \<times> 'p option \<times> 'p tn_queue_spsc) option" where
  "tn_queue_spsc_peek q =
     (let tail = q_tail q; head = q_head q in
      if head = tail then Some (TN_QUEUE_EMPTY, None, q)
      else do {
        ptr \<leftarrow> arr_get (q_buffer q) (unat (tail AND q_mask q));
        Some (TN_SUCCESS, Some ptr, q\<lparr>q_tail_cache := tail\<rparr>)
      })"

definition tn_queue_spsc_pop :: "'p tn_queue_spsc \<Rightarrow> int \<times> 'p tn_queue_spsc" where
  "tn_queue_spsc_pop q =
     (let tail = q_tail q; head = q_head q in
      if head = tail then (TN_QUEUE_EMPTY, q)
      else (TN_SUCCESS, q\<lparr>q_tail := tail + 1\<rparr>))"

definition tn_queue_spsc_pop_cached :: "'p tn_queue_spsc \<Rightarrow> 'p tn_queue_spsc" where
  "tn_queue_spsc_pop_cached q = q\<lparr>q_tail := q_tail_cache q + 1\<rparr>"

definition tn_queue_spsc_pop_back ::
  "'p tn_queue_spsc \<Rightarrow> (int \<times> 'p option \<times> 'p tn_queue_spsc) option" where
  "tn_queue_spsc_pop_back q =
     (let tail = q_tail q; head = q_head q in
      if head = tail then Some (TN_QUEUE_EMPTY, None, q)
      else do {
        ptr \<leftarrow> arr_get (q_buffer q) (unat (tail AND q_mask q));
        Some (TN_SUCCESS, Some ptr, q\<lparr>q_tail := tail + 1\<rparr>)
      })"

text \<open>
  The copy loop of \<open>tn_queue_spsc_pop_all\<close>; the third argument counts the iterations that
  are left. \<open>out\<close> is the caller's array.
\<close>

fun pop_all_loop ::
  "'p tn_queue_spsc \<Rightarrow> u64 \<Rightarrow> nat \<Rightarrow> 'p list \<Rightarrow> 'p list option" where
  "pop_all_loop q off 0 out = Some out"
| "pop_all_loop q off (Suc n) out = do {
     ptr \<leftarrow> arr_get (q_buffer q) (unat ((q_tail q + off) AND q_mask q));
     out \<leftarrow> arr_set out (unat off) ptr;
     pop_all_loop q (off + 1) n out
   }"

definition tn_queue_spsc_pop_all ::
  "'p tn_queue_spsc \<Rightarrow> 'p list \<Rightarrow> u64 \<Rightarrow> (int \<times> 'p list \<times> u64 \<times> 'p tn_queue_spsc) option" where
  "tn_queue_spsc_pop_all q out out_count = do {
     tn_assert (0 < out_count);
     let size = q_head q - q_tail q;
     if size = 0 then Some (TN_QUEUE_EMPTY, out, out_count, q)
     else do {
       let out_count = (if size < out_count then size else out_count);
       out \<leftarrow> pop_all_loop q 0 (unat out_count) out;
       Some (TN_SUCCESS, out, out_count, q\<lparr>q_tail := q_tail q + out_count\<rparr>)
     }
   }"

section \<open>Well-formed queues and their content\<close>

text \<open>
  The bound on the exponent keeps the byte size of the array, \<open>8 * (1 + capacity)\<close>, below
  \<open>2 ^ 64\<close>.
\<close>

definition q_inv :: "'p tn_queue_spsc \<Rightarrow> bool" where
  "q_inv q \<longleftrightarrow>
     (\<exists>k \<le> 60. q_capacity q = 2 ^ k) \<and>
     q_mask q = q_capacity q - 1 \<and>
     length (q_buffer q) = Suc (unat (q_capacity q)) \<and>
     unat (q_head q - q_tail q) \<le> unat (q_capacity q)"

definition q_slot :: "'p tn_queue_spsc \<Rightarrow> nat \<Rightarrow> nat" where
  "q_slot q i = unat ((q_tail q + of_nat i) AND q_mask q)"

definition q_elems :: "'p tn_queue_spsc \<Rightarrow> 'p list" where
  "q_elems q = map (\<lambda>i. q_buffer q ! q_slot q i) [0..<unat (q_head q - q_tail q)]"

definition q_cap :: "'p tn_queue_spsc \<Rightarrow> nat" where
  "q_cap q = unat (q_capacity q)"

lemma length_q_elems [simp]: "length (q_elems q) = unat (q_head q - q_tail q)"
  by (simp add: q_elems_def)

lemma q_invE:
  assumes "q_inv q"
  obtains k where "k \<le> 60" "q_capacity q = 2 ^ k" "q_mask q = 2 ^ k - 1" "q_cap q = 2 ^ k"
    "length (q_buffer q) = Suc (2 ^ k)" "unat (q_head q - q_tail q) \<le> 2 ^ k"
proof -
  obtain k where k: "k \<le> 60" "q_capacity q = 2 ^ k" using assms by (auto simp: q_inv_def)
  then have "unat (q_capacity q) = 2 ^ k" by (simp only: unat_pow2_64)
  then show thesis using assms k by (intro that [of k]) (auto simp: q_inv_def q_cap_def)
qed

lemma q_slot_mod:
  assumes "q_mask q = 2 ^ k - 1" and "k \<le> 60"
  shows "q_slot q i = (unat (q_tail q) + i) mod 2 ^ k"
proof -
  have "q_slot q i = unat (q_tail q + of_nat i) mod 2 ^ k"
    unfolding q_slot_def assms(1) by (rule unat_and_pow2_mask)
  then show ?thesis using assms(2) unat_add_mod_pow2 [of k] by simp
qed

lemma q_slot_less: "q_inv q \<Longrightarrow> q_slot q i < q_cap q"
  by (erule q_invE) (simp add: q_slot_mod)

lemma q_slot_in_buffer: "q_inv q \<Longrightarrow> q_slot q i < length (q_buffer q)"
  using q_slot_less [of q i] by (auto simp: q_inv_def q_cap_def)

lemma q_slot_inj: "q_inv q \<Longrightarrow> q_slot q i = q_slot q j \<Longrightarrow> i < q_cap q \<Longrightarrow> j < q_cap q \<Longrightarrow> i = j"
  by (erule q_invE) (auto simp: q_slot_mod intro: ring_slot_inj)

lemma q_slot_head: "unat (q_head q AND q_mask q) = q_slot q (unat (q_head q - q_tail q))"
  by (simp add: q_slot_def)

lemma q_slot_tail: "unat (q_tail q AND q_mask q) = q_slot q 0"
  by (simp add: q_slot_def)

lemma q_elems_nth: "i < length (q_elems q) \<Longrightarrow> q_elems q ! i = q_buffer q ! q_slot q i"
  by (simp add: q_elems_def)

lemma q_count_not_max: "q_inv q \<Longrightarrow> unat (q_head q - q_tail q) < 2 ^ 64 - 1"
proof (erule q_invE)
  fix k :: nat
  assume k: "k \<le> 60" and le: "unat (q_head q - q_tail q) \<le> 2 ^ k"
  have "(2::nat) ^ k \<le> 2 ^ 60" using k by (rule power_increasing) simp
  then show ?thesis using le by simp
qed

lemma q_full_iff: "q_inv q \<Longrightarrow> q_head q - q_tail q = q_capacity q \<longleftrightarrow> length (q_elems q) = q_cap q"
  by (simp add: q_cap_def word_unat_eq_iff)

lemma q_empty_iff: "q_head q = q_tail q \<longleftrightarrow> q_elems q = []"
proof -
  have "q_elems q = [] \<longleftrightarrow> unat (q_head q - q_tail q) = 0"
    by (simp only: length_0_conv [symmetric] length_q_elems)
  also have "\<dots> \<longleftrightarrow> q_head q - q_tail q = 0" by (rule unat_eq_zero)
  finally show ?thesis by simp
qed

section \<open>Effect of the operations on the content\<close>

lemma q_push_full:
  "q_inv q \<Longrightarrow> length (q_elems q) = q_cap q \<Longrightarrow>
   tn_queue_spsc_push q p = Some (TN_QUEUE_FULL, q)"
  by (simp add: tn_queue_spsc_push_def q_full_iff)

lemma q_push_ok:
  assumes inv: "q_inv q" and room: "length (q_elems q) < q_cap q"
  obtains q' where "tn_queue_spsc_push q p = Some (TN_SUCCESS, q')" "q_inv q'"
    "q_elems q' = q_elems q @ [p]" "q_cap q' = q_cap q"
    "q_tail q' = q_tail q" "q_tail_cache q' = q_tail_cache q"
proof -
  let ?n = "unat (q_head q - q_tail q)"
  define q' where
    "q' = q\<lparr>q_buffer := (q_buffer q)[q_slot q ?n := p], q_head := q_head q + 1\<rparr>"
  have nfull: "q_head q - q_tail q \<noteq> q_capacity q" using room inv by (simp add: q_full_iff)
  have n': "unat (q_head q + 1 - q_tail q) = Suc ?n"
    by (rule unat_diff_Suc64 [OF q_count_not_max [OF inv]])
  have slot: "q_slot q' i = q_slot q i" for i by (simp add: q_slot_def q'_def)
  have "tn_queue_spsc_push q p = Some (TN_SUCCESS, q')"
    using nfull q_slot_in_buffer [OF inv, of ?n]
    by (simp add: tn_queue_spsc_push_def q_slot_head q'_def Let_def)
  moreover have "q_inv q'"
    using inv room n' by (auto simp: q_inv_def q'_def q_cap_def)
  moreover have "q_elems q' = q_elems q @ [p]"
  proof -
    have old: "q_buffer q' ! q_slot q i = q_buffer q ! q_slot q i" if "i < ?n" for i
    proof -
      have "q_slot q ?n \<noteq> q_slot q i" using that room q_slot_inj [OF inv, of ?n i] by auto
      then show ?thesis by (simp add: q'_def)
    qed
    have new: "q_buffer q' ! q_slot q ?n = p"
      using q_slot_in_buffer [OF inv, of ?n] by (simp add: q'_def)
    have "unat (q_head q' - q_tail q') = Suc ?n" using n' by (simp add: q'_def)
    then show ?thesis using old new by (simp add: q_elems_def slot)
  qed
  moreover have "q_cap q' = q_cap q" "q_tail q' = q_tail q" "q_tail_cache q' = q_tail_cache q"
    by (simp_all add: q'_def q_cap_def)
  ultimately show thesis by (rule that)
qed

text \<open>Dropping the oldest elements: the common effect of \<open>pop\<close>, \<open>pop_cached\<close>,
  \<open>pop_back\<close> and \<open>pop_all\<close>.\<close>

lemma q_drop_elems:
  assumes inv: "q_inv q" and n: "unat n \<le> length (q_elems q)"
  shows "q_inv (q\<lparr>q_tail := q_tail q + n\<rparr>)"
    and "q_elems (q\<lparr>q_tail := q_tail q + n\<rparr>) = drop (unat n) (q_elems q)"
proof -
  have eq: "q_head q - (q_tail q + n) = (q_head q - q_tail q) - n" by simp
  have len: "unat (q_head q - (q_tail q + n)) = unat (q_head q - q_tail q) - unat n"
    unfolding eq using n by (intro unat_sub64) simp
  show "q_inv (q\<lparr>q_tail := q_tail q + n\<rparr>)"
    using inv len by (auto simp: q_inv_def)
  have slot: "q_slot (q\<lparr>q_tail := q_tail q + n\<rparr>) i = q_slot q (unat n + i)" for i
    by (simp add: q_slot_def add.assoc)
  show "q_elems (q\<lparr>q_tail := q_tail q + n\<rparr>) = drop (unat n) (q_elems q)"
  proof (rule nth_equalityI)
    fix i assume "i < length (q_elems (q\<lparr>q_tail := q_tail q + n\<rparr>))"
    then have "i < unat (q_head q - q_tail q) - unat n" using len by simp
    moreover from this have "unat n + i < unat (q_head q - q_tail q)" by simp
    ultimately show "q_elems (q\<lparr>q_tail := q_tail q + n\<rparr>) ! i = drop (unat n) (q_elems q) ! i"
      by (simp add: q_elems_def slot len)
  qed (simp add: len)
qed

lemma q_drop_cap [simp]: "q_cap (q\<lparr>q_tail := t\<rparr>) = q_cap q"
  by (simp add: q_cap_def)

lemma q_drop_one:
  assumes "q_inv q" and "q_elems q = x # xs"
  shows "q_inv (q\<lparr>q_tail := q_tail q + 1\<rparr>)" and "q_elems (q\<lparr>q_tail := q_tail q + 1\<rparr>) = xs"
proof -
  have "unat (1::u64) \<le> length (q_elems q)" using assms(2) by simp
  from q_drop_elems [OF assms(1) this] assms(2)
  show "q_inv (q\<lparr>q_tail := q_tail q + 1\<rparr>)" "q_elems (q\<lparr>q_tail := q_tail q + 1\<rparr>) = xs"
    by simp_all
qed

lemma q_read_tail:
  assumes "q_inv q" and "q_elems q = x # xs"
  shows "arr_get (q_buffer q) (unat (q_tail q AND q_mask q)) = Some x"
proof -
  have "q_elems q ! 0 = q_buffer q ! q_slot q 0" using assms(2) by (intro q_elems_nth) simp
  then show ?thesis using assms q_slot_in_buffer [of q 0] by (simp add: q_slot_tail)
qed

lemma q_pop_back_ok:
  assumes "q_inv q" and "q_elems q = x # xs"
  shows "tn_queue_spsc_pop_back q = Some (TN_SUCCESS, Some x, q\<lparr>q_tail := q_tail q + 1\<rparr>)"
proof -
  have "q_head q \<noteq> q_tail q" using assms(2) by (simp add: q_empty_iff)
  then show ?thesis using q_read_tail [OF assms] by (simp add: tn_queue_spsc_pop_back_def)
qed

lemma q_pop_back_empty:
  "q_elems q = [] \<Longrightarrow> tn_queue_spsc_pop_back q = Some (TN_QUEUE_EMPTY, None, q)"
  by (simp add: tn_queue_spsc_pop_back_def q_empty_iff)

lemma q_peek_ok:
  assumes "q_inv q" and "q_elems q = x # xs"
  shows "tn_queue_spsc_peek q = Some (TN_SUCCESS, Some x, q\<lparr>q_tail_cache := q_tail q\<rparr>)"
proof -
  have "q_head q \<noteq> q_tail q" using assms(2) by (simp add: q_empty_iff)
  then show ?thesis using q_read_tail [OF assms] by (simp add: tn_queue_spsc_peek_def)
qed

lemma q_peek_empty:
  "q_elems q = [] \<Longrightarrow> tn_queue_spsc_peek q = Some (TN_QUEUE_EMPTY, None, q)"
  by (simp add: tn_queue_spsc_peek_def q_empty_iff)

lemma q_tail_cache_irrelevant [simp]:
  "q_inv (q\<lparr>q_tail_cache := t\<rparr>) = q_inv q"
  "q_elems (q\<lparr>q_tail_cache := t\<rparr>) = q_elems q"
  "q_cap (q\<lparr>q_tail_cache := t\<rparr>) = q_cap q"
  by (simp_all add: q_inv_def q_elems_def q_slot_def q_cap_def)

lemma q_pop_empty: "q_elems q = [] \<Longrightarrow> tn_queue_spsc_pop q = (TN_QUEUE_EMPTY, q)"
  by (simp add: tn_queue_spsc_pop_def q_empty_iff)

lemma q_pop_ok: "q_elems q \<noteq> [] \<Longrightarrow> tn_queue_spsc_pop q = (TN_SUCCESS, q\<lparr>q_tail := q_tail q + 1\<rparr>)"
  by (simp add: tn_queue_spsc_pop_def q_empty_iff)

text \<open>A peek followed by the cached pop: the cache still holds the tail.\<close>

definition q_peeked :: "'p tn_queue_spsc \<Rightarrow> bool" where
  "q_peeked q \<longleftrightarrow> q_tail_cache q = q_tail q \<and> q_head q \<noteq> q_tail q"

lemma q_pop_cached_ok:
  "q_peeked q \<Longrightarrow> tn_queue_spsc_pop_cached q = q\<lparr>q_tail := q_tail q + 1\<rparr>"
  by (simp add: tn_queue_spsc_pop_cached_def q_peeked_def)


lemma q_read_slot:
  assumes "q_inv q" and "unat off < length (q_elems q)"
  shows "arr_get (q_buffer q) (unat ((q_tail q + off) AND q_mask q)) = Some (q_elems q ! unat off)"
proof -
  have "unat ((q_tail q + off) AND q_mask q) = q_slot q (unat off)" by (simp add: q_slot_def)
  then show ?thesis
    using q_slot_in_buffer [OF assms(1), of "unat off"] q_elems_nth [OF assms(2)] by simp
qed

lemma pop_all_loop_copies:
  assumes "q_inv q" and "unat off + n \<le> length (q_elems q)" and "unat off + n \<le> length out"
  shows "pop_all_loop q off n out =
    Some (take (unat off) out @ take n (drop (unat off) (q_elems q)) @ drop (unat off + n) out)"
  using assms(2,3)
proof (induction n arbitrary: off out)
  case 0
  then show ?case by simp
next
  case (Suc n)
  have in_q: "unat off < length (q_elems q)" and in_out: "unat off < length out"
    using Suc.prems by simp_all
  have "unat off < 2 ^ 64 - 1"
    using in_q q_count_not_max [OF assms(1)] by simp
  then have off1: "unat (off + 1) = Suc (unat off)" by (simp only: unat_word_ariths) simp
  let ?out = "out[unat off := q_elems q ! unat off]"
  have "pop_all_loop q off (Suc n) out = pop_all_loop q (off + 1) n ?out"
    using q_read_slot [OF assms(1) in_q] in_out by simp
  moreover have "pop_all_loop q (off + 1) n ?out =
      Some (take (Suc (unat off)) ?out @ take n (drop (Suc (unat off)) (q_elems q))
            @ drop (Suc (unat off) + n) ?out)"
    using Suc.IH [of "off + 1" ?out] Suc.prems off1 by simp
  moreover have "take (Suc (unat off)) ?out = take (unat off) out @ [q_elems q ! unat off]"
    using in_out by (simp add: take_Suc_conv_app_nth)
  moreover have "drop (unat off) (q_elems q) = q_elems q ! unat off # drop (Suc (unat off)) (q_elems q)"
    using in_q by (rule Cons_nth_drop_Suc [symmetric])
  ultimately show ?case by simp
qed

lemma q_pop_all_empty:
  "0 < n \<Longrightarrow> q_elems q = [] \<Longrightarrow> tn_queue_spsc_pop_all q out n = Some (TN_QUEUE_EMPTY, out, n, q)"
  by (simp add: tn_queue_spsc_pop_all_def flip: q_empty_iff)

lemma q_pop_all_ok:
  assumes inv: "q_inv q" and ne: "q_elems q \<noteq> []" and n: "0 < n"
    and out: "unat n \<le> length out"
  defines "m \<equiv> min (unat n) (length (q_elems q))"
  shows "tn_queue_spsc_pop_all q out n =
    Some (TN_SUCCESS, take m (q_elems q) @ drop m out, of_nat m, q\<lparr>q_tail := q_tail q + of_nat m\<rparr>)"
proof -
  let ?size = "q_head q - q_tail q"
  let ?c = "if ?size < n then ?size else n"
  have size: "?size \<noteq> 0" using ne by (simp flip: q_empty_iff)
  have m: "unat ?c = m" and c: "?c = of_nat m"
    by (auto simp: m_def word_less_nat_alt min_def)
  have "pop_all_loop q 0 m out = Some (take m (q_elems q) @ drop m out)"
    using pop_all_loop_copies [OF inv, of 0 m out] out by (simp add: m_def)
  then show ?thesis using size n m c by (simp add: tn_queue_spsc_pop_all_def Let_def)
qed

section \<open>Setting up a queue\<close>

lemma bit_smear_step:
  assumes "\<And>i. bit (y :: u64) i \<longleftrightarrow> (\<exists>d < n. bit x (i + d))"
  shows "bit (smear_step n y) i \<longleftrightarrow> (\<exists>d < 2 * n. bit (x :: u64) (i + d))"
proof -
  have "bit (smear_step n y) i \<longleftrightarrow> (\<exists>d < n. bit x (i + d)) \<or> (\<exists>d < n. bit x (i + n + d))"
    by (simp add: smear_step_def bit_simps assms add.commute)
  also have "\<dots> \<longleftrightarrow> (\<exists>d < 2 * n. bit x (i + d))"
  proof (intro iffI)
    assume "(\<exists>d < n. bit x (i + d)) \<or> (\<exists>d < n. bit x (i + n + d))"
    then show "\<exists>d < 2 * n. bit x (i + d)"
    proof (elim disjE exE conjE)
      fix d assume "d < n" "bit x (i + n + d)"
      then show ?thesis by (intro exI [of _ "n + d"]) (simp add: add.assoc)
    next
      fix d assume "d < n" "bit x (i + d)"
      then show ?thesis by (intro exI [of _ d]) simp
    qed
  next
    assume "\<exists>d < 2 * n. bit x (i + d)"
    then obtain d where d: "d < 2 * n" "bit x (i + d)" by blast
    show "(\<exists>d < n. bit x (i + d)) \<or> (\<exists>d < n. bit x (i + n + d))"
    proof (cases "d < n")
      case False
      then show ?thesis using d by (intro disjI2 exI [of _ "d - n"]) auto
    qed (use d in blast)
  qed
  finally show ?thesis .
qed


text \<open>After the six steps every bit below the highest set bit is set.\<close>

definition smear :: "u64 \<Rightarrow> u64" where
  "smear c = smear_step 32 (smear_step 16 (smear_step 8 (smear_step 4 (smear_step 2 (smear_step 1 c)))))"

lemma bit_smear: "bit (smear x) i \<longleftrightarrow> (\<exists>d < 64. bit x (i + d))"
proof -
  have "bit x i \<longleftrightarrow> (\<exists>d < 1. bit x (i + d))" for i by simp
  note s1 = bit_smear_step [OF this]
  note s2 = bit_smear_step [OF s1]
  note s3 = bit_smear_step [OF s2 [simplified]]
  note s4 = bit_smear_step [OF s3 [simplified]]
  note s5 = bit_smear_step [OF s4 [simplified]]
  note s6 = bit_smear_step [OF s5 [simplified]]
  show ?thesis using s6 by (simp add: smear_def)
qed

lemma smear_eq_mask:
  assumes "x \<noteq> 0"
  obtains m where "m < 64" "2 ^ m \<le> unat x" "unat x < 2 ^ Suc m" "smear x = mask (Suc m)"
proof -
  define m where "m = Max {i. bit x i}"
  have fin: "finite {i. bit x i}"
    by (rule finite_subset [of _ "{..<64}"]) (auto dest: bit_imp_le_length)
  have "\<exists>i. bit x i" by (rule ccontr) (use assms bit_word_eqI [of x 0] in auto)
  then have m: "bit x m" using Max_in [OF fin] by (auto simp: m_def)
  have top: "i \<le> m" if "bit x i" for i using that fin by (simp add: m_def)
  have lt: "m < 64" using m bit_imp_le_length [of x m] by simp
  have "smear x = mask (Suc m)"
  proof (rule bit_word_eqI)
    fix i assume "i < LENGTH(64)"
    then have i: "i < 64" by simp
    have "(\<exists>d < 64. bit x (i + d)) \<longleftrightarrow> i \<le> m"
    proof
      assume "i \<le> m"
      then show "\<exists>d < 64. bit x (i + d)" using m lt by (intro exI [of _ "m - i"]) auto
    qed (auto dest: top)
    then show "bit (smear x) i = bit (mask (Suc m) :: u64) i"
      using i by (simp add: bit_smear bit_mask_iff less_Suc_eq_le)
  qed
  moreover have "unat x < 2 ^ Suc m"
  proof -
    have "take_bit (Suc m) x = x"
      by (rule bit_word_eqI) (auto simp: bit_take_bit_iff less_Suc_eq_le dest: top)
    then have "take_bit (Suc m) (unat x) = unat x" by (metis unsigned_take_bit_eq)
    then show ?thesis by (simp only: take_bit_nat_eq_self_iff)
  qed
  moreover have "2 ^ m \<le> unat x"
  proof -
    have "bit (unat x) m" using m by (simp add: bit_unsigned_iff lt)
    then show ?thesis by (metis bit_nat_def div_less even_zero not_le)
  qed
  ultimately show thesis using lt by (intro that) auto
qed


lemma bit_top:
  assumes "2 ^ m \<le> unat (c :: u64)" and "unat c < 2 ^ Suc m"
  shows "bit c m"
proof -
  have "unat c div 2 ^ m = 1"
    using assms by (intro div_nat_eqI) simp_all
  then have "bit (unat c) m" by (simp add: bit_nat_def)
  then show ?thesis by (simp add: bit_unsigned_iff)
qed

lemma unat_pred64: "0 < (c :: u64) \<Longrightarrow> unat (c - 1) = unat c - 1"
  by (intro unat_minus_one) auto

lemma pow2_fixed:
  assumes "0 < c" and "c AND (c - 1) = 0"
  shows "c = smear (c - 1) + 1"
proof (cases "c = 1")
  case True
  then show ?thesis by (simp add: smear_def smear_step_def)
next
  case False
  then have "c - 1 \<noteq> 0" by simp
  then obtain m where m: "m < 64" "2 ^ m \<le> unat (c - 1)" "unat (c - 1) < 2 ^ Suc m"
    "smear (c - 1) = mask (Suc m)" by (rule smear_eq_mask)
  have c: "unat c = unat (c - 1) + 1" using assms(1) by (simp add: unat_pred64 word_less_nat_alt)
  have "\<not> unat c < 2 ^ Suc m"
  proof
    assume "unat c < 2 ^ Suc m"
    then have "bit c m" using m(2) c by (intro bit_top) auto
    moreover have "bit (c - 1) m" using m(2,3) by (rule bit_top)
    ultimately have "bit (c AND (c - 1)) m" by (simp add: bit_and_iff)
    then show False using assms(2) by simp
  qed
  then have u: "unat c = 2 ^ Suc m" using c m(3) by simp
  then have "(2::nat) ^ Suc m < 2 ^ 64" using unat_lt64 [of c] by simp
  then have "Suc m < 64" by (simp only: power_strict_increasing_iff)
  then have "c = 2 ^ Suc m" using u unat_pow2_64 [of "Suc m"] by (simp only: word_unat_eq_iff)
  moreover have "smear (c - 1) + 1 = 2 ^ Suc m"
    by (simp only: m(4) mask_eq_exp_minus_1) simp
  ultimately show ?thesis by (simp only:)
qed

lemma round_capacity_smear: "0 < c \<Longrightarrow> round_capacity c = smear (c - 1) + 1"
  using pow2_fixed [of c] by (simp add: round_capacity_def smear_def Let_def)

lemma round_capacity_pow2:
  assumes "0 < c" and "unat c \<le> 2 ^ 63"
  obtains k where "k \<le> 63" "round_capacity c = 2 ^ k" "unat c \<le> 2 ^ k" "2 ^ k < 2 * unat c"
proof (cases "c = 1")
  case True
  then show ?thesis by (intro that [of 0]) (simp_all add: round_capacity_def)
next
  case False
  then have "c - 1 \<noteq> 0" by simp
  then obtain m where m: "m < 64" "2 ^ m \<le> unat (c - 1)" "unat (c - 1) < 2 ^ Suc m"
    "smear (c - 1) = mask (Suc m)" by (rule smear_eq_mask)
  have c: "unat c = unat (c - 1) + 1" using assms(1) by (simp add: unat_pred64 word_less_nat_alt)
  have "(2::nat) ^ m < 2 ^ 63" using m(2) c assms(2) by simp
  then have "m < 63" by (simp only: power_strict_increasing_iff)
  moreover have "round_capacity c = 2 ^ Suc m"
    by (simp only: round_capacity_smear [OF assms(1)] m(4) mask_eq_exp_minus_1) simp
  moreover have "unat c \<le> 2 ^ Suc m" "2 ^ Suc m < 2 * unat c" using m(2,3) c by simp_all
  ultimately show thesis by (intro that [of "Suc m"]) auto
qed


lemma pow2_and_pred: "(2 ^ k :: u64) AND (2 ^ k - 1) = 0"
proof -
  have "unat ((2 ^ k :: u64) AND (2 ^ k - 1)) = unat (2 ^ k :: u64) mod 2 ^ k"
    by (rule unat_and_pow2_mask)
  also have "\<dots> = 0"
  proof (cases "k < 64")
    case True
    then show ?thesis by (simp only: unat_pow2_64) simp
  next
    case False
    then have z: "(2 ^ k :: u64) = 0" by (simp add: exp_eq_zero_iff)
    show ?thesis unfolding z by simp
  qed
  finally show ?thesis by (simp only: unat_eq_zero)
qed

lemma q_setup_error:
  assumes "0 < c" and "unat c \<le> 2 ^ 63"
  shows "tn_queue_spsc_setup False junk q c = Some (TN_ERROR, q\<lparr>q_buffer := []\<rparr>)"
proof -
  obtain k where "k \<le> 63" "round_capacity c = 2 ^ k" "unat c \<le> 2 ^ k" "2 ^ k < 2 * unat c"
    using assms by (rule round_capacity_pow2)
  then show ?thesis using assms(1) by (simp add: tn_queue_spsc_setup_def pow2_and_pred)
qed

lemma q_setup_ok:
  assumes "0 < c" and "unat c \<le> 2 ^ 60"
  obtains q' where "tn_queue_spsc_setup True junk q c = Some (TN_SUCCESS, q')" "q_inv q'"
    "q_elems q' = []" "unat c \<le> q_cap q'" "q_cap q' < 2 * unat c"
proof -
  have "unat c \<le> 2 ^ 63" using assms(2) by simp
  with assms(1) obtain k where k: "round_capacity c = 2 ^ k" "unat c \<le> 2 ^ k" "2 ^ k < 2 * unat c"
    by (rule round_capacity_pow2)
  have "(2::nat) ^ k < 2 ^ 61" using k(3) assms(2) by simp
  then have k61: "k < 61" by (simp only: power_strict_increasing_iff)
  then have u: "unat (2 ^ k :: u64) = 2 ^ k" by (simp only: unat_pow2_64)
  have le: "(2::nat) ^ k \<le> 2 ^ 60" using k61 by (intro power_increasing) auto
  have "unat (1 + 2 ^ k :: u64) = 1 + 2 ^ k"
    using u le by (simp only: unat_word_ariths) simp
  then have bytes: "unat (8 * (1 + 2 ^ k) :: u64) div 8 = Suc (2 ^ k)"
    using le by (simp only: unat_word_ariths) simp
  define q' where "q' = q\<lparr>q_buffer := map junk [0..<Suc (2 ^ k)], q_head := 0, q_tail := 0,
    q_tail_cache := 0, q_capacity := 2 ^ k, q_mask := 2 ^ k - 1\<rparr>"
  have "tn_queue_spsc_setup True junk q c = Some (TN_SUCCESS, q')"
    using assms(1)
    by (simp only: tn_queue_spsc_setup_def k(1) pow2_and_pred bytes Let_def tn_mem_acquire_True
        bind_tn_assert q'_def simp_thms if_True option.case)
  moreover have "q_inv q'" using k61 u by (auto simp: q_inv_def q'_def intro!: exI [of _ k])
  moreover have "q_elems q' = []" by (simp add: q_elems_def q'_def)
  moreover have "q_cap q' = 2 ^ k" using u by (simp add: q_cap_def q'_def)
  ultimately show thesis using k by (intro that [of q']) auto
qed


section \<open>The ring implements the bounded FIFO\<close>

interpretation q_fifo: peekable_fifo q_inv q_elems q_cap tn_queue_spsc_push
  tn_queue_spsc_pop_back tn_queue_spsc_peek tn_queue_spsc_pop tn_queue_spsc_pop_cached q_peeked
proof (unfold_locales, goal_cases)
  case (1 q)
  then show ?case by (simp add: q_inv_def q_cap_def)
next
  case (2 q p)
  from q_push_ok [OF 2, of p] show ?case by metis
next
  case (3 q p)
  then show ?case by (rule q_push_full)
next
  case (4 q x xs)
  then show ?case using q_drop_one [OF 4] by (simp add: q_pop_back_ok)
next
  case (5 q)
  then show ?case by (simp add: q_pop_back_empty)
next
  case (6 q x xs)
  then show ?case by (simp add: q_peek_ok q_peeked_def q_empty_iff)
next
  case (7 q)
  then show ?case by (simp add: q_peek_empty)
next
  case (8 q x xs)
  then show ?case using q_drop_one [OF 8] by (simp add: q_pop_ok)
next
  case (9 q)
  then show ?case by (simp add: q_pop_empty)
next
  case (10 q x xs)
  then show ?case using q_drop_one [OF 10(1,3)] by (simp add: q_pop_cached_ok)
qed


section \<open>Properties\<close>

text \<open>Property C5. A queue set up with a capacity between 1 and \<open>2 ^ 60\<close> behaves, under every
  sequence of \<open>push\<close>, \<open>peek\<close>, \<open>pop\<close> and \<open>pop_back\<close> calls, exactly like a list of
  bounded length: same return codes, same pointers out, same content afterwards, and no access out
  of the range of the array.\<close>

theorem queue_refines_fifo:
  assumes "0 < c" and "unat c \<le> 2 ^ 60"
  shows "\<exists>q q'. tn_queue_spsc_setup True junk q0 c = Some (TN_SUCCESS, q) \<and>
    unat c \<le> q_cap q \<and>
    fifo_run (fifo_exec tn_queue_spsc_push tn_queue_spsc_pop_back tn_queue_spsc_peek
        tn_queue_spsc_pop) q ops = Some (fst (fifo_spec_run (q_cap q) [] ops), q') \<and>
    q_elems q' = snd (fifo_spec_run (q_cap q) [] ops)"
proof -
  obtain q where q: "tn_queue_spsc_setup True junk q0 c = Some (TN_SUCCESS, q)" "q_inv q"
    "q_elems q = []" "unat c \<le> q_cap q" "q_cap q < 2 * unat c"
    using assms by (rule q_setup_ok)
  from q_fifo.run_refines [OF q(2), of ops] q(1,3,4) show ?thesis by auto
qed

theorem queue_refines_fifo_witness:
  "\<exists>q q'. tn_queue_spsc_setup True (\<lambda>_. 0 :: nat) \<lparr>q_capacity = 0, q_mask = 0, q_buffer = [],
      q_head = 0, q_tail = 0, q_tail_cache = 0\<rparr> 3 = Some (TN_SUCCESS, q) \<and>
    unat (3 :: u64) \<le> q_cap q \<and>
    fifo_run (fifo_exec tn_queue_spsc_push tn_queue_spsc_pop_back tn_queue_spsc_peek
        tn_queue_spsc_pop) q [Op_push 7, Op_peek, Op_pop_back, Op_pop] =
      Some (fst (fifo_spec_run (q_cap q) [] [Op_push 7, Op_peek, Op_pop_back, Op_pop]), q') \<and>
    q_elems q' = snd (fifo_spec_run (q_cap q) [] [Op_push 7, Op_peek, Op_pop_back, Op_pop])"
  by (rule queue_refines_fifo) simp_all

text \<open>The bit-smearing in \<open>tn_queue_spsc_setup\<close> rounds a capacity of at most
  \<open>2 ^ 63\<close> up to the least power of two that is not smaller.\<close>

theorem round_capacity_least_pow2:
  assumes "0 < c" and "unat c \<le> 2 ^ 63"
  shows "\<exists>k \<le> 63. round_capacity c = 2 ^ k \<and> unat c \<le> 2 ^ k \<and> (\<forall>j < k. 2 ^ j < unat c)"
proof -
  obtain k where k: "k \<le> 63" "round_capacity c = 2 ^ k" "unat c \<le> 2 ^ k" "2 ^ k < 2 * unat c"
    using assms by (rule round_capacity_pow2)
  have "2 ^ j < unat c" if "j < k" for j
  proof -
    have "(2::nat) ^ Suc j \<le> 2 ^ k" using that by (intro power_increasing) auto
    then show ?thesis using k(4) by simp
  qed
  then show ?thesis using k by blast
qed

theorem round_capacity_least_pow2_witness:
  "\<exists>k \<le> 63. round_capacity 40000 = 2 ^ k \<and> unat (40000 :: u64) \<le> 2 ^ k \<and>
    (\<forall>j < k. 2 ^ j < unat (40000 :: u64))"
  by (rule round_capacity_least_pow2) simp_all

text \<open>\<open>tn_queue_spsc_pop_all\<close> on a non-empty queue moves the oldest
  \<open>min out_count count\<close> pointers, in order, into the caller's array, leaves the rest of the array
  alone, stores the number moved in \<open>out_count\<close> and removes exactly these pointers.\<close>

theorem pop_all_moves_oldest:
  assumes "q_inv q" and "q_elems q \<noteq> []" and "0 < n" and "unat n \<le> length out"
  shows "\<exists>m out' q'. m = min (unat n) (length (q_elems q)) \<and>
    tn_queue_spsc_pop_all q out n = Some (TN_SUCCESS, out', of_nat m, q') \<and>
    out' = take m (q_elems q) @ drop m out \<and>
    q_inv q' \<and> q_elems q' = drop m (q_elems q)"
proof -
  define m where "m = min (unat n) (length (q_elems q))"
  have "m < 2 ^ 64" using unat_lt64 [of n] by (simp add: m_def)
  then have m: "unat (of_nat m :: u64) = m" by (rule unat_of_nat64)
  then have "unat (of_nat m :: u64) \<le> length (q_elems q)" by (simp add: m_def)
  from q_drop_elems [OF assms(1) this] m have
    "q_inv (q\<lparr>q_tail := q_tail q + of_nat m\<rparr>)"
    "q_elems (q\<lparr>q_tail := q_tail q + of_nat m\<rparr>) = drop m (q_elems q)" by simp_all
  with q_pop_all_ok [OF assms, folded m_def] m_def show ?thesis by blast
qed

text \<open>A queue of capacity 2 whose counters are about to wrap around, holding 5 and 6.\<close>

definition q_sample :: "nat tn_queue_spsc" where
  "q_sample = \<lparr>q_capacity = 2, q_mask = 1, q_buffer = [6, 5, 0], q_head = 1,
     q_tail = - 1, q_tail_cache = 0\<rparr>"

lemma q_sample_inv: "q_inv q_sample" and q_sample_elems: "q_elems q_sample = [5, 6]"
proof -
  show "q_inv q_sample" by (auto simp: q_inv_def q_sample_def intro!: exI [of _ 1])
  have two: "[0..<2] = [0, 1 :: nat]" by (simp add: upt_rec)
  show "q_elems q_sample = [5, 6]" by (simp add: q_elems_def q_sample_def q_slot_def two)
qed

theorem pop_all_moves_oldest_witness:
  "\<exists>m out' q'. m = min (unat (4 :: u64)) (length (q_elems q_sample)) \<and>
    tn_queue_spsc_pop_all q_sample [0, 0, 0, 9] 4 = Some (TN_SUCCESS, out', of_nat m, q') \<and>
    out' = take m (q_elems q_sample) @ drop m [0, 0, 0, 9] \<and>
    q_inv q' \<and> q_elems q' = drop m (q_elems q_sample)"
  by (rule pop_all_moves_oldest) (simp_all add: q_sample_inv q_sample_elems del: length_q_elems)

text \<open>The two-phase removal of \<open>tcp_service_send\<close>: after a \<open>peek\<close> that returned
  the pointer \<open>x\<close>, and after any number of insertions by the producer, \<open>pop_cached\<close> removes
  exactly \<open>x\<close> and nothing else.\<close>

theorem peek_pop_cached_removes_peeked:
  assumes "q_inv q" and "q_elems q = x # xs" and "length xs + length ps < q_cap q"
  shows "\<exists>q1 q2. tn_queue_spsc_peek q = Some (TN_SUCCESS, Some x, q1) \<and>
    push_all tn_queue_spsc_push q1 ps = Some (TN_SUCCESS, q2) \<and>
    q_elems (tn_queue_spsc_pop_cached q2) = xs @ ps"
proof -
  have tail: "q_tail q' = q_tail q \<and> q_tail_cache q' = q_tail_cache q"
    if "push_all tn_queue_spsc_push q ps = Some (TN_SUCCESS, q')" for q q' :: "'a tn_queue_spsc"
    using that
    by (induction ps arbitrary: q)
      (auto simp: tn_queue_spsc_push_def Let_def bind_eq_Some_conv split: if_splits)
  let ?q1 = "q\<lparr>q_tail_cache := q_tail q\<rparr>"
  have peek: "tn_queue_spsc_peek q = Some (TN_SUCCESS, Some x, ?q1)"
    using assms(1,2) by (rule q_peek_ok)
  have "length (q_elems ?q1) + length ps \<le> q_cap ?q1"
    using assms(2,3) by (simp del: length_q_elems)
  then obtain q2 where q2: "push_all tn_queue_spsc_push ?q1 ps = Some (TN_SUCCESS, q2)"
    "q_inv q2" "q_elems q2 = x # (xs @ ps)"
    using q_fifo.push_all_room [of ?q1 ps] assms(1,2) by (auto simp del: length_q_elems)
  have "q_peeked q2"
    using tail [OF q2(1)] q2(3) q_empty_iff [of q2] by (simp add: q_peeked_def)
  then have "q_elems (tn_queue_spsc_pop_cached q2) = xs @ ps"
    using q_fifo.pop_cached_some [OF q2(2) _ q2(3)] by blast
  then show ?thesis using peek q2(1) by blast
qed

theorem peek_pop_cached_removes_peeked_witness:
  "\<exists>q1 q2. tn_queue_spsc_peek (q_sample\<lparr>q_tail := 0\<rparr>) = Some (TN_SUCCESS, Some 6, q1) \<and>
    push_all tn_queue_spsc_push q1 [7] = Some (TN_SUCCESS, q2) \<and>
    q_elems (tn_queue_spsc_pop_cached q2) = [] @ [7]"
proof (rule peek_pop_cached_removes_peeked)
  show "q_inv (q_sample\<lparr>q_tail := 0\<rparr>)"
    by (auto simp: q_inv_def q_sample_def intro!: exI [of _ 1])
qed (simp_all add: q_elems_def q_slot_def q_sample_def q_cap_def)

text \<open>A capacity of \<open>2 ^ 61\<close> makes the byte size of the array wrap around to 8:
  \<open>tn_queue_spsc_setup\<close> succeeds with room for a single pointer, and the second \<open>push\<close> writes
  out of the range of the array.\<close>

theorem oversized_capacity_overflows:
  "\<exists>q q1. tn_queue_spsc_setup True junk q0 (2 ^ 61) = Some (TN_SUCCESS, q) \<and>
    q_capacity q = 2 ^ 61 \<and> length (q_buffer q) = 1 \<and>
    tn_queue_spsc_push q p1 = Some (TN_SUCCESS, q1) \<and> tn_queue_spsc_push q1 p2 = None"
  by (simp add: tn_queue_spsc_setup_def round_capacity_def tn_queue_spsc_push_def arr_set_def Let_def)

end
