(* ===== verification/Tn_Memory.thy ===== *)
theory Tn_Memory
  imports Tn_Prelude
begin

text \<open>
  Byte-addressed memory and the byte order of integers.

  Memory is a total map from 64-bit addresses to bytes; the address 0 is NULL. Which addresses an
  operation may touch is stated by frame lemmas about single operations, not by the memory itself.
  \<open>mem_write\<close> and \<open>mem_read\<close> are the two halves of \<open>memcpy\<close>.

  The byte order of the host is a parameter (\<open>True\<close> for big-endian), so that the functions of
  \<open>aws/common/byte_order.h\<close> can be modelled for both kinds of host.
\<close>

type_synonym mem = "addr \<Rightarrow> u8"

definition mem_read :: "mem \<Rightarrow> addr \<Rightarrow> nat \<Rightarrow> u8 list" where
  "mem_read m a n = map (\<lambda>i. m (a + of_nat i)) [0..<n]"

definition mem_write :: "mem \<Rightarrow> addr \<Rightarrow> u8 list \<Rightarrow> mem" where
  "mem_write m a bs = (\<lambda>x. if unat (x - a) < length bs then bs ! unat (x - a) else m x)"

section \<open>Memory lemmas\<close>

lemma length_mem_read [simp]: "length (mem_read m a n) = n"
  by (simp add: mem_read_def)

lemma mem_read_0 [simp]: "mem_read m a 0 = []"
  by (simp add: mem_read_def)

lemma mem_read_nth: "i < n \<Longrightarrow> mem_read m a n ! i = m (a + of_nat i)"
  by (simp add: mem_read_def)

lemma mem_write_Nil [simp]: "mem_write m a [] = m"
  by (simp add: mem_write_def)

lemma mem_read_add: "mem_read m a (n + k) = mem_read m a n @ mem_read m (a + of_nat n) k"
  by (rule nth_equalityI) (auto simp: mem_read_nth nth_append add.assoc)

lemma take_mem_read: "n \<le> k \<Longrightarrow> take n (mem_read m a k) = mem_read m a n"
  by (rule nth_equalityI) (auto simp: mem_read_nth)

lemma drop_mem_read: "drop n (mem_read m a k) = mem_read m (a + of_nat n) (k - n)"
  by (rule nth_equalityI) (auto simp: mem_read_nth add.assoc)

lemma mem_read_write_same:
  assumes "length bs \<le> 2 ^ 64"
  shows "mem_read (mem_write m a bs) a (length bs) = bs"
proof (rule nth_equalityI)
  fix i assume "i < length (mem_read (mem_write m a bs) a (length bs))"
  then have i: "i < length bs" by simp
  then have "unat (of_nat i :: u64) = i" using assms by (intro unat_of_nat64) simp
  then show "mem_read (mem_write m a bs) a (length bs) ! i = bs ! i"
    using i by (simp add: mem_read_nth mem_write_def)
qed simp

lemma mem_read_write_outside:
  assumes "\<And>i. i < n \<Longrightarrow> length bs \<le> unat (b + of_nat i - a)"
  shows "mem_read (mem_write m a bs) b n = mem_read m b n"
proof (rule nth_equalityI)
  fix i assume "i < length (mem_read (mem_write m a bs) b n)"
  then have "i < n" by simp
  then show "mem_read (mem_write m a bs) b n ! i = mem_read m b n ! i"
    using assms [of i] by (simp add: mem_read_nth mem_write_def)
qed simp

text \<open>A write into a stretch of memory leaves what lies outside of the stretch alone.\<close>

lemma mem_write_beyond:
  assumes "unat l + length bs \<le> c" and "c \<le> unat (x - a)"
  shows "mem_write m (a + l) bs x = m x"
proof -
  have "unat (x - (a + l)) = unat (x - a) - unat l"
    using unat_sub64 [of l "x - a"] assms by (simp add: diff_diff_eq)
  then have "\<not> unat (x - (a + l)) < length bs" using assms by linarith
  then show ?thesis by (simp add: mem_write_def)
qed

text \<open>A write behind a region leaves the region alone.\<close>

lemma mem_read_write_behind:
  assumes "n + length bs \<le> 2 ^ 64"
  shows "mem_read (mem_write m (a + of_nat n) bs) a n = mem_read m a n"
proof (rule mem_read_write_outside)
  fix i assume i: "i < n"
  have n: "n \<le> 2 ^ 64" using assms by simp
  have "a + of_nat i - (a + of_nat n) = - (of_nat (n - i) :: u64)" using i by (simp add: of_nat_diff)
  moreover have "unat (- (of_nat (n - i) :: u64)) = 2 ^ 64 - (n - i)"
  proof (cases "n - i < 2 ^ 64")
    case True
    then have u: "unat (of_nat (n - i) :: u64) = n - i" by (rule unat_of_nat64)
    then have "(of_nat (n - i) :: u64) \<noteq> 0" using i by (metis unat_0 zero_less_diff less_numeral_extra(3))
    then have "0 < n - i" using i by simp
    then have "unat (0 - (of_nat (n - i) :: u64)) = 2 ^ 64 - (n - i)"
      using u True by (simp only: unat_sub_if') simp
    then show ?thesis by simp
  next
    case False
    then have "n - i = 2 ^ 64" using n by simp
    then show ?thesis by simp
  qed
  ultimately show "length bs \<le> unat (a + of_nat i - (a + of_nat n))" using assms i by simp
qed

text \<open>Regions that do not wrap around and do not overlap.\<close>

lemma mem_read_write_disjoint:
  assumes "unat b + n \<le> 2 ^ 64" and "unat a + length bs \<le> 2 ^ 64"
    and "unat b + n \<le> unat a \<or> unat a + length bs \<le> unat b"
  shows "mem_read (mem_write m a bs) b n = mem_read m b n"
proof (rule mem_read_write_outside)
  fix i assume i: "i < n"
  then have "unat (of_nat i :: u64) = i" using assms(1) by (intro unat_of_nat64) simp
  then have bi: "unat (b + of_nat i) = unat b + i" using i assms(1) by (simp add: unat_add64)
  show "length bs \<le> unat (b + of_nat i - a)"
  proof (cases "unat a \<le> unat b + i")
    case True
    then have "unat (b + of_nat i - a) = unat b + i - unat a" using bi by (simp add: unat_sub64)
    then show ?thesis using assms(3) i True by linarith
  next
    case False
    then have "unat (b + of_nat i - a) = unat b + i + 2 ^ 64 - unat a"
      using bi by (simp only: unat_sub_if') simp
    then show ?thesis using assms(2) by linarith
  qed
qed

text \<open>A write changes only the bytes of its own region.\<close>

lemma mem_write_frame: "length bs \<le> unat (x - a) \<Longrightarrow> mem_write m a bs x = m x"
  by (simp add: mem_write_def)

section \<open>Byte order\<close>

text \<open>
  The bytes of an integer from the least significant one on, and back. An integer object of a
  little-endian host has its bytes in this order, one of a big-endian host in the reverse order.
\<close>

definition le_bytes :: "nat \<Rightarrow> 'a::len word \<Rightarrow> u8 list" where
  "le_bytes n x = map (\<lambda>i. ucast (drop_bit (8 * i) x)) [0..<n]"

fun of_le_bytes :: "u8 list \<Rightarrow> 'a::len word" where
  "of_le_bytes [] = 0"
| "of_le_bytes (b # bs) = ucast b OR push_bit 8 (of_le_bytes bs)"

definition obj_bytes :: "bool \<Rightarrow> nat \<Rightarrow> 'a::len word \<Rightarrow> u8 list" where
  "obj_bytes be n x = (if be then rev (le_bytes n x) else le_bytes n x)"

definition obj_of_bytes :: "bool \<Rightarrow> u8 list \<Rightarrow> 'a::len word" where
  "obj_of_bytes be bs = of_le_bytes (if be then rev bs else bs)"

text \<open>\<open>bswap\<close>, and \<open>htons\<close>, \<open>htonl\<close>, \<open>ntohs\<close>, \<open>ntohl\<close> of the C library.\<close>

definition byteswap :: "nat \<Rightarrow> 'a::len word \<Rightarrow> 'a word" where
  "byteswap n x = of_le_bytes (rev (le_bytes n x))"

definition host_to_net :: "bool \<Rightarrow> nat \<Rightarrow> 'a::len word \<Rightarrow> 'a word" where
  "host_to_net be n x = (if be then x else byteswap n x)"

definition aws_is_big_endian :: "bool \<Rightarrow> bool" where
  "aws_is_big_endian be \<longleftrightarrow> obj_bytes be 2 (0x100 :: u16) ! 0 \<noteq> 0"

text \<open>
  \<open>aws_hton64\<close> uses the \<open>bswap\<close> instruction where there is one; \<open>aws_hton64_halves\<close> is the
  portable branch over the two halves.
\<close>

definition aws_hton64 :: "bool \<Rightarrow> u64 \<Rightarrow> u64" where
  "aws_hton64 be x = (if aws_is_big_endian be then x else byteswap 8 x)"

definition aws_hton64_halves :: "bool \<Rightarrow> u64 \<Rightarrow> u64" where
  "aws_hton64_halves be x =
     (if aws_is_big_endian be then x
      else let low = (ucast x :: u32); high = (ucast (drop_bit 32 x) :: u32)
           in push_bit 32 (ucast (host_to_net be 4 low)) OR ucast (host_to_net be 4 high))"

definition aws_ntoh64 :: "bool \<Rightarrow> u64 \<Rightarrow> u64" where
  "aws_ntoh64 be x = aws_hton64 be x"

definition aws_hton32 :: "bool \<Rightarrow> u32 \<Rightarrow> u32" where
  "aws_hton32 be x = host_to_net be 4 x"

definition aws_ntoh32 :: "bool \<Rightarrow> u32 \<Rightarrow> u32" where
  "aws_ntoh32 be x = host_to_net be 4 x"

definition aws_hton16 :: "bool \<Rightarrow> u16 \<Rightarrow> u16" where
  "aws_hton16 be x = host_to_net be 2 x"

definition aws_ntoh16 :: "bool \<Rightarrow> u16 \<Rightarrow> u16" where
  "aws_ntoh16 be x = host_to_net be 2 x"

lemma length_le_bytes [simp]: "length (le_bytes n x) = n"
  by (simp add: le_bytes_def)

lemma length_obj_bytes [simp]: "length (obj_bytes be n x) = n"
  by (simp add: obj_bytes_def)

lemma le_bytes_nth: "i < n \<Longrightarrow> le_bytes n x ! i = ucast (drop_bit (8 * i) x)"
  by (simp add: le_bytes_def)

lemma bit_of_le_bytes:
  "bit (of_le_bytes bs :: 'a::len word) k \<longleftrightarrow>
     k < LENGTH('a) \<and> k div 8 < length bs \<and> bit (bs ! (k div 8)) (k mod 8)"
proof (induction bs arbitrary: k)
  case Nil
  then show ?case by simp
next
  case (Cons b bs)
  show ?case
  proof (cases "k < 8")
    case True
    then show ?thesis
      by (auto simp: bit_or_iff bit_push_bit_iff bit_ucast_iff)
  next
    case False
    then have k: "k div 8 = Suc ((k - 8) div 8)" "k mod 8 = (k - 8) mod 8"
      by (simp_all add: le_div_geq le_mod_geq)
    have "\<not> bit b k" using False bit_imp_le_length [of b k] by auto
    then show ?thesis using Cons.IH [of "k - 8"] False k
      by (auto simp: bit_or_iff bit_push_bit_iff bit_ucast_iff bit_imp_le_length)
  qed
qed

lemma of_le_bytes_le_bytes:
  assumes "LENGTH('a) \<le> 8 * n"
  shows "of_le_bytes (le_bytes n x) = (x :: 'a::len word)"
proof (rule bit_word_eqI)
  fix k assume k: "k < LENGTH('a)"
  then have "k div 8 < n" using assms by (simp add: div_less_iff_less_mult)
  then show "bit (of_le_bytes (le_bytes n x) :: 'a word) k = bit x k"
    using k by (simp add: bit_of_le_bytes le_bytes_nth bit_ucast_iff bit_drop_bit_eq)
qed

lemma le_bytes_of_le_bytes:
  assumes "8 * length bs \<le> LENGTH('a::len)"
  shows "le_bytes (length bs) (of_le_bytes bs :: 'a word) = bs"
proof (rule nth_equalityI)
  fix i assume "i < length (le_bytes (length bs) (of_le_bytes bs :: 'a word))"
  then have i: "i < length bs" by simp
  have "(ucast (drop_bit (8 * i) (of_le_bytes bs :: 'a word)) :: u8) = bs ! i"
  proof (rule bit_word_eqI)
    fix k assume "k < LENGTH(8)"
    then show "bit (ucast (drop_bit (8 * i) (of_le_bytes bs :: 'a word)) :: u8) k = bit (bs ! i) k"
      using i assms by (auto simp: bit_ucast_iff bit_drop_bit_eq bit_of_le_bytes)
  qed
  then show "le_bytes (length bs) (of_le_bytes bs :: 'a word) ! i = bs ! i"
    using i by (simp add: le_bytes_nth)
qed simp

lemma aws_is_big_endian_iff [simp]: "aws_is_big_endian be \<longleftrightarrow> be"
  by (cases be) (simp_all add: aws_is_big_endian_def obj_bytes_def le_bytes_def upt_rec)

text \<open>
  On the wire an integer has its most significant byte first, whatever the host: \<open>be_bytes\<close>.
  The three integer widths share the contract \<open>net_order\<close>: conversion to network order and
  back, seen through the object representation of the host, is the big-endian byte string.
\<close>

definition be_bytes :: "nat \<Rightarrow> 'a::len word \<Rightarrow> u8 list" where
  "be_bytes n x = rev (le_bytes n x)"

definition of_be_bytes :: "u8 list \<Rightarrow> 'a::len word" where
  "of_be_bytes bs = of_le_bytes (rev bs)"

lemma length_be_bytes [simp]: "length (be_bytes n x) = n"
  by (simp add: be_bytes_def)

locale net_order =
  fixes n :: nat
    and hton :: "bool \<Rightarrow> 'a::len word \<Rightarrow> 'a word"
    and ntoh :: "bool \<Rightarrow> 'a word \<Rightarrow> 'a word"
  assumes width: "LENGTH('a) = 8 * n"
    and hton: "hton be x = host_to_net be n x"
    and ntoh: "ntoh be x = host_to_net be n x"
begin

lemma obj_bytes_hton: "obj_bytes be n (hton be x) = be_bytes n x"
  using le_bytes_of_le_bytes [of "rev (le_bytes n x)", where 'a = 'a] width
  by (simp add: hton host_to_net_def obj_bytes_def be_bytes_def byteswap_def)

lemma ntoh_obj_of_bytes:
  assumes "length bs = n"
  shows "ntoh be (obj_of_bytes be bs) = of_be_bytes bs"
  using le_bytes_of_le_bytes [of bs, where 'a = 'a] width assms
  by (simp add: ntoh host_to_net_def obj_of_bytes_def of_be_bytes_def byteswap_def)

lemma be_bytes_round_trip: "of_be_bytes (be_bytes n x) = (x :: 'a word)"
  using width by (simp add: of_be_bytes_def be_bytes_def of_le_bytes_le_bytes)

lemma of_be_bytes_round_trip:
  "length bs = n \<Longrightarrow> be_bytes n (of_be_bytes bs :: 'a word) = bs"
  using le_bytes_of_le_bytes [of "rev bs", where 'a = 'a] width by (simp add: of_be_bytes_def be_bytes_def)

lemma ntoh_hton: "ntoh be (hton be x) = x"
proof -
  have "obj_of_bytes be (obj_bytes be n (hton be x)) = hton be x"
    using width by (simp add: obj_of_bytes_def obj_bytes_def of_le_bytes_le_bytes)
  then show ?thesis
    using ntoh_obj_of_bytes [of "be_bytes n x" be]
    by (simp add: obj_bytes_hton be_bytes_round_trip)
qed

end

interpretation net16: net_order 2 aws_hton16 aws_ntoh16
  by unfold_locales (simp_all add: aws_hton16_def aws_ntoh16_def)

interpretation net32: net_order 4 aws_hton32 aws_ntoh32
  by unfold_locales (simp_all add: aws_hton32_def aws_ntoh32_def)

interpretation net64: net_order 8 aws_hton64 aws_ntoh64
  by unfold_locales (simp_all add: aws_hton64_def aws_ntoh64_def host_to_net_def)

lemma bit_byteswap:
  assumes "LENGTH('a::len) = 8 * n"
  shows "bit (byteswap n (x :: 'a word)) k \<longleftrightarrow>
    k < LENGTH('a) \<and> bit x (8 * (n - 1 - k div 8) + k mod 8)"
proof (cases "k < LENGTH('a)")
  case True
  then have "k div 8 < n" using assms by (simp add: div_less_iff_less_mult)
  then show ?thesis using True
    by (simp add: byteswap_def bit_of_le_bytes rev_nth le_bytes_nth bit_ucast_iff bit_drop_bit_eq)
qed (simp add: byteswap_def bit_of_le_bytes)

text \<open>The portable branch of aws_hton64, which swaps the two 32-bit halves and the bytes inside each,
  computes the same as the bswap instruction, on hosts of either byte order.\<close>

theorem hton64_halves_is_bswap: "aws_hton64_halves be x = aws_hton64 be x"
proof (cases be)
  case True
  then show ?thesis by (simp add: aws_hton64_halves_def aws_hton64_def)
next
  case False
  have "push_bit 32 (ucast (byteswap 4 (ucast x :: u32)) :: u64) OR
      ucast (byteswap 4 (ucast (drop_bit 32 x) :: u32)) = byteswap 8 x" (is "?l = ?r")
  proof (rule bit_word_eqI)
    fix k assume k: "k < LENGTH(64)"
    show "bit ?l k = bit ?r k"
    proof (cases "k < 32")
      case True
      then have "k div 8 < 4" by (simp add: div_less_iff_less_mult)
      then have "32 + (8 * (3 - k div 8) + k mod 8) = 8 * (7 - k div 8) + k mod 8"
        and "8 * (3 - k div 8) + k mod 8 < 32" by (simp, presburger)
      then show ?thesis using True
        by (simp add: bit_or_iff bit_push_bit_iff bit_ucast_iff bit_byteswap bit_drop_bit_eq
            add.assoc [symmetric])
    next
      case False
      then obtain j where kj: "k = j + 32" using le_Suc_ex [of 32 k] by (auto simp: add.commute)
      have d: "k div 8 = 4 + j div 8" "k mod 8 = j mod 8" using mod_mult_self1 [of j 4 8] by (simp_all add: kj)
      have j: "j < 32" using k kj by simp
      then have "j div 8 < 4" by (simp add: div_less_iff_less_mult)
      then have "8 * (3 - j div 8) + j mod 8 < 32" by presburger
      then show ?thesis using kj j d
        by (simp add: bit_or_iff bit_push_bit_iff bit_ucast_iff bit_byteswap bit_drop_bit_eq)
    qed
  qed
  then show ?thesis using False
    by (simp add: aws_hton64_halves_def aws_hton64_def host_to_net_def Let_def)
qed

end
