(* ===== verification/Tn_Byte_Buf.thy ===== *)
theory Tn_Byte_Buf
  imports Tn_Memory
begin

text \<open>
  The part of \<open>aws/common/byte_buf.h\<close> that the buffers of the program are made of: byte
  buffers, byte cursors, the branch-free bounds mask, and reading and writing bytes and
  big-endian integers.

  The source of a write is given by the bytes readable at the source pointer; copying more than
  these has no defined behaviour (\<open>None\<close>). A read returns the copied bytes, which the caller
  stores; \<open>None\<close> of the inner option is the return value \<open>false\<close>.
\<close>

record aws_byte_buf =
  bb_len :: size_t
  bb_buffer :: addr
  bb_capacity :: size_t
  bb_allocator :: addr

record aws_byte_cursor =
  cur_len :: size_t
  cur_ptr :: addr

definition SIZE_MAX :: size_t where "SIZE_MAX = - 1"

definition SIZE_HALF :: size_t where "SIZE_HALF = drop_bit 1 SIZE_MAX"

definition aws_byte_buf_from_empty_array :: "addr \<Rightarrow> size_t \<Rightarrow> aws_byte_buf" where
  "aws_byte_buf_from_empty_array bytes capacity =
     \<lparr>bb_len = 0, bb_buffer = bytes, bb_capacity = capacity, bb_allocator = 0\<rparr>"

definition aws_byte_cursor_from_buf :: "aws_byte_buf \<Rightarrow> aws_byte_cursor" where
  "aws_byte_cursor_from_buf buf = \<lparr>cur_len = bb_len buf, cur_ptr = bb_buffer buf\<rparr>"

definition aws_nospec_mask :: "size_t \<Rightarrow> size_t \<Rightarrow> size_t" where
  "aws_nospec_mask index bound =
     (let negative_mask = index OR bound;
          toobig_mask = bound - index - 1;
          combined_mask = negative_mask OR toobig_mask;
          combined_mask = (NOT combined_mask) div (SIZE_MAX - SIZE_HALF)
      in combined_mask * SIZE_MAX)"

definition aws_byte_cursor_advance ::
  "aws_byte_cursor \<Rightarrow> size_t \<Rightarrow> aws_byte_cursor \<times> aws_byte_cursor" where
  "aws_byte_cursor_advance cursor len =
     (if cur_len cursor > SIZE_HALF \<or> len > SIZE_HALF \<or> len > cur_len cursor
      then (\<lparr>cur_len = 0, cur_ptr = 0\<rparr>, cursor)
      else (\<lparr>cur_len = len, cur_ptr = cur_ptr cursor\<rparr>,
            \<lparr>cur_len = cur_len cursor - len, cur_ptr = cur_ptr cursor + len\<rparr>))"

definition aws_byte_cursor_advance_nospec ::
  "aws_byte_cursor \<Rightarrow> size_t \<Rightarrow> aws_byte_cursor \<times> aws_byte_cursor" where
  "aws_byte_cursor_advance_nospec cursor len =
     (if len \<le> cur_len cursor \<and> len \<le> SIZE_HALF \<and> cur_len cursor \<le> SIZE_HALF
      then let mask = aws_nospec_mask len (cur_len cursor + 1);
               len = len AND mask;
               ptr = cur_ptr cursor AND mask;
               clen = cur_len cursor AND mask
           in (\<lparr>cur_len = len AND mask, cur_ptr = ptr\<rparr>, \<lparr>cur_len = clen - len, cur_ptr = ptr + len\<rparr>)
      else (\<lparr>cur_len = 0, cur_ptr = 0\<rparr>, cursor))"

definition aws_byte_cursor_read ::
  "mem \<Rightarrow> aws_byte_cursor \<Rightarrow> size_t \<Rightarrow> u8 list option \<times> aws_byte_cursor" where
  "aws_byte_cursor_read m cur len =
     (let (slice, cur) = aws_byte_cursor_advance_nospec cur len
      in if cur_ptr slice \<noteq> 0 then (Some (mem_read m (cur_ptr slice) (unat len)), cur)
         else (None, cur))"

definition aws_byte_cursor_read_u8 :: "mem \<Rightarrow> aws_byte_cursor \<Rightarrow> u8 option \<times> aws_byte_cursor" where
  "aws_byte_cursor_read_u8 m cur =
     (let (rv, cur) = aws_byte_cursor_read m cur 1 in (map_option hd rv, cur))"

definition aws_byte_cursor_read_be16 ::
  "bool \<Rightarrow> mem \<Rightarrow> aws_byte_cursor \<Rightarrow> u16 option \<times> aws_byte_cursor" where
  "aws_byte_cursor_read_be16 be m cur =
     (let (rv, cur) = aws_byte_cursor_read m cur 2
      in (map_option (\<lambda>var. aws_ntoh16 be (obj_of_bytes be var)) rv, cur))"

definition aws_byte_cursor_read_be32 ::
  "bool \<Rightarrow> mem \<Rightarrow> aws_byte_cursor \<Rightarrow> u32 option \<times> aws_byte_cursor" where
  "aws_byte_cursor_read_be32 be m cur =
     (let (rv, cur) = aws_byte_cursor_read m cur 4
      in (map_option (\<lambda>var. aws_ntoh32 be (obj_of_bytes be var)) rv, cur))"

definition aws_byte_cursor_read_be64 ::
  "bool \<Rightarrow> mem \<Rightarrow> aws_byte_cursor \<Rightarrow> u64 option \<times> aws_byte_cursor" where
  "aws_byte_cursor_read_be64 be m cur =
     (let (rv, cur) = aws_byte_cursor_read m cur 8
      in (map_option (\<lambda>var. aws_ntoh64 be (obj_of_bytes be var)) rv, cur))"

definition aws_byte_buf_write ::
  "mem \<Rightarrow> aws_byte_buf \<Rightarrow> u8 list \<Rightarrow> size_t \<Rightarrow> (bool \<times> mem \<times> aws_byte_buf) option" where
  "aws_byte_buf_write m buf src len =
     (if bb_len buf > SIZE_HALF \<or> len > SIZE_HALF \<or> bb_len buf + len > bb_capacity buf
      then Some (False, m, buf)
      else if unat len \<le> length src
      then Some (True, mem_write m (bb_buffer buf + bb_len buf) (take (unat len) src),
             buf\<lparr>bb_len := bb_len buf + len\<rparr>)
      else None)"

definition aws_byte_buf_write_u8 ::
  "mem \<Rightarrow> aws_byte_buf \<Rightarrow> u8 \<Rightarrow> (bool \<times> mem \<times> aws_byte_buf) option" where
  "aws_byte_buf_write_u8 m buf c = aws_byte_buf_write m buf [c] 1"

definition aws_byte_buf_write_be16 ::
  "bool \<Rightarrow> mem \<Rightarrow> aws_byte_buf \<Rightarrow> u16 \<Rightarrow> (bool \<times> mem \<times> aws_byte_buf) option" where
  "aws_byte_buf_write_be16 be m buf x = aws_byte_buf_write m buf (obj_bytes be 2 (aws_hton16 be x)) 2"

definition aws_byte_buf_write_be32 ::
  "bool \<Rightarrow> mem \<Rightarrow> aws_byte_buf \<Rightarrow> u32 \<Rightarrow> (bool \<times> mem \<times> aws_byte_buf) option" where
  "aws_byte_buf_write_be32 be m buf x = aws_byte_buf_write m buf (obj_bytes be 4 (aws_hton32 be x)) 4"

definition aws_byte_buf_write_be64 ::
  "bool \<Rightarrow> mem \<Rightarrow> aws_byte_buf \<Rightarrow> u64 \<Rightarrow> (bool \<times> mem \<times> aws_byte_buf) option" where
  "aws_byte_buf_write_be64 be m buf x = aws_byte_buf_write m buf (obj_bytes be 8 (aws_hton64 be x)) 8"

section \<open>Bounds\<close>

lemma SIZE_HALF_eq: "SIZE_HALF = 2 ^ 63 - 1"
  by (simp add: SIZE_HALF_def SIZE_MAX_def mask_eq_exp_minus_1)

lemma unat_SIZE_HALF: "unat SIZE_HALF = 2 ^ 63 - 1"
  by (simp add: SIZE_HALF_eq)

lemma gt_SIZE_HALF_iff: "x > SIZE_HALF \<longleftrightarrow> bit x 63"
proof -
  have "bit x 63 \<longleftrightarrow> odd (unat x div 2 ^ 63)"
    using bit_unsigned_iff [of x 63, where 'a = nat] by (simp add: bit_iff_odd [of "unat x"])
  moreover have "unat x div 2 ^ 63 < 2" using unat_lt64 [of x] by (simp add: div_less_iff_less_mult)
  ultimately show ?thesis by (auto simp: word_less_nat_alt unat_SIZE_HALF less_2_cases_iff)
qed

lemma SIZE_MAX_minus_half: "SIZE_MAX - SIZE_HALF = 2 ^ 63"
  by (simp add: SIZE_MAX_def SIZE_HALF_eq)

lemma unat_bit63_not:
  assumes "\<not> bit (c :: u64) 63"
  shows "(NOT c) div 2 ^ 63 = 1"
proof -
  have "NOT c > SIZE_HALF" using assms by (simp add: gt_SIZE_HALF_iff bit_not_iff)
  then have "2 ^ 63 \<le> unat (NOT c)" by (simp add: word_less_nat_alt unat_SIZE_HALF)
  moreover have "unat (NOT c) < 2 ^ 64" by (rule unat_lt64)
  ultimately have "unat (NOT c) div 2 ^ 63 = 1"
    using div_nat_eqI [of "2 ^ 63" 1 "unat (NOT c)"] by simp
  then show ?thesis by (simp add: word_unat_eq_iff unat_div)
qed

lemma bit63_not_div:
  assumes "bit (c :: u64) 63"
  shows "(NOT c) div 2 ^ 63 = 0"
proof -
  have "\<not> NOT c > SIZE_HALF" using assms by (simp add: gt_SIZE_HALF_iff bit_not_iff)
  then have "unat (NOT c) < 2 ^ 63" by (simp add: word_less_nat_alt unat_SIZE_HALF)
  then show ?thesis by (simp add: word_unat_eq_iff unat_div)
qed

text \<open>The documented meaning of the branch-free mask.\<close>

lemma nospec_mask_eq:
  "aws_nospec_mask index bound =
     (if index \<ge> bound \<or> bound > SIZE_HALF \<or> index > SIZE_HALF then 0 else SIZE_MAX)"
proof -
  let ?c = "(index OR bound) OR (bound - index - 1)"
  have m: "aws_nospec_mask index bound = ((NOT ?c) div 2 ^ 63) * SIZE_MAX"
    by (simp add: aws_nospec_mask_def Let_def SIZE_MAX_minus_half)
  have b: "bit ?c 63 \<longleftrightarrow> index > SIZE_HALF \<or> bound > SIZE_HALF \<or> bound - index - 1 > SIZE_HALF"
    by (simp add: gt_SIZE_HALF_iff bit_or_iff disj_assoc)
  have "bound - index - 1 > SIZE_HALF \<longleftrightarrow> index \<ge> bound"
    if "\<not> index > SIZE_HALF" and "\<not> bound > SIZE_HALF"
  proof -
    have i: "unat index < 2 ^ 63" and bd: "unat bound < 2 ^ 63"
      using that by (simp_all add: word_less_nat_alt unat_SIZE_HALF)
    show ?thesis
    proof (cases "index \<ge> bound")
      case True
      then have "unat bound \<le> unat index" by (simp add: word_le_nat_alt)
      moreover have "bound - index - 1 = bound - (index + 1)" by simp
      moreover have "unat (index + 1) = unat index + 1" using i by (simp add: unat_add64)
      ultimately have "unat (bound - index - 1) = unat bound + 2 ^ 64 - (unat index + 1)"
        by (simp only: unat_sub_if') simp
      then show ?thesis using True i bd by (simp add: word_less_nat_alt unat_SIZE_HALF)
    next
      case False
      then have lt: "unat index < unat bound" by (simp add: word_le_nat_alt)
      have "bound - index - 1 = bound - (index + 1)" by simp
      moreover have "unat (index + 1) = unat index + 1" using i by (simp add: unat_add64)
      ultimately have "unat (bound - index - 1) = unat bound - (unat index + 1)"
        using lt by (simp only: unat_sub_if') simp
      then show ?thesis using False i bd by (simp add: word_less_nat_alt unat_SIZE_HALF)
    qed
  qed
  then have "bit ?c 63 \<longleftrightarrow> index \<ge> bound \<or> bound > SIZE_HALF \<or> index > SIZE_HALF"
    using b by blast
  then show ?thesis using m unat_bit63_not [of ?c] bit63_not_div [of ?c] by simp
qed

lemma advance_nospec_eq_advance:
  assumes "cur_len cursor < SIZE_HALF"
  shows "aws_byte_cursor_advance_nospec cursor len = aws_byte_cursor_advance cursor len"
proof (cases "len \<le> cur_len cursor")
  case True
  have c: "unat (cur_len cursor) < 2 ^ 63 - 1" "unat len \<le> unat (cur_len cursor)"
    using assms True by (simp_all add: word_less_nat_alt word_le_nat_alt unat_SIZE_HALF)
  then have "unat (cur_len cursor + 1) = unat (cur_len cursor) + 1" by (simp add: unat_add64)
  then have "aws_nospec_mask len (cur_len cursor + 1) = SIZE_MAX"
    using c by (simp add: nospec_mask_eq word_less_nat_alt word_le_nat_alt unat_SIZE_HALF)
  moreover have "len \<le> SIZE_HALF" "cur_len cursor \<le> SIZE_HALF"
    using c by (simp_all add: word_le_nat_alt unat_SIZE_HALF)
  ultimately show ?thesis using True
    by (simp add: aws_byte_cursor_advance_nospec_def aws_byte_cursor_advance_def SIZE_MAX_def Let_def
        linorder_not_less [symmetric] del: linorder_not_less)
next
  case False
  then show ?thesis
    by (auto simp: aws_byte_cursor_advance_nospec_def aws_byte_cursor_advance_def)
qed

lemma advance_ok:
  assumes "cur_len cursor < SIZE_HALF" and "len \<le> cur_len cursor"
  shows "aws_byte_cursor_advance cursor len =
    (\<lparr>cur_len = len, cur_ptr = cur_ptr cursor\<rparr>,
     \<lparr>cur_len = cur_len cursor - len, cur_ptr = cur_ptr cursor + len\<rparr>)"
  using assms by (simp add: aws_byte_cursor_advance_def word_less_nat_alt word_le_nat_alt)

lemma advance_short:
  assumes "len > cur_len cursor"
  shows "aws_byte_cursor_advance cursor len = (\<lparr>cur_len = 0, cur_ptr = 0\<rparr>, cursor)"
  using assms by (simp add: aws_byte_cursor_advance_def)

lemma cursor_read_ok:
  assumes "cur_len cursor < SIZE_HALF" and "len \<le> cur_len cursor" and "cur_ptr cursor \<noteq> 0"
  shows "aws_byte_cursor_read m cursor len =
    (Some (mem_read m (cur_ptr cursor) (unat len)),
     \<lparr>cur_len = cur_len cursor - len, cur_ptr = cur_ptr cursor + len\<rparr>)"
  using assms by (simp add: aws_byte_cursor_read_def advance_nospec_eq_advance advance_ok)

lemma cursor_read_short:
  assumes "len > cur_len cursor"
  shows "aws_byte_cursor_read m cursor len = (None, cursor)"
  using assms by (simp add: aws_byte_cursor_read_def aws_byte_cursor_advance_nospec_def
      linorder_not_less [symmetric] del: linorder_not_less)

lemma aws_buf_write_ok:
  assumes "unat (bb_len buf) + unat len \<le> unat (bb_capacity buf)"
    and "bb_capacity buf \<le> SIZE_HALF" and "unat len \<le> length src"
  shows "aws_byte_buf_write m buf src len =
    Some (True, mem_write m (bb_buffer buf + bb_len buf) (take (unat len) src),
      buf\<lparr>bb_len := bb_len buf + len\<rparr>)"
proof -
  have "unat (bb_capacity buf) < 2 ^ 63" using assms(2) by (simp add: word_le_nat_alt unat_SIZE_HALF)
  moreover from this have "unat (bb_len buf + len) = unat (bb_len buf) + unat len"
    using assms(1) by (simp add: unat_add64)
  ultimately show ?thesis using assms
    by (simp add: aws_byte_buf_write_def word_less_nat_alt unat_SIZE_HALF)
qed

lemma aws_buf_write_full:
  assumes "unat (bb_capacity buf) < unat (bb_len buf) + unat len"
    and "bb_len buf \<le> SIZE_HALF"
  shows "aws_byte_buf_write m buf src len = Some (False, m, buf)"
proof (cases "len > SIZE_HALF")
  case False
  then have "unat (bb_len buf + len) = unat (bb_len buf) + unat len"
    using assms(2) by (simp add: unat_add64 word_le_nat_alt word_less_nat_alt unat_SIZE_HALF)
  then show ?thesis using assms by (simp add: aws_byte_buf_write_def word_less_nat_alt)
qed (simp add: aws_byte_buf_write_def)

section \<open>Properties\<close>

text \<open>The branch-free mask has its documented meaning: 0 when the index is not below the bound or
  one of the two is above SIZE_MAX / 2, and all ones otherwise.\<close>

theorem nospec_mask_documented:
  "aws_nospec_mask index bound =
     (if index \<ge> bound \<or> bound > SIZE_HALF \<or> index > SIZE_HALF then 0 else SIZE_MAX)"
  by (rule nospec_mask_eq)

text \<open>The hardened cursor advance agrees with the plain one on every cursor shorter than SIZE_MAX / 2,
  for every length, accepted or refused; at exactly SIZE_MAX / 2, where the plain one still
  succeeds, the hardened one fails and destroys the cursor, although its comment calls the two
  identical.\<close>

theorem advance_nospec_agrees_below_half:
  "(\<forall>cursor len. cur_len cursor < SIZE_HALF \<longrightarrow>
      aws_byte_cursor_advance_nospec cursor len = aws_byte_cursor_advance cursor len) \<and>
   (\<forall>p. fst (aws_byte_cursor_advance \<lparr>cur_len = SIZE_HALF, cur_ptr = p\<rparr> 1) = \<lparr>cur_len = 1, cur_ptr = p\<rparr>) \<and>
   (\<forall>p. aws_byte_cursor_advance_nospec \<lparr>cur_len = SIZE_HALF, cur_ptr = p\<rparr> 1 =
      (\<lparr>cur_len = 0, cur_ptr = 0\<rparr>, \<lparr>cur_len = 0, cur_ptr = 0\<rparr>))"
proof (intro conjI allI impI)
  fix p
  show "fst (aws_byte_cursor_advance \<lparr>cur_len = SIZE_HALF, cur_ptr = p\<rparr> 1) = \<lparr>cur_len = 1, cur_ptr = p\<rparr>"
    by (simp add: aws_byte_cursor_advance_def SIZE_HALF_eq)
  show "aws_byte_cursor_advance_nospec \<lparr>cur_len = SIZE_HALF, cur_ptr = p\<rparr> 1 =
      (\<lparr>cur_len = 0, cur_ptr = 0\<rparr>, \<lparr>cur_len = 0, cur_ptr = 0\<rparr>)"
    by (simp add: aws_byte_cursor_advance_nospec_def nospec_mask_eq SIZE_HALF_eq)
qed (rule advance_nospec_eq_advance)

theorem advance_nospec_agrees_below_half_witness:
  "aws_byte_cursor_advance_nospec \<lparr>cur_len = 5, cur_ptr = 1000\<rparr> 2 =
     (\<lparr>cur_len = 2, cur_ptr = 1000\<rparr>, \<lparr>cur_len = 3, cur_ptr = 1002\<rparr>)"
proof -
  have "cur_len \<lparr>cur_len = 5, cur_ptr = 1000\<rparr> < SIZE_HALF" by (simp add: SIZE_HALF_eq)
  then have "aws_byte_cursor_advance_nospec \<lparr>cur_len = 5, cur_ptr = 1000\<rparr> 2 =
      aws_byte_cursor_advance \<lparr>cur_len = 5, cur_ptr = 1000\<rparr> 2"
    using advance_nospec_agrees_below_half by blast
  then show ?thesis by (simp add: aws_byte_cursor_advance_def SIZE_HALF_eq)
qed

end
