(* ===== verification/Tn_Buffer.thy ===== *)
theory Tn_Buffer
  imports Tn_Byte_Buf
begin

text \<open>
  The byte buffers of \<open>src/buffer.c\<close>: a write end (\<open>buf\<close>) and a read position (\<open>pos\<close>) in one
  block of memory.

  The abstraction of a buffer is the byte string between the read position and the write end
  (\<open>buf_unread\<close>), together with the room that is left. \<open>buf_inv\<close> says that the block lies in memory
  without wrapping around, that the read position and the unread length fit together, and that
  the sizes are below the limits of the byte cursor.

  The source of a write is the list of bytes readable at the source pointer. Buffers are passed
  as values, so the assertions that a buffer pointer is not NULL hold by construction.
\<close>

record tn_buffer_span =
  span_len :: size_t
  span_ptr :: addr

record tn_buffer =
  tb_pool :: "nat option"
  tb_buf :: aws_byte_buf
  tb_pos :: aws_byte_cursor
  tb_capacity :: size_t

section \<open>Operations\<close>

definition tn_buffer_setup :: "tn_buffer \<Rightarrow> addr \<Rightarrow> size_t \<Rightarrow> (int \<times> tn_buffer) option" where
  "tn_buffer_setup buffer src capacity = do {
     tn_assert (src \<noteq> 0 \<and> capacity \<noteq> 0);
     let buf = aws_byte_buf_from_empty_array src capacity;
     Some (TN_SUCCESS, buffer\<lparr>tb_pool := None, tb_buf := buf, tb_pos := aws_byte_cursor_from_buf buf\<rparr>)
   }"

definition tn_buffer_read ::
  "mem \<Rightarrow> tn_buffer \<Rightarrow> addr \<Rightarrow> size_t \<Rightarrow> (int \<times> mem \<times> tn_buffer) option" where
  "tn_buffer_read m buffer dst len = do {
     tn_assert (dst \<noteq> 0);
     case aws_byte_cursor_read m (tb_pos buffer) len of
       (None, pos) \<Rightarrow> Some (TN_ERROR, m, buffer\<lparr>tb_pos := pos\<rparr>)
     | (Some bytes, pos) \<Rightarrow> Some (TN_SUCCESS, mem_write m dst bytes, buffer\<lparr>tb_pos := pos\<rparr>)
   }"

definition tn_buffer_read_seek :: "tn_buffer \<Rightarrow> tn_buffer_span \<Rightarrow> (int \<times> tn_buffer) option" where
  "tn_buffer_read_seek buffer span = do {
     tn_assert (span_ptr span \<noteq> 0 \<and> span_len span \<noteq> 0);
     tn_assert (span_ptr span + span_len span < bb_buffer (tb_buf buffer) + bb_capacity (tb_buf buffer));
     Some (TN_SUCCESS, buffer\<lparr>tb_pos := \<lparr>cur_len = span_len span, cur_ptr = span_ptr span\<rparr>\<rparr>)
   }"

definition tn_buffer_read_skip :: "tn_buffer \<Rightarrow> size_t \<Rightarrow> int \<times> tn_buffer" where
  "tn_buffer_read_skip buffer len =
     (let (span, pos) = aws_byte_cursor_advance (tb_pos buffer) len
      in (if cur_ptr span \<noteq> 0 \<and> cur_len span \<noteq> 0 then TN_SUCCESS else TN_ERROR,
          buffer\<lparr>tb_pos := pos\<rparr>))"

text \<open>The common end of the four integer reads: \<open>*out_val\<close> is written only on success.\<close>

definition read_result ::
  "tn_buffer \<Rightarrow> 'w option \<times> aws_byte_cursor \<Rightarrow> int \<times> 'w option \<times> tn_buffer" where
  "read_result buffer r =
     (case r of (v, pos) \<Rightarrow> (if v = None then TN_ERROR else TN_SUCCESS, v, buffer\<lparr>tb_pos := pos\<rparr>))"

definition tn_buffer_read_u8 :: "mem \<Rightarrow> tn_buffer \<Rightarrow> int \<times> u8 option \<times> tn_buffer" where
  "tn_buffer_read_u8 m buffer = read_result buffer (aws_byte_cursor_read_u8 m (tb_pos buffer))"

definition tn_buffer_read_be16 :: "bool \<Rightarrow> mem \<Rightarrow> tn_buffer \<Rightarrow> int \<times> u16 option \<times> tn_buffer" where
  "tn_buffer_read_be16 be m buffer = read_result buffer (aws_byte_cursor_read_be16 be m (tb_pos buffer))"

definition tn_buffer_read_be32 :: "bool \<Rightarrow> mem \<Rightarrow> tn_buffer \<Rightarrow> int \<times> u32 option \<times> tn_buffer" where
  "tn_buffer_read_be32 be m buffer = read_result buffer (aws_byte_cursor_read_be32 be m (tb_pos buffer))"

definition tn_buffer_read_be64 :: "bool \<Rightarrow> mem \<Rightarrow> tn_buffer \<Rightarrow> int \<times> u64 option \<times> tn_buffer" where
  "tn_buffer_read_be64 be m buffer = read_result buffer (aws_byte_cursor_read_be64 be m (tb_pos buffer))"

text \<open>The common end of the writes: the unread length grows with the written length.\<close>

definition write_result ::
  "tn_buffer \<Rightarrow> size_t \<Rightarrow> (bool \<times> mem \<times> aws_byte_buf) option \<Rightarrow> (int \<times> mem \<times> tn_buffer) option" where
  "write_result buffer len r = do {
     (ok, m, buf) \<leftarrow> r;
     if \<not> ok then Some (TN_ERROR, m, buffer\<lparr>tb_buf := buf\<rparr>)
     else Some (TN_SUCCESS, m,
       buffer\<lparr>tb_buf := buf, tb_pos := (tb_pos buffer)\<lparr>cur_len := cur_len (tb_pos buffer) + len\<rparr>\<rparr>)
   }"

definition tn_buffer_write ::
  "mem \<Rightarrow> tn_buffer \<Rightarrow> u8 list \<Rightarrow> size_t \<Rightarrow> (int \<times> mem \<times> tn_buffer) option" where
  "tn_buffer_write m buffer src len = write_result buffer len (aws_byte_buf_write m (tb_buf buffer) src len)"

definition tn_buffer_write_u8 :: "mem \<Rightarrow> tn_buffer \<Rightarrow> u8 \<Rightarrow> (int \<times> mem \<times> tn_buffer) option" where
  "tn_buffer_write_u8 m buffer val = write_result buffer 1 (aws_byte_buf_write_u8 m (tb_buf buffer) val)"

definition tn_buffer_write_be16 ::
  "bool \<Rightarrow> mem \<Rightarrow> tn_buffer \<Rightarrow> u16 \<Rightarrow> (int \<times> mem \<times> tn_buffer) option" where
  "tn_buffer_write_be16 be m buffer val =
     write_result buffer 2 (aws_byte_buf_write_be16 be m (tb_buf buffer) val)"

definition tn_buffer_write_be32 ::
  "bool \<Rightarrow> mem \<Rightarrow> tn_buffer \<Rightarrow> u32 \<Rightarrow> (int \<times> mem \<times> tn_buffer) option" where
  "tn_buffer_write_be32 be m buffer val =
     write_result buffer 4 (aws_byte_buf_write_be32 be m (tb_buf buffer) val)"

definition tn_buffer_write_be64 ::
  "bool \<Rightarrow> mem \<Rightarrow> tn_buffer \<Rightarrow> u64 \<Rightarrow> (int \<times> mem \<times> tn_buffer) option" where
  "tn_buffer_write_be64 be m buffer val =
     write_result buffer 8 (aws_byte_buf_write_be64 be m (tb_buf buffer) val)"

definition tn_buffer_read_buffer ::
  "mem \<Rightarrow> tn_buffer \<Rightarrow> tn_buffer \<Rightarrow> size_t \<Rightarrow> (int \<times> mem \<times> tn_buffer) option" where
  "tn_buffer_read_buffer m buffer dst_buffer len =
     (let all = cur_len (tb_pos buffer); n = (if len = 0 then all else len)
      in if len \<noteq> 0 \<and> len > all then Some (TN_ERROR, m, dst_buffer)
         else do {
           (rc, m, dst_buffer) \<leftarrow>
             tn_buffer_write m dst_buffer (mem_read m (cur_ptr (tb_pos buffer)) (unat n)) n;
           if rc \<noteq> 0 then Some (TN_ERROR, m, dst_buffer) else Some (TN_SUCCESS, m, dst_buffer)
         })"

definition tn_buffer_write_buffer ::
  "mem \<Rightarrow> tn_buffer \<Rightarrow> tn_buffer \<Rightarrow> size_t \<Rightarrow> (int \<times> mem \<times> tn_buffer) option" where
  "tn_buffer_write_buffer m buffer src_buffer len = tn_buffer_read_buffer m src_buffer buffer len"

definition tn_buffer_read_reset :: "tn_buffer \<Rightarrow> tn_buffer" where
  "tn_buffer_read_reset buffer =
     buffer\<lparr>tb_pos := \<lparr>cur_len = bb_len (tb_buf buffer), cur_ptr = bb_buffer (tb_buf buffer)\<rparr>\<rparr>"

definition tn_buffer_write_reset :: "tn_buffer \<Rightarrow> tn_buffer" where
  "tn_buffer_write_reset buffer =
     tn_buffer_read_reset (buffer\<lparr>tb_buf := (tb_buf buffer)\<lparr>bb_len := 0\<rparr>\<rparr>)"

definition tn_buffer_reset :: "tn_buffer \<Rightarrow> tn_buffer" where
  "tn_buffer_reset buffer = tn_buffer_write_reset buffer"

definition tn_buffer_length :: "tn_buffer \<Rightarrow> size_t" where
  "tn_buffer_length buffer = bb_len (tb_buf buffer)"

definition tn_buffer_read_length :: "tn_buffer \<Rightarrow> size_t" where
  "tn_buffer_read_length buffer = cur_len (tb_pos buffer)"

definition tn_buffer_set_length :: "tn_buffer \<Rightarrow> size_t \<Rightarrow> int \<times> tn_buffer" where
  "tn_buffer_set_length buffer len =
     (if len > bb_capacity (tb_buf buffer) - bb_len (tb_buf buffer) then (TN_ERROR, buffer)
      else (TN_SUCCESS, buffer\<lparr>tb_buf := (tb_buf buffer)\<lparr>bb_len := len\<rparr>,
              tb_pos := (tb_pos buffer)\<lparr>cur_len := len\<rparr>\<rparr>))"

definition tn_buffer_add_length :: "tn_buffer \<Rightarrow> size_t \<Rightarrow> int \<times> tn_buffer" where
  "tn_buffer_add_length buffer len =
     (if len > bb_capacity (tb_buf buffer) - bb_len (tb_buf buffer) then (TN_ERROR, buffer)
      else (TN_SUCCESS, buffer\<lparr>tb_buf := (tb_buf buffer)\<lparr>bb_len := bb_len (tb_buf buffer) + len\<rparr>,
              tb_pos := (tb_pos buffer)\<lparr>cur_len := cur_len (tb_pos buffer) + len\<rparr>\<rparr>))"

definition tn_buffer_remaining :: "tn_buffer \<Rightarrow> size_t" where
  "tn_buffer_remaining buffer = bb_capacity (tb_buf buffer) - bb_len (tb_buf buffer)"

text \<open>The capacity is that of the pool's blocks; a buffer outside a pool has no capacity to ask for.\<close>

definition tn_buffer_capacity :: "(nat \<Rightarrow> size_t) \<Rightarrow> tn_buffer \<Rightarrow> size_t option" where
  "tn_buffer_capacity block_size buffer = map_option block_size (tb_pool buffer)"

definition tn_buffer_write_ptr :: "tn_buffer \<Rightarrow> addr" where
  "tn_buffer_write_ptr buffer = bb_buffer (tb_buf buffer) + bb_len (tb_buf buffer)"

definition tn_buffer_read_ptr :: "tn_buffer \<Rightarrow> addr" where
  "tn_buffer_read_ptr buffer = cur_ptr (tb_pos buffer)"

section \<open>Abstraction and invariant\<close>

abbreviation buf_base :: "tn_buffer \<Rightarrow> addr" where
  "buf_base b \<equiv> bb_buffer (tb_buf b)"

abbreviation buf_cap :: "tn_buffer \<Rightarrow> nat" where
  "buf_cap b \<equiv> unat (bb_capacity (tb_buf b))"

abbreviation buf_fill :: "tn_buffer \<Rightarrow> nat" where
  "buf_fill b \<equiv> unat (bb_len (tb_buf b))"

abbreviation buf_left :: "tn_buffer \<Rightarrow> nat" where
  "buf_left b \<equiv> unat (cur_len (tb_pos b))"

definition buf_content :: "mem \<Rightarrow> tn_buffer \<Rightarrow> u8 list" where
  "buf_content m b = mem_read m (buf_base b) (buf_fill b)"

definition buf_unread :: "mem \<Rightarrow> tn_buffer \<Rightarrow> u8 list" where
  "buf_unread m b = mem_read m (cur_ptr (tb_pos b)) (buf_left b)"

definition buf_inv :: "tn_buffer \<Rightarrow> bool" where
  "buf_inv b \<longleftrightarrow>
     buf_base b \<noteq> 0 \<and> unat (buf_base b) + buf_cap b < 2 ^ 64 \<and>
     bb_capacity (tb_buf b) < SIZE_HALF \<and> buf_fill b \<le> buf_cap b \<and> buf_left b \<le> buf_fill b \<and>
     cur_ptr (tb_pos b) + cur_len (tb_pos b) = buf_base b + bb_len (tb_buf b)"

text \<open>The two moves on a buffer: the write end grows, the read position advances.\<close>

definition buf_extend :: "tn_buffer \<Rightarrow> size_t \<Rightarrow> tn_buffer" where
  "buf_extend b len = b\<lparr>tb_buf := (tb_buf b)\<lparr>bb_len := bb_len (tb_buf b) + len\<rparr>,
     tb_pos := (tb_pos b)\<lparr>cur_len := cur_len (tb_pos b) + len\<rparr>\<rparr>"

definition buf_consume :: "tn_buffer \<Rightarrow> size_t \<Rightarrow> tn_buffer" where
  "buf_consume b len =
     b\<lparr>tb_pos := \<lparr>cur_len = cur_len (tb_pos b) - len, cur_ptr = cur_ptr (tb_pos b) + len\<rparr>\<rparr>"

lemma length_buf_unread [simp]: "length (buf_unread m b) = buf_left b"
  by (simp add: buf_unread_def)

lemma buf_invD:
  assumes "buf_inv b"
  shows "buf_base b \<noteq> 0" and "unat (buf_base b) + buf_cap b < 2 ^ 64"
    and "buf_fill b \<le> buf_cap b" and "buf_left b \<le> buf_fill b"
    and "cur_ptr (tb_pos b) + cur_len (tb_pos b) = buf_base b + bb_len (tb_buf b)"
    and "bb_capacity (tb_buf b) < SIZE_HALF"
  using assms by (simp_all add: buf_inv_def)

lemma buf_inv_bounds:
  assumes "buf_inv b"
  shows "bb_capacity (tb_buf b) \<le> SIZE_HALF" and "bb_len (tb_buf b) \<le> SIZE_HALF"
    and "cur_len (tb_pos b) < SIZE_HALF" and "buf_cap b < 2 ^ 63"
  using assms by (auto simp: buf_inv_def word_less_nat_alt word_le_nat_alt unat_SIZE_HALF)

lemma unat_read_ptr:
  assumes "buf_inv b"
  shows "unat (cur_ptr (tb_pos b)) = unat (buf_base b) + (buf_fill b - buf_left b)"
proof -
  have "cur_ptr (tb_pos b) = buf_base b + (bb_len (tb_buf b) - cur_len (tb_pos b))"
    using assms by (simp add: buf_inv_def algebra_simps)
  moreover have "unat (bb_len (tb_buf b) - cur_len (tb_pos b)) = buf_fill b - buf_left b"
    using assms by (simp add: buf_inv_def unat_sub64)
  ultimately show ?thesis using buf_invD [OF assms] by (simp add: unat_add64)
qed

lemma read_ptr_nonnull:
  assumes "buf_inv b"
  shows "cur_ptr (tb_pos b) \<noteq> 0"
proof -
  have "0 < unat (buf_base b)" using assms by (simp add: buf_inv_def unat_gt_0)
  then show ?thesis using unat_read_ptr [OF assms] by auto
qed

lemma write_ptr_eq:
  assumes "buf_inv b"
  shows "tn_buffer_write_ptr b = cur_ptr (tb_pos b) + cur_len (tb_pos b)"
  using assms by (simp add: tn_buffer_write_ptr_def buf_inv_def)

lemma unat_write_ptr:
  assumes "buf_inv b"
  shows "unat (tn_buffer_write_ptr b) = unat (buf_base b) + buf_fill b"
  using assms by (simp add: tn_buffer_write_ptr_def buf_inv_def unat_add64)

lemma buf_extend_sizes:
  assumes "buf_inv b" and "buf_fill b + unat len \<le> buf_cap b"
  shows "buf_fill (buf_extend b len) = buf_fill b + unat len"
    and "buf_left (buf_extend b len) = buf_left b + unat len"
    and "buf_cap (buf_extend b len) = buf_cap b" and "buf_base (buf_extend b len) = buf_base b"
    and "tb_pool (buf_extend b len) = tb_pool b"
    and "cur_ptr (tb_pos (buf_extend b len)) = cur_ptr (tb_pos b)"
  using assms buf_inv_bounds(4) [OF assms(1)]
  by (simp_all add: buf_extend_def buf_inv_def unat_add64)

lemma buf_extend_inv:
  assumes "buf_inv b" and "buf_fill b + unat len \<le> buf_cap b"
  shows "buf_inv (buf_extend b len)"
  using assms buf_extend_sizes [OF assms]
  by (simp add: buf_inv_def) (simp add: buf_extend_def algebra_simps)

lemma buf_unread_extend:
  assumes "buf_inv b" and "buf_fill b + unat len \<le> buf_cap b" and "length bs = unat len"
  shows "buf_unread (mem_write m (tn_buffer_write_ptr b) bs) (buf_extend b len) = buf_unread m b @ bs"
proof -
  let ?p = "cur_ptr (tb_pos b)"
  let ?m = "mem_write m (?p + of_nat (buf_left b)) bs"
  have w: "tn_buffer_write_ptr b = ?p + of_nat (buf_left b)" using assms(1) by (simp add: write_ptr_eq)
  have b: "buf_left b + length bs \<le> 2 ^ 64" "length bs \<le> 2 ^ 64"
    using assms buf_inv_bounds(4) [OF assms(1)] by (simp_all add: buf_inv_def)
  have "mem_read ?m (?p + of_nat (buf_left b)) (unat len) = bs"
    using mem_read_write_same [OF b(2)] assms(3) by simp
  moreover have "mem_read ?m ?p (buf_left b) = mem_read m ?p (buf_left b)"
    by (rule mem_read_write_behind [OF b(1)])
  ultimately show ?thesis
    by (simp only: buf_unread_def buf_extend_sizes [OF assms(1,2)] mem_read_add w)
qed

lemma buf_consume_inv:
  assumes "buf_inv b" and "unat len \<le> buf_left b"
  shows "buf_inv (buf_consume b len)" and "buf_left (buf_consume b len) = buf_left b - unat len"
    and "buf_unread m (buf_consume b len) = drop (unat len) (buf_unread m b)"
    and "tb_buf (buf_consume b len) = tb_buf b" and "tb_pool (buf_consume b len) = tb_pool b"
proof -
  have left: "buf_left (buf_consume b len) = buf_left b - unat len"
    using assms(2) by (simp add: buf_consume_def unat_sub64)
  show "buf_left (buf_consume b len) = buf_left b - unat len" by (rule left)
  show "buf_unread m (buf_consume b len) = drop (unat len) (buf_unread m b)"
    using left by (simp add: buf_unread_def drop_mem_read) (simp add: buf_consume_def)
  show "buf_inv (buf_consume b len)"
    using assms(1) left buf_invD(4) [OF assms(1)] by (simp add: buf_inv_def) (simp add: buf_consume_def)
qed (simp_all add: buf_consume_def)

lemma buf_write_ok:
  assumes "buf_inv b" and "buf_fill b + unat len \<le> buf_cap b" and "unat len \<le> length src"
  shows "tn_buffer_write m b src len =
    Some (TN_SUCCESS, mem_write m (tn_buffer_write_ptr b) (take (unat len) src), buf_extend b len)"
  using assms aws_buf_write_ok [of "tb_buf b" len src m] buf_inv_bounds(1) [OF assms(1)]
  by (simp add: tn_buffer_write_def write_result_def buf_extend_def tn_buffer_write_ptr_def)

lemma buf_write_full:
  assumes "buf_inv b" and "buf_cap b < buf_fill b + unat len"
  shows "tn_buffer_write m b src len = Some (TN_ERROR, m, b)"
  using assms aws_buf_write_full [of "tb_buf b" len m src] buf_inv_bounds(2) [OF assms(1)]
  by (simp add: tn_buffer_write_def write_result_def)

lemma buf_read_ok:
  assumes "buf_inv b" and "unat len \<le> buf_left b" and "dst \<noteq> 0"
  shows "tn_buffer_read m b dst len =
    Some (TN_SUCCESS, mem_write m dst (take (unat len) (buf_unread m b)), buf_consume b len)"
  using assms cursor_read_ok [of "tb_pos b" len m] buf_inv_bounds(3) [OF assms(1)] read_ptr_nonnull [OF assms(1)]
  by (simp add: tn_buffer_read_def buf_consume_def buf_unread_def take_mem_read word_le_nat_alt)

lemma buf_read_short:
  assumes "buf_left b < unat len" and "dst \<noteq> 0"
  shows "tn_buffer_read m b dst len = Some (TN_ERROR, m, b)"
  using assms by (simp add: tn_buffer_read_def cursor_read_short word_less_nat_alt)

lemma read_skip_ok:
  assumes "buf_inv b" and "unat len \<le> buf_left b"
  shows "tn_buffer_read_skip b len = (if len = 0 then TN_ERROR else TN_SUCCESS, buf_consume b len)"
  using assms advance_ok [of "tb_pos b" len] buf_inv_bounds(3) [OF assms(1)] read_ptr_nonnull [OF assms(1)]
  by (simp add: tn_buffer_read_skip_def buf_consume_def word_le_nat_alt)

lemma read_skip_short:
  assumes "buf_left b < unat len"
  shows "tn_buffer_read_skip b len = (TN_ERROR, b)"
  using assms by (simp add: tn_buffer_read_skip_def advance_short word_less_nat_alt)

lemma buf_add_length_ok:
  assumes "buf_inv b" and "buf_fill b + unat len \<le> buf_cap b"
  shows "tn_buffer_add_length b len = (TN_SUCCESS, buf_extend b len)"
proof -
  have "unat (bb_capacity (tb_buf b) - bb_len (tb_buf b)) = buf_cap b - buf_fill b"
    using assms(1) by (simp add: buf_inv_def unat_sub64)
  then show ?thesis using assms(2)
    by (simp add: tn_buffer_add_length_def buf_extend_def word_less_nat_alt)
qed

lemma buf_add_length_full:
  assumes "buf_inv b" and "buf_cap b < buf_fill b + unat len"
  shows "tn_buffer_add_length b len = (TN_ERROR, b)"
proof -
  have "unat (bb_capacity (tb_buf b) - bb_len (tb_buf b)) = buf_cap b - buf_fill b"
    using assms(1) by (simp add: buf_inv_def unat_sub64)
  moreover have "buf_cap b - buf_fill b < unat len" using assms(2) buf_invD(3) [OF assms(1)] by linarith
  ultimately show ?thesis by (simp add: tn_buffer_add_length_def word_less_nat_alt)
qed

lemma buf_reset_inv:
  assumes "buf_base b \<noteq> 0" and "unat (buf_base b) + buf_cap b < 2 ^ 64"
    and "bb_capacity (tb_buf b) < SIZE_HALF"
  shows "buf_inv (tn_buffer_reset b)" and "buf_unread m (tn_buffer_reset b) = []"
    and "buf_fill (tn_buffer_reset b) = 0" and "buf_cap (tn_buffer_reset b) = buf_cap b"
    and "buf_base (tn_buffer_reset b) = buf_base b" and "tb_pool (tn_buffer_reset b) = tb_pool b"
  using assms
  by (simp_all add: buf_inv_def tn_buffer_reset_def tn_buffer_write_reset_def tn_buffer_read_reset_def
      buf_unread_def)

lemma buf_read_reset_inv:
  assumes "buf_inv b"
  shows "buf_inv (tn_buffer_read_reset b)"
    and "buf_unread m (tn_buffer_read_reset b) = buf_content m b"
  using assms by (simp_all add: buf_inv_def tn_buffer_read_reset_def buf_unread_def buf_content_def)

lemma buf_setup_ok:
  assumes "src \<noteq> 0" and "capacity \<noteq> 0" and "unat src + unat capacity < 2 ^ 64" and "capacity < SIZE_HALF"
  shows "\<exists>b'. tn_buffer_setup b src capacity = Some (TN_SUCCESS, b') \<and> buf_inv b' \<and>
    buf_base b' = src \<and> bb_capacity (tb_buf b') = capacity \<and> buf_fill b' = 0 \<and> tb_pool b' = None \<and>
    tb_capacity b' = tb_capacity b"
  using assms
  by (simp add: tn_buffer_setup_def buf_inv_def aws_byte_buf_from_empty_array_def
      aws_byte_cursor_from_buf_def)

section \<open>Integer fields\<close>

text \<open>
  What the four integer accessors have in common: a width, an encoding and its inverse. Writing
  is writing the encoding, reading is reading that many bytes and decoding them.
\<close>

locale buf_field =
  fixes n :: nat
    and enc :: "'w \<Rightarrow> u8 list"
    and dec :: "u8 list \<Rightarrow> 'w"
    and wr :: "bool \<Rightarrow> mem \<Rightarrow> tn_buffer \<Rightarrow> 'w \<Rightarrow> (int \<times> mem \<times> tn_buffer) option"
    and rd :: "bool \<Rightarrow> mem \<Rightarrow> tn_buffer \<Rightarrow> int \<times> 'w option \<times> tn_buffer"
  assumes small: "n < 2 ^ 64"
    and length_enc: "length (enc x) = n"
    and dec_enc: "dec (enc x) = x"
    and wr_eq: "wr be m b x = tn_buffer_write m b (enc x) (of_nat n)"
    and rd_eq: "rd be m b = read_result b
      (case aws_byte_cursor_read m (tb_pos b) (of_nat n) of (r, pos) \<Rightarrow> (map_option dec r, pos))"
begin

lemma unat_n: "unat (of_nat n :: u64) = n"
  using small by (rule unat_of_nat64)

lemma wr_ok:
  assumes "buf_inv b" and "buf_fill b + n \<le> buf_cap b"
  shows "\<exists>m' b'. wr be m b x = Some (TN_SUCCESS, m', b') \<and> buf_inv b' \<and>
    buf_unread m' b' = buf_unread m b @ enc x \<and> buf_fill b' = buf_fill b + n \<and>
    buf_cap b' = buf_cap b \<and> buf_base b' = buf_base b"
  using assms buf_write_ok [of b "of_nat n" "enc x" m] buf_extend_inv [of b "of_nat n"]
    buf_unread_extend [of b "of_nat n" "enc x" m] buf_extend_sizes [of b "of_nat n"]
  by (simp add: wr_eq unat_n length_enc)

lemma wr_full:
  assumes "buf_inv b" and "buf_cap b < buf_fill b + n"
  shows "wr be m b x = Some (TN_ERROR, m, b)"
  using assms buf_write_full [of b "of_nat n" m "enc x"] by (simp add: wr_eq unat_n)

lemma rd_ok:
  assumes "buf_inv b" and "n \<le> buf_left b"
  shows "rd be m b = (TN_SUCCESS, Some (dec (take n (buf_unread m b))), buf_consume b (of_nat n))"
  using assms cursor_read_ok [of "tb_pos b" "of_nat n" m] buf_inv_bounds(3) [OF assms(1)]
    read_ptr_nonnull [OF assms(1)]
  by (simp add: rd_eq read_result_def buf_consume_def buf_unread_def take_mem_read word_le_nat_alt unat_n)

lemma rd_short:
  assumes "buf_left b < n"
  shows "rd be m b = (TN_ERROR, None, b)"
  using assms by (simp add: rd_eq read_result_def cursor_read_short word_less_nat_alt unat_n)

lemma rd_enc:
  assumes "buf_inv b" and "buf_unread m b = enc x @ rest"
  shows "\<exists>b'. rd be m b = (TN_SUCCESS, Some x, b') \<and> buf_inv b' \<and> buf_unread m b' = rest \<and>
    tb_buf b' = tb_buf b"
proof -
  have "buf_left b = n + length rest" using arg_cong [OF assms(2), of length] by (simp add: length_enc)
  then have n: "n \<le> buf_left b" by simp
  then show ?thesis
    using rd_ok [OF assms(1) n] buf_consume_inv [OF assms(1), of "of_nat n"] assms(2)
    by (simp add: unat_n length_enc dec_enc)
qed

end

lemma read_cursor_length:
  "aws_byte_cursor_read m cur len = (Some bs, cur') \<Longrightarrow> length bs = unat len"
  by (auto simp: aws_byte_cursor_read_def split: prod.splits if_splits)

interpretation f8: buf_field 1 "\<lambda>x. [x]" hd "\<lambda>be. tn_buffer_write_u8" "\<lambda>be. tn_buffer_read_u8"
  by unfold_locales
    (simp_all add: tn_buffer_write_u8_def tn_buffer_write_def aws_byte_buf_write_u8_def
      tn_buffer_read_u8_def aws_byte_cursor_read_u8_def)

context net_order
begin

lemma cursor_read_net:
  assumes "unat len = n"
  shows "(let (rv, cur) = aws_byte_cursor_read m cur len
      in (map_option (\<lambda>var. ntoh be (obj_of_bytes be var)) rv, cur)) =
    (case aws_byte_cursor_read m cur len of (rv, cur) \<Rightarrow> (map_option of_be_bytes rv, cur))"
  using assms read_cursor_length [of m cur len]
  by (cases "aws_byte_cursor_read m cur len") (auto simp: ntoh_obj_of_bytes intro: option.map_cong0)

end

interpretation f16: buf_field 2 "be_bytes 2" of_be_bytes tn_buffer_write_be16 tn_buffer_read_be16
  by unfold_locales
    (simp_all add: tn_buffer_write_be16_def tn_buffer_write_def aws_byte_buf_write_be16_def
      net16.obj_bytes_hton net16.be_bytes_round_trip tn_buffer_read_be16_def
      aws_byte_cursor_read_be16_def net16.cursor_read_net)

interpretation f32: buf_field 4 "be_bytes 4" of_be_bytes tn_buffer_write_be32 tn_buffer_read_be32
  by unfold_locales
    (simp_all add: tn_buffer_write_be32_def tn_buffer_write_def aws_byte_buf_write_be32_def
      net32.obj_bytes_hton net32.be_bytes_round_trip tn_buffer_read_be32_def
      aws_byte_cursor_read_be32_def net32.cursor_read_net)

interpretation f64: buf_field 8 "be_bytes 8" of_be_bytes tn_buffer_write_be64 tn_buffer_read_be64
  by unfold_locales
    (simp_all add: tn_buffer_write_be64_def tn_buffer_write_def aws_byte_buf_write_be64_def
      net64.obj_bytes_hton net64.be_bytes_round_trip tn_buffer_read_be64_def
      aws_byte_cursor_read_be64_def net64.cursor_read_net)

text \<open>Messages: a sequence of integer fields written by one host and read by another.\<close>

datatype field_width = W8 | W16 | W32 | W64

datatype field_val = V8 u8 | V16 u16 | V32 u32 | V64 u64

fun width_of :: "field_val \<Rightarrow> field_width" where
  "width_of (V8 _) = W8" | "width_of (V16 _) = W16" | "width_of (V32 _) = W32" | "width_of (V64 _) = W64"

fun wire :: "field_val \<Rightarrow> u8 list" where
  "wire (V8 x) = [x]" | "wire (V16 x) = be_bytes 2 x" | "wire (V32 x) = be_bytes 4 x"
| "wire (V64 x) = be_bytes 8 x"

fun write_field :: "bool \<Rightarrow> mem \<Rightarrow> tn_buffer \<Rightarrow> field_val \<Rightarrow> (int \<times> mem \<times> tn_buffer) option" where
  "write_field be m b (V8 x) = tn_buffer_write_u8 m b x"
| "write_field be m b (V16 x) = tn_buffer_write_be16 be m b x"
| "write_field be m b (V32 x) = tn_buffer_write_be32 be m b x"
| "write_field be m b (V64 x) = tn_buffer_write_be64 be m b x"

fun read_field :: "bool \<Rightarrow> mem \<Rightarrow> tn_buffer \<Rightarrow> field_width \<Rightarrow> int \<times> field_val option \<times> tn_buffer" where
  "read_field be m b W8 = (case tn_buffer_read_u8 m b of (rc, v, b) \<Rightarrow> (rc, map_option V8 v, b))"
| "read_field be m b W16 = (case tn_buffer_read_be16 be m b of (rc, v, b) \<Rightarrow> (rc, map_option V16 v, b))"
| "read_field be m b W32 = (case tn_buffer_read_be32 be m b of (rc, v, b) \<Rightarrow> (rc, map_option V32 v, b))"
| "read_field be m b W64 = (case tn_buffer_read_be64 be m b of (rc, v, b) \<Rightarrow> (rc, map_option V64 v, b))"

fun write_fields :: "bool \<Rightarrow> mem \<Rightarrow> tn_buffer \<Rightarrow> field_val list \<Rightarrow> (int \<times> mem \<times> tn_buffer) option" where
  "write_fields be m b [] = Some (TN_SUCCESS, m, b)"
| "write_fields be m b (v # vs) = do {
     (rc, m, b) \<leftarrow> write_field be m b v;
     if rc \<noteq> 0 then Some (rc, m, b) else write_fields be m b vs
   }"

fun read_fields :: "bool \<Rightarrow> mem \<Rightarrow> tn_buffer \<Rightarrow> field_width list \<Rightarrow> int \<times> field_val list \<times> tn_buffer" where
  "read_fields be m b [] = (TN_SUCCESS, [], b)"
| "read_fields be m b (w # ws) =
     (case read_field be m b w of
        (rc, None, b) \<Rightarrow> (rc, [], b)
      | (rc, Some v, b) \<Rightarrow> (case read_fields be m b ws of (rc, vs, b) \<Rightarrow> (rc, v # vs, b)))"

lemma write_field_ok:
  assumes "buf_inv b" and "buf_fill b + length (wire v) \<le> buf_cap b"
  shows "\<exists>m' b'. write_field be m b v = Some (TN_SUCCESS, m', b') \<and> buf_inv b' \<and>
    buf_unread m' b' = buf_unread m b @ wire v \<and> buf_fill b' = buf_fill b + length (wire v) \<and>
    buf_cap b' = buf_cap b"
proof (cases v)
  case (V8 x)
  then show ?thesis using assms f8.wr_ok [of b m x] by auto
next
  case (V16 x)
  then show ?thesis using assms f16.wr_ok [of b be m x] by auto
next
  case (V32 x)
  then show ?thesis using assms f32.wr_ok [of b be m x] by auto
next
  case (V64 x)
  then show ?thesis using assms f64.wr_ok [of b be m x] by auto
qed

lemma read_field_ok:
  assumes "buf_inv b" and "buf_unread m b = wire v @ rest"
  shows "\<exists>b'. read_field be m b (width_of v) = (TN_SUCCESS, Some v, b') \<and> buf_inv b' \<and>
    buf_unread m b' = rest"
proof (cases v)
  case (V8 x)
  then show ?thesis using assms f8.rd_enc [of b m x rest] by auto
next
  case (V16 x)
  then show ?thesis using assms f16.rd_enc [of b m x rest be] by auto
next
  case (V32 x)
  then show ?thesis using assms f32.rd_enc [of b m x rest be] by auto
next
  case (V64 x)
  then show ?thesis using assms f64.rd_enc [of b m x rest be] by auto
qed

lemma write_fields_ok:
  assumes "buf_inv b" and "buf_fill b + length (concat (map wire vs)) \<le> buf_cap b"
  shows "\<exists>m' b'. write_fields be m b vs = Some (TN_SUCCESS, m', b') \<and> buf_inv b' \<and>
    buf_unread m' b' = buf_unread m b @ concat (map wire vs)"
  using assms
proof (induction vs arbitrary: m b)
  case Nil
  then show ?case by simp
next
  case (Cons v vs)
  then obtain m1 b1 where w: "write_field be m b v = Some (TN_SUCCESS, m1, b1)" "buf_inv b1"
    "buf_unread m1 b1 = buf_unread m b @ wire v" "buf_fill b1 = buf_fill b + length (wire v)"
    "buf_cap b1 = buf_cap b"
    using write_field_ok [of b v be m] by auto
  then have "buf_fill b1 + length (concat (map wire vs)) \<le> buf_cap b1" using Cons.prems by simp
  from Cons.IH [OF w(2) this, of m1] w(1,3) show ?case by auto
qed

lemma read_fields_ok:
  assumes "buf_inv b" and "buf_unread m b = concat (map wire vs) @ rest"
  shows "\<exists>b'. read_fields be m b (map width_of vs) = (TN_SUCCESS, vs, b') \<and> buf_inv b' \<and>
    buf_unread m b' = rest"
  using assms
proof (induction vs arbitrary: b)
  case Nil
  then show ?case by simp
next
  case (Cons v vs)
  then obtain b1 where r: "read_field be m b (width_of v) = (TN_SUCCESS, Some v, b1)" "buf_inv b1"
    "buf_unread m b1 = concat (map wire vs) @ rest"
    using read_field_ok [of b m v "concat (map wire vs) @ rest" be] by auto
  from Cons.IH [OF r(2,3)] r(1) show ?case by auto
qed

section \<open>Refinement of a byte stream\<close>

text \<open>
  The abstract buffer: the written bytes and a position in them. Reads store into memory at a
  destination \<open>dst\<close>; the abstract result of a read is the list of bytes found there afterwards.
\<close>

datatype buf_op = Op_write "u8 list" | Op_read nat | Op_skip nat | Op_rewind | Op_reset

record stream =
  st_bytes :: "u8 list"
  st_pos :: nat

fun stream_spec :: "nat \<Rightarrow> stream \<Rightarrow> buf_op \<Rightarrow> (int \<times> u8 list) \<times> stream" where
  "stream_spec cap s (Op_write bs) =
     (if length (st_bytes s) + length bs \<le> cap
      then ((TN_SUCCESS, []), s\<lparr>st_bytes := st_bytes s @ bs\<rparr>) else ((TN_ERROR, []), s))"
| "stream_spec cap s (Op_read n) =
     (if n \<le> length (st_bytes s) - st_pos s
      then ((TN_SUCCESS, take n (drop (st_pos s) (st_bytes s))), s\<lparr>st_pos := st_pos s + n\<rparr>)
      else ((TN_ERROR, []), s))"
| "stream_spec cap s (Op_skip n) =
     (if 0 < n \<and> n \<le> length (st_bytes s) - st_pos s
      then ((TN_SUCCESS, []), s\<lparr>st_pos := st_pos s + n\<rparr>) else ((TN_ERROR, []), s))"
| "stream_spec cap s Op_rewind = ((TN_SUCCESS, []), s\<lparr>st_pos := 0\<rparr>)"
| "stream_spec cap s Op_reset = ((TN_SUCCESS, []), \<lparr>st_bytes = [], st_pos = 0\<rparr>)"

fun stream_run :: "nat \<Rightarrow> stream \<Rightarrow> buf_op list \<Rightarrow> (int \<times> u8 list) list" where
  "stream_run cap s [] = []"
| "stream_run cap s (op # ops) =
     (let (out, s) = stream_spec cap s op in out # stream_run cap s ops)"

text \<open>The same calls on the buffer.\<close>

fun buf_exec :: "addr \<Rightarrow> mem \<Rightarrow> tn_buffer \<Rightarrow> buf_op \<Rightarrow> ((int \<times> u8 list) \<times> mem \<times> tn_buffer) option" where
  "buf_exec dst m b (Op_write bs) =
     do { (rc, m, b) \<leftarrow> tn_buffer_write m b bs (of_nat (length bs)); Some ((rc, []), m, b) }"
| "buf_exec dst m b (Op_read n) = do {
     (rc, m, b) \<leftarrow> tn_buffer_read m b dst (of_nat n);
     Some ((rc, if rc = 0 then mem_read m dst n else []), m, b)
   }"
| "buf_exec dst m b (Op_skip n) = (let (rc, b) = tn_buffer_read_skip b (of_nat n) in Some ((rc, []), m, b))"
| "buf_exec dst m b Op_rewind = Some ((TN_SUCCESS, []), m, tn_buffer_read_reset b)"
| "buf_exec dst m b Op_reset = Some ((TN_SUCCESS, []), m, tn_buffer_reset b)"

fun buf_run :: "addr \<Rightarrow> mem \<Rightarrow> tn_buffer \<Rightarrow> buf_op list \<Rightarrow> (int \<times> u8 list) list option" where
  "buf_run dst m b [] = Some []"
| "buf_run dst m b (op # ops) = do {
     (out, m, b) \<leftarrow> buf_exec dst m b op;
     outs \<leftarrow> buf_run dst m b ops;
     Some (out # outs)
   }"

definition op_small :: "buf_op \<Rightarrow> bool" where
  "op_small op = (case op of Op_write bs \<Rightarrow> length bs < 2 ^ 64 | Op_read n \<Rightarrow> n < 2 ^ 64
     | Op_skip n \<Rightarrow> n < 2 ^ 64 | _ \<Rightarrow> True)"

definition buf_abs :: "mem \<Rightarrow> tn_buffer \<Rightarrow> stream" where
  "buf_abs m b = \<lparr>st_bytes = buf_content m b, st_pos = buf_fill b - buf_left b\<rparr>"

text \<open>The destination of the reads lies outside the buffer's block.\<close>

definition dst_apart :: "addr \<Rightarrow> tn_buffer \<Rightarrow> bool" where
  "dst_apart dst b \<longleftrightarrow> dst \<noteq> 0 \<and> unat dst + buf_cap b \<le> 2 ^ 64 \<and>
     (unat dst + buf_cap b \<le> unat (buf_base b) \<or> unat (buf_base b) + buf_cap b \<le> unat dst)"

lemma length_buf_content [simp]: "length (buf_content m b) = buf_fill b"
  by (simp add: buf_content_def)

lemma buf_unread_content:
  assumes "buf_inv b"
  shows "buf_unread m b = drop (buf_fill b - buf_left b) (buf_content m b)"
proof -
  have "cur_ptr (tb_pos b) = buf_base b + of_nat (buf_fill b - buf_left b)"
    using buf_invD(4,5) [OF assms] by (simp add: of_nat_diff algebra_simps)
  then show ?thesis using buf_invD(4) [OF assms]
    by (simp only: buf_content_def drop_mem_read buf_unread_def) simp
qed

lemma buf_content_extend:
  assumes "buf_inv b" and "buf_fill b + unat len \<le> buf_cap b" and "length bs = unat len"
  shows "buf_content (mem_write m (tn_buffer_write_ptr b) bs) (buf_extend b len) = buf_content m b @ bs"
proof -
  have w: "tn_buffer_write_ptr b = buf_base b + of_nat (buf_fill b)" by (simp add: tn_buffer_write_ptr_def)
  have b: "buf_fill b + length bs \<le> 2 ^ 64" "length bs \<le> 2 ^ 64"
    using assms buf_inv_bounds(4) [OF assms(1)] by simp_all
  show ?thesis
    using mem_read_write_same [OF b(2), of m "buf_base b + of_nat (buf_fill b)"]
      mem_read_write_behind [OF b(1), of m "buf_base b"] assms(3)
    by (simp only: buf_content_def buf_extend_sizes [OF assms(1,2)] mem_read_add w)
qed

lemma buf_content_apart:
  assumes "buf_inv b" and "dst_apart dst b" and "length bs \<le> buf_cap b"
  shows "buf_content (mem_write m dst bs) b = buf_content m b"
  unfolding buf_content_def
  by (rule mem_read_write_disjoint)
    (use assms buf_invD [OF assms(1)] in \<open>auto simp: dst_apart_def\<close>)

lemma buf_consume_0 [simp]: "buf_consume b 0 = b"
  by (simp add: buf_consume_def)

lemma buf_abs_consume:
  assumes "buf_inv b" and "unat len \<le> buf_left b"
  shows "buf_abs m (buf_consume b len) = (buf_abs m b)\<lparr>st_pos := buf_fill b - buf_left b + unat len\<rparr>"
    and "dst_apart dst (buf_consume b len) = dst_apart dst b"
    and "buf_cap (buf_consume b len) = buf_cap b"
proof -
  have "buf_fill b - (buf_left b - unat len) = buf_fill b - buf_left b + unat len"
    using assms(2) buf_invD(4) [OF assms(1)] by linarith
  then show "buf_abs m (buf_consume b len) = (buf_abs m b)\<lparr>st_pos := buf_fill b - buf_left b + unat len\<rparr>"
    using buf_consume_inv(2,4) [OF assms] by (simp add: buf_abs_def buf_content_def)
qed (use buf_consume_inv(4) [OF assms] in \<open>simp_all add: dst_apart_def\<close>)

text \<open>One operation gives the result of the stream and keeps the invariant.\<close>

definition op_refines :: "addr \<Rightarrow> mem \<Rightarrow> tn_buffer \<Rightarrow> buf_op \<Rightarrow> bool" where
  "op_refines dst m b op \<longleftrightarrow>
     (\<exists>m' b'. buf_exec dst m b op = Some (fst (stream_spec (buf_cap b) (buf_abs m b) op), m', b') \<and>
       buf_abs m' b' = snd (stream_spec (buf_cap b) (buf_abs m b) op) \<and> buf_inv b' \<and> dst_apart dst b' \<and> buf_cap b' = buf_cap b)"

lemma write_refines:
  assumes "buf_inv b" and "dst_apart dst b" and "op_small (Op_write bs)"
  shows "op_refines dst m b (Op_write bs)"
proof -
  have n: "unat (of_nat (length bs) :: u64) = length bs"
    using assms(3) by (intro unat_of_nat64) (simp add: op_small_def)
  show ?thesis
  proof (cases "buf_fill b + length bs \<le> buf_cap b")
    case True
    let ?b = "buf_extend b (of_nat (length bs))"
    have "buf_fill ?b - buf_left ?b = buf_fill b - buf_left b"
      using True n buf_extend_sizes [OF assms(1), of "of_nat (length bs)"] by simp
    then show ?thesis
      using True n assms(1,2) buf_write_ok [of b "of_nat (length bs)" bs m]
        buf_extend_inv [of b "of_nat (length bs)"] buf_extend_sizes [of b "of_nat (length bs)"]
        buf_content_extend [of b "of_nat (length bs)" bs m]
      by (simp add: op_refines_def buf_abs_def dst_apart_def)
  next
    case False
    then show ?thesis using n assms buf_write_full [of b "of_nat (length bs)" m bs]
      by (simp add: op_refines_def buf_abs_def)
  qed
qed

lemma read_refines:
  assumes "buf_inv b" and "dst_apart dst b" and "op_small (Op_read k)"
  shows "op_refines dst m b (Op_read k)"
proof -
  have n: "unat (of_nat k :: u64) = k" using assms(3) by (intro unat_of_nat64) (simp add: op_small_def)
  have d: "dst \<noteq> 0" using assms(2) by (simp add: dst_apart_def)
  have sizes: "buf_left b \<le> buf_fill b" "buf_fill b \<le> buf_cap b" using buf_invD [OF assms(1)] by simp_all
  show ?thesis
  proof (cases "k \<le> buf_left b")
    case True
    let ?bs = "take k (buf_unread m b)"
    have len: "length ?bs = k" using True by simp
    have k: "k \<le> buf_cap b" "k \<le> 2 ^ 64" using True sizes unat_lt64 [of "bb_capacity (tb_buf b)"] by linarith+
    have "mem_read (mem_write m dst ?bs) dst k = ?bs"
      using mem_read_write_same [of ?bs m dst] len k(2) by simp
    then show ?thesis
      using True n d sizes assms(1,2) buf_read_ok [of b "of_nat k" dst m] k(1)
        buf_consume_inv(1) [of b "of_nat k"] buf_abs_consume [of b "of_nat k"]
        buf_content_apart [OF assms(1,2), of ?bs m] len buf_unread_content [OF assms(1), of m]
      by (simp add: op_refines_def buf_abs_def del: of_nat_diff)
  next
    case False
    then show ?thesis using n d assms sizes buf_read_short [of b "of_nat k" dst m]
      by (simp add: op_refines_def buf_abs_def)
  qed
qed

lemma skip_refines:
  assumes "buf_inv b" and "dst_apart dst b" and "op_small (Op_skip k)"
  shows "op_refines dst m b (Op_skip k)"
proof -
  have n: "unat (of_nat k :: u64) = k" using assms(3) by (intro unat_of_nat64) (simp add: op_small_def)
  have sizes: "buf_left b \<le> buf_fill b" using buf_invD [OF assms(1)] by simp
  have z: "(of_nat k :: u64) = 0 \<longleftrightarrow> k = 0" using n unat_eq_zero [of "of_nat k :: u64"] by simp
  show ?thesis
  proof (cases "k \<le> buf_left b")
    case True
    show ?thesis
    proof (cases "k = 0")
      case True
      then show ?thesis
        using assms read_skip_ok [of b 0] by (simp add: op_refines_def buf_abs_def)
    next
      case False
      then show ?thesis
        using True n z sizes assms(1,2) read_skip_ok [of b "of_nat k"]
          buf_consume_inv(1) [of b "of_nat k"] buf_abs_consume [of b "of_nat k"]
        by (simp add: op_refines_def buf_abs_def)
    qed
  next
    case False
    then show ?thesis using n assms sizes read_skip_short [of b "of_nat k"]
      by (simp add: op_refines_def buf_abs_def)
  qed
qed

lemma rewind_refines: "buf_inv b \<Longrightarrow> dst_apart dst b \<Longrightarrow> op_refines dst m b Op_rewind"
  using buf_read_reset_inv [of b]
  by (simp add: op_refines_def buf_abs_def dst_apart_def buf_content_def tn_buffer_read_reset_def)

lemma reset_refines: "buf_inv b \<Longrightarrow> dst_apart dst b \<Longrightarrow> op_refines dst m b Op_reset"
  using buf_reset_inv [of b] by (simp add: op_refines_def buf_abs_def dst_apart_def buf_content_def buf_inv_def)

lemma buf_exec_refines:
  assumes "buf_inv b" and "dst_apart dst b" and "op_small op"
  shows "op_refines dst m b op"
  using assms by (cases op) (simp_all add: write_refines read_refines skip_refines rewind_refines reset_refines)

lemma buf_run_refines:
  assumes "buf_inv b" and "dst_apart dst b" and "list_all op_small ops"
  shows "buf_run dst m b ops = Some (stream_run (buf_cap b) (buf_abs m b) ops)"
  using assms
proof (induction ops arbitrary: m b)
  case Nil
  then show ?case by simp
next
  case (Cons op ops)
  obtain m' b' where e: "buf_exec dst m b op = Some (fst (stream_spec (buf_cap b) (buf_abs m b) op), m', b')"
      "buf_abs m' b' = snd (stream_spec (buf_cap b) (buf_abs m b) op)" "buf_inv b'" "dst_apart dst b'"
      "buf_cap b' = buf_cap b"
    using buf_exec_refines [of b dst op m] Cons.prems by (auto simp: op_refines_def)
  then show ?case using Cons.IH [of b' m'] Cons.prems by (simp add: case_prod_beta Let_def)
qed

lemma buf_read_buffer_ok:
  assumes "buf_inv d" and "n = (if len = 0 then cur_len (tb_pos b) else len)"
    and "unat n \<le> buf_left b" and "buf_fill d + unat n \<le> buf_cap d"
  shows "tn_buffer_read_buffer m b d len =
    Some (TN_SUCCESS, mem_write m (tn_buffer_write_ptr d) (take (unat n) (buf_unread m b)), buf_extend d n)"
proof -
  have "mem_read m (cur_ptr (tb_pos b)) (unat n) = take (unat n) (buf_unread m b)"
    using assms(3) by (simp add: buf_unread_def take_mem_read)
  then show ?thesis
    using assms buf_write_ok [OF assms(1,4), of "take (unat n) (buf_unread m b)" m]
    by (auto simp: tn_buffer_read_buffer_def Let_def word_less_nat_alt)
qed

lemma buf_read_buffer_short:
  assumes "buf_left b < unat len"
  shows "tn_buffer_read_buffer m b d len = Some (TN_ERROR, m, d)"
proof -
  have "len \<noteq> 0" using assms by auto
  then show ?thesis using assms by (simp add: tn_buffer_read_buffer_def Let_def word_less_nat_alt)
qed

lemma buf_read_buffer_full:
  assumes "buf_inv d" and "n = (if len = 0 then cur_len (tb_pos b) else len)"
    and "unat n \<le> buf_left b" and "buf_cap d < buf_fill d + unat n"
  shows "tn_buffer_read_buffer m b d len = Some (TN_ERROR, m, d)"
  using assms buf_write_full [OF assms(1,4)]
  by (auto simp: tn_buffer_read_buffer_def Let_def word_less_nat_alt)

text \<open>A fresh buffer for the witnesses: 64 bytes at address 4096.\<close>

definition buf64 :: tn_buffer where
  "buf64 = \<lparr>tb_pool = None, tb_buf = \<lparr>bb_len = 0, bb_buffer = 4096, bb_capacity = 64, bb_allocator = 0\<rparr>,
     tb_pos = \<lparr>cur_len = 0, cur_ptr = 4096\<rparr>, tb_capacity = 0\<rparr>"

lemma buf64_inv: "buf_inv buf64"
  by (simp add: buf_inv_def buf64_def SIZE_HALF_eq)

section \<open>Properties\<close>

text \<open>Property C24. Any sequence of writes, reads, skips, rewinds and resets on a buffer gives the return codes and the
  bytes that the abstract byte stream gives, as long as reads store outside the buffer's block.\<close>

theorem buffer_refines_stream:
  assumes "buf_inv b" and "dst_apart dst b" and "list_all op_small ops"
  shows "buf_run dst m b ops = Some (stream_run (buf_cap b) (buf_abs m b) ops)"
  using assms by (rule buf_run_refines)

theorem buffer_refines_stream_witness:
  "buf_run 8192 (\<lambda>_. 0) buf64 [Op_write [1, 2, 3], Op_read 2, Op_skip 1, Op_read 1, Op_rewind, Op_read 1] =
     Some [(0, []), (0, [1, 2]), (0, []), (-1, []), (0, []), (0, [1])]"
proof -
  have "dst_apart 8192 buf64" by (simp add: dst_apart_def buf64_def)
  moreover have "list_all op_small
      [Op_write [1, 2, 3], Op_read 2, Op_skip 1, Op_read 1, Op_rewind, Op_read 1]"
    by (simp add: op_small_def)
  ultimately show ?thesis
    by (subst buffer_refines_stream [OF buf64_inv])
      (simp_all add: buf_abs_def buf64_def buf_content_def)
qed

text \<open>Property C25. A message of 8-, 16-, 32- and 64-bit fields that fits is written completely, behind what was
  unread before, and a host of any byte order that reads fields of the same widths from these
  bytes gets the same values and is left exactly with what follows the message.\<close>

theorem message_round_trip:
  assumes "buf_inv b" and "buf_fill b + length (concat (map wire vs)) \<le> buf_cap b"
  shows "\<exists>m' b'. write_fields be m b vs = Some (TN_SUCCESS, m', b') \<and> buf_inv b' \<and>
    buf_unread m' b' = buf_unread m b @ concat (map wire vs) \<and>
    (\<forall>be2 m2 r rest. buf_inv r \<and> buf_unread m2 r = concat (map wire vs) @ rest \<longrightarrow>
      (\<exists>r'. read_fields be2 m2 r (map width_of vs) = (TN_SUCCESS, vs, r') \<and> buf_inv r' \<and>
        buf_unread m2 r' = rest))"
  using write_fields_ok [OF assms] read_fields_ok by fast

theorem message_round_trip_witness:
  "\<exists>m' b' r'. write_fields False (\<lambda>_. 0) buf64 [V32 700, V8 3, V64 (2 ^ 40 + 5)] = Some (TN_SUCCESS, m', b') \<and>
     read_fields True m' b' [W32, W8, W64] = (TN_SUCCESS, [V32 700, V8 3, V64 (2 ^ 40 + 5)], r')"
proof -
  let ?vs = "[V32 700, V8 3, V64 (2 ^ 40 + 5)]"
  have "buf_fill buf64 + length (concat (map wire ?vs)) \<le> buf_cap buf64" by (simp add: buf64_def)
  from message_round_trip [OF buf64_inv this, of False "\<lambda>_. 0"] obtain m' b' where
    w: "write_fields False (\<lambda>_. 0) buf64 ?vs = Some (TN_SUCCESS, m', b')" "buf_inv b'"
      "buf_unread m' b' = buf_unread (\<lambda>_. 0) buf64 @ concat (map wire ?vs)" and
    r: "\<And>be2 m2 r rest. buf_inv r \<Longrightarrow> buf_unread m2 r = concat (map wire ?vs) @ rest \<Longrightarrow>
      \<exists>r'. read_fields be2 m2 r (map width_of ?vs) = (TN_SUCCESS, ?vs, r') \<and> buf_inv r' \<and>
        buf_unread m2 r' = rest"
    by metis
  have "buf_unread m' b' = concat (map wire ?vs) @ []"
    using w(3) by (simp add: buf64_def buf_unread_def)
  from r [OF w(2) this, of True] w(1) show ?thesis by auto
qed

text \<open>Writing is memory safe on every input: a write either fits, then it appends exactly the source bytes
  and changes no byte of memory outside the buffer's block, or it is refused and changes nothing.\<close>

theorem buffer_write_memory_safe:
  assumes "buf_inv b" and "unat len \<le> length src"
  shows "if buf_fill b + unat len \<le> buf_cap b
    then \<exists>m' b'. tn_buffer_write m b src len = Some (TN_SUCCESS, m', b') \<and> buf_inv b' \<and>
      buf_content m' b' = buf_content m b @ take (unat len) src \<and>
      (\<forall>x. unat x < unat (buf_base b) \<or> unat (buf_base b) + buf_cap b \<le> unat x \<longrightarrow> m' x = m x)
    else tn_buffer_write m b src len = Some (TN_ERROR, m, b)"
proof (cases "buf_fill b + unat len \<le> buf_cap b")
  case True
  let ?m = "mem_write m (tn_buffer_write_ptr b) (take (unat len) src)"
  have "?m x = m x" if x: "unat x < unat (buf_base b) \<or> unat (buf_base b) + buf_cap b \<le> unat x" for x
  proof (rule mem_write_frame)
    have p: "unat (tn_buffer_write_ptr b) = unat (buf_base b) + buf_fill b" by (rule unat_write_ptr [OF assms(1)])
    have inv: "unat (buf_base b) + buf_cap b < 2 ^ 64" "buf_fill b \<le> buf_cap b"
      using buf_invD [OF assms(1)] by simp_all
    have l: "length (take (unat len) src) = unat len" using assms(2) by simp
    show "length (take (unat len) src) \<le> unat (x - tn_buffer_write_ptr b)"
    proof (cases "unat (tn_buffer_write_ptr b) \<le> unat x")
      case True
      then show ?thesis using x p l inv \<open>buf_fill b + unat len \<le> buf_cap b\<close> by (simp add: unat_sub64)
    next
      case False
      then have "unat (x - tn_buffer_write_ptr b) = unat x + 2 ^ 64 - unat (tn_buffer_write_ptr b)"
        by (simp only: unat_sub_if') simp
      then show ?thesis using p l inv \<open>buf_fill b + unat len \<le> buf_cap b\<close> by linarith
    qed
  qed
  then show ?thesis
    using True assms buf_write_ok [OF assms(1) True assms(2)] buf_extend_inv [OF assms(1) True]
      buf_content_extend [OF assms(1) True, of "take (unat len) src" m]
    by auto
next
  case False
  then show ?thesis using buf_write_full [OF assms(1)] by simp
qed

theorem buffer_write_memory_safe_witness:
  "(\<exists>m' b'. tn_buffer_write (\<lambda>_. 0) buf64 [7, 8, 9] 2 = Some (TN_SUCCESS, m', b') \<and>
     buf_content m' b' = [7, 8] \<and> m' 4095 = 0) \<and>
   tn_buffer_write (\<lambda>_. 0) buf64 (replicate 65 1) 65 = Some (TN_ERROR, \<lambda>_. 0, buf64)"
proof
  have "unat (2 :: u64) \<le> length [7 :: u8, 8, 9]" by simp
  from buffer_write_memory_safe [OF buf64_inv this, of "\<lambda>_. 0"]
  show "\<exists>m' b'. tn_buffer_write (\<lambda>_. 0) buf64 [7, 8, 9] 2 = Some (TN_SUCCESS, m', b') \<and>
     buf_content m' b' = [7, 8] \<and> m' 4095 = 0"
    by (auto simp: buf64_def buf_content_def)
  have "unat (65 :: u64) \<le> length (replicate 65 (1 :: u8))" by simp
  from buffer_write_memory_safe [OF buf64_inv this, of "\<lambda>_. 0"]
  show "tn_buffer_write (\<lambda>_. 0) buf64 (replicate 65 1) 65 = Some (TN_ERROR, \<lambda>_. 0, buf64)"
    by (simp add: buf64_def)
qed

text \<open>Copying between buffers appends to the destination the first len unread bytes of the source, all of
  them when len is 0, and leaves the source's read position where it was; it fails, changing
  nothing, when the source has fewer unread bytes or the destination has no room.\<close>

theorem buffer_copy:
  fixes len :: size_t and b :: tn_buffer
  assumes "buf_inv d"
  defines "n \<equiv> if len = 0 then cur_len (tb_pos b) else len"
  shows "if unat n \<le> buf_left b \<and> buf_fill d + unat n \<le> buf_cap d
    then \<exists>m' d'. tn_buffer_write_buffer m d b len = Some (TN_SUCCESS, m', d') \<and> buf_inv d' \<and>
      buf_unread m' d' = buf_unread m d @ take (unat n) (buf_unread m b) \<and> tb_pool d' = tb_pool d
    else tn_buffer_write_buffer m d b len = Some (TN_ERROR, m, d)"
proof (cases "unat n \<le> buf_left b")
  case le: True
  show ?thesis
  proof (cases "buf_fill d + unat n \<le> buf_cap d")
    case True
    then show ?thesis using le buf_read_buffer_ok [OF assms(1) n_def [THEN meta_eq_to_obj_eq] le True, of m]
        buf_extend_inv [OF assms(1) True] buf_extend_sizes [OF assms(1) True]
        buf_unread_extend [OF assms(1) True, of "take (unat n) (buf_unread m b)" m]
      by (simp add: tn_buffer_write_buffer_def)
  next
    case False
    then show ?thesis using le buf_read_buffer_full [OF assms(1) n_def [THEN meta_eq_to_obj_eq] le, of m]
      by (simp add: tn_buffer_write_buffer_def)
  qed
next
  case False
  then have "n = len" by (auto simp: n_def split: if_splits)
  then show ?thesis using False buf_read_buffer_short [of b len m d]
    by (simp add: tn_buffer_write_buffer_def)
qed

theorem buffer_copy_witness:
  "\<exists>m' d'. tn_buffer_write_buffer (\<lambda>x. if x < 4096 then 5 else 7) (buf_extend buf64 2)
     (buf64\<lparr>tb_pos := \<lparr>cur_len = 3, cur_ptr = 9\<rparr>\<rparr>) 0 = Some (TN_SUCCESS, m', d') \<and>
     buf_unread m' d' = [7, 7, 5, 5, 5]"
proof -
  let ?s = "buf64\<lparr>tb_pos := \<lparr>cur_len = 3, cur_ptr = 9\<rparr>\<rparr>"
  let ?m = "\<lambda>x :: u64. if x < 4096 then 5 else 7 :: u8"
  have d: "buf_inv (buf_extend buf64 2)"
    by (rule buf_extend_inv [OF buf64_inv]) (simp add: buf64_def)
  have u: "buf_unread ?m (buf_extend buf64 2) = [7, 7]" "buf_unread ?m ?s = [5, 5, 5]"
    by (simp_all add: buf64_def buf_extend_def buf_unread_def mem_read_def upt_rec)
  have n: "unat (cur_len (tb_pos ?s)) = 3" "buf_fill (buf_extend buf64 2) = 2" "buf_cap (buf_extend buf64 2) = 64"
    by (simp_all add: buf64_def buf_extend_def)
  from buffer_copy [OF d, of 0 ?s ?m] show ?thesis by (simp add: u n) blast
qed

text \<open>Setting the length succeeds only up to the room that is left, not up to the capacity, and when it
  succeeds the read position and the write end fit together afterwards only if nothing had been
  read: the read position keeps its address while the unread length becomes the whole length.\<close>

theorem set_length_fits_only_unread:
  assumes "buf_inv b"
  shows "(fst (tn_buffer_set_length b len) = TN_SUCCESS \<longleftrightarrow> unat len \<le> buf_cap b - buf_fill b) \<and>
    (fst (tn_buffer_set_length b len) = TN_SUCCESS \<longrightarrow>
      (buf_inv (snd (tn_buffer_set_length b len)) \<longleftrightarrow> buf_left b = buf_fill b))"
proof -
  have room: "unat (bb_capacity (tb_buf b) - bb_len (tb_buf b)) = buf_cap b - buf_fill b"
    using buf_invD(3) [OF assms] by (simp add: unat_sub64)
  have ok: "fst (tn_buffer_set_length b len) = TN_SUCCESS \<longleftrightarrow> unat len \<le> buf_cap b - buf_fill b"
    by (simp add: tn_buffer_set_length_def word_less_nat_alt room)
  have "buf_inv (snd (tn_buffer_set_length b len)) \<longleftrightarrow> buf_left b = buf_fill b"
    if l: "unat len \<le> buf_cap b - buf_fill b"
  proof -
    have "buf_inv (snd (tn_buffer_set_length b len)) \<longleftrightarrow> cur_ptr (tb_pos b) = buf_base b"
      using l assms by (auto simp: tn_buffer_set_length_def word_less_nat_alt room buf_inv_def)
    also have "\<dots> \<longleftrightarrow> unat (cur_ptr (tb_pos b)) = unat (buf_base b)" by (simp add: word_unat_eq_iff)
    also have "\<dots> \<longleftrightarrow> buf_left b = buf_fill b"
      using unat_read_ptr [OF assms] buf_invD(4) [OF assms] by linarith
    finally show ?thesis .
  qed
  then show ?thesis using ok by blast
qed

theorem set_length_fits_only_unread_witness:
  "fst (tn_buffer_set_length (buf_extend buf64 40) 30) = TN_ERROR \<and>
   fst (tn_buffer_set_length (buf_consume (buf_extend buf64 8) 4) 8) = TN_SUCCESS \<and>
   \<not> buf_inv (snd (tn_buffer_set_length (buf_consume (buf_extend buf64 8) 4) 8))"
proof -
  have e: "buf_inv (buf_extend buf64 8)" by (rule buf_extend_inv [OF buf64_inv]) (simp add: buf64_def)
  have b: "buf_inv (buf_consume (buf_extend buf64 8) 4)"
    by (rule buf_consume_inv(1) [OF e]) (simp add: buf64_def buf_extend_def)
  from set_length_fits_only_unread [OF b, of 8] show ?thesis
    by (simp add: buf64_def buf_extend_def buf_consume_def tn_buffer_set_length_def)
qed

end
