(* ===== verification/Tn_Buffer_Pool.thy ===== *)
theory Tn_Buffer_Pool
  imports Tn_Queue Tn_Buffer Tn_Handles
begin

text \<open>
  The buffer pool of \<open>src/buffer_pool.c\<close>: one allocation cut into blocks of equal size, an array
  of buffers over the blocks, and a queue of the free ones. A buffer is identified by its index in
  the array, which is what the free queue holds.

  Shown here: setting up a pool, that taking and giving back buffers implements the contract
  \<open>handle_pool\<close>, that the counters of blocks and bytes in use are exact, and that buffers of one
  pool never share a byte of memory.
\<close>

record tn_buffer_pool =
  bp_blocks_inuse :: u64
  bp_bytes_inuse :: u64
  bp_block_size :: u64
  bp_block_count :: u64
  bp_tn_buffers :: "tn_buffer list"
  bp_allocation :: addr
  bp_tn_buffers_free :: "nat tn_queue_spsc"

section \<open>Operations\<close>

text \<open>\<open>sizeof(tn_buffer_t)\<close> on a 64-bit target.\<close>

definition sizeof_tn_buffer :: u64 where "sizeof_tn_buffer = 64"

text \<open>
  The loop of \<open>tn_buffer_pool_setup\<close>; the first argument counts the iterations that are left and
  \<open>pid\<close> stands for the address of the pool.
\<close>

fun pool_setup_loop :: "nat \<Rightarrow> nat \<Rightarrow> u64 \<Rightarrow> tn_buffer_pool \<Rightarrow> (int \<times> tn_buffer_pool) option" where
  "pool_setup_loop pid 0 i pool = Some (TN_SUCCESS, pool)"
| "pool_setup_loop pid (Suc n) i pool = do {
     tn_buffer \<leftarrow> arr_get (bp_tn_buffers pool) (unat i);
     let buf = bp_allocation pool + (bp_block_count pool - 1 - i) * bp_block_size pool;
     (rc, tn_buffer) \<leftarrow> tn_buffer_setup tn_buffer buf (bp_block_size pool);
     if rc \<noteq> 0 then Some (TN_ERROR, pool)
     else do {
       bufs \<leftarrow> arr_set (bp_tn_buffers pool) (unat i) (tn_buffer\<lparr>tb_pool := Some pid\<rparr>);
       (rc, q) \<leftarrow> tn_queue_spsc_push (bp_tn_buffers_free pool) (unat i);
       let pool = pool\<lparr>bp_tn_buffers := bufs, bp_tn_buffers_free := q\<rparr>;
       if rc \<noteq> 0 then Some (TN_ERROR, pool) else pool_setup_loop pid n (i + 1) pool
     }
   }"

text \<open>
  The results of the three allocations are inputs: the address of the blocks (0 for NULL), and
  success and content of the array of buffers and of the queue's array. Releasing memory makes
  the arrays inaccessible.
\<close>

definition tn_buffer_pool_setup ::
  "nat \<Rightarrow> addr \<Rightarrow> bool \<Rightarrow> (nat \<Rightarrow> tn_buffer) \<Rightarrow> bool \<Rightarrow> (nat \<Rightarrow> nat) \<Rightarrow>
   tn_buffer_pool \<Rightarrow> u64 \<Rightarrow> u64 \<Rightarrow> (int \<times> tn_buffer_pool) option" where
  "tn_buffer_pool_setup pid blocks ok_bufs junk_bufs ok_queue junk_queue pool block_count block_size = do {
     tn_assert (0 < block_count);
     tn_assert (0 < block_size);
     let pool = pool\<lparr>bp_block_count := block_count, bp_block_size := block_size, bp_blocks_inuse := 0,
       bp_bytes_inuse := 0, bp_tn_buffers := [], bp_allocation := blocks\<rparr>;
     let cleanup = (\<lambda>pool. pool\<lparr>bp_tn_buffers := [], bp_allocation := 0\<rparr>);
     if blocks = 0 then Some (TN_ERROR, cleanup pool)
     else case tn_mem_acquire ok_bufs junk_bufs (unat (block_count * sizeof_tn_buffer) div 64) of
       None \<Rightarrow> Some (TN_ERROR, cleanup pool)
     | Some bufs \<Rightarrow> do {
         (rc, q) \<leftarrow> tn_queue_spsc_setup ok_queue junk_queue (bp_tn_buffers_free pool) block_count;
         let pool = pool\<lparr>bp_tn_buffers := bufs, bp_tn_buffers_free := q\<rparr>;
         if rc \<noteq> 0 then Some (TN_ERROR, cleanup pool)
         else do {
           (rc, pool) \<leftarrow> pool_setup_loop pid (unat block_count) 0 pool;
           if rc \<noteq> 0 then Some (TN_ERROR, cleanup pool) else Some (TN_SUCCESS, pool)
         }
       }
   }"

definition tn_buffer_pool_cleanup :: "tn_buffer_pool \<Rightarrow> tn_buffer_pool" where
  "tn_buffer_pool_cleanup pool = pool\<lparr>bp_blocks_inuse := 0, bp_bytes_inuse := 0,
     bp_tn_buffers_free := tn_queue_spsc_cleanup (bp_tn_buffers_free pool),
     bp_tn_buffers := []\<rparr>"

definition tn_buffer_pool_push :: "tn_buffer_pool \<Rightarrow> nat \<Rightarrow> (int \<times> tn_buffer_pool) option" where
  "tn_buffer_pool_push pool buffer = do {
     (rc, q) \<leftarrow> tn_queue_spsc_push (bp_tn_buffers_free pool) buffer;
     let pool = pool\<lparr>bp_tn_buffers_free := q\<rparr>;
     if rc \<noteq> 0 then Some (TN_ERROR, pool)
     else Some (TN_SUCCESS, pool\<lparr>bp_blocks_inuse := bp_blocks_inuse pool - 1,
            bp_bytes_inuse := bp_bytes_inuse pool - bp_block_size pool\<rparr>)
   }"

text \<open>\<open>tn_buffer_reset(*out_buffer)\<close> on a buffer of the pool.\<close>

definition pool_reset_buffer :: "tn_buffer_pool \<Rightarrow> nat \<Rightarrow> tn_buffer_pool option" where
  "pool_reset_buffer pool i = do {
     b \<leftarrow> arr_get (bp_tn_buffers pool) i;
     bufs \<leftarrow> arr_set (bp_tn_buffers pool) i (tn_buffer_reset b);
     Some (pool\<lparr>bp_tn_buffers := bufs\<rparr>)
   }"

definition tn_buffer_pool_peek :: "tn_buffer_pool \<Rightarrow> (int \<times> nat option \<times> tn_buffer_pool) option" where
  "tn_buffer_pool_peek pool = do {
     (rc, out, q) \<leftarrow> tn_queue_spsc_peek (bp_tn_buffers_free pool);
     let pool = pool\<lparr>bp_tn_buffers_free := q\<rparr>;
     if rc \<noteq> 0 then Some (TN_ERROR, None, pool)
     else do {
       i \<leftarrow> out;
       pool \<leftarrow> pool_reset_buffer pool i;
       Some (TN_SUCCESS, Some i, pool)
     }
   }"

definition tn_buffer_pool_pop :: "tn_buffer_pool \<Rightarrow> int \<times> tn_buffer_pool" where
  "tn_buffer_pool_pop pool =
     (let (rc, q) = tn_queue_spsc_pop (bp_tn_buffers_free pool);
          pool = pool\<lparr>bp_tn_buffers_free := q\<rparr>
      in if rc \<noteq> 0 then (TN_ERROR, pool)
         else (TN_SUCCESS, pool\<lparr>bp_blocks_inuse := bp_blocks_inuse pool + 1,
                 bp_bytes_inuse := bp_bytes_inuse pool + bp_block_size pool\<rparr>))"

definition tn_buffer_pool_pop_cached :: "tn_buffer_pool \<Rightarrow> tn_buffer_pool" where
  "tn_buffer_pool_pop_cached pool =
     pool\<lparr>bp_tn_buffers_free := tn_queue_spsc_pop_cached (bp_tn_buffers_free pool),
       bp_blocks_inuse := bp_blocks_inuse pool + 1,
       bp_bytes_inuse := bp_bytes_inuse pool + bp_block_size pool\<rparr>"

definition tn_buffer_pool_pop_back :: "tn_buffer_pool \<Rightarrow> (int \<times> nat option \<times> tn_buffer_pool) option" where
  "tn_buffer_pool_pop_back pool = do {
     (rc, out, q) \<leftarrow> tn_queue_spsc_pop_back (bp_tn_buffers_free pool);
     let pool = pool\<lparr>bp_tn_buffers_free := q\<rparr>;
     if rc \<noteq> 0 then Some (TN_ERROR, None, pool)
     else do {
       i \<leftarrow> out;
       let pool = pool\<lparr>bp_blocks_inuse := bp_blocks_inuse pool + 1,
         bp_bytes_inuse := bp_bytes_inuse pool + bp_block_size pool\<rparr>;
       pool \<leftarrow> pool_reset_buffer pool i;
       Some (TN_SUCCESS, Some i, pool)
     }
   }"

text \<open>\<open>tn_buffer_release\<close> of \<open>src/buffer.c\<close>: a buffer goes back to the pool it came from.\<close>

definition tn_buffer_release :: "tn_buffer_pool \<Rightarrow> nat \<Rightarrow> (int \<times> tn_buffer_pool) option" where
  "tn_buffer_release pool i = do {
     b \<leftarrow> arr_get (bp_tn_buffers pool) i;
     if tb_pool b = None then Some (TN_ERROR, pool) else tn_buffer_pool_push pool i
   }"

section \<open>Invariant\<close>

abbreviation pool_free :: "tn_buffer_pool \<Rightarrow> nat list" where
  "pool_free pool \<equiv> q_elems (bp_tn_buffers_free pool)"

abbreviation pool_total :: "tn_buffer_pool \<Rightarrow> nat" where
  "pool_total pool \<equiv> unat (bp_block_count pool)"

definition block_base :: "tn_buffer_pool \<Rightarrow> nat \<Rightarrow> nat" where
  "block_base pool i = unat (bp_allocation pool) + (pool_total pool - 1 - i) * unat (bp_block_size pool)"

text \<open>Where the blocks lie: nothing wraps around, and a block is shorter than a cursor's limit.\<close>

definition pool_geometry :: "tn_buffer_pool \<Rightarrow> bool" where
  "pool_geometry pool \<longleftrightarrow> bp_allocation pool \<noteq> 0 \<and> 0 < bp_block_count pool \<and> 0 < bp_block_size pool \<and>
     bp_block_size pool < SIZE_HALF \<and>
     unat (bp_allocation pool) + pool_total pool * unat (bp_block_size pool) < 2 ^ 64"

definition pool_buffer_ok :: "nat \<Rightarrow> tn_buffer_pool \<Rightarrow> nat \<Rightarrow> tn_buffer \<Rightarrow> bool" where
  "pool_buffer_ok pid pool i b \<longleftrightarrow> buf_inv b \<and> tb_pool b = Some pid \<and>
     bb_capacity (tb_buf b) = bp_block_size pool \<and> unat (buf_base b) = block_base pool i"

definition pool_inv :: "nat \<Rightarrow> tn_buffer_pool \<Rightarrow> bool" where
  "pool_inv pid pool \<longleftrightarrow> pool_geometry pool \<and>
     length (bp_tn_buffers pool) = pool_total pool \<and>
     (\<forall>i < pool_total pool. pool_buffer_ok pid pool i (bp_tn_buffers pool ! i)) \<and>
     q_inv (bp_tn_buffers_free pool) \<and> pool_total pool \<le> q_cap (bp_tn_buffers_free pool) \<and>
     distinct (pool_free pool) \<and> set (pool_free pool) \<subseteq> {..<pool_total pool} \<and>
     bp_blocks_inuse pool = bp_block_count pool - of_nat (length (pool_free pool)) \<and>
     bp_bytes_inuse pool = bp_blocks_inuse pool * bp_block_size pool"

lemma pool_invD:
  assumes "pool_inv pid pool"
  shows "pool_geometry pool" and "length (bp_tn_buffers pool) = pool_total pool"
    and "\<And>i. i < pool_total pool \<Longrightarrow> pool_buffer_ok pid pool i (bp_tn_buffers pool ! i)"
    and "q_inv (bp_tn_buffers_free pool)" and "pool_total pool \<le> q_cap (bp_tn_buffers_free pool)"
    and "distinct (pool_free pool)" and "set (pool_free pool) \<subseteq> {..<pool_total pool}"
    and "bp_blocks_inuse pool = bp_block_count pool - of_nat (length (pool_free pool))"
    and "bp_bytes_inuse pool = bp_blocks_inuse pool * bp_block_size pool"
  using assms unfolding pool_inv_def by blast+

lemma pool_layout_update [simp]:
  "pool_buffer_ok pid (pool\<lparr>bp_tn_buffers_free := q\<rparr>) = pool_buffer_ok pid pool"
  "pool_buffer_ok pid (pool\<lparr>bp_blocks_inuse := n\<rparr>) = pool_buffer_ok pid pool"
  "pool_buffer_ok pid (pool\<lparr>bp_bytes_inuse := n\<rparr>) = pool_buffer_ok pid pool"
  "pool_buffer_ok pid (pool\<lparr>bp_tn_buffers := bs\<rparr>) = pool_buffer_ok pid pool"
  "pool_geometry (pool\<lparr>bp_tn_buffers_free := q\<rparr>) = pool_geometry pool"
  "pool_geometry (pool\<lparr>bp_blocks_inuse := n\<rparr>) = pool_geometry pool"
  "pool_geometry (pool\<lparr>bp_bytes_inuse := n\<rparr>) = pool_geometry pool"
  "pool_geometry (pool\<lparr>bp_tn_buffers := bs\<rparr>) = pool_geometry pool"
  by (simp_all add: fun_eq_iff pool_buffer_ok_def block_base_def pool_geometry_def)

text \<open>Changing the free queue and the counters, and changing a buffer, keep the invariant.\<close>

lemma pool_inv_free:
  assumes "pool_inv pid pool" and "q_inv q" and "q_cap q = q_cap (bp_tn_buffers_free pool)"
    and "distinct (q_elems q)" and "set (q_elems q) \<subseteq> {..<pool_total pool}"
    and "used = bp_block_count pool - of_nat (length (q_elems q))" and "bytes = used * bp_block_size pool"
  shows "pool_inv pid (pool\<lparr>bp_tn_buffers_free := q, bp_blocks_inuse := used, bp_bytes_inuse := bytes\<rparr>)"
  using assms unfolding pool_inv_def by (simp del: length_q_elems)

lemma pool_inv_buffer:
  assumes "pool_inv pid pool" and "pool_buffer_ok pid pool i b"
  shows "pool_inv pid (pool\<lparr>bp_tn_buffers := (bp_tn_buffers pool)[i := b]\<rparr>)"
  using assms unfolding pool_inv_def by (simp del: length_q_elems) (metis nth_list_update_eq nth_list_update_neq)

lemma pool_free_length: "pool_inv pid pool \<Longrightarrow> length (pool_free pool) \<le> pool_total pool"
  using card_mono [of "{..<pool_total pool}" "set (pool_free pool)"] pool_invD(6,7) [of pid pool]
  by (simp add: distinct_card del: length_q_elems)

lemma pool_room:
  assumes "pool_inv pid pool" and "h < pool_total pool" and "h \<notin> set (pool_free pool)"
  shows "length (pool_free pool) < q_cap (bp_tn_buffers_free pool)"
  using distinct_room [OF pool_invD(6,7) [OF assms(1)] assms(2,3)] pool_invD(5) [OF assms(1)] by linarith

lemma pool_reset_ok:
  assumes "pool_inv pid pool" and "i < pool_total pool"
  shows "pool_reset_buffer pool i =
      Some (pool\<lparr>bp_tn_buffers := (bp_tn_buffers pool)[i := tn_buffer_reset (bp_tn_buffers pool ! i)]\<rparr>)"
    and "pool_buffer_ok pid pool i (tn_buffer_reset (bp_tn_buffers pool ! i))"
    and "buf_fill (tn_buffer_reset (bp_tn_buffers pool ! i)) = 0"
proof -
  let ?b = "bp_tn_buffers pool ! i"
  have ok: "pool_buffer_ok pid pool i ?b" using assms pool_invD(3) by blast
  then have b: "buf_base ?b \<noteq> 0" "unat (buf_base ?b) + buf_cap ?b < 2 ^ 64" "bb_capacity (tb_buf ?b) < SIZE_HALF"
    unfolding pool_buffer_ok_def using buf_invD(1,2,6) by blast+
  show "pool_reset_buffer pool i = Some (pool\<lparr>bp_tn_buffers := (bp_tn_buffers pool)[i := tn_buffer_reset ?b]\<rparr>)"
    using assms(2) pool_invD(2) [OF assms(1)] by (simp add: pool_reset_buffer_def)
  show "pool_buffer_ok pid pool i (tn_buffer_reset ?b)"
    using ok buf_reset_inv [OF b]
    by (simp add: pool_buffer_ok_def tn_buffer_reset_def tn_buffer_write_reset_def tn_buffer_read_reset_def)
  show "buf_fill (tn_buffer_reset ?b) = 0" by (rule buf_reset_inv(3) [OF b])
qed

section \<open>Taking and giving back buffers\<close>

lemma pool_push_ok:
  assumes "pool_inv pid pool" and "h < pool_total pool" and "h \<notin> set (pool_free pool)"
  obtains pool' where "tn_buffer_pool_push pool h = Some (TN_SUCCESS, pool')" "pool_inv pid pool'"
    "pool_free pool' = pool_free pool @ [h]" "bp_tn_buffers pool' = bp_tn_buffers pool"
    "pool_total pool' = pool_total pool" "bp_block_size pool' = bp_block_size pool"
proof -
  obtain q where q: "tn_queue_spsc_push (bp_tn_buffers_free pool) h = Some (TN_SUCCESS, q)" "q_inv q"
      "q_elems q = pool_free pool @ [h]" "q_cap q = q_cap (bp_tn_buffers_free pool)"
    by (rule q_push_ok [OF pool_invD(4) [OF assms(1)] pool_room [OF assms], of h])
  let ?used = "bp_blocks_inuse pool - 1"
  let ?pool = "pool\<lparr>bp_tn_buffers_free := q, bp_blocks_inuse := ?used,
    bp_bytes_inuse := bp_bytes_inuse pool - bp_block_size pool\<rparr>"
  have "pool_inv pid ?pool"
  proof (rule pool_inv_free [OF assms(1) q(2,4)])
    show "bp_bytes_inuse pool - bp_block_size pool = ?used * bp_block_size pool"
      by (simp add: pool_invD(9) [OF assms(1)] algebra_simps)
    show "?used = bp_block_count pool - of_nat (length (q_elems q))"
      by (simp add: pool_invD(8) [OF assms(1)] q(3) del: length_q_elems)
  qed (use q(3) assms pool_invD(6,7) [OF assms(1)] in auto)
  moreover have "tn_buffer_pool_push pool h = Some (TN_SUCCESS, ?pool)"
    using q(1) by (simp add: tn_buffer_pool_push_def Let_def)
  ultimately show thesis using q(3) by (intro that [of ?pool]) simp_all
qed

lemma pool_pop_back_ok:
  assumes "pool_inv pid pool" and "pool_free pool = h # hs"
  obtains pool' where "tn_buffer_pool_pop_back pool = Some (TN_SUCCESS, Some h, pool')" "pool_inv pid pool'"
    "pool_free pool' = hs"
    "bp_tn_buffers pool' = (bp_tn_buffers pool)[h := tn_buffer_reset (bp_tn_buffers pool ! h)]"
    "pool_total pool' = pool_total pool" "bp_block_size pool' = bp_block_size pool"
proof -
  let ?q = "(bp_tn_buffers_free pool)\<lparr>q_tail := q_tail (bp_tn_buffers_free pool) + 1\<rparr>"
  let ?used = "bp_blocks_inuse pool + 1"
  let ?pool = "pool\<lparr>bp_tn_buffers_free := ?q, bp_blocks_inuse := ?used,
    bp_bytes_inuse := bp_bytes_inuse pool + bp_block_size pool\<rparr>"
  note q = q_drop_one [OF pool_invD(4) [OF assms(1)] assms(2)]
  have h: "h < pool_total pool" using pool_invD(7) [OF assms(1)] assms(2) by auto
  have inv: "pool_inv pid ?pool"
  proof (rule pool_inv_free [OF assms(1) q(1)])
    show "bp_bytes_inuse pool + bp_block_size pool = ?used * bp_block_size pool"
      by (simp add: pool_invD(9) [OF assms(1)] algebra_simps)
    show "?used = bp_block_count pool - of_nat (length (q_elems ?q))"
      by (simp add: pool_invD(8) [OF assms(1)] q(2) assms(2) del: length_q_elems)
  qed (use q(2) assms(2) pool_invD(6,7) [OF assms(1)] in auto)
  have h': "h < pool_total ?pool" using h by simp
  let ?pool' = "?pool\<lparr>bp_tn_buffers := (bp_tn_buffers ?pool)[h := tn_buffer_reset (bp_tn_buffers ?pool ! h)]\<rparr>"
  have "tn_buffer_pool_pop_back pool = Some (TN_SUCCESS, Some h, ?pool')"
    using q_pop_back_ok [OF pool_invD(4) [OF assms(1)] assms(2)] pool_reset_ok(1) [OF inv h']
    by (simp add: tn_buffer_pool_pop_back_def Let_def)
  moreover have "pool_inv pid ?pool'" by (rule pool_inv_buffer [OF inv pool_reset_ok(2) [OF inv h']])
  ultimately show thesis using q(2) by (intro that [of ?pool']) simp_all
qed

text \<open>The buffer that was taken is empty, and the others are as before.\<close>

lemma pool_pop_back_fresh:
  assumes "pool_inv pid pool" and "pool_free pool = h # hs"
  obtains pool' where "tn_buffer_pool_pop_back pool = Some (TN_SUCCESS, Some h, pool')" "pool_inv pid pool'"
    "pool_free pool' = hs" "h < pool_total pool" "pool_total pool' = pool_total pool"
    "bp_block_size pool' = bp_block_size pool"
    "pool_buffer_ok pid pool' h (bp_tn_buffers pool' ! h)" "buf_fill (bp_tn_buffers pool' ! h) = 0"
    "\<forall>m. buf_unread m (bp_tn_buffers pool' ! h) = []"
    "\<forall>j. j \<noteq> h \<longrightarrow> bp_tn_buffers pool' ! j = bp_tn_buffers pool ! j"
proof -
  obtain pool' where r: "tn_buffer_pool_pop_back pool = Some (TN_SUCCESS, Some h, pool')" "pool_inv pid pool'"
      "pool_free pool' = hs" "bp_tn_buffers pool' = (bp_tn_buffers pool)[h := tn_buffer_reset (bp_tn_buffers pool ! h)]"
      "pool_total pool' = pool_total pool" "bp_block_size pool' = bp_block_size pool"
    by (rule pool_pop_back_ok [OF assms])
  have h: "h < pool_total pool" using pool_invD(7) [OF assms(1)] assms(2) by auto
  have e: "bp_tn_buffers pool' ! h = tn_buffer_reset (bp_tn_buffers pool ! h)"
    using r(4) h pool_invD(2) [OF assms(1)] by simp
  have ok: "pool_buffer_ok pid pool' h (bp_tn_buffers pool' ! h)" using pool_invD(3) [OF r(2)] h r(5) by simp
  have fill: "buf_fill (bp_tn_buffers pool' ! h) = 0" using pool_reset_ok(3) [OF assms(1) h] e by simp
  have "buf_inv (bp_tn_buffers pool' ! h)" using ok by (simp add: pool_buffer_ok_def)
  then have "buf_unread m (bp_tn_buffers pool' ! h) = []" for m
    using buf_invD(4) fill by (fastforce simp: buf_unread_def)
  then show thesis using r h ok fill by (intro that [of pool']) simp_all
qed

lemma pool_pop_back_empty:
  assumes "pool_free pool = []"
  shows "tn_buffer_pool_pop_back pool = Some (TN_ERROR, None, pool)"
  using q_pop_back_empty [OF assms] by (simp add: tn_buffer_pool_pop_back_def Let_def)

interpretation buf_pool: handle_pool "\<lambda>pool. pool_inv pid pool \<and> bp_block_size pool = sz" pool_free pool_total
  tn_buffer_pool_pop_back tn_buffer_pool_push for pid sz
proof (unfold_locales, goal_cases)
  case (1 s)
  then obtain h hs where hs: "pool_free s = h # hs" by (cases "pool_free s") auto
  have "pool_inv pid s" using 1 by simp
  from this hs show ?case by (rule pool_pop_back_ok) (use hs 1 in auto)
next
  case (2 s)
  then show ?case using pool_pop_back_empty [of s] by simp
next
  case (3 s h)
  then have "pool_inv pid s" by simp
  from this 3(2,3) show ?case by (rule pool_push_ok) (use 3(1) in auto)
qed

text \<open>The two-phase removal that \<open>tcp_service_send\<close> uses.\<close>

lemma pool_peek_ok:
  assumes "pool_inv pid pool" and "pool_free pool = h # hs"
  obtains pool' where "tn_buffer_pool_peek pool = Some (TN_SUCCESS, Some h, pool')" "pool_inv pid pool'"
    "pool_free pool' = h # hs" "q_peeked (bp_tn_buffers_free pool')"
    "bp_tn_buffers pool' = (bp_tn_buffers pool)[h := tn_buffer_reset (bp_tn_buffers pool ! h)]"
    "pool_total pool' = pool_total pool" "bp_block_size pool' = bp_block_size pool"
proof -
  let ?q = "(bp_tn_buffers_free pool)\<lparr>q_tail_cache := q_tail (bp_tn_buffers_free pool)\<rparr>"
  let ?pool = "pool\<lparr>bp_tn_buffers_free := ?q\<rparr>"
  have h: "h < pool_total pool" using pool_invD(7) [OF assms(1)] assms(2) by auto
  have inv: "pool_inv pid ?pool"
    using assms(1) unfolding pool_inv_def by (simp add: q_cap_def del: length_q_elems)
  have h': "h < pool_total ?pool" using h by simp
  let ?pool' = "?pool\<lparr>bp_tn_buffers := (bp_tn_buffers ?pool)[h := tn_buffer_reset (bp_tn_buffers ?pool ! h)]\<rparr>"
  have "tn_buffer_pool_peek pool = Some (TN_SUCCESS, Some h, ?pool')"
    using q_peek_ok [OF pool_invD(4) [OF assms(1)] assms(2)] pool_reset_ok(1) [OF inv h']
    by (simp add: tn_buffer_pool_peek_def Let_def)
  moreover have "pool_inv pid ?pool'" by (rule pool_inv_buffer [OF inv pool_reset_ok(2) [OF inv h']])
  moreover have "q_peeked ?q" using assms(2) by (simp add: q_peeked_def q_empty_iff)
  ultimately show thesis using assms(2) by (intro that [of ?pool']) simp_all
qed

lemma pool_peek_empty:
  assumes "pool_free pool = []"
  shows "tn_buffer_pool_peek pool = Some (TN_ERROR, None, pool)"
  using q_peek_empty [OF assms] by (simp add: tn_buffer_pool_peek_def Let_def)

lemma pool_pop_cached_ok:
  assumes "pool_inv pid pool" and "pool_free pool = h # hs" and "q_peeked (bp_tn_buffers_free pool)"
  shows "pool_inv pid (tn_buffer_pool_pop_cached pool)" and "pool_free (tn_buffer_pool_pop_cached pool) = hs"
    and "bp_tn_buffers (tn_buffer_pool_pop_cached pool) = bp_tn_buffers pool"
proof -
  let ?q = "tn_queue_spsc_pop_cached (bp_tn_buffers_free pool)"
  let ?used = "bp_blocks_inuse pool + 1"
  have q: "q_inv ?q" "q_elems ?q = hs" "q_cap ?q = q_cap (bp_tn_buffers_free pool)"
    using q_fifo.pop_cached_some [OF pool_invD(4) [OF assms(1)] assms(3,2)] by blast+
  show "pool_inv pid (tn_buffer_pool_pop_cached pool)"
    unfolding tn_buffer_pool_pop_cached_def
  proof (rule pool_inv_free [OF assms(1) q(1,3)])
    show "bp_bytes_inuse pool + bp_block_size pool = ?used * bp_block_size pool"
      by (simp add: pool_invD(9) [OF assms(1)] algebra_simps)
    show "?used = bp_block_count pool - of_nat (length (q_elems ?q))"
      by (simp add: pool_invD(8) [OF assms(1)] q(2) assms(2) del: length_q_elems)
  qed (use q(2) assms(2) pool_invD(6,7) [OF assms(1)] in auto)
qed (use assms q_fifo.pop_cached_some [OF pool_invD(4) [OF assms(1)] assms(3,2)]
    in \<open>simp_all add: tn_buffer_pool_pop_cached_def\<close>)

section \<open>Setting up\<close>

definition setup_inv :: "nat \<Rightarrow> nat \<Rightarrow> tn_buffer_pool \<Rightarrow> bool" where
  "setup_inv pid k pool \<longleftrightarrow> pool_geometry pool \<and> k \<le> pool_total pool \<and>
     length (bp_tn_buffers pool) = pool_total pool \<and>
     (\<forall>i < k. pool_buffer_ok pid pool i (bp_tn_buffers pool ! i)) \<and>
     q_inv (bp_tn_buffers_free pool) \<and> pool_total pool \<le> q_cap (bp_tn_buffers_free pool) \<and>
     pool_free pool = [0..<k] \<and> bp_blocks_inuse pool = 0 \<and> bp_bytes_inuse pool = 0"

lemma block_address:
  assumes "pool_geometry pool" and "k < pool_total pool"
  defines "a \<equiv> bp_allocation pool + (bp_block_count pool - 1 - of_nat k) * bp_block_size pool"
  shows "unat a = block_base pool k" and "a \<noteq> 0" and "unat a + unat (bp_block_size pool) < 2 ^ 64"
proof -
  let ?bs = "unat (bp_block_size pool)"
  have g: "bp_allocation pool \<noteq> 0" "unat (bp_allocation pool) + pool_total pool * ?bs < 2 ^ 64"
    using assms(1) by (simp_all add: pool_geometry_def)
  have k: "unat (of_nat k :: u64) = k" using assms(2) unat_lt64 [of "bp_block_count pool"]
    by (intro unat_of_nat64) linarith
  have "unat (bp_block_count pool - 1) = pool_total pool - 1" using assms(2) by (intro unat_minus_one) auto
  then have n: "unat (bp_block_count pool - 1 - of_nat k) = pool_total pool - 1 - k"
    using assms(2) k by (subst unat_sub64) simp_all
  have le: "(pool_total pool - 1 - k) * ?bs + ?bs \<le> pool_total pool * ?bs"
  proof -
    have "Suc (pool_total pool - 1 - k) \<le> pool_total pool" using assms(2) by linarith
    from mult_le_mono1 [OF this, of ?bs] show ?thesis by simp
  qed
  then have "(pool_total pool - 1 - k) * ?bs < 2 ^ 64" using g(2) by linarith
  then have m: "unat ((bp_block_count pool - 1 - of_nat k) * bp_block_size pool) = (pool_total pool - 1 - k) * ?bs"
    using unat_mult64 [of "bp_block_count pool - 1 - of_nat k" "bp_block_size pool"] by (simp only: n)
  then show u: "unat a = block_base pool k"
    using g(2) le by (simp only: a_def block_base_def) (subst unat_add64, linarith+)
  show "unat a + ?bs < 2 ^ 64" using u g(2) le by (simp only: block_base_def)
  have "0 < unat (bp_allocation pool)" using g(1) by (simp add: unat_gt_0)
  then show "a \<noteq> 0" using u by (auto simp: block_base_def)
qed

lemma pool_setup_loop_ok:
  assumes "setup_inv pid k pool" and "k + n = pool_total pool"
  shows "\<exists>pool'. pool_setup_loop pid n (of_nat k) pool = Some (TN_SUCCESS, pool') \<and>
    setup_inv pid (k + n) pool' \<and> pool_total pool' = pool_total pool \<and>
    bp_block_size pool' = bp_block_size pool \<and> bp_allocation pool' = bp_allocation pool"
  using assms
proof (induction n arbitrary: k pool)
  case 0
  then show ?case by simp
next
  case (Suc n)
  let ?a = "bp_allocation pool + (bp_block_count pool - 1 - of_nat k) * bp_block_size pool"
  have kt: "k < pool_total pool" using Suc.prems(2) by simp
  have geo: "pool_geometry pool" using Suc.prems(1) by (simp add: setup_inv_def)
  have k: "unat (of_nat k :: u64) = k" using kt unat_lt64 [of "bp_block_count pool"]
    by (intro unat_of_nat64) linarith
  have len: "length (bp_tn_buffers pool) = pool_total pool" using Suc.prems(1) by (simp add: setup_inv_def)
  note a = block_address [OF geo kt]
  have bs: "bp_block_size pool \<noteq> 0" "bp_block_size pool < SIZE_HALF" using geo by (auto simp: pool_geometry_def)
  obtain b where b: "tn_buffer_setup (bp_tn_buffers pool ! k) ?a (bp_block_size pool) = Some (TN_SUCCESS, b)"
      "buf_inv b" "buf_base b = ?a" "bb_capacity (tb_buf b) = bp_block_size pool"
    using buf_setup_ok [OF a(2) bs(1) a(3) bs(2)] by blast
  have room: "length (pool_free pool) < q_cap (bp_tn_buffers_free pool)"
    using Suc.prems(1) kt by (simp add: setup_inv_def del: length_q_elems)
  have qinv: "q_inv (bp_tn_buffers_free pool)" using Suc.prems(1) by (simp add: setup_inv_def)
  obtain q where q: "tn_queue_spsc_push (bp_tn_buffers_free pool) k = Some (TN_SUCCESS, q)" "q_inv q"
      "q_elems q = pool_free pool @ [k]" "q_cap q = q_cap (bp_tn_buffers_free pool)"
    by (rule q_push_ok [OF qinv room, of k])
  let ?pool = "pool\<lparr>bp_tn_buffers := (bp_tn_buffers pool)[k := b\<lparr>tb_pool := Some pid\<rparr>], bp_tn_buffers_free := q\<rparr>"
  have "buf_inv (b\<lparr>tb_pool := Some pid\<rparr>)" using b(2) by (simp add: buf_inv_def)
  then have "pool_buffer_ok pid pool k (b\<lparr>tb_pool := Some pid\<rparr>)"
    using b(3,4) a(1) by (simp add: pool_buffer_ok_def)
  then have inv: "setup_inv pid (Suc k) ?pool"
    using Suc.prems(1) q kt len
    by (auto simp: setup_inv_def nth_list_update less_Suc_eq simp del: length_q_elems)
  have "pool_setup_loop pid (Suc n) (of_nat k) pool = pool_setup_loop pid n (of_nat (Suc k)) ?pool"
    using b(1) q(1) k kt len by (simp add: Let_def add.commute)
  then show ?case using Suc.IH [OF inv] Suc.prems(2) by simp
qed

text \<open>
  What a pool needs to come up: a count that the queue accepts, sizes whose product does not
  overflow, and an allocation that lies below the end of the address space.
\<close>

definition setup_pre :: "addr \<Rightarrow> u64 \<Rightarrow> u64 \<Rightarrow> bool" where
  "setup_pre blocks block_count block_size \<longleftrightarrow> blocks \<noteq> 0 \<and> 0 < block_count \<and> unat block_count < 2 ^ 58 \<and>
     0 < block_size \<and> block_size < SIZE_HALF \<and>
     unat blocks + unat block_count * unat block_size < 2 ^ 64"

lemma pool_setup_ok:
  assumes "setup_pre blocks block_count block_size"
  obtains pool' where
    "tn_buffer_pool_setup pid blocks True junk_bufs True junk_queue pool block_count block_size =
       Some (TN_SUCCESS, pool')" "pool_inv pid pool'" "pool_free pool' = [0..<unat block_count]"
    "pool_total pool' = unat block_count" "bp_block_size pool' = block_size" "bp_allocation pool' = blocks"
proof -
  let ?n = "unat block_count"
  have c: "0 < block_count" "?n \<le> 2 ^ 60" using assms by (simp_all add: setup_pre_def)
  obtain q where q: "tn_queue_spsc_setup True junk_queue (bp_tn_buffers_free pool) block_count = Some (TN_SUCCESS, q)"
      "q_inv q" "q_elems q = []" "?n \<le> q_cap q"
    by (rule q_setup_ok [OF c])
  have "unat (block_count * sizeof_tn_buffer) = ?n * 64"
    using assms by (subst unat_mult64) (simp_all add: sizeof_tn_buffer_def setup_pre_def)
  then have n: "unat (block_count * sizeof_tn_buffer) div 64 = ?n" by simp
  define p0 where "p0 = pool\<lparr>bp_block_count := block_count, bp_block_size := block_size, bp_blocks_inuse := 0,
    bp_bytes_inuse := 0, bp_allocation := blocks, bp_tn_buffers := map junk_bufs [0..<?n], bp_tn_buffers_free := q\<rparr>"
  have "setup_inv pid 0 p0"
    using assms q(2-4) by (simp add: setup_inv_def p0_def pool_geometry_def setup_pre_def del: length_q_elems)
  then obtain pool' where l: "pool_setup_loop pid ?n 0 p0 = Some (TN_SUCCESS, pool')" "setup_inv pid ?n pool'"
      "pool_total pool' = ?n" "bp_block_size pool' = block_size" "bp_allocation pool' = blocks"
    using pool_setup_loop_ok [of pid 0 p0 ?n] by (auto simp: p0_def)
  have "tn_buffer_pool_setup pid blocks True junk_bufs True junk_queue pool block_count block_size =
      Some (TN_SUCCESS, pool')"
    using assms q(1) l(1) n by (simp add: tn_buffer_pool_setup_def setup_pre_def Let_def p0_def)
  moreover have "pool_inv pid pool'"
  proof -
    have "bp_block_count pool' = block_count" using l(3) by (simp only: word_unat_eq_iff)
    then show ?thesis
      using l(2) by (simp add: setup_inv_def pool_inv_def lessThan_atLeast0 del: length_q_elems)
  qed
  moreover have "pool_free pool' = [0..<?n]" using l(2) by (simp add: setup_inv_def del: length_q_elems)
  ultimately show thesis using l(3-5) by (intro that)
qed

section \<open>Separation\<close>

lemma blocks_disjoint:
  assumes "i < j" and "j < pool_total pool"
  shows "block_base pool j + unat (bp_block_size pool) \<le> block_base pool i"
proof -
  have "Suc (pool_total pool - 1 - j) \<le> pool_total pool - 1 - i" using assms by linarith
  from mult_le_mono1 [OF this, of "unat (bp_block_size pool)"] show ?thesis by (simp add: block_base_def)
qed

lemma pool_buffers_apart:
  assumes "pool_buffer_ok pid pool i bi" and "pool_buffer_ok pid pool j bj"
    and "i \<noteq> j" and "i < pool_total pool" and "j < pool_total pool"
  shows "unat (buf_base bi) + buf_cap bi \<le> unat (buf_base bj) \<or>
    unat (buf_base bj) + buf_cap bj \<le> unat (buf_base bi)"
  using assms blocks_disjoint [of i j pool] blocks_disjoint [of j i pool]
  by (auto simp: pool_buffer_ok_def neq_iff)

lemma write_keeps_other:
  assumes "pool_buffer_ok pid pool i bi" and "pool_buffer_ok pid pool j bj"
    and "i \<noteq> j" and "i < pool_total pool" and "j < pool_total pool" and "unat len \<le> length src"
    and "tn_buffer_write m bi src len = Some (rc, m', bi')"
  shows "buf_content m' bj = buf_content m bj"
proof (cases "buf_fill bi + unat len \<le> buf_cap bi")
  case True
  have inv: "buf_inv bi" "buf_inv bj" using assms(1,2) by (simp_all add: pool_buffer_ok_def)
  have m: "m' = mem_write m (tn_buffer_write_ptr bi) (take (unat len) src)"
    using assms(7) buf_write_ok [OF inv(1) True assms(6)] by simp
  show ?thesis unfolding m buf_content_def
  proof (rule mem_read_write_disjoint)
    show "unat (buf_base bj) + buf_fill bj \<le> 2 ^ 64" using buf_invD [OF inv(2)] by linarith
    show "unat (tn_buffer_write_ptr bi) + length (take (unat len) src) \<le> 2 ^ 64"
      using buf_invD [OF inv(1)] True assms(6) unat_write_ptr [OF inv(1)] by simp
    show "unat (buf_base bj) + buf_fill bj \<le> unat (tn_buffer_write_ptr bi) \<or>
        unat (tn_buffer_write_ptr bi) + length (take (unat len) src) \<le> unat (buf_base bj)"
      using pool_buffers_apart [OF assms(1-5)] True assms(6) unat_write_ptr [OF inv(1)]
        buf_invD(3) [OF inv(1)] buf_invD(3) [OF inv(2)] by auto
  qed
next
  case False
  then have "tn_buffer_write m bi src len = Some (TN_ERROR, m, bi)"
    using buf_write_full [of bi len m src] assms(1) by (simp add: pool_buffer_ok_def)
  then show ?thesis using assms(7) by simp
qed

section \<open>Properties\<close>

text \<open>A pool that was set up hands its buffers out and takes them back without ever losing, duplicating or
  inventing one: after any sequence of calls of a client that gives back what it holds, every
  buffer of the pool is held or free and only once, and the counters give exactly the number of
  blocks and bytes in use.\<close>

theorem pool_conserves_buffers:
  assumes "setup_pre blocks n sz"
  shows "\<exists>pool outs held pool'.
    tn_buffer_pool_setup pid blocks True junk_bufs True junk_queue pool0 n sz = Some (TN_SUCCESS, pool) \<and>
    pool_run tn_buffer_pool_pop_back tn_buffer_pool_push pool [] ops = Some (outs, held, pool') \<and>
    conserved (unat n) held (pool_free pool') \<and>
    unat (bp_blocks_inuse pool') = length held \<and>
    unat (bp_bytes_inuse pool') = length held * unat sz"
proof -
  obtain pool where p: "tn_buffer_pool_setup pid blocks True junk_bufs True junk_queue pool0 n sz =
      Some (TN_SUCCESS, pool)" "pool_inv pid pool" "pool_free pool = [0..<unat n]" "pool_total pool = unat n"
      "bp_block_size pool = sz"
    by (rule pool_setup_ok [OF assms])
  have c: "conserved (pool_total pool) [] (pool_free pool)" using p(3,4) by (simp add: conserved_mset)
  have i: "pool_inv pid pool \<and> bp_block_size pool = sz" using p(2,5) by blast
  obtain outs held pool' where
    r: "pool_run tn_buffer_pool_pop_back tn_buffer_pool_push pool [] ops = Some (outs, held, pool')"
      "pool_inv pid pool'" "bp_block_size pool' = sz" "pool_total pool' = unat n"
      "conserved (unat n) held (pool_free pool')"
    using buf_pool.run_conserves [OF i c, of ops] p(4) by auto
  have l: "length held + length (pool_free pool') = unat n" by (rule conserved_length [OF r(5)])
  then have f: "unat (of_nat (length (pool_free pool')) :: u64) = length (pool_free pool')"
    using unat_lt64 [of n] by (intro unat_of_nat64) linarith
  have u: "unat (bp_blocks_inuse pool') = length held"
    using l r(4) f by (simp only: pool_invD(8) [OF r(2)], subst unat_sub64) simp_all
  have "unat n * unat sz < 2 ^ 64" using assms by (simp add: setup_pre_def)
  moreover have "length held * unat sz \<le> unat n * unat sz" using l by (intro mult_le_mono1) simp
  ultimately have "length held * unat sz < 2 ^ 64" by linarith
  then have "unat (bp_blocks_inuse pool' * sz) = length held * unat sz"
    using unat_mult64 [of "bp_blocks_inuse pool'" sz] by (simp only: u)
  then have "unat (bp_bytes_inuse pool') = length held * unat sz"
    using pool_invD(9) [OF r(2)] r(3) by simp
  then show ?thesis using p(1) r(1,5) u by blast
qed

text \<open>A pool structure before its setup, for the witnesses.\<close>

definition pool_raw :: tn_buffer_pool where
  "pool_raw = \<lparr>bp_blocks_inuse = 9, bp_bytes_inuse = 9, bp_block_size = 0, bp_block_count = 0, bp_tn_buffers = [],
     bp_allocation = 0, bp_tn_buffers_free = \<lparr>q_capacity = 0, q_mask = 0, q_buffer = [], q_head = 0, q_tail = 0,
     q_tail_cache = 0\<rparr>\<rparr>"

lemma setup_pre_sample: "setup_pre 4096 3 100"
  by (simp add: setup_pre_def SIZE_HALF_eq)

theorem pool_conserves_buffers_witness:
  "\<exists>pool outs held pool'.
    tn_buffer_pool_setup 0 4096 True (\<lambda>_. buf64) True (\<lambda>_. 7) pool_raw 3 100 = Some (TN_SUCCESS, pool) \<and>
    pool_run tn_buffer_pool_pop_back tn_buffer_pool_push pool [] [Acquire, Acquire, Release 1, Acquire] =
      Some (outs, held, pool') \<and>
    conserved (unat (3 :: u64)) held (pool_free pool') \<and>
    unat (bp_blocks_inuse pool') = length held \<and>
    unat (bp_bytes_inuse pool') = length held * unat (100 :: u64)"
  by (rule pool_conserves_buffers [OF setup_pre_sample])


text \<open>A pool of two free blocks of 16 bytes.\<close>

definition block_buffer :: "addr \<Rightarrow> tn_buffer" where
  "block_buffer a = \<lparr>tb_pool = Some 0, tb_buf = \<lparr>bb_len = 0, bb_buffer = a, bb_capacity = 16, bb_allocator = 0\<rparr>,
     tb_pos = \<lparr>cur_len = 0, cur_ptr = a\<rparr>, tb_capacity = 0\<rparr>"

definition pool_sample :: tn_buffer_pool where
  "pool_sample = \<lparr>bp_blocks_inuse = 0, bp_bytes_inuse = 0, bp_block_size = 16, bp_block_count = 2,
     bp_tn_buffers = [block_buffer 4112, block_buffer 4096], bp_allocation = 4096,
     bp_tn_buffers_free = \<lparr>q_capacity = 2, q_mask = 1, q_buffer = [0, 1, 0], q_head = 2, q_tail = 0,
     q_tail_cache = 0\<rparr>\<rparr>"

lemma pool_sample_free: "pool_free pool_sample = [0, 1]"
  by (simp add: pool_sample_def q_elems_def q_slot_def upt_rec)

lemma pool_sample_inv: "pool_inv 0 pool_sample"
proof -
  have g: "pool_geometry pool_sample" by (simp add: pool_geometry_def pool_sample_def SIZE_HALF_eq)
  have b: "pool_buffer_ok 0 pool_sample i (bp_tn_buffers pool_sample ! i)" if "i < 2" for i
    using that by (auto simp: less_2_cases_iff pool_buffer_ok_def pool_sample_def block_buffer_def buf_inv_def
        block_base_def SIZE_HALF_eq)
  have q: "q_inv (bp_tn_buffers_free pool_sample)"
    by (auto simp: q_inv_def pool_sample_def intro!: exI [of _ 1])
  have s: "set [0, 1] \<subseteq> {..<2 :: nat}" by auto
  show ?thesis unfolding pool_inv_def pool_sample_free
    using g b q s by (simp add: q_cap_def pool_sample_def)
qed


text \<open>Looking at the next free buffer and removing it afterwards with the cached position has the same effect
  on the free buffers and the counters as removing it at once, and both give the same empty
  buffer with the whole block as room.\<close>

theorem pool_two_phase_removal:
  assumes "pool_inv pid pool" and "pool_free pool = h # hs"
  shows "\<exists>p1 p2. tn_buffer_pool_peek pool = Some (TN_SUCCESS, Some h, p1) \<and>
    tn_buffer_pool_pop_back pool = Some (TN_SUCCESS, Some h, p2) \<and>
    pool_free (tn_buffer_pool_pop_cached p1) = hs \<and> pool_free p2 = hs \<and>
    bp_blocks_inuse (tn_buffer_pool_pop_cached p1) = bp_blocks_inuse p2 \<and>
    bp_bytes_inuse (tn_buffer_pool_pop_cached p1) = bp_bytes_inuse p2 \<and>
    bp_tn_buffers (tn_buffer_pool_pop_cached p1) = bp_tn_buffers p2 \<and>
    buf_fill (bp_tn_buffers p2 ! h) = 0 \<and> tn_buffer_remaining (bp_tn_buffers p2 ! h) = bp_block_size pool \<and>
    pool_inv pid (tn_buffer_pool_pop_cached p1) \<and> pool_inv pid p2"
proof -
  obtain p1 where p1: "tn_buffer_pool_peek pool = Some (TN_SUCCESS, Some h, p1)" "pool_inv pid p1"
      "pool_free p1 = h # hs" "q_peeked (bp_tn_buffers_free p1)"
      "bp_tn_buffers p1 = (bp_tn_buffers pool)[h := tn_buffer_reset (bp_tn_buffers pool ! h)]"
      "pool_total p1 = pool_total pool" "bp_block_size p1 = bp_block_size pool"
    by (rule pool_peek_ok [OF assms])
  obtain p2 where p2: "tn_buffer_pool_pop_back pool = Some (TN_SUCCESS, Some h, p2)" "pool_inv pid p2"
      "pool_free p2 = hs" "bp_tn_buffers p2 = (bp_tn_buffers pool)[h := tn_buffer_reset (bp_tn_buffers pool ! h)]"
      "pool_total p2 = pool_total pool" "bp_block_size p2 = bp_block_size pool"
    by (rule pool_pop_back_ok [OF assms])
  note c = pool_pop_cached_ok [OF p1(2-4)]
  have tot: "bp_block_count (tn_buffer_pool_pop_cached p1) = bp_block_count p2"
      "bp_block_size (tn_buffer_pool_pop_cached p1) = bp_block_size p2"
    using p1(6,7) p2(5,6) by (simp_all add: tn_buffer_pool_pop_cached_def word_unat_eq_iff)
  have h: "h < pool_total pool" using pool_invD(7) [OF assms(1)] assms(2) by auto
  have e: "bp_tn_buffers p2 ! h = tn_buffer_reset (bp_tn_buffers pool ! h)"
    using p2(4) h pool_invD(2) [OF assms(1)] by simp
  have r: "buf_fill (bp_tn_buffers p2 ! h) = 0" using pool_reset_ok(3) [OF assms(1) h] by (simp only: e)
  have "bb_capacity (tb_buf (bp_tn_buffers p2 ! h)) = bp_block_size pool"
    using pool_reset_ok(2) [OF assms(1) h] by (simp only: e pool_buffer_ok_def)
  then have "tn_buffer_remaining (bp_tn_buffers p2 ! h) = bp_block_size pool"
    using r by (simp add: tn_buffer_remaining_def unat_eq_zero)
  moreover have "bp_blocks_inuse (tn_buffer_pool_pop_cached p1) = bp_blocks_inuse p2"
    by (simp only: pool_invD(8) [OF c(1)] pool_invD(8) [OF p2(2)] tot c(2) p2(3))
  moreover from this have "bp_bytes_inuse (tn_buffer_pool_pop_cached p1) = bp_bytes_inuse p2"
    by (simp only: pool_invD(9) [OF c(1)] pool_invD(9) [OF p2(2)] tot)
  ultimately show ?thesis using p1(1,5) p2 c r by auto
qed

theorem pool_two_phase_removal_witness:
  "\<exists>p1 p2. tn_buffer_pool_peek pool_sample = Some (TN_SUCCESS, Some 0, p1) \<and>
    tn_buffer_pool_pop_back pool_sample = Some (TN_SUCCESS, Some 0, p2) \<and>
    pool_free (tn_buffer_pool_pop_cached p1) = [1] \<and> pool_free p2 = [1]"
  using pool_two_phase_removal [OF pool_sample_inv pool_sample_free] by blast

end
