(* ===== verification/Tn_Endpoint.thy ===== *)
theory Tn_Endpoint
  imports Tn_Memory
begin

text \<open>
  The socket addresses of \<open>src/endpoint.c\<close>. The four address conversions of libuv are parameters:
  \<open>uv_ip4_addr\<close> and \<open>uv_ip6_addr\<close> return their code and what they left in the socket address,
  \<open>uv_ip4_name\<close> and \<open>uv_ip6_name\<close> return the text they write. The byte order of the host is the
  parameter \<open>be\<close>.

  A socket address has its family, its port in network order and the remaining 124 bytes of
  \<open>sockaddr_storage\<close>; the family numbers are those of Linux.
\<close>

record sockaddr =
  sa_family :: u16
  sa_port :: u16
  sa_rest :: "u8 list"

record tn_endpoint =
  ep_type :: u64
  ep_sockaddr :: sockaddr

definition AF_INET :: u16 where "AF_INET = 2"
definition AF_INET6 :: u16 where "AF_INET6 = 10"

definition TN_ENDPOINT_TYPE_NONE :: u64 where "TN_ENDPOINT_TYPE_NONE = 0"
definition TN_ENDPOINT_TYPE_IPV4 :: u64 where "TN_ENDPOINT_TYPE_IPV4 = 1"
definition TN_ENDPOINT_TYPE_IPV6 :: u64 where "TN_ENDPOINT_TYPE_IPV6 = 2"

definition sockaddr_zero :: sockaddr where
  "sockaddr_zero = \<lparr>sa_family = 0, sa_port = 0, sa_rest = replicate 124 0\<rparr>"

definition endpoint_zero :: tn_endpoint where
  "endpoint_zero = \<lparr>ep_type = TN_ENDPOINT_TYPE_NONE, ep_sockaddr = sockaddr_zero\<rparr>"

section \<open>Printing\<close>

definition digit :: "nat \<Rightarrow> char" where
  "digit d = ''0123456789'' ! d"

fun show_nat :: "nat \<Rightarrow> string" where
  "show_nat n = (if n < 10 then [digit n] else show_nat (n div 10) @ [digit (n mod 10)])"

declare show_nat.simps [simp del]

text \<open>
  \<open>sprintf\<close> does not know the size of the destination: writing past its \<open>buf_len\<close> bytes, the
  terminating zero included, has no defined behaviour.
\<close>

definition tn_endpoint_get_string ::
  "(sockaddr \<Rightarrow> string) \<Rightarrow> (sockaddr \<Rightarrow> string) \<Rightarrow> bool \<Rightarrow> tn_endpoint \<Rightarrow> nat \<Rightarrow> (int \<times> string) option" where
  "tn_endpoint_get_string uv_ip4_name uv_ip6_name be endpoint buf_len =
     (let sa = ep_sockaddr endpoint;
          print = (\<lambda>ipbuf port. let s = ipbuf @ '':'' @ show_nat (unat port)
                   in if length s < buf_len then Some (TN_SUCCESS, s) else None)
      in if sa_family sa = AF_INET6 then print (uv_ip6_name sa) (aws_ntoh16 be (sa_port sa))
         else if sa_family sa = AF_INET then print (uv_ip4_name sa) (aws_ntoh16 be (sa_port sa))
         else Some (TN_ERROR, []))"

section \<open>Setting\<close>

definition tn_endpoint_set_ip4 ::
  "(string \<Rightarrow> u16 \<Rightarrow> int \<times> sockaddr) \<Rightarrow> string option \<Rightarrow> u16 \<Rightarrow> tn_endpoint \<Rightarrow> int \<times> tn_endpoint" where
  "tn_endpoint_set_ip4 uv_ip4_addr ip port endpoint =
     (case ip of None \<Rightarrow> (TN_ERROR, endpoint)
      | Some ip \<Rightarrow>
          let endpoint = endpoint_zero; (ret, sa) = uv_ip4_addr ip port;
              endpoint = endpoint\<lparr>ep_sockaddr := sa\<rparr>
          in if ret \<noteq> 0 then (TN_ERROR, endpoint)
             else (TN_SUCCESS, endpoint\<lparr>ep_type := TN_ENDPOINT_TYPE_IPV4\<rparr>))"

definition tn_endpoint_set_ip6 ::
  "(string \<Rightarrow> u16 \<Rightarrow> int \<times> sockaddr) \<Rightarrow> string option \<Rightarrow> u16 \<Rightarrow> tn_endpoint \<Rightarrow> int \<times> tn_endpoint" where
  "tn_endpoint_set_ip6 uv_ip6_addr ip port endpoint =
     (case ip of None \<Rightarrow> (TN_ERROR, endpoint)
      | Some ip \<Rightarrow>
          let endpoint = endpoint_zero; (ret, sa) = uv_ip6_addr ip port;
              endpoint = endpoint\<lparr>ep_sockaddr := sa\<rparr>
          in if ret \<noteq> 0 then (TN_ERROR, endpoint)
             else (TN_SUCCESS, endpoint\<lparr>ep_type := TN_ENDPOINT_TYPE_IPV6\<rparr>))"

definition tn_endpoint_set ::
  "(string \<Rightarrow> u16 \<Rightarrow> int \<times> sockaddr) \<Rightarrow> (string \<Rightarrow> u16 \<Rightarrow> int \<times> sockaddr) \<Rightarrow>
   string option \<Rightarrow> u16 \<Rightarrow> tn_endpoint \<Rightarrow> int \<times> tn_endpoint" where
  "tn_endpoint_set uv_ip4_addr uv_ip6_addr ip port endpoint =
     (let (rc, endpoint) = tn_endpoint_set_ip6 uv_ip6_addr ip port endpoint
      in if rc \<noteq> 0 then tn_endpoint_set_ip4 uv_ip4_addr ip port endpoint else (TN_SUCCESS, endpoint))"

text \<open>\<open>sockaddr_in6\<close> has 28 bytes and \<open>sockaddr_in\<close> 16; the first four are the family and the port.\<close>

definition tn_endpoint_convert_from :: "sockaddr \<Rightarrow> int \<times> tn_endpoint" where
  "tn_endpoint_convert_from sa =
     (let copy = (\<lambda>n. sa\<lparr>sa_rest := take n (sa_rest sa) @ replicate (124 - n) 0\<rparr>)
      in if sa_family sa = AF_INET6
         then (TN_SUCCESS, \<lparr>ep_type = TN_ENDPOINT_TYPE_IPV6, ep_sockaddr = copy 24\<rparr>)
         else if sa_family sa = AF_INET
         then (TN_SUCCESS, \<lparr>ep_type = TN_ENDPOINT_TYPE_IPV4, ep_sockaddr = copy 12\<rparr>)
         else (TN_ERROR, endpoint_zero))"

section \<open>Properties\<close>

lemma length_show_nat: "n < 10 ^ Suc k \<Longrightarrow> length (show_nat n) \<le> Suc k"
proof (induction k arbitrary: n)
  case 0
  then show ?case by (simp add: show_nat.simps)
next
  case (Suc k)
  then have "n div 10 < 10 ^ Suc k" by (simp add: div_less_iff_less_mult)
  then show ?case using Suc.IH [of "n div 10"] by (simp add: show_nat.simps [of n])
qed

lemma length_show_port: "length (show_nat (unat (p :: u16))) \<le> 5"
proof -
  have "unat p < 2 ^ 16" using unsigned_less [of p] by simp
  then have "unat p < 10 ^ Suc 4" by simp
  then show ?thesis using length_show_nat [of "unat p" 4] by simp
qed

text \<open>The text of an address with its port fits, with its terminating zero, into the 64-byte arrays of an
  open event, as long as libuv's names are at most 45 characters long (the longest IPv6 text).\<close>

theorem endpoint_string_fits_64:
  assumes "\<And>sa. length (uv_ip4_name sa) \<le> 45" and "\<And>sa. length (uv_ip6_name sa) \<le> 45"
  shows "\<exists>rc s. tn_endpoint_get_string uv_ip4_name uv_ip6_name be endpoint 64 = Some (rc, s) \<and> length s < 64 \<and>
    (rc = TN_SUCCESS \<longleftrightarrow> sa_family (ep_sockaddr endpoint) \<in> {AF_INET, AF_INET6})"
  using length_show_port [of "aws_ntoh16 be (sa_port (ep_sockaddr endpoint))"]
    assms(1) [of "ep_sockaddr endpoint"] assms(2) [of "ep_sockaddr endpoint"]
  by (simp add: tn_endpoint_get_string_def Let_def)

theorem endpoint_string_fits_64_witness:
  "\<exists>rc s. tn_endpoint_get_string (\<lambda>_. ''10.0.0.1'') (\<lambda>_. ''::1'') False
     \<lparr>ep_type = TN_ENDPOINT_TYPE_IPV4, ep_sockaddr = \<lparr>sa_family = AF_INET, sa_port = 0x9A02, sa_rest = []\<rparr>\<rparr> 64 =
     Some (rc, s) \<and> rc = TN_SUCCESS \<and> s = ''10.0.0.1:666''"
proof -
  let ?e = "\<lparr>ep_type = TN_ENDPOINT_TYPE_IPV4, ep_sockaddr = \<lparr>sa_family = AF_INET, sa_port = 0x9A02, sa_rest = []\<rparr>\<rparr>"
  have "length ''10.0.0.1'' \<le> 45" and "length ''::1'' \<le> 45" by simp_all
  from endpoint_string_fits_64 [of "\<lambda>_. ''10.0.0.1''" "\<lambda>_. ''::1''" False ?e, OF this]
  obtain rc s where r: "tn_endpoint_get_string (\<lambda>_. ''10.0.0.1'') (\<lambda>_. ''::1'') False ?e 64 = Some (rc, s)"
    "rc = TN_SUCCESS" by (auto simp: AF_INET_def)
  have "aws_ntoh16 False 0x9A02 = 666"
    by (simp add: aws_ntoh16_def host_to_net_def byteswap_def le_bytes_def upt_rec)
  then have "s = ''10.0.0.1:666''"
    using r by (simp add: tn_endpoint_get_string_def AF_INET_def AF_INET6_def Let_def show_nat.simps digit_def)
  then show ?thesis using r by blast
qed

text \<open>Setting an endpoint to an IPv4 text and printing it gives the text and the port back, on hosts of either
  byte order. The hypotheses are the documented behaviour of libuv: \<open>uv_ip6_addr\<close> rejects an IPv4
  text, \<open>uv_ip4_addr\<close> accepts it, stores the family and the port in network order, and
  \<open>uv_ip4_name\<close> prints what was parsed.\<close>

theorem endpoint_set_print_round_trip:
  assumes "fst (uv_ip6_addr ip port) \<noteq> 0"
    and "uv_ip4_addr ip port = (0, sa)" and "sa_family sa = AF_INET" and "sa_port sa = aws_hton16 be port"
    and "uv_ip4_name sa = ip"
  shows "\<exists>e. tn_endpoint_set uv_ip4_addr uv_ip6_addr (Some ip) port old = (TN_SUCCESS, e) \<and>
    ep_type e = TN_ENDPOINT_TYPE_IPV4 \<and>
    (length ip + 6 < n \<longrightarrow>
      tn_endpoint_get_string uv_ip4_name uv_ip6_name be e n = Some (TN_SUCCESS, ip @ '':'' @ show_nat (unat port)))"
proof -
  let ?e = "\<lparr>ep_type = TN_ENDPOINT_TYPE_IPV4, ep_sockaddr = sa\<rparr>"
  have "tn_endpoint_set uv_ip4_addr uv_ip6_addr (Some ip) port old = (TN_SUCCESS, ?e)"
    using assms(1,2)
    by (simp add: tn_endpoint_set_def tn_endpoint_set_ip6_def tn_endpoint_set_ip4_def endpoint_zero_def Let_def
        case_prod_beta)
  moreover have "tn_endpoint_get_string uv_ip4_name uv_ip6_name be ?e n =
      Some (TN_SUCCESS, ip @ '':'' @ show_nat (unat port))" if "length ip + 6 < n"
    using assms(3-5) that length_show_port [of port] net16.ntoh_hton [of be port]
    by (simp add: tn_endpoint_get_string_def AF_INET_def AF_INET6_def Let_def)
  ultimately show ?thesis by (intro exI [of _ ?e]) simp
qed

theorem endpoint_set_print_round_trip_witness:
  "\<exists>e. tn_endpoint_set (\<lambda>ip p. (0, \<lparr>sa_family = AF_INET, sa_port = aws_hton16 True p, sa_rest = []\<rparr>))
      (\<lambda>ip p. (-22, sockaddr_zero)) (Some ''1.2.3.4'') 8080 endpoint_zero = (TN_SUCCESS, e) \<and>
    tn_endpoint_get_string (\<lambda>_. ''1.2.3.4'') (\<lambda>_. []) True e 64 = Some (TN_SUCCESS, ''1.2.3.4:8080'')"
proof -
  let ?a = "\<lambda>ip p. (0, \<lparr>sa_family = AF_INET, sa_port = aws_hton16 True p, sa_rest = []\<rparr>)"
  have s: "''1.2.3.4'' @ '':'' @ show_nat (unat (8080 :: u16)) = ''1.2.3.4:8080''"
    by (simp add: show_nat.simps digit_def)
  show ?thesis
    using endpoint_set_print_round_trip [where uv_ip6_addr = "\<lambda>ip p. (-22, sockaddr_zero)" and ip = "''1.2.3.4''"
        and port = 8080 and uv_ip4_addr = ?a and be = True and uv_ip4_name = "\<lambda>_. ''1.2.3.4''" and old = endpoint_zero
        and sa = "\<lparr>sa_family = AF_INET, sa_port = aws_hton16 True 8080, sa_rest = []\<rparr>" and n = 64
        and uv_ip6_name = "\<lambda>_. []"]
    unfolding s by auto
qed

end
