(* ===== verification/Tn_Channel.thy ===== *)
theory Tn_Channel
  imports Tn_List_Ptr Tn_Buffer_Pool Tn_Endpoint
begin

text \<open>
  The channels of \<open>src/tcp_channel.c\<close>: one per client, in a fixed array with a free list, and the
  reading of length-prefixed frames from a channel's read buffer.

  A channel is identified by its index in the array. Its read buffer is an index into the read
  pool of the service, so the operations on it take the pool's array of buffers; its uv handle is
  a number.
\<close>

datatype tcp_channel_state =
  TCP_CHANNEL_NEW | TCP_CHANNEL_OPEN | TCP_CHANNEL_CLOSING | TCP_CHANNEL_CLOSED | TCP_CHANNEL_ERROR
| TCP_CHANNEL_INVALID

datatype tcp_channel_read_state =
  TCP_CHANNEL_READ_NONE | TCP_CHANNEL_READ_HEADER | TCP_CHANNEL_READ_PAYLOAD | TCP_CHANNEL_READ_ERROR
| TCP_CHANNEL_READ_INVALID

record tcp_channel =
  ch_priv :: "nat option"
  ch_id :: u64
  ch_list_id :: u64
  ch_has_service :: bool
  ch_read_buffer :: "nat option"
  ch_endpoint :: tn_endpoint
  ch_error_code :: int
  ch_state :: tcp_channel_state
  ch_read_state :: tcp_channel_read_state
  ch_next_payload_len :: u64
  ch_last_msg_id :: u64

record tcp_channel_list =
  cl_client_map :: "tcp_channel list"
  cl_clients_max :: size_t
  cl_client_list_free :: "nat tn_list_ptr"
  cl_client_list_open :: "nat tn_list_ptr"

definition channel_zero :: tcp_channel where
  "channel_zero = \<lparr>ch_priv = None, ch_id = 0, ch_list_id = 0, ch_has_service = False, ch_read_buffer = None,
     ch_endpoint = endpoint_zero, ch_error_code = 0, ch_state = TCP_CHANNEL_NEW,
     ch_read_state = TCP_CHANNEL_READ_NONE, ch_next_payload_len = 0, ch_last_msg_id = 0\<rparr>"

definition tcp_channel_state_of :: "tcp_channel \<Rightarrow> tcp_channel_state" where
  "tcp_channel_state_of channel = ch_state channel"

definition tcp_channel_read_state_of :: "tcp_channel \<Rightarrow> tcp_channel_read_state" where
  "tcp_channel_read_state_of channel = ch_read_state channel"

section \<open>Reading frames\<close>

text \<open>Both operations return the code, the out-parameter, the channel and the buffers.\<close>

definition tcp_channel_read_header ::
  "bool \<Rightarrow> mem \<Rightarrow> tn_buffer list \<Rightarrow> tcp_channel \<Rightarrow> (int \<times> u32 \<times> tcp_channel \<times> tn_buffer list) option" where
  "tcp_channel_read_header be m bufs channel = do {
     i \<leftarrow> ch_read_buffer channel;
     b \<leftarrow> arr_get bufs i;
     let (rc, v, b) = tn_buffer_read_be32 be m b;
     bufs \<leftarrow> arr_set bufs i b;
     if rc \<noteq> 0 then Some (TN_ERROR, 0, channel, bufs)
     else do {
       len \<leftarrow> v;
       Some (TN_SUCCESS, len,
         channel\<lparr>ch_next_payload_len := ucast len, ch_read_state := TCP_CHANNEL_READ_PAYLOAD\<rparr>, bufs)
     }
   }"

definition tcp_channel_read_payload ::
  "tn_buffer list \<Rightarrow> tcp_channel \<Rightarrow> (int \<times> tn_buffer_span \<times> tcp_channel \<times> tn_buffer list) option" where
  "tcp_channel_read_payload bufs channel = do {
     i \<leftarrow> ch_read_buffer channel;
     b \<leftarrow> arr_get bufs i;
     let span = \<lparr>span_len = ch_next_payload_len channel, span_ptr = tn_buffer_read_ptr b\<rparr>;
     let (rc, b) = tn_buffer_read_skip b (span_len span);
     bufs \<leftarrow> arr_set bufs i b;
     if rc \<noteq> 0 then Some (TN_ERROR, \<lparr>span_len = 0, span_ptr = 0\<rparr>, channel, bufs)
     else Some (TN_SUCCESS, span, channel\<lparr>ch_read_state := TCP_CHANNEL_READ_HEADER\<rparr>, bufs)
   }"

text \<open>
  The swap takes a fresh buffer from the read pool and copies the unread bytes over. The pool's
  pop stores NULL through its out-parameter when it fails.
\<close>

definition tcp_channel_buffer_swap ::
  "mem \<Rightarrow> tn_buffer_pool \<Rightarrow> tcp_channel \<Rightarrow> (int \<times> mem \<times> tn_buffer_pool \<times> tcp_channel) option" where
  "tcp_channel_buffer_swap m pool channel = do {
     prev \<leftarrow> ch_read_buffer channel;
     (rc, out, pool) \<leftarrow> tn_buffer_pool_pop_back pool;
     let channel = channel\<lparr>ch_read_buffer := out\<rparr>;
     if rc \<noteq> 0 then Some (TN_ERROR, m, pool, channel)
     else do {
       i \<leftarrow> out;
       new_buffer \<leftarrow> arr_get (bp_tn_buffers pool) i;
       prev_buffer \<leftarrow> arr_get (bp_tn_buffers pool) prev;
       if tn_buffer_read_length prev_buffer \<noteq> 0 then do {
         (rc, m, new_buffer) \<leftarrow> tn_buffer_write_buffer m new_buffer prev_buffer 0;
         bufs \<leftarrow> arr_set (bp_tn_buffers pool) i new_buffer;
         let pool = pool\<lparr>bp_tn_buffers := bufs\<rparr>;
         if rc \<noteq> 0 then Some (TN_ERROR, m, pool, channel) else Some (TN_SUCCESS, m, pool, channel)
       }
       else Some (TN_SUCCESS, m, pool, channel)
     }
   }"

section \<open>The channel list\<close>

text \<open>\<open>sizeof(tcp_channel_t)\<close> is 328; the loop numbers the channels and makes them free.\<close>

fun channel_fill_loop :: "nat \<Rightarrow> nat \<Rightarrow> tcp_channel_list \<Rightarrow> (int \<times> tcp_channel_list) option" where
  "channel_fill_loop 0 i l = Some (TN_SUCCESS, l)"
| "channel_fill_loop (Suc n) i l = do {
     channel \<leftarrow> arr_get (cl_client_map l) i;
     chans \<leftarrow> arr_set (cl_client_map l) i (channel\<lparr>ch_id := of_nat i\<rparr>);
     (rc, free) \<leftarrow> tn_list_ptr_push_back (cl_client_list_free l) i;
     let l = l\<lparr>cl_client_map := chans, cl_client_list_free := free\<rparr>;
     if rc \<noteq> 0 then Some (TN_ERROR, l) else channel_fill_loop n (Suc i) l
   }"

definition tcp_channel_list_setup ::
  "bool \<Rightarrow> bool \<Rightarrow> (nat \<Rightarrow> nat) \<Rightarrow> size_t \<Rightarrow> (int \<times> tcp_channel_list) option" where
  "tcp_channel_list_setup ok_map ok_free junk_free clients_max =
     (let empty = \<lparr>lp_data = None, lp_capacity = 0, lp_index = 0\<rparr>;
          l = \<lparr>cl_client_map = [], cl_clients_max = 0, cl_client_list_free = empty, cl_client_list_open = empty\<rparr>;
          cleanup = (\<lambda>l. l\<lparr>cl_client_list_free := tn_list_ptr_cleanup (cl_client_list_free l), cl_client_map := []\<rparr>)
      in case tn_mem_acquire ok_map (\<lambda>_. channel_zero) (unat (clients_max * 328) div 328) of
           None \<Rightarrow> Some (TN_ERROR, cleanup l)
         | Some chans \<Rightarrow> do {
             let (rc, free) = tn_list_ptr_setup ok_free junk_free clients_max;
             let l = l\<lparr>cl_client_map := chans, cl_client_list_free := free\<rparr>;
             if rc \<noteq> 0 then Some (TN_ERROR, cleanup l)
             else do {
               (rc, l) \<leftarrow> channel_fill_loop (unat clients_max) 0 l;
               if rc \<noteq> 0 then Some (TN_ERROR, cleanup l)
               else Some (TN_SUCCESS, l\<lparr>cl_clients_max := clients_max\<rparr>)
             }
           })"

definition tcp_channel_list_cleanup :: "tcp_channel_list \<Rightarrow> int \<times> tcp_channel_list" where
  "tcp_channel_list_cleanup l =
     (TN_ERROR, l\<lparr>cl_client_list_free := tn_list_ptr_cleanup (cl_client_list_free l), cl_client_map := []\<rparr>)"

definition tcp_channel_list_open :: "tcp_channel_list \<Rightarrow> (int \<times> nat option \<times> tcp_channel_list) option" where
  "tcp_channel_list_open l = do {
     (ret, out, free) \<leftarrow> tn_list_ptr_pop_back (cl_client_list_free l);
     Some (if ret \<noteq> 0 then TN_ERROR else TN_SUCCESS, out, l\<lparr>cl_client_list_free := free\<rparr>)
   }"

definition tcp_channel_list_close :: "tcp_channel_list \<Rightarrow> nat \<Rightarrow> (int \<times> tcp_channel_list) option" where
  "tcp_channel_list_close l channel = do {
     (rc, free) \<leftarrow> tn_list_ptr_push_back (cl_client_list_free l) channel;
     Some (if rc \<noteq> 0 then TN_ERROR else TN_SUCCESS, l\<lparr>cl_client_list_free := free\<rparr>)
   }"

definition tcp_channel_list_reset :: "tcp_channel_list \<Rightarrow> (int \<times> tcp_channel_list) option" where
  "tcp_channel_list_reset l =
     (let l = l\<lparr>cl_client_map := map (\<lambda>_. channel_zero) (cl_client_map l),
            cl_client_list_free := tn_list_ptr_clear (cl_client_list_free l),
            cl_client_list_open := tn_list_ptr_clear (cl_client_list_open l)\<rparr>
      in channel_fill_loop (unat (cl_clients_max l)) 0 l)"

definition tcp_channel_list_get :: "tcp_channel_list \<Rightarrow> u64 \<Rightarrow> int \<times> nat option" where
  "tcp_channel_list_get l client_id =
     (if client_id \<ge> cl_clients_max l then (TN_ERROR, None) else (TN_SUCCESS, Some (unat client_id)))"

section \<open>Invariant\<close>

abbreviation chan_free :: "tcp_channel_list \<Rightarrow> nat list" where
  "chan_free l \<equiv> lp_elems (cl_client_list_free l)"

abbreviation chan_total :: "tcp_channel_list \<Rightarrow> nat" where
  "chan_total l \<equiv> unat (cl_clients_max l)"

definition chan_inv :: "tcp_channel_list \<Rightarrow> bool" where
  "chan_inv l \<longleftrightarrow> length (cl_client_map l) = chan_total l \<and>
     (\<forall>i < chan_total l. ch_id (cl_client_map l ! i) = of_nat i) \<and>
     lp_inv (cl_client_list_free l) \<and> lp_cap (cl_client_list_free l) = chan_total l \<and>
     distinct (chan_free l) \<and> set (chan_free l) \<subseteq> {..<chan_total l}"

lemma chan_invD:
  assumes "chan_inv l"
  shows "length (cl_client_map l) = chan_total l" and "\<And>i. i < chan_total l \<Longrightarrow> ch_id (cl_client_map l ! i) = of_nat i"
    and "lp_inv (cl_client_list_free l)" and "lp_cap (cl_client_list_free l) = chan_total l"
    and "distinct (chan_free l)" and "set (chan_free l) \<subseteq> {..<chan_total l}"
  using assms unfolding chan_inv_def by blast+

text \<open>Changing a channel without renumbering it keeps the invariant.\<close>

lemma chan_inv_update:
  assumes "chan_inv l" and "ch_id c = ch_id (cl_client_map l ! i)"
  shows "chan_inv (l\<lparr>cl_client_map := (cl_client_map l)[i := c]\<rparr>)"
  using assms unfolding chan_inv_def
  by simp (metis nth_list_update_eq nth_list_update_neq)

lemma chan_inv_free:
  assumes "chan_inv l" and "lp_inv f" and "lp_cap f = lp_cap (cl_client_list_free l)"
    and "distinct (lp_elems f)" and "set (lp_elems f) \<subseteq> {..<chan_total l}"
  shows "chan_inv (l\<lparr>cl_client_list_free := f\<rparr>)"
  using assms unfolding chan_inv_def by simp

lemma channel_open_ok:
  assumes "chan_inv l" and "chan_free l = fs @ [i]"
  obtains l' where "tcp_channel_list_open l = Some (TN_SUCCESS, Some i, l')" "chan_inv l'" "chan_free l' = fs"
    "cl_client_map l' = cl_client_map l" "cl_clients_max l' = cl_clients_max l"
proof -
  note D = chan_invD [OF assms(1)]
  obtain f where f: "tn_list_ptr_pop_back (cl_client_list_free l) = Some (TN_SUCCESS, Some i, f)" "lp_inv f"
      "lp_elems f = fs" "lp_cap f = lp_cap (cl_client_list_free l)"
    using lp_pop_ok [OF D(3) assms(2)] by blast
  have "chan_inv (l\<lparr>cl_client_list_free := f\<rparr>)"
    by (rule chan_inv_free [OF assms(1) f(2,4)]) (use f(3) D(5,6) assms(2) in auto)
  then show thesis using f
    by (intro that [of "l\<lparr>cl_client_list_free := f\<rparr>"]) (simp_all add: tcp_channel_list_open_def)
qed

lemma channel_open_none:
  assumes "chan_inv l" and "chan_free l = []"
  shows "tcp_channel_list_open l = Some (TN_ERROR, None, l)"
  using lp_pop_empty [OF chan_invD(3) [OF assms(1)] assms(2)] by (simp add: tcp_channel_list_open_def)

lemma channel_close_ok:
  assumes "chan_inv l" and "i < chan_total l" and "i \<notin> set (chan_free l)"
  obtains l' where "tcp_channel_list_close l i = Some (TN_SUCCESS, l')" "chan_inv l'"
    "chan_free l' = chan_free l @ [i]" "cl_client_map l' = cl_client_map l" "cl_clients_max l' = cl_clients_max l"
proof -
  note D = chan_invD [OF assms(1)]
  have "length (chan_free l) < lp_cap (cl_client_list_free l)"
    using distinct_room [OF D(5,6) assms(2,3)] D(4) by simp
  then obtain f where f: "tn_list_ptr_push_back (cl_client_list_free l) i = Some (TN_SUCCESS, f)" "lp_inv f"
      "lp_elems f = chan_free l @ [i]" "lp_cap f = lp_cap (cl_client_list_free l)"
    using lp_push_ok [OF D(3)] by blast
  have "chan_inv (l\<lparr>cl_client_list_free := f\<rparr>)"
    by (rule chan_inv_free [OF assms(1) f(2,4)]) (use f(3) D(5,6) assms(2,3) in auto)
  then show thesis using f
    by (intro that [of "l\<lparr>cl_client_list_free := f\<rparr>"]) (simp_all add: tcp_channel_list_close_def)
qed

interpretation chan_pool: handle_pool chan_inv chan_free chan_total tcp_channel_list_open tcp_channel_list_close
proof (unfold_locales, goal_cases)
  case (1 l)
  then obtain fs i where fs: "chan_free l = fs @ [i]" by (cases "chan_free l" rule: rev_cases) auto
  show ?case by (rule channel_open_ok [OF 1(1) fs]) (use fs in auto)
next
  case (2 l)
  then show ?case using channel_open_none [of l] by simp
next
  case (3 l h)
  show ?case by (rule channel_close_ok [OF 3]) auto
qed

section \<open>Setting up\<close>

definition chan_fill_inv :: "nat \<Rightarrow> nat \<Rightarrow> tcp_channel_list \<Rightarrow> bool" where
  "chan_fill_inv tot k l \<longleftrightarrow> k \<le> tot \<and> length (cl_client_map l) = tot \<and>
     (\<forall>i < k. ch_id (cl_client_map l ! i) = of_nat i) \<and>
     lp_inv (cl_client_list_free l) \<and> lp_cap (cl_client_list_free l) = tot \<and> chan_free l = [0..<k]"

lemma channel_fill_ok:
  assumes "chan_fill_inv tot k l" and "k + n = tot"
  shows "\<exists>l'. channel_fill_loop n k l = Some (TN_SUCCESS, l') \<and> chan_fill_inv tot tot l' \<and>
    cl_clients_max l' = cl_clients_max l"
  using assms
proof (induction n arbitrary: k l)
  case 0
  then show ?case by simp
next
  case (Suc n)
  have kt: "k < tot" using Suc.prems(2) by simp
  have "length (chan_free l) < lp_cap (cl_client_list_free l)" and inv: "lp_inv (cl_client_list_free l)"
    using Suc.prems(1) kt by (simp_all add: chan_fill_inv_def)
  then obtain f where f: "tn_list_ptr_push_back (cl_client_list_free l) k = Some (TN_SUCCESS, f)" "lp_inv f"
      "lp_elems f = chan_free l @ [k]" "lp_cap f = lp_cap (cl_client_list_free l)"
    using lp_push_ok [OF inv] by blast
  let ?l = "l\<lparr>cl_client_map := (cl_client_map l)[k := (cl_client_map l ! k)\<lparr>ch_id := of_nat k\<rparr>],
    cl_client_list_free := f\<rparr>"
  have "chan_fill_inv tot (Suc k) ?l"
    using Suc.prems(1) f kt by (auto simp: chan_fill_inv_def nth_list_update less_Suc_eq)
  moreover have "channel_fill_loop (Suc n) k l = channel_fill_loop n (Suc k) ?l"
    using Suc.prems(1) f(1) kt by (simp add: chan_fill_inv_def)
  ultimately show ?case using Suc.IH [of "Suc k" ?l] Suc.prems(2) by simp
qed

lemma channel_list_setup_ok:
  assumes "unat n < 2 ^ 55"
  shows "\<exists>l. tcp_channel_list_setup True True junk n = Some (TN_SUCCESS, l) \<and> chan_inv l \<and>
    chan_free l = [0..<unat n] \<and> cl_clients_max l = n"
proof -
  have "unat (n * 328) = unat n * 328" using assms by (subst unat_mult64) simp_all
  then have sz: "unat (n * 328) div 328 = unat n" by simp
  have "unat n < 2 ^ 61" using assms by simp
  from lp_setup_ok [OF this, of junk] obtain f where
    f: "tn_list_ptr_setup True junk n = (TN_SUCCESS, f)" "lp_inv f" "lp_elems f = []" "lp_cap f = unat n" by blast
  let ?l0 = "\<lparr>cl_client_map = map (\<lambda>_. channel_zero) [0..<unat n], cl_clients_max = 0, cl_client_list_free = f,
    cl_client_list_open = \<lparr>lp_data = None, lp_capacity = 0, lp_index = 0\<rparr>\<rparr>"
  have "chan_fill_inv (unat n) 0 ?l0" using f by (simp add: chan_fill_inv_def)
  then obtain l where l: "channel_fill_loop (unat n) 0 ?l0 = Some (TN_SUCCESS, l)" "chan_fill_inv (unat n) (unat n) l"
    using channel_fill_ok [of "unat n" 0 ?l0 "unat n"] by auto
  let ?l = "l\<lparr>cl_clients_max := n\<rparr>"
  have "tcp_channel_list_setup True True junk n = Some (TN_SUCCESS, ?l)"
    using sz f(1) l(1) by (simp add: tcp_channel_list_setup_def Let_def)
  moreover have "chan_inv ?l" "chan_free ?l = [0..<unat n]"
    using l(2) by (simp_all add: chan_inv_def chan_fill_inv_def lessThan_atLeast0)
  ultimately show ?thesis by auto
qed

text \<open>Numbering the channels gives none of them a buffer.\<close>

lemma channel_fill_no_buffers:
  "channel_fill_loop n k l = Some (rc, l') \<Longrightarrow> \<forall>ch \<in> set (cl_client_map l). ch_read_buffer ch = None \<Longrightarrow>
    \<forall>ch \<in> set (cl_client_map l'). ch_read_buffer ch = None"
proof (induction n arbitrary: k l)
  case (Suc n)
  obtain rc1 free where r: "k < length (cl_client_map l)" "tn_list_ptr_push_back (cl_client_list_free l) k = Some (rc1, free)"
    using Suc.prems(1) by (auto simp: arr_get_Some_iff split: Option.bind_splits)
  let ?l = "l\<lparr>cl_client_map := (cl_client_map l)[k := (cl_client_map l ! k)\<lparr>ch_id := of_nat k\<rparr>], cl_client_list_free := free\<rparr>"
  have "\<forall>ch \<in> set (cl_client_map ?l). ch_read_buffer ch = None"
    using Suc.prems(2) r(1) set_update_subset_insert [of "cl_client_map l" k] by (fastforce dest: nth_mem)
  then show ?case using Suc.prems(1) r Suc.IH [of "Suc k" ?l] by (auto simp: Let_def split: if_splits)
qed simp

lemma channel_list_setup_no_buffers:
  assumes "tcp_channel_list_setup ok_map ok_free junk n = Some (rc, l)"
  shows "\<forall>ch \<in> set (cl_client_map l). ch_read_buffer ch = None"
proof (cases "ok_map")
  case True
  obtain rc1 f where f: "tn_list_ptr_setup ok_free junk n = (rc1, f)" by fastforce
  show ?thesis using assms True f channel_fill_no_buffers [of "unat n" 0]
    by (fastforce simp: tcp_channel_list_setup_def Let_def channel_zero_def split: if_splits Option.bind_splits)
qed (use assms in \<open>auto simp: tcp_channel_list_setup_def Let_def\<close>)

section \<open>Properties\<close>

text \<open>After setup, any sequence of opening channels and closing opened ones keeps every channel either open or
  free, never both and never twice, and every channel keeps the number it got at setup.\<close>

theorem channels_conserved:
  assumes "unat n < 2 ^ 55"
  shows "\<exists>l outs opened l'. tcp_channel_list_setup True True junk n = Some (TN_SUCCESS, l) \<and>
    pool_run tcp_channel_list_open tcp_channel_list_close l [] ops = Some (outs, opened, l') \<and>
    conserved (unat n) opened (chan_free l') \<and>
    (\<forall>i < unat n. ch_id (cl_client_map l' ! i) = of_nat i)"
proof -
  obtain l where l: "tcp_channel_list_setup True True junk n = Some (TN_SUCCESS, l)" "chan_inv l"
      "chan_free l = [0..<unat n]" "cl_clients_max l = n"
    using channel_list_setup_ok [OF assms] by blast
  have "conserved (chan_total l) [] (chan_free l)" using l(3,4) by (simp add: conserved_mset)
  from chan_pool.run_conserves [OF l(2) this, of ops] obtain outs opened l' where
    r: "pool_run tcp_channel_list_open tcp_channel_list_close l [] ops = Some (outs, opened, l')" "chan_inv l'"
      "chan_total l' = unat n" "conserved (unat n) opened (chan_free l')"
    using l(4) by auto
  then show ?thesis using l(1) chan_invD(2) [OF r(2)] by auto
qed

theorem channels_conserved_witness:
  "\<exists>l outs opened l'. tcp_channel_list_setup True True (\<lambda>_. 0) 10000 = Some (TN_SUCCESS, l) \<and>
    pool_run tcp_channel_list_open tcp_channel_list_close l [] [Acquire, Acquire, Release 0, Acquire] =
      Some (outs, opened, l') \<and>
    conserved (unat (10000 :: u64)) opened (chan_free l')"
proof -
  have "unat (10000 :: u64) < 2 ^ 55" by simp
  from channels_conserved [OF this, of "\<lambda>_. 0" "[Acquire, Acquire, Release 0, Acquire]"] show ?thesis by blast
qed

text \<open>Resetting the list, whatever the state of the channels, frees all of them and puts each back into its
  initial state with its number.\<close>

theorem channel_list_reset_fresh:
  assumes "chan_inv l"
  shows "\<exists>l'. tcp_channel_list_reset l = Some (TN_SUCCESS, l') \<and> chan_inv l' \<and>
    chan_free l' = [0..<chan_total l] \<and> cl_clients_max l' = cl_clients_max l"
proof -
  note D = chan_invD [OF assms]
  let ?l = "l\<lparr>cl_client_map := map (\<lambda>_. channel_zero) (cl_client_map l),
    cl_client_list_free := tn_list_ptr_clear (cl_client_list_free l),
    cl_client_list_open := tn_list_ptr_clear (cl_client_list_open l)\<rparr>"
  have "lp_inv (tn_list_ptr_clear (cl_client_list_free l))" "lp_elems (tn_list_ptr_clear (cl_client_list_free l)) = []"
    using D(3) by (auto simp: lp_inv_def lp_elems_def tn_list_ptr_clear_def)
  then have "chan_fill_inv (chan_total l) 0 ?l"
    using D(1,4) by (simp add: chan_fill_inv_def) (simp add: tn_list_ptr_clear_def)
  then obtain l' where l': "channel_fill_loop (chan_total l) 0 ?l = Some (TN_SUCCESS, l')"
      "chan_fill_inv (chan_total l) (chan_total l) l'" "cl_clients_max l' = cl_clients_max l"
    using channel_fill_ok [of "chan_total l" 0 ?l "chan_total l"] by auto
  have "tcp_channel_list_reset l = Some (TN_SUCCESS, l')"
    using l'(1) by (simp add: tcp_channel_list_reset_def Let_def)
  then show ?thesis using l'(2,3) by (simp add: chan_inv_def chan_fill_inv_def lessThan_atLeast0)
qed

definition chan_sample :: tcp_channel_list where
  "chan_sample = \<lparr>cl_client_map = [channel_zero\<lparr>ch_state := TCP_CHANNEL_OPEN\<rparr>, channel_zero\<lparr>ch_id := 1\<rparr>],
     cl_clients_max = 2, cl_client_list_free = \<lparr>lp_data = Some [1, 0], lp_capacity = 2, lp_index = 1\<rparr>,
     cl_client_list_open = \<lparr>lp_data = None, lp_capacity = 0, lp_index = 0\<rparr>\<rparr>"

lemma chan_sample_inv: "chan_inv chan_sample"
  by (auto simp: chan_inv_def chan_sample_def channel_zero_def less_2_cases_iff lp_inv_def lp_elems_def)

theorem channel_list_reset_fresh_witness:
  "\<exists>l'. tcp_channel_list_reset chan_sample = Some (TN_SUCCESS, l') \<and> chan_free l' = [0, 1]"
  using channel_list_reset_fresh [OF chan_sample_inv] by (auto simp: chan_sample_def upt_rec)

text \<open>Property C29. Reading a header and then a payload from a buffer that holds a complete frame with a non-empty payload
  gives the length and a span over exactly the bytes of the payload, consumes the frame and
  nothing else, and leaves the channel ready for the next header.\<close>

theorem channel_reads_frame:
  assumes "ch_read_buffer ch = Some i" and "i < length bufs" and "buf_inv (bufs ! i)"
    and "buf_unread m (bufs ! i) = be_bytes 4 n @ payload @ rest" and "length payload = unat n" and "n \<noteq> 0"
  shows "\<exists>ch1 bufs1 span ch2 bufs2. tcp_channel_read_header be m bufs ch = Some (TN_SUCCESS, n, ch1, bufs1) \<and>
    ch_read_state ch1 = TCP_CHANNEL_READ_PAYLOAD \<and>
    tcp_channel_read_payload bufs1 ch1 = Some (TN_SUCCESS, span, ch2, bufs2) \<and>
    mem_read m (span_ptr span) (unat (span_len span)) = payload \<and>
    ch_read_state ch2 = TCP_CHANNEL_READ_HEADER \<and> buf_inv (bufs2 ! i) \<and> buf_unread m (bufs2 ! i) = rest"
proof -
  obtain b1 where h: "tn_buffer_read_be32 be m (bufs ! i) = (TN_SUCCESS, Some n, b1)" "buf_inv b1"
      "buf_unread m b1 = payload @ rest"
    using f32.rd_enc [OF assms(3,4)] by blast
  let ?ch1 = "ch\<lparr>ch_next_payload_len := ucast n, ch_read_state := TCP_CHANNEL_READ_PAYLOAD\<rparr>"
  have 1: "tcp_channel_read_header be m bufs ch = Some (TN_SUCCESS, n, ?ch1, bufs[i := b1])"
    using h(1) assms(1,2) by (simp add: tcp_channel_read_header_def)
  have n: "unat (ucast n :: u64) = unat n" by (rule unat_ucast_32_64)
  then have nz: "(ucast n :: u64) \<noteq> 0" using assms(6) by (metis unat_eq_zero)
  have "length (buf_unread m b1) = unat n + length rest" using h(3) assms(5) by simp
  then have le: "unat (ucast n :: u64) \<le> buf_left b1" using n by simp
  let ?b2 = "buf_consume b1 (ucast n)" and ?span = "\<lparr>span_len = ucast n, span_ptr = tn_buffer_read_ptr b1\<rparr>"
  have 2: "tcp_channel_read_payload (bufs[i := b1]) ?ch1 =
      Some (TN_SUCCESS, ?span, ?ch1\<lparr>ch_read_state := TCP_CHANNEL_READ_HEADER\<rparr>, bufs[i := ?b2])"
    using read_skip_ok [OF h(2) le] nz assms(1,2) by (simp add: tcp_channel_read_payload_def Let_def)
  have "mem_read m (tn_buffer_read_ptr b1) (unat n) = take (unat n) (buf_unread m b1)"
    using le n by (simp add: tn_buffer_read_ptr_def buf_unread_def take_mem_read)
  then have 3: "mem_read m (span_ptr ?span) (unat (span_len ?span)) = payload" using h(3) assms(5) n by simp
  have "buf_inv ?b2" "buf_unread m ?b2 = rest" using buf_consume_inv(1,3) [OF h(2) le] h(3) n assms(5) by simp_all
  then show ?thesis using 1 2 3 assms(2) by fastforce
qed

text \<open>A buffer at address 4096 that holds the bytes 0, 0, 0, 2, 8, 9 and one more.\<close>

definition frame_mem :: mem where
  "frame_mem = mem_write (\<lambda>_. 0) 4096 [0, 0, 0, 2, 8, 9, 7]"

definition frame_buf :: tn_buffer where
  "frame_buf = buf64\<lparr>tb_buf := \<lparr>bb_len = 7, bb_buffer = 4096, bb_capacity = 64, bb_allocator = 0\<rparr>,
     tb_pos := \<lparr>cur_len = 7, cur_ptr = 4096\<rparr>\<rparr>"

lemma frame_buf_inv: "buf_inv frame_buf"
  by (simp add: buf_inv_def frame_buf_def SIZE_HALF_eq)

lemma frame_buf_unread: "buf_unread frame_mem frame_buf = be_bytes 4 (2 :: u32) @ [8, 9] @ [7]"
proof -
  have "be_bytes 4 (2 :: u32) = [0, 0, 0, 2]" by (simp add: be_bytes_def le_bytes_def upt_rec)
  moreover have "buf_unread frame_mem frame_buf = [0, 0, 0, 2, 8, 9, 7]"
    by (simp add: buf_unread_def frame_buf_def frame_mem_def mem_read_def mem_write_def upt_rec)
  ultimately show ?thesis by simp
qed

theorem channel_reads_frame_witness:
  "\<exists>ch1 bufs1 span ch2 bufs2.
     tcp_channel_read_header False frame_mem [frame_buf] (channel_zero\<lparr>ch_read_buffer := Some 0\<rparr>) =
       Some (TN_SUCCESS, 2, ch1, bufs1) \<and>
     tcp_channel_read_payload bufs1 ch1 = Some (TN_SUCCESS, span, ch2, bufs2) \<and>
     mem_read frame_mem (span_ptr span) (unat (span_len span)) = [8, 9] \<and>
     buf_unread frame_mem (bufs2 ! 0) = [7]"
proof -
  have "ch_read_buffer (channel_zero\<lparr>ch_read_buffer := Some 0\<rparr>) = Some 0" and "0 < length [frame_buf]"
    and "buf_inv ([frame_buf] ! 0)" and "length [8 :: u8, 9] = unat (2 :: u32)" and "(2 :: u32) \<noteq> 0"
    and "buf_unread frame_mem ([frame_buf] ! 0) = be_bytes 4 (2 :: u32) @ [8, 9] @ [7]"
    using frame_buf_inv frame_buf_unread by simp_all
  from channel_reads_frame [OF this(1-3,6,4,5), of False] show ?thesis by blast
qed

text \<open>A frame with an empty payload cannot be read: the payload read fails although all of the frame is there,
  and the channel keeps waiting for the payload, however often it is tried again.\<close>

theorem channel_empty_frame_stuck:
  assumes "ch_read_buffer ch = Some i" and "i < length bufs" and "buf_inv (bufs ! i)"
    and "ch_read_state ch = TCP_CHANNEL_READ_PAYLOAD" and "ch_next_payload_len ch = 0"
  shows "tcp_channel_read_payload bufs ch = Some (TN_ERROR, \<lparr>span_len = 0, span_ptr = 0\<rparr>, ch, bufs)"
  using assms read_skip_ok [OF assms(3), of 0] by (simp add: tcp_channel_read_payload_def Let_def)

theorem channel_empty_frame_stuck_witness:
  "tcp_channel_read_payload [frame_buf]
     (channel_zero\<lparr>ch_read_buffer := Some 0, ch_read_state := TCP_CHANNEL_READ_PAYLOAD, ch_next_payload_len := 0\<rparr>) =
   Some (TN_ERROR, \<lparr>span_len = 0, span_ptr = 0\<rparr>,
     channel_zero\<lparr>ch_read_buffer := Some 0, ch_read_state := TCP_CHANNEL_READ_PAYLOAD, ch_next_payload_len := 0\<rparr>,
     [frame_buf])"
  by (rule channel_empty_frame_stuck [of _ 0]) (simp_all add: frame_buf_inv)

text \<open>Swapping the read buffer moves the unread bytes to a fresh buffer of the pool; when the pool is empty it
  fails and the channel has lost its buffer.\<close>

theorem buffer_swap_keeps_unread:
  assumes "pool_inv pid pool" and "ch_read_buffer ch = Some p" and "p < pool_total pool" and "p \<notin> set (pool_free pool)"
  shows "case pool_free pool of
      [] \<Rightarrow> tcp_channel_buffer_swap m pool ch = Some (TN_ERROR, m, pool, ch\<lparr>ch_read_buffer := None\<rparr>)
    | h # hs \<Rightarrow> \<exists>m' pool'. tcp_channel_buffer_swap m pool ch =
          Some (TN_SUCCESS, m', pool', ch\<lparr>ch_read_buffer := Some h\<rparr>) \<and> pool_inv pid pool' \<and> pool_free pool' = hs \<and>
        buf_unread m' (bp_tn_buffers pool' ! h) = buf_unread m (bp_tn_buffers pool ! p)"
proof (cases "pool_free pool")
  case Nil
  then show ?thesis using assms(2) pool_pop_back_empty [OF Nil] by (simp add: tcp_channel_buffer_swap_def)
next
  case (Cons h hs)
  let ?old = "bp_tn_buffers pool ! p"
  obtain pool1 where r: "tn_buffer_pool_pop_back pool = Some (TN_SUCCESS, Some h, pool1)" "pool_inv pid pool1"
      "pool_free pool1 = hs" "h < pool_total pool" "pool_total pool1 = pool_total pool"
      "bp_block_size pool1 = bp_block_size pool" "pool_buffer_ok pid pool1 h (bp_tn_buffers pool1 ! h)"
      "buf_fill (bp_tn_buffers pool1 ! h) = 0" "\<forall>m. buf_unread m (bp_tn_buffers pool1 ! h) = []"
      "\<forall>j. j \<noteq> h \<longrightarrow> bp_tn_buffers pool1 ! j = bp_tn_buffers pool ! j"
    by (rule pool_pop_back_fresh [OF assms(1) Cons])
  let ?new = "bp_tn_buffers pool1 ! h"
  have old: "bp_tn_buffers pool1 ! p = ?old" using r(10) assms(4) Cons by auto
  have len: "length (bp_tn_buffers pool1) = pool_total pool" using pool_invD(2) [OF r(2)] r(5) by simp
  have ok: "pool_buffer_ok pid pool p ?old" using pool_invD(3) [OF assms(1,3)] .
  have inv: "buf_inv ?new" "buf_inv ?old" using r(7) ok by (simp_all add: pool_buffer_ok_def)
  have room: "buf_fill ?new + buf_left ?old \<le> buf_cap ?new"
    using r(6-8) ok buf_invD(3,4) [OF inv(2)] by (simp add: pool_buffer_ok_def)
  show ?thesis
  proof (cases "cur_len (tb_pos ?old) = 0")
    case True
    then have "tcp_channel_buffer_swap m pool ch = Some (TN_SUCCESS, m, pool1, ch\<lparr>ch_read_buffer := Some h\<rparr>)"
      using assms(2,3) r(1,4) len old by (simp add: tcp_channel_buffer_swap_def tn_buffer_read_length_def)
    moreover have "buf_unread m ?old = []" using True by (simp add: buf_unread_def)
    ultimately show ?thesis using Cons r(2,3,9) by simp
  next
    case False
    let ?n = "cur_len (tb_pos ?old)"
    let ?m = "mem_write m (tn_buffer_write_ptr ?new) (buf_unread m ?old)"
    have w: "tn_buffer_write_buffer m ?new ?old 0 = Some (TN_SUCCESS, ?m, buf_extend ?new ?n)"
      using buf_read_buffer_ok [OF inv(1) _ _ room, of 0 ?old m] by (simp add: tn_buffer_write_buffer_def)
    let ?pool = "pool1\<lparr>bp_tn_buffers := (bp_tn_buffers pool1)[h := buf_extend ?new ?n]\<rparr>"
    have "tcp_channel_buffer_swap m pool ch = Some (TN_SUCCESS, ?m, ?pool, ch\<lparr>ch_read_buffer := Some h\<rparr>)"
      using assms(2,3) r(1,4) len old w False
      by (simp add: tcp_channel_buffer_swap_def tn_buffer_read_length_def)
    moreover have "pool_inv pid ?pool"
      by (rule pool_inv_buffer [OF r(2)])
        (use r(7) buf_extend_inv [OF inv(1) room] buf_extend_sizes [OF inv(1) room] in
          \<open>simp add: pool_buffer_ok_def buf_extend_def\<close>)
    moreover have "buf_unread ?m (buf_extend ?new ?n) = buf_unread m ?old"
      using buf_unread_extend [OF inv(1) room, of "buf_unread m ?old" m] r(9) by simp
    ultimately show ?thesis using Cons r(3,4) len by simp
  qed
qed

theorem buffer_swap_keeps_unread_witness:
  "\<exists>m' pool'. tcp_channel_buffer_swap (\<lambda>_. 5) (pool_sample\<lparr>bp_tn_buffers_free := (bp_tn_buffers_free pool_sample)\<lparr>q_tail := 1\<rparr>,
       bp_blocks_inuse := 1, bp_bytes_inuse := 16\<rparr>) (channel_zero\<lparr>ch_read_buffer := Some 0\<rparr>) =
     Some (TN_SUCCESS, m', pool', channel_zero\<lparr>ch_read_buffer := Some 1\<rparr>)"
proof -
  let ?pool = "pool_sample\<lparr>bp_tn_buffers_free := (bp_tn_buffers_free pool_sample)\<lparr>q_tail := 1\<rparr>, bp_blocks_inuse := 1,
    bp_bytes_inuse := 16\<rparr>"
  have free: "q_elems ((bp_tn_buffers_free pool_sample)\<lparr>q_tail := 1\<rparr>) = [1]"
    by (simp add: pool_sample_def q_elems_def q_slot_def)
  have "pool_inv 0 ?pool"
    by (rule pool_inv_free [OF pool_sample_inv])
      (use free in \<open>auto simp: q_inv_def q_cap_def pool_sample_def simp del: length_q_elems intro!: exI [of _ 1]\<close>)
  moreover have "pool_free ?pool = [1]" using free by simp
  moreover have "0 < pool_total ?pool" by (simp add: pool_sample_def)
  ultimately show ?thesis
    using buffer_swap_keeps_unread [of 0 ?pool "channel_zero\<lparr>ch_read_buffer := Some 0\<rparr>" 0 "\<lambda>_. 5"] by auto
qed

end
