(* ===== verification/Tn_Time.thy ===== *)
theory Tn_Time
  imports Tn_Prelude
begin

text \<open>
  Timestamps: \<open>aws_timestamp_convert\<close> of aws-c-common and \<open>tn_tstamp_convert\<close> of \<open>src/time.c\<close>. A unit is
  the number of its ticks per second. The second result is what is written through \<open>remainder\<close>,
  None when nothing is written.
\<close>

definition AWS_TIMESTAMP_SECS :: u64 where [simp]: "AWS_TIMESTAMP_SECS = 1"
definition AWS_TIMESTAMP_MILLIS :: u64 where [simp]: "AWS_TIMESTAMP_MILLIS = 1000"
definition AWS_TIMESTAMP_MICROS :: u64 where [simp]: "AWS_TIMESTAMP_MICROS = 1000000"
definition AWS_TIMESTAMP_NANOS :: u64 where [simp]: "AWS_TIMESTAMP_NANOS = 1000000000"

definition aws_timestamp_convert :: "u64 \<Rightarrow> u64 \<Rightarrow> u64 \<Rightarrow> bool \<Rightarrow> u64 \<times> u64 option" where
  "aws_timestamp_convert timestamp convert_from convert_to remainder =
     (if convert_to > convert_from then (timestamp * (convert_to div convert_from), None)
      else if convert_to < convert_from then
        let diff = convert_from div convert_to
        in (timestamp div diff, if remainder then Some (timestamp mod diff) else None)
      else (timestamp, None))"

text \<open>The clock that \<open>tn_tstamp\<close> reads is an input.\<close>

definition tn_tstamp :: "u64 \<Rightarrow> u64" where
  "tn_tstamp ticks = ticks"

definition tn_tstamp_convert :: "u64 \<Rightarrow> u32 \<Rightarrow> u32 \<Rightarrow> u64" where
  "tn_tstamp_convert tstamp from to = fst (aws_timestamp_convert tstamp (ucast from) (ucast to) False)"

lemma convert_nanos_millis:
  "fst (aws_timestamp_convert t AWS_TIMESTAMP_NANOS AWS_TIMESTAMP_MILLIS r) = t div 1000000"
  by (simp add: aws_timestamp_convert_def Let_def)

text \<open>
  Property C0. Converting to a coarser unit and back loses the remainder and nothing else: the product does
  not wrap, because it is at most the original timestamp.
\<close>

theorem timestamp_down_up:
  assumes "convert_to < convert_from" and "0 < convert_to"
    and "aws_timestamp_convert t convert_from convert_to True = (t', Some r)"
  shows "fst (aws_timestamp_convert t' convert_to convert_from True) + r = t \<and> r < convert_from div convert_to"
proof -
  let ?d = "convert_from div convert_to"
  note ns = less_not_sym [OF assms(1)]
  have e: "t' = t div ?d" "r = t mod ?d"
    using assms(1,3) ns by (simp_all add: aws_timestamp_convert_def Let_def)
  have "unat convert_to \<le> unat convert_from" "0 < unat convert_to"
    using assms(1,2) by (simp_all add: word_less_nat_alt)
  then have "0 < unat ?d" by (simp add: unat_div div_greater_zero_iff)
  then have "?d \<noteq> 0" by (metis less_irrefl unat_0)
  then have "r < ?d" unfolding e by (simp add: word_mod_less_divisor word_neq_0_conv)
  moreover have "t div ?d * ?d + t mod ?d = t" by (simp add: word_mod_div_equality)
  ultimately show ?thesis using assms(1) by (simp add: aws_timestamp_convert_def e not_less_iff_gr_or_eq)
qed

theorem timestamp_down_up_witness:
  "fst (aws_timestamp_convert 1234 AWS_TIMESTAMP_MILLIS AWS_TIMESTAMP_NANOS True) + 567890 = 1234567890"
  using timestamp_down_up [of AWS_TIMESTAMP_MILLIS AWS_TIMESTAMP_NANOS 1234567890 1234 567890]
  by (simp add: aws_timestamp_convert_def Let_def)

end
