(* ===== verification/Tn_Connection.thy ===== *)
theory Tn_Connection
  imports Tn_Channel Tn_Time
begin

text \<open>
  The client connection of \<open>src/tcp_connection.c\<close> and its context, \<open>src/tcp_context.c\<close>.

  A connection, the context it points to, the memory and what libuv knows of the handles are kept in
  one record, \<open>conn_world\<close>: the handles for which \<open>uv_close\<close> was called and the writes libuv has
  accepted (address and length, in order). Clock readings, allocation results and results of libuv
  calls are inputs. An allocation result is an address, 0 when it failed.
\<close>

section \<open>Context\<close>

record tcp_ctx_config =
  cfg_uv_loop :: "nat option"

record tcp_ctx =
  tx_uv_loop :: "nat option"
  tx_config :: "tcp_ctx_config option"
  tx_recv_msgs :: u64
  tx_recv_bytes :: u64
  tx_send_msgs :: u64
  tx_send_bytes :: u64

definition EINVAL :: int where [simp]: "EINVAL = 22"
definition ENOMEM :: int where [simp]: "ENOMEM = 12"

definition ctx_zero :: tcp_ctx where
  "ctx_zero = \<lparr>tx_uv_loop = None, tx_config = None, tx_recv_msgs = 0, tx_recv_bytes = 0, tx_send_msgs = 0, tx_send_bytes = 0\<rparr>"

text \<open>The configuration is allocated and not initialised.\<close>

definition tcp_context_new :: "bool \<Rightarrow> bool \<Rightarrow> tcp_ctx_config \<Rightarrow> tcp_ctx option" where
  "tcp_context_new ok_ctx ok_config junk =
     (if \<not> ok_ctx then None
      else if \<not> ok_config then None
      else Some (ctx_zero\<lparr>tx_config := Some junk\<rparr>))"

text \<open>
  What \<open>tcp_context_delete\<close> releases (the configuration, the context) and the caller's pointer
  afterwards: it is not reset, the code resets a copy of it.
\<close>

definition tcp_context_delete :: "tcp_ctx option option \<Rightarrow> bool \<times> bool \<times> tcp_ctx option option" where
  "tcp_context_delete pctx =
     (case pctx of None \<Rightarrow> (False, False, pctx)
      | Some None \<Rightarrow> (False, False, pctx)
      | Some (Some ctx) \<Rightarrow> (tx_config ctx \<noteq> None, True, pctx))"

definition SAFE_TCP_CTX :: "tcp_ctx option \<Rightarrow> bool" where
  "SAFE_TCP_CTX ctx \<longleftrightarrow> (case ctx of None \<Rightarrow> False | Some c \<Rightarrow> tx_config c \<noteq> None)"

definition tcp_context_set_config :: "tcp_ctx option \<Rightarrow> tcp_ctx_config option \<Rightarrow> int \<times> tcp_ctx option" where
  "tcp_context_set_config ctx cfg =
     (if \<not> SAFE_TCP_CTX ctx then (EINVAL, ctx)
      else if cfg = None then (EINVAL, ctx)
      else (TN_SUCCESS, map_option (\<lambda>c. c\<lparr>tx_config := cfg\<rparr>) ctx))"

definition tcp_context_get_loop :: "tcp_ctx option \<Rightarrow> nat option" where
  "tcp_context_get_loop ctx =
     (if \<not> SAFE_TCP_CTX ctx then None
      else Option.bind ctx (\<lambda>c. Option.bind (tx_config c) cfg_uv_loop))"

section \<open>Connection\<close>

datatype connection_state = CS_NEW | CS_CONNECTING | CS_CONNECTED | CS_DISCONNECTING | CS_DISCONNECTED

record tcp_conn =
  cn_ctx :: bool
  cn_tcp_handle :: "nat option"
  cn_host_local :: tn_endpoint
  cn_host_remote :: tn_endpoint
  cn_read_err :: int
  cn_write_err :: int
  cn_state :: connection_state
  cn_id :: u64
  cn_recv_msgs :: u64
  cn_recv_bytes :: u64
  cn_send_msgs :: u64
  cn_send_bytes :: u64
  cn_latency_total :: u64
  cn_latency_max :: u64
  cn_tstamp_first_msg :: u64
  cn_tstamp_last_msg :: u64
  cn_current_msg_id :: u64
  cn_last_recv_msg_id :: u64
  cn_next_payload_len :: u32
  cn_next_payload_remaining :: u64
  cn_next_msg_id :: u64
  cn_next_latency :: u64
  cn_next_buf :: addr
  cn_next_buffer :: "tn_buffer option"
  cn_read_state :: tcp_channel_read_state

definition conn_zero :: tcp_conn where
  "conn_zero = \<lparr>cn_ctx = False, cn_tcp_handle = None, cn_host_local = endpoint_zero, cn_host_remote = endpoint_zero,
     cn_read_err = 0, cn_write_err = 0, cn_state = CS_NEW, cn_id = 0, cn_recv_msgs = 0, cn_recv_bytes = 0,
     cn_send_msgs = 0, cn_send_bytes = 0, cn_latency_total = 0, cn_latency_max = 0, cn_tstamp_first_msg = 0,
     cn_tstamp_last_msg = 0, cn_current_msg_id = 0, cn_last_recv_msg_id = 0, cn_next_payload_len = 0,
     cn_next_payload_remaining = 0, cn_next_msg_id = 0, cn_next_latency = 0, cn_next_buf = 0, cn_next_buffer = None,
     cn_read_state = TCP_CHANNEL_READ_NONE\<rparr>"

record conn_world =
  cw_conn :: tcp_conn
  cw_ctx :: tcp_ctx
  cw_mem :: mem
  cw_closing :: "nat \<Rightarrow> bool"
  cw_writes :: "(addr \<times> size_t) list"

subsection \<open>Creation\<close>

definition tcp_conn_new :: "bool \<Rightarrow> bool \<Rightarrow> tcp_conn option" where
  "tcp_conn_new has_ctx ok = (if \<not> has_ctx then None else if \<not> ok then None else Some (conn_zero\<lparr>cn_ctx := True\<rparr>))"

text \<open>Whether the connection is released; the caller's pointer is not reset.\<close>

definition tcp_conn_delete :: "tcp_conn option option \<Rightarrow> bool \<times> tcp_conn option option" where
  "tcp_conn_delete pconn = (case pconn of None \<Rightarrow> (False, pconn) | Some None \<Rightarrow> (False, pconn) | Some (Some _) \<Rightarrow> (True, pconn))"

definition next_buf_size :: size_t where "next_buf_size = 65535 * 2"

definition tcp_conn_init :: "addr \<Rightarrow> bool \<Rightarrow> tn_buffer \<Rightarrow> (int \<times> tcp_conn) option" where
  "tcp_conn_init next_buf ok_buffer junk =
     (let conn = conn_zero\<lparr>cn_ctx := True, cn_read_state := TCP_CHANNEL_READ_HEADER, cn_next_buf := next_buf\<rparr>
      in if next_buf = 0 then Some (TN_ERROR, conn)
         else if \<not> ok_buffer then Some (TN_ERROR, conn)
         else do {
           (rc, b) \<leftarrow> tn_buffer_setup junk next_buf next_buf_size;
           let conn = conn\<lparr>cn_next_buffer := Some b\<rparr>;
           Some (if rc \<noteq> 0 then TN_ERROR else TN_SUCCESS, conn)
         })"

text \<open>One element of the array that \<open>tcp_get_conns\<close> fills; the result of the initialisation is ignored.\<close>

definition tcp_get_conn :: "addr \<Rightarrow> bool \<Rightarrow> tn_buffer \<Rightarrow> tcp_conn option" where
  "tcp_get_conn next_buf ok_buffer junk = do {
     (rc, conn) \<leftarrow> tcp_conn_init next_buf ok_buffer junk;
     Some (conn\<lparr>cn_read_err := 1, cn_write_err := 2, cn_state := CS_DISCONNECTED\<rparr>)
   }"

fun tcp_get_conns :: "(addr \<times> bool \<times> tn_buffer) list \<Rightarrow> tcp_conn list option" where
  "tcp_get_conns [] = Some []"
| "tcp_get_conns ((next_buf, ok, junk) # rest) = do {
     conn \<leftarrow> tcp_get_conn next_buf ok junk;
     conns \<leftarrow> tcp_get_conns rest;
     Some (conn # conns)
   }"

subsection \<open>Closing\<close>

definition tcp_conn_disconnect :: "conn_world \<Rightarrow> conn_world" where
  "tcp_conn_disconnect w =
     (let conn = cw_conn w in
      if cn_state conn = CS_DISCONNECTED \<or> cn_state conn = CS_DISCONNECTING then w
      else (case cn_tcp_handle conn of None \<Rightarrow> w
        | Some h \<Rightarrow> if cw_closing w h then w
            else w\<lparr>cw_conn := conn\<lparr>cn_state := CS_DISCONNECTING\<rparr>, cw_closing := (cw_closing w)(h := True)\<rparr>))"

definition tcp_conn_close :: "conn_world \<Rightarrow> conn_world" where
  "tcp_conn_close w = tcp_conn_disconnect w"

definition on_tcp_close_cb :: "conn_world \<Rightarrow> conn_world" where
  "on_tcp_close_cb w = w\<lparr>cw_conn := (cw_conn w)\<lparr>cn_state := CS_DISCONNECTED, cn_tcp_handle := None\<rparr>\<rparr>"

subsection \<open>Receiving\<close>

definition on_tcp_recv_alloc_cb :: "addr \<Rightarrow> size_t \<Rightarrow> addr \<times> size_t option" where
  "on_tcp_recv_alloc_cb base suggested_size = (if base = 0 then (0, None) else (base, Some suggested_size))"

text \<open>
  The loop of \<open>on_tcp_recv_cb\<close>. It ends regularly with the value of \<open>latency\<close>, or by a failed guard
  (None), and gives the connection in both cases. In a read state that is neither header nor
  payload it does not end.
\<close>

partial_function (option) recv_loop :: "bool \<Rightarrow> mem \<Rightarrow> u64 \<Rightarrow> u64 \<Rightarrow> tcp_conn \<Rightarrow> (u64 option \<times> tcp_conn) option" where
  "recv_loop be m cur_ticks latency conn =
     (case cn_next_buffer conn of None \<Rightarrow> None
      | Some b \<Rightarrow>
        if cn_read_state conn = TCP_CHANNEL_READ_HEADER then
          if tn_buffer_read_length b < 4 then Some (Some latency, conn)
          else (case tn_buffer_read_be32 be m b of (rc, out, b) \<Rightarrow>
            if rc \<noteq> 0 then Some (None, conn\<lparr>cn_next_buffer := Some b\<rparr>)
            else (case out of None \<Rightarrow> None
              | Some len \<Rightarrow> recv_loop be m cur_ticks latency
                  (conn\<lparr>cn_next_buffer := Some b, cn_next_payload_len := len, cn_read_state := TCP_CHANNEL_READ_PAYLOAD\<rparr>)))
        else if cn_read_state conn = TCP_CHANNEL_READ_PAYLOAD then
          if tn_buffer_read_length b < ucast (cn_next_payload_len conn) then Some (Some latency, conn)
          else (case tn_buffer_read_be64 be m b of (rc, out_id, b) \<Rightarrow>
            if rc \<noteq> 0 then Some (None, conn\<lparr>cn_next_buffer := Some b\<rparr>)
            else (case tn_buffer_read_be64 be m b of (rc, out_ts, b) \<Rightarrow>
            if rc \<noteq> 0 then Some (None, conn\<lparr>cn_next_buffer := Some b\<rparr>)
            else (case tn_buffer_read_skip b (ucast (cn_next_payload_len conn - 16)) of (rc, b) \<Rightarrow>
            if rc \<noteq> 0 then Some (None, conn\<lparr>cn_next_buffer := Some b\<rparr>)
            else (case (out_id, out_ts) of
                (Some msg_id, Some ts) \<Rightarrow>
                  let latency = fst (aws_timestamp_convert (cur_ticks - ts) AWS_TIMESTAMP_NANOS AWS_TIMESTAMP_MILLIS False);
                      expected = cn_last_recv_msg_id conn + 1
                  in recv_loop be m cur_ticks latency
                       (conn\<lparr>cn_next_buffer := Some b,
                         cn_last_recv_msg_id := (if msg_id \<noteq> expected then cn_last_recv_msg_id conn else expected),
                         cn_read_state := TCP_CHANNEL_READ_HEADER\<rparr>)
              | _ \<Rightarrow> None))))
        else recv_loop be m cur_ticks latency conn)"

text \<open>The statistics at the end; they count chunks, not messages.\<close>

definition recv_stats :: "u64 \<Rightarrow> u64 \<Rightarrow> u64 \<Rightarrow> conn_world \<Rightarrow> conn_world" where
  "recv_stats cur_ticks latency n w =
     (let conn = cw_conn w; ctx = cw_ctx w
      in w\<lparr>cw_conn := conn\<lparr>cn_latency_total := cn_latency_total conn + latency,
              cn_latency_max := (if latency > cn_latency_max conn then latency else cn_latency_max conn),
              cn_tstamp_last_msg := cur_ticks, cn_recv_msgs := cn_recv_msgs conn + 1, cn_recv_bytes := cn_recv_bytes conn + n\<rparr>,
            cw_ctx := ctx\<lparr>tx_recv_msgs := tx_recv_msgs ctx + 1, tx_recv_bytes := tx_recv_bytes ctx + n\<rparr>\<rparr>)"

definition on_tcp_recv_cb :: "bool \<Rightarrow> u64 \<Rightarrow> int \<Rightarrow> u8 list \<Rightarrow> conn_world \<Rightarrow> conn_world option" where
  "on_tcp_recv_cb be cur_ticks nread bytes w =
     (if nread < 0 then Some (tcp_conn_disconnect (w\<lparr>cw_conn := (cw_conn w)\<lparr>cn_read_err := nread\<rparr>\<rparr>))
      else if nread = 0 then Some w
      else do {
        b \<leftarrow> cn_next_buffer (cw_conn w);
        (rc, m, b) \<leftarrow> tn_buffer_write (cw_mem w) b bytes (word_of_int nread);
        let conn = (cw_conn w)\<lparr>cn_next_buffer := Some b\<rparr>;
        if rc \<noteq> 0 then Some (w\<lparr>cw_mem := m, cw_conn := conn\<rparr>)
        else do {
        (res, conn) \<leftarrow> recv_loop be m cur_ticks 0 conn;
        case res of None \<Rightarrow> Some (w\<lparr>cw_mem := m, cw_conn := conn\<rparr>)
        | Some latency \<Rightarrow> do {
            b \<leftarrow> cn_next_buffer conn;
            let conn = (if tn_buffer_read_length b = 0 then conn\<lparr>cn_next_buffer := Some (tn_buffer_reset b)\<rparr> else conn);
            Some (recv_stats cur_ticks latency (word_of_int nread) (w\<lparr>cw_mem := m, cw_conn := conn\<rparr>))
          }
        }})"

subsection \<open>Connecting\<close>

definition on_tcp_connected_cb :: "int \<Rightarrow> nat \<Rightarrow> int \<Rightarrow> conn_world \<Rightarrow> conn_world" where
  "on_tcp_connected_cb status h rc_read_start w =
     (if status < 0 then tcp_conn_disconnect w
      else let w = w\<lparr>cw_conn := (cw_conn w)\<lparr>cn_state := CS_CONNECTED, cn_tcp_handle := Some h\<rparr>\<rparr>
           in if rc_read_start \<noteq> 0 then tcp_conn_disconnect w else w)"

text \<open>The results that \<open>tcp_connect_begin\<close> depends on, in the order of the calls; a handle that could not be allocated is None.\<close>

record connect_env =
  cx_handle :: "nat option"
  cx_tcp_init :: int
  cx_set_remote :: "int \<times> tn_endpoint"
  cx_set_local :: "int \<times> tn_endpoint"
  cx_nodelay :: int
  cx_bind :: int
  cx_connection :: bool
  cx_connect :: int

definition connect_cleanup :: "conn_world \<Rightarrow> int \<times> conn_world" where
  "connect_cleanup w = (TN_ERROR, tcp_conn_disconnect w)"

definition tcp_connect_begin :: "connect_env \<Rightarrow> conn_world \<Rightarrow> int \<times> conn_world" where
  "tcp_connect_begin env w =
     (let upd = (\<lambda>f w. w\<lparr>cw_conn := f (cw_conn w)\<rparr>) in
      if cn_state (cw_conn w) \<noteq> CS_NEW \<and> cn_state (cw_conn w) \<noteq> CS_DISCONNECTED then (EINVAL, w)
      else if \<not> cn_ctx (cw_conn w) then (EINVAL, w)
      else if tcp_context_get_loop (Some (cw_ctx w)) = None then (EINVAL, w)
      else let w = upd (\<lambda>c. c\<lparr>cn_tcp_handle := cx_handle env\<rparr>) w in
      if cx_handle env = None then (ENOMEM, w)
      else if cx_tcp_init env \<noteq> 0 then connect_cleanup w
      else let w = upd (\<lambda>c. c\<lparr>cn_host_remote := snd (cx_set_remote env)\<rparr>) w in
      if fst (cx_set_remote env) \<noteq> 0 then connect_cleanup w
      else let w = upd (\<lambda>c. c\<lparr>cn_host_local := snd (cx_set_local env)\<rparr>) w in
      if fst (cx_set_local env) \<noteq> 0 then connect_cleanup w
      else if cx_nodelay env \<noteq> 0 then connect_cleanup w
      else if cx_bind env \<noteq> 0 then connect_cleanup w
      else if \<not> cx_connection env then connect_cleanup w
      else let w = upd (\<lambda>c. c\<lparr>cn_state := CS_CONNECTING\<rparr>) w in
      if cx_connect env \<noteq> 0 then connect_cleanup w
      else (TN_SUCCESS, w))"

subsection \<open>Writing\<close>

text \<open>
  \<open>on_tcp_write_cb\<close>; \<open>on_tcp_write_frag_cb\<close> differs in the memory it releases only. \<open>len\<close> is the length
  of the buffer that was written.
\<close>

definition on_tcp_write_cb :: "u64 \<Rightarrow> int \<Rightarrow> size_t \<Rightarrow> conn_world \<Rightarrow> conn_world" where
  "on_tcp_write_cb cur_ticks status len w =
     (let conn = cw_conn w; ctx = cw_ctx w;
          w = (if status \<noteq> 0 then w\<lparr>cw_conn := conn\<lparr>cn_write_err := status\<rparr>\<rparr>
               else if len = 0 then w
               else w\<lparr>cw_conn := conn\<lparr>
                        cn_tstamp_first_msg := (if cn_tstamp_first_msg conn = 0 then cur_ticks else cn_tstamp_first_msg conn),
                        cn_send_msgs := cn_send_msgs conn + 1, cn_send_bytes := cn_send_bytes conn + len\<rparr>,
                      cw_ctx := ctx\<lparr>tx_send_msgs := tx_send_msgs ctx + 1, tx_send_bytes := tx_send_bytes ctx + len\<rparr>\<rparr>)
      in if status \<noteq> 0 \<or> cn_state (cw_conn w) \<noteq> CS_CONNECTED then tcp_conn_disconnect w else w)"

definition on_tcp_write_frag_cb :: "u64 \<Rightarrow> int \<Rightarrow> size_t \<Rightarrow> conn_world \<Rightarrow> conn_world" where
  "on_tcp_write_frag_cb cur_ticks status len w = on_tcp_write_cb cur_ticks status len w"

definition aws_byte_buf_init :: "addr \<Rightarrow> size_t \<Rightarrow> aws_byte_buf option" where
  "aws_byte_buf_init buffer capacity =
     (if buffer = 0 then None else Some \<lparr>bb_len = 0, bb_buffer = buffer, bb_capacity = capacity, bb_allocator = 1\<rparr>)"

text \<open>The serialisation: prefix, id, time stamp, data and a zero byte. None when one of the first three does not fit.\<close>

definition write_frame ::
  "bool \<Rightarrow> mem \<Rightarrow> aws_byte_buf \<Rightarrow> u64 \<Rightarrow> u64 \<Rightarrow> u8 list \<Rightarrow> int \<Rightarrow> (mem \<times> aws_byte_buf option) option" where
  "write_frame be m bb msg_id cur_ticks data len = do {
     let n = (word_of_int len :: size_t);
     (ok, m, bb) \<leftarrow> aws_byte_buf_write_be32 be m bb (ucast (n + 8 + 8 + 1));
     if \<not> ok then Some (m, None) else do {
     (ok, m, bb) \<leftarrow> aws_byte_buf_write_be64 be m bb msg_id;
     if \<not> ok then Some (m, None) else do {
     (ok, m, bb) \<leftarrow> aws_byte_buf_write_be64 be m bb cur_ticks;
     if \<not> ok then Some (m, None) else do {
     (_, m, bb) \<leftarrow> aws_byte_buf_write m bb data n;
     (_, m, bb) \<leftarrow> aws_byte_buf_write_u8 m bb 0;
     Some (m, Some bb)
   }}}}"

definition tcp_write_begin ::
  "bool \<Rightarrow> u64 \<Rightarrow> addr \<Rightarrow> bool \<Rightarrow> int \<Rightarrow> nat option \<Rightarrow> u8 list option \<Rightarrow> int \<Rightarrow> conn_world \<Rightarrow> conn_world option" where
  "tcp_write_begin be cur_ticks buffer ok_req rc_write tcp_handle data len w =
     (if tcp_handle = None then Some w
      else case data of None \<Rightarrow> Some w
      | Some data \<Rightarrow>
        if len = 0 then Some w
        else if cn_state (cw_conn w) \<noteq> CS_CONNECTING \<and> cn_state (cw_conn w) \<noteq> CS_CONNECTED then Some w
        else let conn = (cw_conn w)\<lparr>cn_state := CS_CONNECTED, cn_current_msg_id := cn_current_msg_id (cw_conn w) + 1\<rparr>;
                 w = w\<lparr>cw_conn := conn\<rparr>
        in case aws_byte_buf_init buffer (word_of_int len + 4 + 8 + 8 + 1) of None \<Rightarrow> Some w
        | Some bb \<Rightarrow> do {
            (m, out) \<leftarrow> write_frame be (cw_mem w) bb (cn_current_msg_id conn) cur_ticks data len;
            let w = w\<lparr>cw_mem := m\<rparr>;
            case out of None \<Rightarrow> Some w
            | Some bb \<Rightarrow>
                if \<not> ok_req then Some w
                else if rc_write \<noteq> 0 then Some (tcp_conn_disconnect w)
                else Some (w\<lparr>cw_writes := cw_writes w @ [(bb_buffer bb, bb_len bb)]\<rparr>)
          })"

end
