(* ===== verification/Tn_Wire.thy ===== *)
theory Tn_Wire
  imports Tn_Connection
begin

text \<open>
  The wire format of the client connection: what \<open>tcp_write_begin\<close> writes and \<open>on_tcp_recv_cb\<close> reads.
  \<open>parse\<close> is the reader on a list of bytes; it can be fed in pieces, and the callback behaves like it.
\<close>

section \<open>The reader on lists\<close>

text \<open>The state is None before a header and \<open>Some n\<close> before a payload of n bytes. The flag is False when a payload is too short to be taken.\<close>

function parse :: "u32 option \<Rightarrow> u8 list \<Rightarrow> bool \<times> u32 option \<times> u8 list \<times> (u64 \<times> u64) list" where
  "parse None bs =
     (if length bs < 4 then (True, None, bs, []) else parse (Some (of_be_bytes (take 4 bs))) (drop 4 bs))"
| "parse (Some n) bs =
     (if length bs < unat n then (True, Some n, bs, [])
      else if unat n \<le> 16 then (False, Some n, bs, [])
      else case parse None (drop (unat n) bs) of (ok, st, rest, ms) \<Rightarrow>
        (ok, st, rest, (of_be_bytes (take 8 bs), of_be_bytes (take 8 (drop 8 bs))) # ms))"
  by pat_completeness auto
termination by (relation "measure (\<lambda>(st, bs). length bs)") auto

declare parse.simps [simp del]

text \<open>Feeding the rest later gives the same messages.\<close>

lemma parse_append:
  assumes "parse st xs = (True, st', rest, ms)"
  shows "parse st (xs @ ys) = (case parse st' (rest @ ys) of (ok, st2, rest2, ms2) \<Rightarrow> (ok, st2, rest2, ms @ ms2))"
  using assms
proof (induction st xs arbitrary: st' rest ms rule: parse.induct)
  case (1 bs)
  show ?case
  proof (cases "length bs < 4")
    case True
    then show ?thesis using 1(2) by (auto simp: parse.simps(1) [of bs] split: prod.splits)
  next
    case False
    then show ?thesis using 1 by (simp add: parse.simps(1))
  qed
next
  case (2 n bs)
  show ?case
  proof (cases "length bs < unat n")
    case True
    then show ?thesis using 2(2) by (auto simp: parse.simps(2) [of n bs] split: prod.splits)
  next
    case False
    then have n: "\<not> unat n \<le> 16" using 2(2) by (auto simp: parse.simps(2))
    obtain st1 r1 ms1 where p: "parse None (drop (unat n) bs) = (True, st1, r1, ms1)" "st' = st1" "rest = r1"
        "ms = (of_be_bytes (take 8 bs), of_be_bytes (take 8 (drop 8 bs))) # ms1"
      using 2(2) False n by (auto simp: parse.simps(2) split: prod.splits)
    have "parse None (drop (unat n) bs @ ys) = (case parse st1 (r1 @ ys) of (ok, st2, rest2, ms2) \<Rightarrow> (ok, st2, rest2, ms1 @ ms2))"
      using 2(1) [OF False n p(1)] .
    then show ?thesis using False n p by (simp add: parse.simps(2) [of n "bs @ ys"] split: prod.splits)
  qed
qed

text \<open>A frame: prefix, id, time stamp, data and a zero byte.\<close>

definition frame :: "u64 \<Rightarrow> u64 \<Rightarrow> u8 list \<Rightarrow> u8 list" where
  "frame mid ts data = be_bytes 4 (of_nat (length data + 17) :: u32) @ be_bytes 8 mid @ be_bytes 8 ts @ data @ [0]"

lemma length_frame [simp]: "length (frame mid ts data) = length data + 21"
  by (simp add: frame_def)

lemma frame_nonempty [simp]: "frame mid ts data \<noteq> []"
proof
  assume "frame mid ts data = []"
  then have "length (frame mid ts data) = 0" by (simp only: list.size(3))
  then show False by simp
qed

lemma parse_frame:
  assumes "length data + 17 < 2 ^ 32"
  shows "parse None (frame mid ts data @ bs) =
    (case parse None bs of (ok, st, rest, ms) \<Rightarrow> (ok, st, rest, (mid, ts) # ms))"
proof -
  define n :: u32 where "n = of_nat (length data + 17)"
  have n: "unat n = length data + 17" unfolding n_def using assms by (simp only: unat_of_nat) simp
  let ?p = "be_bytes 8 mid @ be_bytes 8 ts @ data @ [0] @ bs"
  have "frame mid ts data @ bs = be_bytes 4 n @ ?p" by (simp add: frame_def n_def)
  then have "parse None (frame mid ts data @ bs) = parse (Some n) ?p"
    by (simp add: parse.simps(1) net32.be_bytes_round_trip)
  then show ?thesis
    by (simp add: parse.simps(2) n net64.be_bytes_round_trip split: prod.splits)
qed

lemma parse_nil: "parse None [] = (True, None, [], [])"
  by (simp add: parse.simps(1))

lemma parse_frames:
  assumes "\<forall>(mid, ts, data) \<in> set ms. length data + 17 < 2 ^ 32"
  shows "parse None (concat (map (\<lambda>(mid, ts, data). frame mid ts data) ms)) =
    (True, None, [], map (\<lambda>(mid, ts, data). (mid, ts)) ms)"
  using assms
proof (induction ms)
  case Nil
  show ?case by (simp add: parse_nil)
next
  case (Cons m ms)
  obtain mid ts data where m: "m = (mid, ts, data)" by (cases m)
  then show ?case using Cons parse_frame [of data mid ts] by simp
qed

section \<open>The loop behaves like the reader\<close>

definition rd_state :: "tcp_conn \<Rightarrow> u32 option option" where
  "rd_state conn = (case cn_read_state conn of TCP_CHANNEL_READ_HEADER \<Rightarrow> Some None
     | TCP_CHANNEL_READ_PAYLOAD \<Rightarrow> Some (Some (cn_next_payload_len conn)) | _ \<Rightarrow> None)"

lemma rd_state_simps:
  "rd_state conn = Some None \<longleftrightarrow> cn_read_state conn = TCP_CHANNEL_READ_HEADER"
  "rd_state conn = Some (Some n) \<longleftrightarrow> cn_read_state conn = TCP_CHANNEL_READ_PAYLOAD \<and> cn_next_payload_len conn = n"
  by (auto simp: rd_state_def split: tcp_channel_read_state.splits)

definition accept_id :: "u64 \<Rightarrow> u64 \<Rightarrow> u64" where
  "accept_id prev mid = (if mid \<noteq> prev + 1 then prev else prev + 1)"

definition latency_of :: "u64 \<Rightarrow> u64 \<Rightarrow> (u64 \<times> u64) list \<Rightarrow> u64" where
  "latency_of cur lat ms = (if ms = [] then lat else (cur - snd (last ms)) div 1000000)"

definition conn_read :: "tcp_conn \<Rightarrow> tn_buffer \<Rightarrow> u32 \<Rightarrow> tcp_channel_read_state \<Rightarrow> u64 \<Rightarrow> tcp_conn" where
  "conn_read conn b len st mid = conn\<lparr>cn_next_buffer := Some b, cn_next_payload_len := len,
     cn_last_recv_msg_id := mid, cn_read_state := st\<rparr>"

lemma conn_read_simps [simp]:
  "cn_next_buffer (conn_read conn b len st mid) = Some b" "cn_next_payload_len (conn_read conn b len st mid) = len"
  "cn_read_state (conn_read conn b len st mid) = st" "cn_last_recv_msg_id (conn_read conn b len st mid) = mid"
  "conn_read (conn_read conn b0 len0 st0 mid0) b len st mid = conn_read conn b len st mid"
  by (simp_all add: conn_read_def)

lemma conn_read_buffer: "(conn_read conn b len st mid)\<lparr>cn_next_buffer := Some b'\<rparr> = conn_read conn b' len st mid"
  by (cases conn) (simp add: conn_read_def)

lemma loop_header:
  assumes "cn_next_buffer conn = Some b" and "buf_inv b" and "cn_read_state conn = TCP_CHANNEL_READ_HEADER"
    and "4 \<le> buf_left b"
  obtains b' where "recv_loop be m cur lat conn = recv_loop be m cur lat
      (conn_read conn b' (of_be_bytes (take 4 (buf_unread m b))) TCP_CHANNEL_READ_PAYLOAD (cn_last_recv_msg_id conn))"
    "buf_inv b'" "buf_unread m b' = drop 4 (buf_unread m b)" "tb_buf b' = tb_buf b"
proof -
  have "\<not> tn_buffer_read_length b < 4" using assms(4) by (simp add: tn_buffer_read_length_def word_less_nat_alt)
  moreover note f32.rd_ok [OF assms(2,4), of be m]
  ultimately show thesis using assms(1,3,4) buf_consume_inv [OF assms(2), of 4]
    by (intro that [of "buf_consume b (of_nat 4)"]) (simp_all add: recv_loop.simps [of be m cur lat conn] conn_read_def)
qed

lemma loop_payload:
  fixes m :: mem
  assumes "cn_next_buffer conn = Some b" and "buf_inv b" and "cn_read_state conn = TCP_CHANNEL_READ_PAYLOAD"
    and "unat (cn_next_payload_len conn) \<le> buf_left b" and "16 < unat (cn_next_payload_len conn)"
  defines "mid \<equiv> of_be_bytes (take 8 (buf_unread m b)) :: u64"
    and "ts \<equiv> of_be_bytes (take 8 (drop 8 (buf_unread m b))) :: u64"
  obtains b' where "recv_loop be m cur lat conn = recv_loop be m cur ((cur - ts) div 1000000)
      (conn_read conn b' (cn_next_payload_len conn) TCP_CHANNEL_READ_HEADER (accept_id (cn_last_recv_msg_id conn) mid))"
    "buf_inv b'" "buf_unread m b' = drop (unat (cn_next_payload_len conn)) (buf_unread m b)" "tb_buf b' = tb_buf b"
proof -
  let ?n = "cn_next_payload_len conn"
  let ?b1 = "buf_consume b (of_nat 8)"
  have l8: "8 \<le> buf_left b" using assms(4,5) by simp
  have b1: "buf_inv ?b1" "buf_left ?b1 = buf_left b - 8" "buf_unread m ?b1 = drop 8 (buf_unread m b)" "tb_buf ?b1 = tb_buf b"
    using buf_consume_inv(1,2,4) [OF assms(2), of 8] buf_consume_inv(3) [OF assms(2), of 8 m] l8 by simp_all
  let ?b2 = "buf_consume ?b1 (of_nat 8)"
  have l16: "8 \<le> buf_left ?b1" using assms(4,5) b1(2) by simp
  have b2: "buf_inv ?b2" "buf_left ?b2 = buf_left b - 16" "buf_unread m ?b2 = drop 16 (buf_unread m b)" "tb_buf ?b2 = tb_buf b"
    using buf_consume_inv(1,2,4) [OF b1(1), of 8] buf_consume_inv(3) [OF b1(1), of 8 m] l16 b1(2-4) by simp_all
  let ?k = "ucast (?n - 16) :: size_t"
  have k: "unat ?k = unat ?n - 16"
    using assms(5) by (simp add: unat_ucast_32_64 unat_sub_if' word_le_nat_alt)
  let ?b3 = "buf_consume ?b2 ?k"
  have lk: "unat ?k \<le> buf_left ?b2" using k b2(2) assms(4,5) by simp
  have k0: "?k \<noteq> 0" using k assms(5) by (metis less_numeral_extra(3) unat_0 zero_less_diff)
  have b3: "buf_inv ?b3" "buf_unread m ?b3 = drop (unat ?n) (buf_unread m b)" "tb_buf ?b3 = tb_buf b"
    using buf_consume_inv(1,4) [OF b2(1) lk] buf_consume_inv(3) [OF b2(1) lk, of m] b2(3,4) k assms(5) by simp_all
  have "\<not> tn_buffer_read_length b < ucast ?n"
    using assms(4) by (simp add: tn_buffer_read_length_def word_less_nat_alt unat_ucast_32_64)
  moreover note f64.rd_ok [OF assms(2) l8, of be m] f64.rd_ok [OF b1(1) l16, of be m] read_skip_ok [OF b2(1) lk]
  ultimately have "recv_loop be m cur lat conn = recv_loop be m cur ((cur - ts) div 1000000)
      (conn_read conn ?b3 ?n TCP_CHANNEL_READ_HEADER (accept_id (cn_last_recv_msg_id conn) mid))"
    using assms(1,3) k0 b1(3)
    by (simp add: recv_loop.simps [of be m cur lat conn] conn_read_def mid_def ts_def accept_id_def
        convert_nanos_millis [simplified] Let_def)
  then show thesis using b3 by (rule that)
qed

text \<open>The loop ends in the state and with the rest that the reader gives, and has taken the same messages.\<close>

lemma recv_loop_parse:
  assumes "cn_next_buffer conn = Some b" and "buf_inv b" and "rd_state conn = Some st"
    and "parse st (buf_unread m b) = (True, st', rest, ms)"
  shows "\<exists>b' len. recv_loop be m cur lat conn = Some (Some (latency_of cur lat ms),
      conn_read conn b' len (if st' = None then TCP_CHANNEL_READ_HEADER else TCP_CHANNEL_READ_PAYLOAD)
        (foldl accept_id (cn_last_recv_msg_id conn) (map fst ms))) \<and>
    (\<forall>n. st' = Some n \<longrightarrow> len = n) \<and> buf_inv b' \<and> buf_unread m b' = rest \<and> tb_buf b' = tb_buf b"
  using assms
proof (induction st "buf_unread m b" arbitrary: conn b lat ms rule: parse.induct)
  case 1
  have hd: "cn_read_state conn = TCP_CHANNEL_READ_HEADER" using 1(4) by (simp add: rd_state_simps)
  show ?case
  proof (cases "buf_left b < 4")
    case True
    then have "tn_buffer_read_length b < 4" by (simp add: tn_buffer_read_length_def word_less_nat_alt)
    moreover have "st' = None" "rest = buf_unread m b" "ms = []" using 1(5) True by (auto simp: parse.simps(1))
    moreover have "conn = conn_read conn b (cn_next_payload_len conn) TCP_CHANNEL_READ_HEADER (cn_last_recv_msg_id conn)"
      using 1(2) hd by (simp add: conn_read_def)
    ultimately show ?thesis using 1(2,3) hd
      by (intro exI [of _ b] exI [of _ "cn_next_payload_len conn"]) (simp add: recv_loop.simps latency_of_def)
  next
    case False
    then have l4: "4 \<le> buf_left b" by simp
    obtain b1 where b1: "recv_loop be m cur lat conn = recv_loop be m cur lat
        (conn_read conn b1 (of_be_bytes (take 4 (buf_unread m b))) TCP_CHANNEL_READ_PAYLOAD (cn_last_recv_msg_id conn))"
        "buf_inv b1" "buf_unread m b1 = drop 4 (buf_unread m b)" "tb_buf b1 = tb_buf b"
      by (rule loop_header [OF 1(2,3) hd l4])
    let ?c = "conn_read conn b1 (of_be_bytes (take 4 (buf_unread m b))) TCP_CHANNEL_READ_PAYLOAD (cn_last_recv_msg_id conn)"
    have "parse (Some (of_be_bytes (take 4 (buf_unread m b)))) (buf_unread m b1) = (True, st', rest, ms)"
      using 1(5) False b1(3) by (simp add: parse.simps(1))
    from 1(1) [OF _ _ _ b1(2) _ this, of ?c lat] False b1(3) show ?thesis
      unfolding b1(1) using b1(4) by (auto simp: rd_state_simps)
  qed
next
  case (2 n)
  have pl: "cn_read_state conn = TCP_CHANNEL_READ_PAYLOAD" "cn_next_payload_len conn = n" using 2(4) by (simp_all add: rd_state_simps)
  show ?case
  proof (cases "buf_left b < unat n")
    case True
    then have "tn_buffer_read_length b < ucast n" by (simp add: tn_buffer_read_length_def word_less_nat_alt unat_ucast_32_64)
    moreover have "st' = Some n" "rest = buf_unread m b" "ms = []" using 2(5) True by (auto simp: parse.simps(2))
    moreover have "conn = conn_read conn b n TCP_CHANNEL_READ_PAYLOAD (cn_last_recv_msg_id conn)"
      using 2(2) pl by (simp add: conn_read_def)
    ultimately show ?thesis using 2(2,3) pl
      by (intro exI [of _ b] exI [of _ n]) (simp add: recv_loop.simps latency_of_def)
  next
    case False
    then have n: "\<not> unat n \<le> 16" using 2(5) by (auto simp: parse.simps(2))
    let ?mid = "of_be_bytes (take 8 (buf_unread m b)) :: u64" and ?ts = "of_be_bytes (take 8 (drop 8 (buf_unread m b))) :: u64"
    obtain ms1 where p: "parse None (drop (unat n) (buf_unread m b)) = (True, st', rest, ms1)" "ms = (?mid, ?ts) # ms1"
      using 2(5) False n by (auto simp: parse.simps(2) split: prod.splits)
    obtain b1 where b1: "recv_loop be m cur lat conn = recv_loop be m cur ((cur - ?ts) div 1000000)
        (conn_read conn b1 n TCP_CHANNEL_READ_HEADER (accept_id (cn_last_recv_msg_id conn) ?mid))"
        "buf_inv b1" "buf_unread m b1 = drop (unat n) (buf_unread m b)" "tb_buf b1 = tb_buf b"
      using loop_payload [OF 2(2,3) pl(1), of be m cur lat] False n pl(2) by (metis not_le)
    let ?c = "conn_read conn b1 n TCP_CHANNEL_READ_HEADER (accept_id (cn_last_recv_msg_id conn) ?mid)"
    have lat: "latency_of cur ((cur - ?ts) div 1000000) ms1 = latency_of cur lat ms" using p(2) by (simp add: latency_of_def)
    have "\<exists>b' len. recv_loop be m cur ((cur - ?ts) div 1000000) ?c = Some (Some (latency_of cur ((cur - ?ts) div 1000000) ms1),
        conn_read ?c b' len (if st' = None then TCP_CHANNEL_READ_HEADER else TCP_CHANNEL_READ_PAYLOAD)
          (foldl accept_id (cn_last_recv_msg_id ?c) (map fst ms1))) \<and>
      (\<forall>n. st' = Some n \<longrightarrow> len = n) \<and> buf_inv b' \<and> buf_unread m b' = rest \<and> tb_buf b' = tb_buf b1"
      by (rule 2(1)) (use False n b1(2,3) p(1) in \<open>simp_all add: rd_state_simps\<close>)
    then show ?thesis unfolding b1(1) lat using b1(4) p(2) by auto
  qed
qed

section \<open>The callback, chunk by chunk\<close>

lemma buf_reset_ok:
  assumes "buf_inv b"
  shows "buf_inv (tn_buffer_reset b)" and "buf_unread m (tn_buffer_reset b) = []"
    and "buf_fill (tn_buffer_reset b) = 0" and "buf_cap (tn_buffer_reset b) = buf_cap b"
  using buf_reset_inv [of b] assms by (simp_all add: buf_inv_def)

text \<open>\<open>conn_view w st bs last room\<close>: the reader's state, the bytes it has not used, the last id and the room left.\<close>

definition conn_view :: "conn_world \<Rightarrow> u32 option \<Rightarrow> u8 list \<Rightarrow> u64 \<Rightarrow> nat \<Rightarrow> bool" where
  "conn_view w st bs prev room \<longleftrightarrow> (\<exists>b. cn_next_buffer (cw_conn w) = Some b \<and> buf_inv b \<and> rd_state (cw_conn w) = Some st \<and>
     buf_unread (cw_mem w) b = bs \<and> cn_last_recv_msg_id (cw_conn w) = prev \<and> room + buf_fill b \<le> buf_cap b)"

text \<open>What the sending side of the connection has: its state, the last id and where the receive buffer lies.\<close>

definition recv_storage :: "conn_world \<Rightarrow> (addr \<times> nat) option" where
  "recv_storage w = map_option (\<lambda>b. (buf_base b, buf_cap b)) (cn_next_buffer (cw_conn w))"

definition send_view :: "conn_world \<Rightarrow> connection_state \<times> u64 \<times> (addr \<times> nat) option" where
  "send_view w = (cn_state (cw_conn w), cn_current_msg_id (cw_conn w), recv_storage w)"

lemma recv_chunk:
  assumes "conn_view w st bs prev room" and "chunk \<noteq> []" and "length chunk \<le> room"
    and "parse st (bs @ chunk) = (True, st', rest, ms)"
  shows "\<exists>w'. on_tcp_recv_cb be cur (int (length chunk)) chunk w = Some w' \<and>
    conn_view w' st' rest (foldl accept_id prev (map fst ms)) (room - length chunk) \<and> send_view w' = send_view w"
proof -
  obtain b where b: "cn_next_buffer (cw_conn w) = Some b" "buf_inv b" "rd_state (cw_conn w) = Some st"
      "buf_unread (cw_mem w) b = bs" "cn_last_recv_msg_id (cw_conn w) = prev" "room + buf_fill b \<le> buf_cap b"
    using assms(1) by (auto simp: conn_view_def)
  have "length chunk \<le> buf_cap b" using assms(3) b(6) by simp
  then have "length chunk < 2 ^ 64" using unat_lt64 [of "bb_capacity (tb_buf b)"] by simp
  then have n: "unat (word_of_int (int (length chunk)) :: u64) = length chunk" by (simp add: unat_of_nat64)
  let ?n = "word_of_int (int (length chunk)) :: u64"
  let ?m = "mem_write (cw_mem w) (tn_buffer_write_ptr b) chunk" and ?b = "buf_extend b ?n"
  have fit: "buf_fill b + unat ?n \<le> buf_cap b" using n assms(3) b(6) by simp
  have wr: "tn_buffer_write (cw_mem w) b chunk ?n = Some (TN_SUCCESS, ?m, ?b)"
    using buf_write_ok [OF b(2) fit, of chunk "cw_mem w"] n by simp
  have un: "buf_unread ?m ?b = bs @ chunk" using buf_unread_extend [OF b(2) fit, of chunk "cw_mem w"] n b(4) by simp
  let ?c = "(cw_conn w)\<lparr>cn_next_buffer := Some ?b\<rparr>"
  have "rd_state ?c = Some st" using b(3) unfolding rd_state_def by (simp cong: tcp_channel_read_state.case_cong)
  from recv_loop_parse [OF _ buf_extend_inv [OF b(2) fit] this, of ?m st' rest ms be cur 0] un assms(4)
  obtain b1 len where l: "recv_loop be ?m cur 0 ?c = Some (Some (latency_of cur 0 ms),
        conn_read ?c b1 len (if st' = None then TCP_CHANNEL_READ_HEADER else TCP_CHANNEL_READ_PAYLOAD)
          (foldl accept_id prev (map fst ms)))"
      "\<forall>n. st' = Some n \<longrightarrow> len = n" "buf_inv b1" "buf_unread ?m b1 = rest" "tb_buf b1 = tb_buf ?b"
    using b(5) by auto
  let ?b2 = "if tn_buffer_read_length b1 = 0 then tn_buffer_reset b1 else b1"
  have "buf_fill b1 = buf_fill b + length chunk" "buf_cap b1 = buf_cap b"
    using buf_extend_sizes [OF b(2) fit] l(5) n by simp_all
  moreover have "rest = []" if "tn_buffer_read_length b1 = 0"
    using l(4) that length_buf_unread [of ?m b1] by (simp add: tn_buffer_read_length_def)
  ultimately have b2: "buf_inv ?b2" "buf_unread ?m ?b2 = rest" "room - length chunk + buf_fill ?b2 \<le> buf_cap ?b2"
    using l(3,4) buf_reset_ok [OF l(3)] b(6) assms(3) by auto
  let ?c2 = "conn_read ?c ?b2 len (if st' = None then TCP_CHANNEL_READ_HEADER else TCP_CHANNEL_READ_PAYLOAD)
          (foldl accept_id prev (map fst ms))"
  have "on_tcp_recv_cb be cur (int (length chunk)) chunk w =
      Some (recv_stats cur (latency_of cur 0 ms) ?n (w\<lparr>cw_mem := ?m, cw_conn := ?c2\<rparr>))"
    using assms(2) b(1) wr l(1) by (simp add: on_tcp_recv_cb_def conn_read_buffer Let_def)
  moreover have "conn_view (recv_stats cur (latency_of cur 0 ms) ?n (w\<lparr>cw_mem := ?m, cw_conn := ?c2\<rparr>)) st' rest
      (foldl accept_id prev (map fst ms)) (room - length chunk)"
    using b2 l(2) by (cases st') (auto simp: conn_view_def recv_stats_def rd_state_def conn_read_def Let_def)
  moreover have "send_view (recv_stats cur (latency_of cur 0 ms) ?n (w\<lparr>cw_mem := ?m, cw_conn := ?c2\<rparr>)) = send_view w"
    using b(1) l(5) by (auto simp: send_view_def recv_storage_def recv_stats_def conn_read_def Let_def buf_extend_def
        tn_buffer_reset_def tn_buffer_write_reset_def tn_buffer_read_reset_def)
  ultimately show ?thesis by blast
qed

fun feed :: "bool \<Rightarrow> (u64 \<times> u8 list) list \<Rightarrow> conn_world \<Rightarrow> conn_world option" where
  "feed be [] w = Some w"
| "feed be ((cur, chunk) # chunks) w = do { w \<leftarrow> on_tcp_recv_cb be cur (int (length chunk)) chunk w; feed be chunks w }"

lemma parse_prefix:
  assumes "parse st (xs @ ys) = (True, r)"
  shows "\<exists>st' rest ms. parse st xs = (True, st', rest, ms)"
proof (rule ccontr)
  assume "\<not> ?thesis"
  then have "fst (parse st xs) = False" by (cases "parse st xs") auto
  then have "fst (parse st (xs @ ys)) = False"
  proof (induction st xs rule: parse.induct)
    case (1 bs)
    then show ?case by (auto simp: parse.simps(1) split: if_splits)
  next
    case (2 n bs)
    then show ?case by (auto simp: parse.simps(2) split: if_splits prod.splits)
  qed
  then show False using assms by simp
qed

text \<open>Where the reader stops, it stays until more bytes arrive.\<close>

lemma parse_stable:
  "parse st xs = (True, st', rest, ms) \<Longrightarrow> parse st' rest = (True, st', rest, [])"
proof (induction st xs arbitrary: ms rule: parse.induct)
  case (1 bs)
  then show ?case by (cases "length bs < 4") (auto simp: parse.simps(1))
next
  case (2 n bs)
  then show ?case
    by (cases "length bs < unat n"; cases "unat n \<le> 16") (auto simp: parse.simps(2) split: prod.splits)
qed

lemma feed_parse:
  assumes "conn_view w st bs prev room" and "parse st bs = (True, st, bs, [])"
    and "\<forall>(cur, chunk) \<in> set chunks. chunk \<noteq> []"
    and "length (concat (map snd chunks)) \<le> room" and "parse st (bs @ concat (map snd chunks)) = (True, st', rest, ms)"
  shows "\<exists>w'. feed be chunks w = Some w' \<and>
    conn_view w' st' rest (foldl accept_id prev (map fst ms)) (room - length (concat (map snd chunks)))"
  using assms
proof (induction chunks arbitrary: w st bs prev room ms)
  case Nil
  then show ?case by simp
next
  case (Cons p chunks)
  let ?rest = "concat (map snd chunks)"
  obtain cur chunk where p: "p = (cur, chunk)" by fastforce
  obtain st1 rest1 ms1 where p1: "parse st (bs @ chunk) = (True, st1, rest1, ms1)"
    using parse_prefix [of st "bs @ chunk" ?rest] Cons.prems(5) p by auto
  obtain ms2 where p2: "parse st1 (rest1 @ ?rest) = (True, st', rest, ms2)" "ms = ms1 @ ms2"
    using parse_append [OF p1, of ?rest] Cons.prems(5) p by (auto split: prod.splits)
  obtain w1 where w1: "on_tcp_recv_cb be cur (int (length chunk)) chunk w = Some w1"
      "conn_view w1 st1 rest1 (foldl accept_id prev (map fst ms1)) (room - length chunk)"
    using recv_chunk [OF Cons.prems(1) _ _ p1, of be cur] Cons.prems(3,4) p by auto
  have len: "length ?rest \<le> room - length chunk" and ne: "\<forall>(cur, chunk) \<in> set chunks. chunk \<noteq> []"
    using Cons.prems(3,4) p by simp_all
  from Cons.IH [OF w1(2) parse_stable [OF p1] ne len p2(1)] w1(1) p p2(2) show ?case by (auto simp: diff_diff_left)
qed

section \<open>The sender\<close>

definition bb_content :: "mem \<Rightarrow> aws_byte_buf \<Rightarrow> u8 list" where
  "bb_content m buf = mem_read m (bb_buffer buf) (unat (bb_len buf))"

definition bb_room :: "aws_byte_buf \<Rightarrow> nat \<Rightarrow> bool" where
  "bb_room buf n \<longleftrightarrow> unat (bb_len buf) + n \<le> unat (bb_capacity buf) \<and> bb_capacity buf \<le> SIZE_HALF"

lemma bb_append:
  assumes "bb_room buf k" and "unat len = length src" and "k = length src + n"
  shows "\<exists>m' buf'. aws_byte_buf_write m buf src len = Some (True, m', buf') \<and>
    bb_content m' buf' = bb_content m buf @ src \<and> bb_room buf' n \<and> bb_buffer buf' = bb_buffer buf"
proof -
  let ?l = "unat (bb_len buf)"
  let ?m = "mem_write m (bb_buffer buf + bb_len buf) src" and ?buf = "buf\<lparr>bb_len := bb_len buf + len\<rparr>"
  have cap: "?l + length src \<le> unat (bb_capacity buf)" "unat (bb_capacity buf) < 2 ^ 63"
    using assms(1,3) by (auto simp: bb_room_def word_le_nat_alt unat_SIZE_HALF)
  have w: "aws_byte_buf_write m buf src len = Some (True, ?m, ?buf)"
    using aws_buf_write_ok [of buf len src m] cap assms by (simp add: bb_room_def)
  have k: "unat (bb_len buf + len) = ?l + length src" using cap assms(2) by (simp add: unat_add64)
  have a: "bb_buffer buf + bb_len buf = bb_buffer buf + of_nat ?l" by simp
  have "mem_read ?m (bb_buffer buf) ?l = mem_read m (bb_buffer buf) ?l"
    unfolding a by (rule mem_read_write_behind) (use cap in simp)
  moreover have "mem_read ?m (bb_buffer buf + of_nat ?l) (length src) = src"
    unfolding a by (rule mem_read_write_same) (use cap in simp)
  ultimately have "bb_content ?m ?buf = bb_content m buf @ src"
    using k by (simp add: bb_content_def mem_read_add)
  moreover have "bb_room ?buf n" using assms(1,3) k by (simp add: bb_room_def)
  ultimately show ?thesis using w by (intro exI [of _ ?m] exI [of _ ?buf]) simp
qed

lemma write_frame_ok:
  assumes "bb_content m bb = []" and "bb_room bb (length data + 21)" and "length data + 17 < 2 ^ 31"
  shows "\<exists>m' bb'. write_frame be m bb mid ts data (int (length data)) = Some (m', Some bb') \<and>
    bb_content m' bb' = frame mid ts data \<and> bb_buffer bb' = bb_buffer bb"
proof -
  let ?n = "word_of_int (int (length data)) :: size_t"
  have n: "unat ?n = length data" using assms(3) by (simp add: unat_of_nat64)
  let ?pre = "ucast (?n + 8 + 8 + 1) :: u32"
  have "unat (?n + 8 + 8 + 1) = length data + 17" using n assms(3) by (simp only: unat_word_ariths) simp
  then have "unat ?pre = length data + 17" using assms(3) by (simp only: unsigned_ucast_eq) (simp add: take_bit_eq_mod)
  then have pre: "?pre = of_nat (length data + 17)" using assms(3) by (simp only: word_unat_eq_iff unat_of_nat) simp
  have sz: "unat (4 :: u64) = 4" "unat (8 :: u64) = 8" "unat (1 :: u64) = 1" by simp_all
  obtain m1 b1 where w1: "aws_byte_buf_write_be32 be m bb ?pre = Some (True, m1, b1)"
      "bb_content m1 b1 = be_bytes 4 ?pre" "bb_room b1 (length data + 17)" "bb_buffer b1 = bb_buffer bb"
    using bb_append [OF assms(2), of 4 "be_bytes 4 ?pre" "length data + 17" m] assms(1)
    by (auto simp: aws_byte_buf_write_be32_def net32.obj_bytes_hton)
  obtain m2 b2 where w2: "aws_byte_buf_write_be64 be m1 b1 mid = Some (True, m2, b2)"
      "bb_content m2 b2 = be_bytes 4 ?pre @ be_bytes 8 mid" "bb_room b2 (length data + 9)" "bb_buffer b2 = bb_buffer bb"
    using bb_append [OF w1(3), of 8 "be_bytes 8 mid" "length data + 9" m1] w1(2,4)
    by (auto simp: aws_byte_buf_write_be64_def net64.obj_bytes_hton)
  obtain m3 b3 where w3: "aws_byte_buf_write_be64 be m2 b2 ts = Some (True, m3, b3)"
      "bb_content m3 b3 = be_bytes 4 ?pre @ be_bytes 8 mid @ be_bytes 8 ts" "bb_room b3 (length data + 1)" "bb_buffer b3 = bb_buffer bb"
    using bb_append [OF w2(3), of 8 "be_bytes 8 ts" "length data + 1" m2] w2(2,4)
    by (auto simp: aws_byte_buf_write_be64_def net64.obj_bytes_hton)
  obtain m4 b4 where w4: "aws_byte_buf_write m3 b3 data ?n = Some (True, m4, b4)"
      "bb_content m4 b4 = be_bytes 4 ?pre @ be_bytes 8 mid @ be_bytes 8 ts @ data" "bb_room b4 1" "bb_buffer b4 = bb_buffer bb"
    using bb_append [OF w3(3), of ?n data 1 m3] w3(2,4) n by auto
  obtain m5 b5 where w5: "aws_byte_buf_write_u8 m4 b4 0 = Some (True, m5, b5)"
      "bb_content m5 b5 = be_bytes 4 ?pre @ be_bytes 8 mid @ be_bytes 8 ts @ data @ [0]" "bb_buffer b5 = bb_buffer bb"
    using bb_append [OF w4(3), of 1 "[0]" 0 m4] w4(2,4) by (auto simp: aws_byte_buf_write_u8_def)
  have "write_frame be m bb mid ts data (int (length data)) = Some (m5, Some b5)"
    using w1(1) w2(1) w3(1) w4(1) w5(1) by (simp add: write_frame_def Let_def)
  then show ?thesis using w5(2,3) pre by (auto simp: frame_def)
qed

lemma aws_byte_buf_init_ok:
  assumes "buffer \<noteq> 0" and "n + 21 < 2 ^ 31"
  shows "\<exists>bb. aws_byte_buf_init buffer (word_of_int (int n) + 4 + 8 + 8 + 1) = Some bb \<and>
    bb_content m bb = [] \<and> bb_room bb (n + 21) \<and> bb_buffer bb = buffer"
proof -
  let ?c = "word_of_int (int n) + 4 + 8 + 8 + 1 :: size_t"
  have n: "unat (of_nat n :: size_t) = n" using assms(2) by (simp add: unat_of_nat64)
  have "unat ?c = n + 21" using n assms(2) by (simp only: unat_word_ariths of_int_of_nat_eq) simp
  then show ?thesis using assms
    by (simp add: aws_byte_buf_init_def bb_content_def bb_room_def word_le_nat_alt unat_SIZE_HALF)
qed

lemma write_frame_length:
  assumes "write_frame be m bb mid ts data (int (length data)) = Some (m', Some bb')" and "bb_content m' bb' = xs"
  shows "unat (bb_len bb') = length xs"
  using assms(2) by (auto simp: bb_content_def)

text \<open>A message that is accepted is one write of one frame, with the next id.\<close>

lemma write_begin_ok:
  assumes "cn_state (cw_conn w) = CS_CONNECTING \<or> cn_state (cw_conn w) = CS_CONNECTED"
    and "buffer \<noteq> 0" and "data \<noteq> []" and "length data + 21 < 2 ^ 31"
  shows "\<exists>w' n. tcp_write_begin be ts buffer True 0 (Some h) (Some data) (int (length data)) w = Some w' \<and>
    cw_writes w' = cw_writes w @ [(buffer, n)] \<and>
    mem_read (cw_mem w') buffer (unat n) = frame (cn_current_msg_id (cw_conn w) + 1) ts data \<and>
    cn_state (cw_conn w') = CS_CONNECTED \<and> cn_current_msg_id (cw_conn w') = cn_current_msg_id (cw_conn w) + 1"
proof -
  obtain bb where bb: "aws_byte_buf_init buffer (word_of_int (int (length data)) + 4 + 8 + 8 + 1) = Some bb"
      "bb_content (cw_mem w) bb = []" "bb_room bb (length data + 21)" "bb_buffer bb = buffer"
    using aws_byte_buf_init_ok [OF assms(2,4)] by blast
  have short: "length data + 17 < 2 ^ 31" using assms(4) by simp
  obtain m' bb' where f: "write_frame be (cw_mem w) bb (cn_current_msg_id (cw_conn w) + 1) ts data (int (length data)) = Some (m', Some bb')"
      "bb_content m' bb' = frame (cn_current_msg_id (cw_conn w) + 1) ts data" "bb_buffer bb' = bb_buffer bb"
    using write_frame_ok [OF bb(2,3) short] by blast
  have "tcp_write_begin be ts buffer True 0 (Some h) (Some data) (int (length data)) w = Some (w\<lparr>
      cw_conn := (cw_conn w)\<lparr>cn_state := CS_CONNECTED, cn_current_msg_id := cn_current_msg_id (cw_conn w) + 1\<rparr>,
      cw_mem := m', cw_writes := cw_writes w @ [(buffer, bb_len bb')]\<rparr>)"
    using assms(1,3) bb(1,4) f(1,3) by (auto simp: tcp_write_begin_def Let_def)
  then show ?thesis using bb(4) f(2,3) by (auto simp: bb_content_def)
qed

section \<open>End to end\<close>

text \<open>
  A sender that writes messages one after the other: time stamp, the memory the allocator gives and
  the data of each. The result is what the writes put on the wire, in order; a write has the bytes
  that its memory holds when it is accepted, and the memory is not used again before it is done.
\<close>

definition wire_bytes :: "conn_world \<Rightarrow> u8 list" where
  "wire_bytes w = (case last (cw_writes w) of (a, n) \<Rightarrow> mem_read (cw_mem w) a (unat n))"

fun send_all :: "bool \<Rightarrow> nat \<Rightarrow> (u64 \<times> addr \<times> u8 list) list \<Rightarrow> conn_world \<Rightarrow> (u8 list \<times> conn_world) option" where
  "send_all be h [] w = Some ([], w)"
| "send_all be h ((ts, buffer, data) # msgs) w = do {
     w \<leftarrow> tcp_write_begin be ts buffer True 0 (Some h) (Some data) (int (length data)) w;
     (bs, w') \<leftarrow> send_all be h msgs w;
     Some (wire_bytes w @ bs, w')
   }"

definition sendable_msgs :: "(u64 \<times> addr \<times> u8 list) list \<Rightarrow> bool" where
  "sendable_msgs msgs \<longleftrightarrow> list_all (\<lambda>(ts, buffer, data). buffer \<noteq> 0 \<and> data \<noteq> [] \<and> length data + 21 < 2 ^ 31) msgs"

fun numbered :: "u64 \<Rightarrow> (u64 \<times> addr \<times> u8 list) list \<Rightarrow> (u64 \<times> u64 \<times> u8 list) list" where
  "numbered mid [] = []"
| "numbered mid ((ts, buffer, data) # msgs) = (mid + 1, ts, data) # numbered (mid + 1) msgs"

lemma send_all_frames:
  assumes "cn_state (cw_conn w) = CS_CONNECTING \<or> cn_state (cw_conn w) = CS_CONNECTED" and "sendable_msgs msgs"
  shows "\<exists>w'. send_all be h msgs w =
      Some (concat (map (\<lambda>(mid, ts, data). frame mid ts data) (numbered (cn_current_msg_id (cw_conn w)) msgs)), w')"
  using assms
proof (induction msgs arbitrary: w)
  case Nil
  then show ?case by simp
next
  case (Cons p msgs)
  obtain ts buffer data where p: "p = (ts, buffer, data)" by (cases p)
  obtain w1 n where w1: "tcp_write_begin be ts buffer True 0 (Some h) (Some data) (int (length data)) w = Some w1"
      "cw_writes w1 = cw_writes w @ [(buffer, n)]"
      "mem_read (cw_mem w1) buffer (unat n) = frame (cn_current_msg_id (cw_conn w) + 1) ts data"
      "cn_state (cw_conn w1) = CS_CONNECTED" "cn_current_msg_id (cw_conn w1) = cn_current_msg_id (cw_conn w) + 1"
    using write_begin_ok [OF Cons.prems(1), of buffer data be ts h] Cons.prems(2) p by (auto simp: sendable_msgs_def)
  from Cons.IH [of w1] Cons.prems(2) p w1 show ?case by (auto simp: sendable_msgs_def wire_bytes_def)
qed

lemma numbered_accepted: "foldl accept_id mid (map fst (map (\<lambda>(mid, ts, data). (mid, ts)) (numbered mid msgs))) = mid + of_nat (length msgs)"
  by (induction mid msgs rule: numbered.induct) (auto simp: accept_id_def algebra_simps)

lemma numbered_short: "sendable_msgs msgs \<Longrightarrow> \<forall>(mid, ts, data) \<in> set (numbered mid0 msgs). length data + 17 < 2 ^ 32"
  by (induction mid0 msgs rule: numbered.induct) (auto simp: sendable_msgs_def)

lemma buf_left_zero: "buf_unread m b = [] \<Longrightarrow> cur_len (tb_pos b) = 0"
  by (metis length_buf_unread list.size(3) unat_eq_zero)

lemma conn_view_idle:
  "conn_view w None [] prev room \<Longrightarrow> cn_read_state (cw_conn w) = TCP_CHANNEL_READ_HEADER \<and>
     cn_last_recv_msg_id (cw_conn w) = prev \<and> map_option tn_buffer_read_length (cn_next_buffer (cw_conn w)) = Some 0"
  by (auto simp: conn_view_def rd_state_simps tn_buffer_read_length_def dest: buf_left_zero)

end
