(* ===== verification/Tn_Byte_Buf_Ops.thy ===== *)
theory Tn_Byte_Buf_Ops
  imports Tn_Wire
begin

text \<open>
  The operations of \<open>byte_buf.c\<close> and \<open>byte_buf.h\<close> that the program itself does not call: making
  buffers and cursors from memory, copying, appending, concatenating, comparing and wiping. A pointer
  is an address with 0 for NULL; the result of an allocation is an input, and releasing is recorded as
  the address that was released.
\<close>

section \<open>Operations\<close>

definition aws_byte_buf_from_array :: "addr \<Rightarrow> size_t \<Rightarrow> aws_byte_buf" where
  "aws_byte_buf_from_array bytes len = \<lparr>bb_len = len, bb_buffer = bytes, bb_capacity = len, bb_allocator = 0\<rparr>"

definition aws_byte_cursor_from_array :: "addr \<Rightarrow> size_t \<Rightarrow> aws_byte_cursor" where
  "aws_byte_cursor_from_array bytes len = \<lparr>cur_len = len, cur_ptr = bytes\<rparr>"

text \<open>\<open>strlen\<close>; it has no result when there is no zero byte.\<close>

partial_function (option) strlen :: "mem \<Rightarrow> addr \<Rightarrow> size_t option" where
  "strlen m a = (if m a = 0 then Some 0 else do { n \<leftarrow> strlen m (a + 1); Some (n + 1) })"

definition aws_byte_buf_from_c_str :: "mem \<Rightarrow> addr \<Rightarrow> aws_byte_buf option" where
  "aws_byte_buf_from_c_str m c_str = do {
     len \<leftarrow> strlen m c_str;
     Some \<lparr>bb_len = len, bb_buffer = c_str, bb_capacity = len, bb_allocator = 0\<rparr>
   }"

definition aws_byte_cursor_from_c_str :: "mem \<Rightarrow> addr \<Rightarrow> aws_byte_cursor option" where
  "aws_byte_cursor_from_c_str m c_str = do {
     len \<leftarrow> strlen m c_str;
     Some \<lparr>cur_len = len, cur_ptr = c_str\<rparr>
   }"

definition aws_byte_buf_clean_up :: "aws_byte_buf \<Rightarrow> addr option \<times> aws_byte_buf" where
  "aws_byte_buf_clean_up buf =
     (if bb_allocator buf \<noteq> 0 \<and> bb_buffer buf \<noteq> 0 then Some (bb_buffer buf) else None,
      \<lparr>bb_len = 0, bb_buffer = 0, bb_capacity = 0, bb_allocator = 0\<rparr>)"

definition aws_byte_buf_secure_zero :: "mem \<Rightarrow> aws_byte_buf \<Rightarrow> mem \<times> aws_byte_buf" where
  "aws_byte_buf_secure_zero m buf =
     (if bb_buffer buf \<noteq> 0 then mem_write m (bb_buffer buf) (replicate (unat (bb_capacity buf)) 0) else m, buf\<lparr>bb_len := 0\<rparr>)"

definition aws_byte_buf_clean_up_secure :: "mem \<Rightarrow> aws_byte_buf \<Rightarrow> mem \<times> addr option \<times> aws_byte_buf" where
  "aws_byte_buf_clean_up_secure m buf =
     (let (m, buf) = aws_byte_buf_secure_zero m buf; (released, buf) = aws_byte_buf_clean_up buf in (m, released, buf))"

text \<open>\<open>memcmp\<close> as it is used: whether the bytes are the same.\<close>

definition mem_same :: "mem \<Rightarrow> addr \<Rightarrow> addr \<Rightarrow> size_t \<Rightarrow> bool" where
  "mem_same m a b n \<longleftrightarrow> mem_read m a (unat n) = mem_read m b (unat n)"

text \<open>A NULL argument is None.\<close>

definition aws_byte_buf_eq :: "mem \<Rightarrow> aws_byte_buf option \<Rightarrow> aws_byte_buf option \<Rightarrow> bool" where
  "aws_byte_buf_eq m a b = (case (a, b) of (Some a, Some b) \<Rightarrow>
       if bb_len a \<noteq> bb_len b then False
       else if bb_buffer a = 0 \<or> bb_buffer b = 0 then bb_buffer a = bb_buffer b
       else mem_same m (bb_buffer a) (bb_buffer b) (bb_len a)
     | _ \<Rightarrow> a = None \<and> b = None)"

definition aws_byte_cursor_eq :: "mem \<Rightarrow> aws_byte_cursor option \<Rightarrow> aws_byte_cursor option \<Rightarrow> bool" where
  "aws_byte_cursor_eq m a b = (case (a, b) of (Some a, Some b) \<Rightarrow>
       if cur_len a \<noteq> cur_len b then False
       else if cur_ptr a = 0 \<or> cur_ptr b = 0 then cur_ptr a = cur_ptr b
       else mem_same m (cur_ptr a) (cur_ptr b) (cur_len a)
     | _ \<Rightarrow> a = None \<and> b = None)"

definition aws_byte_cursor_eq_byte_buf :: "mem \<Rightarrow> aws_byte_cursor option \<Rightarrow> aws_byte_buf option \<Rightarrow> bool" where
  "aws_byte_cursor_eq_byte_buf m a b = (case (a, b) of (Some a, Some b) \<Rightarrow>
       if cur_len a \<noteq> bb_len b then False
       else if cur_ptr a = 0 \<or> bb_buffer b = 0 then cur_ptr a = bb_buffer b
       else mem_same m (cur_ptr a) (bb_buffer b) (cur_len a)
     | _ \<Rightarrow> a = None \<and> b = None)"

text \<open>\<open>fresh\<close> is what the allocation returns.\<close>

definition aws_byte_buf_init_copy_from_cursor :: "addr \<Rightarrow> mem \<Rightarrow> addr \<Rightarrow> aws_byte_cursor \<Rightarrow> (int \<times> mem \<times> aws_byte_buf) option" where
  "aws_byte_buf_init_copy_from_cursor fresh m allocator src = do {
     tn_assert (allocator \<noteq> 0);
     let dest = \<lparr>bb_len = 0, bb_buffer = 0, bb_capacity = 0, bb_allocator = 0\<rparr>;
     if cur_ptr src = 0 then Some (AWS_OP_SUCCESS, m, dest)
     else if fresh = 0 then Some (AWS_OP_ERR, m, dest)
     else Some (AWS_OP_SUCCESS, mem_write m fresh (mem_read m (cur_ptr src) (unat (cur_len src))),
       \<lparr>bb_len = cur_len src, bb_buffer = fresh, bb_capacity = cur_len src, bb_allocator = allocator\<rparr>)
   }"

definition aws_byte_buf_init_copy :: "addr \<Rightarrow> mem \<Rightarrow> addr \<Rightarrow> aws_byte_buf \<Rightarrow> (int \<times> mem \<times> aws_byte_buf) option" where
  "aws_byte_buf_init_copy fresh m allocator src =
     aws_byte_buf_init_copy_from_cursor fresh m allocator (aws_byte_cursor_from_buf src)"

definition aws_byte_buf_append :: "mem \<Rightarrow> aws_byte_buf \<Rightarrow> aws_byte_cursor \<Rightarrow> (int \<times> mem \<times> aws_byte_buf) option" where
  "aws_byte_buf_append m dest from = do {
     tn_assert (cur_ptr from \<noteq> 0);
     tn_assert (bb_buffer dest \<noteq> 0);
     if bb_capacity dest - bb_len dest < cur_len from then Some (AWS_OP_ERR, m, dest)
     else Some (AWS_OP_SUCCESS, mem_write m (bb_buffer dest + bb_len dest) (mem_read m (cur_ptr from) (unat (cur_len from))),
       dest\<lparr>bb_len := bb_len dest + cur_len from\<rparr>)
   }"

fun aws_byte_buf_cat :: "mem \<Rightarrow> aws_byte_buf \<Rightarrow> aws_byte_buf list \<Rightarrow> (int \<times> mem \<times> aws_byte_buf) option" where
  "aws_byte_buf_cat m dest [] = Some (AWS_OP_SUCCESS, m, dest)"
| "aws_byte_buf_cat m dest (buffer # buffers) = do {
     (rc, m, dest) \<leftarrow> aws_byte_buf_append m dest (aws_byte_cursor_from_buf buffer);
     if rc \<noteq> 0 then Some (AWS_OP_ERR, m, dest) else aws_byte_buf_cat m dest buffers
   }"

definition aws_byte_cursor_read_and_fill_buffer ::
  "mem \<Rightarrow> aws_byte_cursor \<Rightarrow> aws_byte_buf \<Rightarrow> bool \<times> mem \<times> aws_byte_cursor \<times> aws_byte_buf" where
  "aws_byte_cursor_read_and_fill_buffer m cur dest =
     (case aws_byte_cursor_read m cur (bb_capacity dest) of
        (Some bytes, cur) \<Rightarrow> (True, mem_write m (bb_buffer dest) bytes, cur, dest\<lparr>bb_len := bb_capacity dest\<rparr>)
      | (None, cur) \<Rightarrow> (False, m, cur, dest))"

definition aws_byte_buf_write_from_whole_buffer :: "mem \<Rightarrow> aws_byte_buf \<Rightarrow> aws_byte_buf \<Rightarrow> (bool \<times> mem \<times> aws_byte_buf) option" where
  "aws_byte_buf_write_from_whole_buffer m buf src =
     aws_byte_buf_write m buf (mem_read m (bb_buffer src) (unat (bb_len src))) (bb_len src)"

definition aws_byte_buf_write_from_whole_cursor :: "mem \<Rightarrow> aws_byte_buf \<Rightarrow> aws_byte_cursor \<Rightarrow> (bool \<times> mem \<times> aws_byte_buf) option" where
  "aws_byte_buf_write_from_whole_cursor m buf src =
     aws_byte_buf_write m buf (mem_read m (cur_ptr src) (unat (cur_len src))) (cur_len src)"

section \<open>Copying and comparing\<close>

text \<open>Comparing decides equality of the contents, for buffers that have memory.\<close>

lemma byte_buf_eq_content:
  assumes "bb_buffer a \<noteq> 0" and "bb_buffer b \<noteq> 0"
  shows "aws_byte_buf_eq m (Some a) (Some b) \<longleftrightarrow> bb_content m a = bb_content m b"
proof -
  have "bb_len a = bb_len b" if "bb_content m a = bb_content m b"
  proof -
    have "length (bb_content m a) = length (bb_content m b)" using that by simp
    then have "unat (bb_len a) = unat (bb_len b)" by (simp add: bb_content_def)
    then show ?thesis by (simp add: word_unat_eq_iff)
  qed
  then show ?thesis using assms by (auto simp: aws_byte_buf_eq_def mem_same_def bb_content_def)
qed

text \<open>Two stretches of memory of the same length that do not overlap.\<close>

definition disjoint_mem :: "addr \<Rightarrow> addr \<Rightarrow> nat \<Rightarrow> bool" where
  "disjoint_mem a b n \<longleftrightarrow> list_all (\<lambda>i. n \<le> unat (b + of_nat i - a)) [0..<n]"

lemma read_disjoint: "disjoint_mem a b (length bs) \<Longrightarrow> mem_read (mem_write m a bs) b (length bs) = mem_read m b (length bs)"
  by (rule mem_read_write_outside) (simp add: disjoint_mem_def list_all_iff)

theorem init_copy_equal:
  assumes "bb_buffer src \<noteq> 0" and "fresh \<noteq> 0" and "allocator \<noteq> 0" and "disjoint_mem fresh (bb_buffer src) (unat (bb_len src))"
  shows "\<exists>m' dest. aws_byte_buf_init_copy fresh m allocator src = Some (AWS_OP_SUCCESS, m', dest) \<and>
    bb_content m' dest = bb_content m src \<and> aws_byte_buf_eq m' (Some dest) (Some src)"
proof -
  let ?bs = "bb_content m src" and ?dest = "\<lparr>bb_len = bb_len src, bb_buffer = fresh, bb_capacity = bb_len src, bb_allocator = allocator\<rparr>"
  let ?m = "mem_write m fresh (bb_content m src)"
  have n: "length ?bs = unat (bb_len src)" by (simp add: bb_content_def)
  then have "length ?bs \<le> 2 ^ 64" using unat_lt64 [of "bb_len src"] by simp
  from mem_read_write_same [OF this, of m fresh] have c: "bb_content ?m ?dest = ?bs" using n by (simp add: bb_content_def)
  have s: "bb_content ?m src = ?bs" using read_disjoint [of fresh "bb_buffer src" ?bs m] assms(4) n by (simp add: bb_content_def)
  have "aws_byte_buf_init_copy fresh m allocator src = Some (AWS_OP_SUCCESS, ?m, ?dest)"
    using assms(1-3) by (simp add: aws_byte_buf_init_copy_def aws_byte_buf_init_copy_from_cursor_def aws_byte_cursor_from_buf_def
        bb_content_def tn_assert_def)
  moreover have "aws_byte_buf_eq ?m (Some ?dest) (Some src)" using byte_buf_eq_content [of ?dest src ?m] assms(1,2) c s by simp
  ultimately show ?thesis using c by blast
qed

text \<open>A wiped buffer has only zero bytes in all of its memory.\<close>

lemma secure_zero_wipes:
  assumes "bb_buffer buf \<noteq> 0"
  shows "mem_read (fst (aws_byte_buf_secure_zero m buf)) (bb_buffer buf) (unat (bb_capacity buf)) = replicate (unat (bb_capacity buf)) 0"
proof -
  have "unat (bb_capacity buf) \<le> 2 ^ 64" using unat_lt64 [of "bb_capacity buf"] by simp
  then show ?thesis using mem_read_write_same [of "replicate (unat (bb_capacity buf)) (0 :: u8)" m "bb_buffer buf"] assms
    by (simp add: aws_byte_buf_secure_zero_def)
qed

section \<open>Appending\<close>

lemma append_ok:
  assumes "bb_buffer dest \<noteq> 0" and "cur_ptr from \<noteq> 0" and "unat (bb_len dest) + unat (cur_len from) \<le> unat (bb_capacity dest)"
  shows "\<exists>m' dest'. aws_byte_buf_append m dest from = Some (AWS_OP_SUCCESS, m', dest') \<and>
    bb_content m' dest' = bb_content m dest @ mem_read m (cur_ptr from) (unat (cur_len from)) \<and>
    bb_buffer dest' = bb_buffer dest \<and> bb_capacity dest' = bb_capacity dest \<and>
    unat (bb_len dest') = unat (bb_len dest) + unat (cur_len from) \<and>
    (\<forall>x. unat (bb_capacity dest) \<le> unat (x - bb_buffer dest) \<longrightarrow> m' x = m x)"
proof -
  let ?bs = "mem_read m (cur_ptr from) (unat (cur_len from))" and ?l = "unat (bb_len dest)"
  let ?m = "mem_write m (bb_buffer dest + bb_len dest) ?bs" and ?dest = "dest\<lparr>bb_len := bb_len dest + cur_len from\<rparr>"
  have cap: "?l + length ?bs < 2 ^ 64" using assms(3) unat_lt64 [of "bb_capacity dest"] by simp
  have "unat (bb_capacity dest - bb_len dest) = unat (bb_capacity dest) - ?l" using assms(3) by (intro unat_sub64) simp
  then have "\<not> bb_capacity dest - bb_len dest < cur_len from" using assms(3) by (simp add: word_less_nat_alt)
  then have run: "aws_byte_buf_append m dest from = Some (AWS_OP_SUCCESS, ?m, ?dest)"
    using assms(1,2) by (simp add: aws_byte_buf_append_def tn_assert_def)
  have len: "unat (bb_len dest + cur_len from) = ?l + unat (cur_len from)" using cap by (simp add: unat_add64)
  have a: "bb_buffer dest + bb_len dest = bb_buffer dest + of_nat ?l" by simp
  have "mem_read ?m (bb_buffer dest) ?l = mem_read m (bb_buffer dest) ?l"
    unfolding a by (rule mem_read_write_behind) (use cap in simp)
  moreover have "mem_read ?m (bb_buffer dest + of_nat ?l) (length ?bs) = ?bs"
    unfolding a by (rule mem_read_write_same) (use cap in simp)
  ultimately have "bb_content ?m ?dest = bb_content m dest @ ?bs" using len by (simp add: bb_content_def mem_read_add)
  moreover have "?m x = m x" if "unat (bb_capacity dest) \<le> unat (x - bb_buffer dest)" for x
    using mem_write_beyond [of "bb_len dest" ?bs] assms(3) that by simp
  ultimately show ?thesis using run len by simp
qed

lemma append_too_long:
  assumes "bb_buffer dest \<noteq> 0" and "cur_ptr from \<noteq> 0" and "bb_len dest \<le> bb_capacity dest"
    and "unat (bb_capacity dest) < unat (bb_len dest) + unat (cur_len from)"
  shows "aws_byte_buf_append m dest from = Some (AWS_OP_ERR, m, dest)"
proof -
  have "unat (bb_capacity dest - bb_len dest) = unat (bb_capacity dest) - unat (bb_len dest)"
    using assms(3) by (intro unat_sub64) (simp add: word_le_nat_alt)
  then have "bb_capacity dest - bb_len dest < cur_len from" using assms(3,4) by (simp add: word_less_nat_alt word_le_nat_alt)
  then show ?thesis using assms(1,2) by (simp add: aws_byte_buf_append_def tn_assert_def)
qed

text \<open>
  Concatenating buffers that lie outside of the destination puts all their bytes behind its content, in
  order; it fails exactly when they do not fit.
\<close>

definition outside :: "aws_byte_buf \<Rightarrow> aws_byte_buf \<Rightarrow> bool" where
  "outside dest b \<longleftrightarrow> bb_buffer b \<noteq> 0 \<and>
     list_all (\<lambda>i. unat (bb_capacity dest) \<le> unat (bb_buffer b + of_nat i - bb_buffer dest)) [0..<unat (bb_len b)]"

lemma outside_content:
  assumes "outside dest b" and "\<And>x. unat (bb_capacity dest) \<le> unat (x - bb_buffer dest) \<Longrightarrow> m' x = m x"
  shows "bb_content m' b = bb_content m b"
  using assms by (auto simp: bb_content_def mem_read_def outside_def list_all_iff)

theorem cat_appends_all:
  assumes "bb_buffer dest \<noteq> 0" and "list_all (outside dest) bufs" and "bb_len dest \<le> bb_capacity dest"
  shows "\<exists>rc m' dest'. aws_byte_buf_cat m dest bufs = Some (rc, m', dest') \<and>
    (rc = AWS_OP_SUCCESS \<longleftrightarrow> unat (bb_len dest) + length (concat (map (bb_content m) bufs)) \<le> unat (bb_capacity dest)) \<and>
    (rc = AWS_OP_SUCCESS \<longrightarrow> bb_content m' dest' = bb_content m dest @ concat (map (bb_content m) bufs))"
  using assms
proof (induction bufs arbitrary: m dest)
  case Nil
  then show ?case by (simp add: word_le_nat_alt)
next
  case (Cons b bufs)
  let ?c = "aws_byte_cursor_from_buf b"
  have b: "cur_ptr ?c \<noteq> 0" "cur_len ?c = bb_len b" "cur_ptr ?c = bb_buffer b" "outside dest b"
    using Cons.prems(2) by (auto simp: aws_byte_cursor_from_buf_def outside_def)
  have lb: "length (bb_content m b) = unat (bb_len b)" by (simp add: bb_content_def)
  show ?case
  proof (cases "unat (bb_len dest) + unat (bb_len b) \<le> unat (bb_capacity dest)")
    case True
    obtain m1 d1 where d1: "aws_byte_buf_append m dest ?c = Some (AWS_OP_SUCCESS, m1, d1)"
        "bb_content m1 d1 = bb_content m dest @ bb_content m b" "bb_buffer d1 = bb_buffer dest" "bb_capacity d1 = bb_capacity dest"
        "unat (bb_len d1) = unat (bb_len dest) + unat (bb_len b)"
        "\<And>x. unat (bb_capacity dest) \<le> unat (x - bb_buffer dest) \<Longrightarrow> m1 x = m x"
      using append_ok [OF Cons.prems(1) b(1), of m] True b(2,3) by (auto simp: bb_content_def)
    have same: "map (bb_content m1) bufs = map (bb_content m) bufs"
      using Cons.prems(2) outside_content [OF _ d1(6)] by (auto simp: list_all_iff)
    have "list_all (outside d1) bufs" using Cons.prems(2) d1(3,4) by (simp add: outside_def list_all_iff)
    moreover have "bb_len d1 \<le> bb_capacity d1" using d1(4,5) True by (simp add: word_le_nat_alt)
    ultimately obtain rc m2 d2 where "aws_byte_buf_cat m1 d1 bufs = Some (rc, m2, d2)"
        "rc = AWS_OP_SUCCESS \<longleftrightarrow> unat (bb_len d1) + length (concat (map (bb_content m1) bufs)) \<le> unat (bb_capacity d1)"
        "rc = AWS_OP_SUCCESS \<longrightarrow> bb_content m2 d2 = bb_content m1 d1 @ concat (map (bb_content m1) bufs)"
      using Cons.IH [of d1 m1] d1(3) Cons.prems(1) by auto
    then show ?thesis using d1 same lb by (auto simp: add.assoc)
  next
    case False
    from append_too_long [OF Cons.prems(1) b(1) Cons.prems(3)] False b(2)
    have "aws_byte_buf_append m dest ?c = Some (AWS_OP_ERR, m, dest)" by simp
    then show ?thesis using False lb by simp
  qed
qed

text \<open>A string that ends has the length of the bytes before its zero byte.\<close>

lemma strlen_ok:
  assumes "m (a + of_nat n) = 0" and "\<And>i. i < n \<Longrightarrow> m (a + of_nat i) \<noteq> 0"
  shows "strlen m a = Some (of_nat n)"
  using assms
proof (induction n arbitrary: a)
  case 0
  then show ?case by (simp add: strlen.simps)
next
  case (Suc n)
  have "strlen m (a + 1) = Some (of_nat n)"
  proof (rule Suc.IH)
    show "m (a + 1 + of_nat n) = 0" using Suc.prems(1) by (simp add: add.assoc)
    show "m (a + 1 + of_nat i) \<noteq> 0" if "i < n" for i using Suc.prems(2) [of "Suc i"] that by (simp add: add.assoc)
  qed
  then show ?case using Suc.prems(2) [of 0] by (simp add: strlen.simps [of m a])
qed

end
