(* ===== verification/Tn_Queue_Conc.thy ===== *)
theory Tn_Queue_Conc
  imports Tn_Queue "HOL-Library.Sublist"
begin

text \<open>
  The queue of \<open>src/queue_spsc.c\<close> under two threads. Each operation is cut into its accesses
  to shared memory, in program order; a step of the system is one access by one thread, chosen
  by an arbitrary scheduler, on sequentially consistent memory (the acquire and release orders
  of the atomics are not modelled beyond that). \<open>prod_step\<close> is \<open>tn_queue_spsc_push\<close>;
  \<open>cons_step\<close> is the access sequence shared by \<open>tn_queue_spsc_pop_back\<close> (a limit of one
  pointer), \<open>tn_queue_spsc_pop_all\<close> (a limit of \<open>out_count\<close>) and \<open>peek\<close> followed by
  \<open>pop_cached\<close> (again one). The ghost lists \<open>pushed\<close> and \<open>popped\<close> record the pointers whose
  insertion or removal took effect.
\<close>

section \<open>The two threads\<close>

datatype 'p prod_pc =
    P_idle
  | P_call 'p
  | P_head 'p u64
  | P_tail 'p u64 u64
  | P_wrote 'p u64

datatype 'p cons_pc =
    C_idle
  | C_call nat
  | C_tail nat u64
  | C_head nat u64 u64
  | C_copy nat u64 "'p list"

fun prod_step ::
  "'p tn_queue_spsc \<Rightarrow> 'p prod_pc \<Rightarrow> ('p tn_queue_spsc \<times> 'p prod_pc \<times> 'p list) option" where
  "prod_step q P_idle = None"
| "prod_step q (P_call p) = Some (q, P_head p (q_head q), [])"
| "prod_step q (P_head p head) = Some (q, P_tail p head (q_tail q), [])"
| "prod_step q (P_tail p head tail) =
     (if head - tail = q_capacity q then Some (q, P_idle, [])
      else do {
        buffer \<leftarrow> arr_set (q_buffer q) (unat (head AND q_mask q)) p;
        Some (q\<lparr>q_buffer := buffer\<rparr>, P_wrote p head, [])
      })"
| "prod_step q (P_wrote p head) = Some (q\<lparr>q_head := head + 1\<rparr>, P_idle, [p])"

fun cons_step ::
  "'p tn_queue_spsc \<Rightarrow> 'p cons_pc \<Rightarrow> ('p tn_queue_spsc \<times> 'p cons_pc \<times> 'p list) option" where
  "cons_step q C_idle = None"
| "cons_step q (C_call limit) = Some (q, C_tail limit (q_tail q), [])"
| "cons_step q (C_tail limit tail) = Some (q, C_head limit tail (q_head q), [])"
| "cons_step q (C_head limit tail head) =
     (if head = tail then Some (q, C_idle, [])
      else Some (q, C_copy (min limit (unat (head - tail))) tail [], []))"
| "cons_step q (C_copy cnt tail acc) =
     (if length acc < cnt then do {
        p \<leftarrow> arr_get (q_buffer q) (unat ((tail + of_nat (length acc)) AND q_mask q));
        Some (q, C_copy cnt tail (acc @ [p]), [])
      }
      else Some (q\<lparr>q_tail := tail + of_nat cnt\<rparr>, C_idle, acc))"

record 'p spsc =
  sq :: "'p tn_queue_spsc"
  producer :: "'p prod_pc"
  consumer :: "'p cons_pc"
  pushed :: "'p list"
  popped :: "'p list"

inductive spsc_step :: "'p spsc \<Rightarrow> 'p spsc \<Rightarrow> bool" where
  call_push: "producer s = P_idle \<Longrightarrow> spsc_step s (s\<lparr>producer := P_call p\<rparr>)"
| step_push: "prod_step (sq s) (producer s) = Some (q, pc, ps) \<Longrightarrow>
    spsc_step s (s\<lparr>sq := q, producer := pc, pushed := pushed s @ ps\<rparr>)"
| call_pop: "consumer s = C_idle \<Longrightarrow> 0 < limit \<Longrightarrow> spsc_step s (s\<lparr>consumer := C_call limit\<rparr>)"
| step_pop: "cons_step (sq s) (consumer s) = Some (q, pc, ps) \<Longrightarrow>
    spsc_step s (s\<lparr>sq := q, consumer := pc, popped := popped s @ ps\<rparr>)"

inductive spsc_reachable :: "'p tn_queue_spsc \<Rightarrow> 'p spsc \<Rightarrow> bool" for q0 where
  start: "spsc_reachable q0 \<lparr>sq = q0, producer = P_idle, consumer = C_idle, pushed = [], popped = []\<rparr>"
| step: "spsc_reachable q0 s \<Longrightarrow> spsc_step s t \<Longrightarrow> spsc_reachable q0 t"

text \<open>A schedule executed step by step; \<open>None\<close> when a step is not enabled.\<close>

datatype 'p sched = Call_push 'p | Step_push | Call_pop nat | Step_pop

fun spsc_exec :: "'p spsc \<Rightarrow> 'p sched \<Rightarrow> 'p spsc option" where
  "spsc_exec s (Call_push p) = (if producer s = P_idle then Some (s\<lparr>producer := P_call p\<rparr>) else None)"
| "spsc_exec s Step_push = do {
     (q, pc, ps) \<leftarrow> prod_step (sq s) (producer s);
     Some (s\<lparr>sq := q, producer := pc, pushed := pushed s @ ps\<rparr>)
   }"
| "spsc_exec s (Call_pop limit) =
     (if consumer s = C_idle \<and> 0 < limit then Some (s\<lparr>consumer := C_call limit\<rparr>) else None)"
| "spsc_exec s Step_pop = do {
     (q, pc, ps) \<leftarrow> cons_step (sq s) (consumer s);
     Some (s\<lparr>sq := q, consumer := pc, popped := popped s @ ps\<rparr>)
   }"

fun spsc_run :: "'p spsc \<Rightarrow> 'p sched list \<Rightarrow> 'p spsc option" where
  "spsc_run s [] = Some s"
| "spsc_run s (x # xs) = do { s \<leftarrow> spsc_exec s x; spsc_run s xs }"

text \<open>
  Two threads that both insert, which the queue is not made for: the schedule says which of the
  two producers takes the next step, and the list records the pointers whose insertion returned
  \<open>TN_SUCCESS\<close>.
\<close>

fun two_prod_run ::
  "'p tn_queue_spsc \<Rightarrow> 'p prod_pc \<Rightarrow> 'p prod_pc \<Rightarrow> bool list \<Rightarrow>
   ('p tn_queue_spsc \<times> 'p prod_pc \<times> 'p prod_pc \<times> 'p list) option" where
  "two_prod_run q a b [] = Some (q, a, b, [])"
| "two_prod_run q a b (True # ws) = do {
     (q, a, ps) \<leftarrow> prod_step q a;
     (q, a, b, qs) \<leftarrow> two_prod_run q a b ws;
     Some (q, a, b, ps @ qs)
   }"
| "two_prod_run q a b (False # ws) = do {
     (q, b, ps) \<leftarrow> prod_step q b;
     (q, a, b, qs) \<leftarrow> two_prod_run q a b ws;
     Some (q, a, b, ps @ qs)
   }"

section \<open>The invariant\<close>

text \<open>What each thread's local variables say about the shared queue.\<close>

fun prod_ok :: "'p tn_queue_spsc \<Rightarrow> 'p prod_pc \<Rightarrow> bool" where
  "prod_ok q P_idle = True"
| "prod_ok q (P_call p) = True"
| "prod_ok q (P_head p head) = (head = q_head q)"
| "prod_ok q (P_tail p head tail) =
     (head = q_head q \<and> length (q_elems q) \<le> unat (head - tail) \<and> unat (head - tail) \<le> q_cap q)"
| "prod_ok q (P_wrote p head) =
     (head = q_head q \<and> length (q_elems q) < q_cap q \<and> q_buffer q ! q_slot q (length (q_elems q)) = p)"

fun cons_ok :: "'p tn_queue_spsc \<Rightarrow> 'p cons_pc \<Rightarrow> bool" where
  "cons_ok q C_idle = True"
| "cons_ok q (C_call limit) = (0 < limit)"
| "cons_ok q (C_tail limit tail) = (0 < limit \<and> tail = q_tail q)"
| "cons_ok q (C_head limit tail head) =
     (0 < limit \<and> tail = q_tail q \<and> unat (head - tail) \<le> length (q_elems q))"
| "cons_ok q (C_copy cnt tail acc) =
     (0 < cnt \<and> tail = q_tail q \<and> cnt \<le> length (q_elems q) \<and> length acc \<le> cnt \<and>
      acc = take (length acc) (q_elems q))"

definition spsc_inv :: "'p spsc \<Rightarrow> bool" where
  "spsc_inv s \<longleftrightarrow> q_inv (sq s) \<and> pushed s = popped s @ q_elems (sq s) \<and>
     prod_ok (sq s) (producer s) \<and> cons_ok (sq s) (consumer s)"

lemma q_write_free_slot:
  fixes p :: 'p and q :: "'p tn_queue_spsc"
  assumes inv: "q_inv q" and room: "length (q_elems q) < q_cap q"
  defines "q' \<equiv> q\<lparr>q_buffer := (q_buffer q)[q_slot q (length (q_elems q)) := p]\<rparr>"
  shows "q_inv q'" "q_elems q' = q_elems q" "q_cap q' = q_cap q"
    "q_buffer q' ! q_slot q' (length (q_elems q')) = p"
proof -
  let ?n = "length (q_elems q)"
  have slot: "q_slot q' i = q_slot q i" for i by (simp add: q'_def q_slot_def)
  show "q_inv q'" using inv by (simp add: q_inv_def q'_def)
  show elems: "q_elems q' = q_elems q"
  proof (rule nth_equalityI)
    fix i assume "i < length (q_elems q')"
    then have i: "i < ?n" by (simp add: q'_def)
    then have "q_slot q ?n \<noteq> q_slot q i" using room q_slot_inj [OF inv, of ?n i] by auto
    then have "q_buffer q' ! q_slot q i = q_buffer q ! q_slot q i" by (simp add: q'_def)
    moreover have "q_elems q' ! i = q_buffer q' ! q_slot q' i" "q_elems q ! i = q_buffer q ! q_slot q i"
      using i by (intro q_elems_nth; simp add: q'_def)+
    ultimately show "q_elems q' ! i = q_elems q ! i" by (simp add: slot)
  qed (simp add: q'_def)
  show "q_cap q' = q_cap q" by (simp add: q'_def q_cap_def)
  show "q_buffer q' ! q_slot q' (length (q_elems q')) = p"
    using q_slot_in_buffer [OF inv, of ?n] unfolding elems slot by (simp add: q'_def)
qed

lemma q_publish:
  assumes inv: "q_inv q" and room: "length (q_elems q) < q_cap q"
  defines "q' \<equiv> q\<lparr>q_head := q_head q + 1\<rparr>"
  shows "q_inv q'" "q_elems q' = q_elems q @ [q_buffer q ! q_slot q (length (q_elems q))]"
    "q_cap q' = q_cap q"
proof -
  have n: "unat (q_head q + 1 - q_tail q) = Suc (unat (q_head q - q_tail q))"
    by (rule unat_diff_Suc64 [OF q_count_not_max [OF inv]])
  then show "q_inv q'" using inv room by (auto simp: q_inv_def q'_def q_cap_def)
  have slot: "q_slot q' i = q_slot q i" for i by (simp add: q'_def q_slot_def)
  show "q_elems q' = q_elems q @ [q_buffer q ! q_slot q (length (q_elems q))]"
    unfolding q_elems_def slot by (simp add: q'_def n)
  show "q_cap q' = q_cap q" by (simp add: q'_def q_cap_def)
qed


lemma cons_ok_extend:
  assumes "cons_ok q pc" and "q_tail q' = q_tail q" and "q_elems q' = q_elems q @ ps"
  shows "cons_ok q' pc"
proof -
  have "length (q_elems q) \<le> length (q_elems q')"
    by (simp only: assms(3) length_append le_add1)
  with assms show ?thesis
    by (cases pc) (auto simp del: length_q_elems)
qed

lemma prod_ok_drop:
  assumes inv: "q_inv q" and n: "n \<le> length (q_elems q)" and ok: "prod_ok q pc"
  defines "q' \<equiv> q\<lparr>q_tail := q_tail q + of_nat n\<rparr>"
  shows "prod_ok q' pc"
proof -
  have "n < 2 ^ 64" using n unat_lt64 [of "q_head q - q_tail q"] by simp
  then have u: "unat (of_nat n :: u64) = n" by (rule unat_of_nat64)
  then have "unat (of_nat n :: u64) \<le> length (q_elems q)" using n by simp
  from q_drop_elems [OF inv this] u have elems: "q_elems q' = drop n (q_elems q)"
    by (simp add: q'_def)
  then have len: "length (q_elems q') = length (q_elems q) - n" by (simp del: length_q_elems)
  have "q_slot q' (length (q_elems q')) = unat (q_head q' AND q_mask q')"
    by (simp add: q_slot_head)
  also have "\<dots> = q_slot q (length (q_elems q))" by (simp add: q'_def q_slot_head)
  finally have slot: "q_slot q' (length (q_elems q')) = q_slot q (length (q_elems q))" .
  have same: "q_head q' = q_head q" "q_buffer q' = q_buffer q" "q_cap q' = q_cap q"
    by (simp_all add: q'_def)
  show ?thesis
  proof (cases pc)
    case (P_tail p head tail)
    then show ?thesis using ok len same by (auto simp del: length_q_elems)
  next
    case (P_wrote p head)
    then show ?thesis using ok len same slot by (auto simp del: length_q_elems)
  qed (use ok same in simp_all)
qed

lemma prod_step_inv:
  assumes inv: "spsc_inv s" and st: "prod_step (sq s) (producer s) = Some (q, pc, ps)"
  shows "spsc_inv (s\<lparr>sq := q, producer := pc, pushed := pushed s @ ps\<rparr>)"
proof -
  note i = inv [unfolded spsc_inv_def]
  have cap: "length (q_elems (sq s)) \<le> q_cap (sq s)" using i q_fifo.within_cap by blast
  show ?thesis
  proof (cases "producer s")
    case (P_head p head)
    then show ?thesis using i st cap by (auto simp: spsc_inv_def)
  next
    case (P_tail p head tail)
    show ?thesis
    proof (cases "head - tail = q_capacity (sq s)")
      case True
      then show ?thesis using i st P_tail by (auto simp: spsc_inv_def)
    next
      case False
      have "unat (head - tail) \<noteq> q_cap (sq s)" using False by (simp add: q_cap_def word_unat_eq_iff)
      then have room: "length (q_elems (sq s)) < q_cap (sq s)"
        using i P_tail by (auto simp del: length_q_elems)
      let ?q = "(sq s)\<lparr>q_buffer := (q_buffer (sq s))[q_slot (sq s) (length (q_elems (sq s))) := p]\<rparr>"
      have "unat (head AND q_mask (sq s)) = q_slot (sq s) (length (q_elems (sq s)))"
        using i P_tail by (simp add: q_slot_head)
      then have q: "q = ?q" "pc = P_wrote p head" "ps = []"
        using st P_tail False i q_slot_in_buffer [of "sq s"] by (auto simp del: length_q_elems)
      note w = q_write_free_slot [OF _ room, of p]
      have "cons_ok ?q (consumer s)"
        by (rule cons_ok_extend [where ps = "[]"]) (use i w in auto)
      then show ?thesis using i w P_tail q room by (auto simp: spsc_inv_def simp del: length_q_elems)
    qed
  next
    case (P_wrote p head)
    have room: "length (q_elems (sq s)) < q_cap (sq s)" using i P_wrote by (simp del: length_q_elems)
    let ?q = "(sq s)\<lparr>q_head := q_head (sq s) + 1\<rparr>"
    have q: "q = ?q" "pc = P_idle" "ps = [p]" using st P_wrote i by auto
    have elems: "q_elems ?q = q_elems (sq s) @ [p]"
      using q_publish(2) [OF _ room] i P_wrote by (simp del: length_q_elems)
    have "cons_ok (sq s) (consumer s)" using i by blast
    from cons_ok_extend [OF this _ elems] have "cons_ok ?q (consumer s)" by simp
    moreover have "q_inv ?q" using i q_publish(1) [OF _ room] by blast
    ultimately show ?thesis using i q elems by (simp add: spsc_inv_def)
  qed (use i st in \<open>auto simp: spsc_inv_def\<close>)
qed

lemma cons_step_inv:
  assumes inv: "spsc_inv s" and st: "cons_step (sq s) (consumer s) = Some (q, pc, ps)"
  shows "spsc_inv (s\<lparr>sq := q, consumer := pc, popped := popped s @ ps\<rparr>)"
proof -
  note i = inv [unfolded spsc_inv_def]
  show ?thesis
  proof (cases "consumer s")
    case (C_head limit tail head)
    moreover have "0 < unat (head - tail)" if "head \<noteq> tail" using that by (simp add: unat_gt_0)
    ultimately show ?thesis using i st by (auto simp: spsc_inv_def split: if_splits)
  next
    case (C_copy cnt tail acc)
    have ok: "tail = q_tail (sq s)" "0 < cnt" "cnt \<le> length (q_elems (sq s))" "length acc \<le> cnt"
      "acc = take (length acc) (q_elems (sq s))"
      using i C_copy by (auto simp del: length_q_elems)
    show ?thesis
    proof (cases "length acc < cnt")
      case True
      have l: "length acc < length (q_elems (sq s))" using True ok by simp
      then have "length acc < 2 ^ 64" using unat_lt64 [of "q_head (sq s) - q_tail (sq s)"] by simp
      then have u: "unat (of_nat (length acc) :: u64) = length acc" by (rule unat_of_nat64)
      have "arr_get (q_buffer (sq s)) (unat ((tail + of_nat (length acc)) AND q_mask (sq s)))
          = Some (q_elems (sq s) ! length acc)"
        using q_read_slot [of "sq s" "of_nat (length acc)"] i l u ok(1)
        by (simp del: length_q_elems)
      then have q: "q = sq s" "pc = C_copy cnt tail (acc @ [q_elems (sq s) ! length acc])" "ps = []"
        using st C_copy True by auto
      have "take (Suc (length acc)) (q_elems (sq s)) = acc @ [q_elems (sq s) ! length acc]"
        using take_Suc_conv_app_nth [OF l] ok(5) by simp
      then show ?thesis using i q True ok by (simp add: spsc_inv_def del: length_q_elems)
    next
      case False
      then have n: "length acc = cnt" using ok by simp
      let ?q = "(sq s)\<lparr>q_tail := q_tail (sq s) + of_nat cnt\<rparr>"
      have q: "q = ?q" "pc = C_idle" "ps = acc" using st C_copy False ok by auto
      have "cnt < 2 ^ 64" using ok(3) unat_lt64 [of "q_head (sq s) - q_tail (sq s)"] by simp
      then have u: "unat (of_nat cnt :: u64) = cnt" by (rule unat_of_nat64)
      then have "unat (of_nat cnt :: u64) \<le> length (q_elems (sq s))" using ok(3) by simp
      from q_drop_elems [OF _ this] i u
      have d: "q_inv ?q" "q_elems ?q = drop cnt (q_elems (sq s))" by auto
      have "acc @ drop cnt (q_elems (sq s)) = q_elems (sq s)"
        using ok(5) n append_take_drop_id [of cnt "q_elems (sq s)"] by simp
      moreover have "prod_ok ?q (producer s)" using i ok(3) by (intro prod_ok_drop) auto
      ultimately show ?thesis using i q d by (simp add: spsc_inv_def)
    qed
  qed (use i st in \<open>auto simp: spsc_inv_def\<close>)
qed


lemma spsc_step_inv: "spsc_step s t \<Longrightarrow> spsc_inv s \<Longrightarrow> spsc_inv t"
proof (induction rule: spsc_step.induct)
  case (step_push s q pc ps)
  then show ?case by (intro prod_step_inv)
next
  case (step_pop s q pc ps)
  then show ?case by (intro cons_step_inv)
qed (auto simp: spsc_inv_def)

lemma spsc_reachable_inv:
  assumes "spsc_reachable q0 s" and "q_inv q0" and "q_elems q0 = []"
  shows "spsc_inv s"
  using assms(1)
proof (induction rule: spsc_reachable.induct)
  case start
  show ?case using assms(2,3) by (simp add: spsc_inv_def)
next
  case (step s t)
  then show ?case by (blast intro: spsc_step_inv)
qed

lemma spsc_exec_step: "spsc_exec s x = Some t \<Longrightarrow> spsc_step s t"
  by (cases x) (auto simp: bind_eq_Some_conv split: if_splits intro: spsc_step.intros)

lemma spsc_run_reachable:
  "spsc_reachable q0 s \<Longrightarrow> spsc_run s xs = Some t \<Longrightarrow> spsc_reachable q0 t"
  by (induction xs arbitrary: s)
    (auto simp: bind_eq_Some_conv dest: spsc_exec_step intro: spsc_reachable.step)

section \<open>Properties\<close>

text \<open>A fresh queue of capacity 2, as \<open>tn_queue_spsc_setup\<close> leaves it.\<close>

definition q_fresh2 :: "nat tn_queue_spsc" where
  "q_fresh2 = \<lparr>q_capacity = 2, q_mask = 1, q_buffer = [0, 0, 0], q_head = 0, q_tail = 0,
     q_tail_cache = 0\<rparr>"

lemma q_fresh2_ok: "q_inv q_fresh2" "q_elems q_fresh2 = []"
  by (auto simp: q_inv_def q_elems_def q_fresh2_def intro!: exI [of _ 1])

text \<open>Two pointers in flight: 5 is in the queue and being copied out while 6 is being written.\<close>

definition busy_schedule :: "nat sched list" where
  "busy_schedule = [Call_push 5, Step_push, Step_push, Step_push, Step_push,
     Call_pop 1, Step_pop, Step_pop, Step_pop, Call_push 6, Step_push, Step_push]"

definition busy_state :: "nat spsc" where
  "busy_state = \<lparr>sq = q_fresh2\<lparr>q_buffer := [5, 0, 0], q_head := 1\<rparr>, producer = P_tail 6 1 0,
     consumer = C_copy 1 0 [], pushed = [5], popped = []\<rparr>"

lemma busy_reachable: "spsc_reachable q_fresh2 busy_state"
proof (rule spsc_run_reachable [OF spsc_reachable.start])
  show "spsc_run \<lparr>sq = q_fresh2, producer = P_idle, consumer = C_idle, pushed = [], popped = []\<rparr>
    busy_schedule = Some busy_state"
    by (simp add: busy_schedule_def busy_state_def q_fresh2_def)
qed

text \<open>Property C2. Under every interleaving of one producer and one consumer, starting from an
  empty queue, the pointers removed so far are a prefix of the pointers inserted so far, in the
  same order, and what lies between is exactly the content of the queue, never more than its
  capacity: no pointer is lost, duplicated, reordered or invented.\<close>

theorem spsc_fifo:
  assumes "spsc_reachable q0 s" and "q_inv q0" and "q_elems q0 = []"
  shows "pushed s = popped s @ q_elems (sq s) \<and> length (q_elems (sq s)) \<le> q_cap (sq s)"
  using spsc_reachable_inv [OF assms] q_fifo.within_cap unfolding spsc_inv_def by blast

theorem spsc_fifo_witness:
  "pushed busy_state = popped busy_state @ q_elems (sq busy_state) \<and>
    length (q_elems (sq busy_state)) \<le> q_cap (sq busy_state)"
  using busy_reachable q_fresh2_ok by (rule spsc_fifo)

text \<open>Under every interleaving, whenever the producer is about to write a slot and
  the consumer is about to read one, the two slots differ: the plain array accesses never race.\<close>

theorem spsc_no_slot_race:
  assumes "spsc_reachable q0 s" and "q_inv q0" and "q_elems q0 = []"
    and "producer s = P_tail p head tail" and "head - tail \<noteq> q_capacity (sq s)"
    and "consumer s = C_copy cnt tail' acc" and "length acc < cnt"
  shows "unat (head AND q_mask (sq s)) \<noteq> unat ((tail' + of_nat (length acc)) AND q_mask (sq s))"
proof -
  let ?q = "sq s"
  note i = spsc_reachable_inv [OF assms(1-3), unfolded spsc_inv_def]
  have q: "q_inv ?q" using i by blast
  have p: "head = q_head ?q" "length (q_elems ?q) \<le> unat (head - tail)" "unat (head - tail) \<le> q_cap ?q"
    using i assms(4) by (auto simp del: length_q_elems)
  have c: "tail' = q_tail ?q" "cnt \<le> length (q_elems ?q)"
    using i assms(6) by (auto simp del: length_q_elems)
  have "unat (head - tail) \<noteq> q_cap ?q" using assms(5) by (simp add: q_cap_def word_unat_eq_iff)
  then have room: "length (q_elems ?q) < q_cap ?q" using p by linarith
  have "q_slot ?q (length (q_elems ?q)) \<noteq> q_slot ?q (length acc)"
    using q_slot_inj [OF q, of "length (q_elems ?q)" "length acc"] room c(2) assms(7)
    by (auto simp del: length_q_elems)
  moreover have "unat (head AND q_mask ?q) = q_slot ?q (length (q_elems ?q))"
    by (simp add: p(1) q_slot_head)
  moreover have "unat ((tail' + of_nat (length acc)) AND q_mask ?q) = q_slot ?q (length acc)"
    by (simp add: c(1) q_slot_def)
  ultimately show ?thesis by simp
qed

theorem spsc_no_slot_race_witness:
  "unat ((1 :: u64) AND q_mask (sq busy_state)) \<noteq>
     unat ((0 + of_nat (length ([] :: nat list))) AND q_mask (sq busy_state))"
  by (rule spsc_no_slot_race [OF busy_reachable q_fresh2_ok, where p = 6 and tail = 0 and cnt = 1])
    (simp_all add: busy_state_def q_fresh2_def)

text \<open>Under every interleaving, a thread inside an operation can always take its
  next step whatever the other thread does (the operations are wait-free), and that step does not
  access the array out of range.\<close>

theorem spsc_never_blocked:
  assumes "spsc_reachable q0 s" and "q_inv q0" and "q_elems q0 = []"
  shows "(producer s = P_idle \<or> (\<exists>q pc ps. prod_step (sq s) (producer s) = Some (q, pc, ps))) \<and>
    (consumer s = C_idle \<or> (\<exists>q pc ps. cons_step (sq s) (consumer s) = Some (q, pc, ps)))"
proof -
  note i = spsc_reachable_inv [OF assms, unfolded spsc_inv_def]
  have q: "q_inv (sq s)" using i by blast
  have slot: "unat (x AND q_mask (sq s)) < length (q_buffer (sq s))" for x
    using q_slot_in_buffer [OF q, of "unat (x - q_tail (sq s))"] by (simp add: q_slot_def)
  have "producer s = P_idle \<or> (\<exists>q pc ps. prod_step (sq s) (producer s) = Some (q, pc, ps))"
    by (cases "producer s") (auto simp: slot)
  moreover have "consumer s = C_idle \<or> (\<exists>q pc ps. cons_step (sq s) (consumer s) = Some (q, pc, ps))"
    by (cases "consumer s") (auto simp: slot)
  ultimately show ?thesis by blast
qed


theorem spsc_never_blocked_witness:
  "(producer busy_state = P_idle \<or>
     (\<exists>q pc ps. prod_step (sq busy_state) (producer busy_state) = Some (q, pc, ps))) \<and>
   (consumer busy_state = C_idle \<or>
     (\<exists>q pc ps. cons_step (sq busy_state) (consumer busy_state) = Some (q, pc, ps)))"
  using busy_reachable q_fresh2_ok by (rule spsc_never_blocked)

text \<open>Two threads that insert into the same queue, as the main thread
  (\<open>tcp_service_events_release\<close>) and the IO thread (\<open>on_close_channel_cb\<close>) both do with the
  read pool's free list, can lose a pointer: there is an interleaving in which both calls of
  \<open>tn_queue_spsc_push\<close> return \<open>TN_SUCCESS\<close> and only one of the two pointers is in the queue.\<close>

theorem two_producers_lose_pointer:
  assumes "q_inv q" and "length (q_elems q) < q_cap q"
  shows "\<exists>q'. two_prod_run q (P_call p1) (P_call p2)
      [True, False, True, False, True, False, True, False] = Some (q', P_idle, P_idle, [p1, p2]) \<and>
    q_elems q' = q_elems q @ [p2]"
proof -
  let ?w = "q\<lparr>q_buffer := (q_buffer q)[q_slot q (length (q_elems q)) := p2]\<rparr>"
  let ?q' = "?w\<lparr>q_head := q_head ?w + 1\<rparr>"
  note w = q_write_free_slot [OF assms, of p2]
  have nfull: "q_head q - q_tail q \<noteq> q_capacity q"
    using assms by (simp add: q_full_iff del: length_q_elems)
  have "length (q_elems ?w) < q_cap ?w" using w(2,3) assms(2) by (simp only:)
  from q_publish(2) [OF w(1) this] w(2,4) have "q_elems ?q' = q_elems q @ [p2]" by (simp only:)
  moreover have "two_prod_run q (P_call p1) (P_call p2)
      [True, False, True, False, True, False, True, False] = Some (?q', P_idle, P_idle, [p1, p2])"
    using nfull q_slot_in_buffer [OF assms(1)] by (simp add: q_slot_head)
  ultimately show ?thesis by blast
qed

theorem two_producers_lose_pointer_witness:
  "\<exists>q'. two_prod_run q_fresh2 (P_call 5) (P_call 6)
      [True, False, True, False, True, False, True, False] = Some (q', P_idle, P_idle, [5, 6]) \<and>
    q_elems q' = q_elems q_fresh2 @ [6]"
  by (rule two_producers_lose_pointer [OF q_fresh2_ok(1)])
    (simp add: q_cap_def q_fresh2_def)

end
