(* ===== verification/Tn_Queue_Lin.thy ===== *)
theory Tn_Queue_Lin
  imports Tn_Queue_Conc
begin

text \<open>
  The interleaved operations of \<open>Tn_Queue_Conc\<close> against the operations of \<open>Tn_Queue\<close> that run
  to completion: every execution of the two threads is equivalent to the same calls made one after
  the other, each at a step between its first and its last access. A \<open>push\<close> that succeeds takes
  effect when it stores \<open>head\<close>, one that is refused when it loads \<open>tail\<close>; a removal takes effect
  when it stores \<open>tail\<close>, one that finds nothing when it loads \<open>head\<close>. The components above the
  queue are modelled with the operations of \<open>Tn_Queue\<close>.
\<close>

section \<open>Calls, their effects and their results\<close>

text \<open>A call with what it returns: a code, or the pointers removed.\<close>

datatype 'p qcall = Did_push 'p int | Did_pop "'p list"

fun takes_effect :: "'p spsc \<Rightarrow> 'p sched \<Rightarrow> 'p qcall list" where
  "takes_effect s Step_push = (case producer s of
     P_head p head \<Rightarrow> (if head - q_tail (sq s) = q_capacity (sq s) then [Did_push p TN_QUEUE_FULL] else [])
   | P_wrote p head \<Rightarrow> [Did_push p TN_SUCCESS]
   | _ \<Rightarrow> [])"
| "takes_effect s Step_pop = (case consumer s of
     C_tail limit tail \<Rightarrow> (if q_head (sq s) = tail then [Did_pop []] else [])
   | C_copy cnt tail acc \<Rightarrow> (if length acc < cnt then [] else [Did_pop acc])
   | _ \<Rightarrow> [])"
| "takes_effect s x = []"

fun call_returns :: "'p spsc \<Rightarrow> 'p sched \<Rightarrow> 'p qcall list" where
  "call_returns s Step_push = (case producer s of
     P_tail p head tail \<Rightarrow> (if head - tail = q_capacity (sq s) then [Did_push p TN_QUEUE_FULL] else [])
   | P_wrote p head \<Rightarrow> [Did_push p TN_SUCCESS]
   | _ \<Rightarrow> [])"
| "call_returns s Step_pop = (case consumer s of
     C_head limit tail head \<Rightarrow> (if head = tail then [Did_pop []] else [])
   | C_copy cnt tail acc \<Rightarrow> (if length acc < cnt then [] else [Did_pop acc])
   | _ \<Rightarrow> [])"
| "call_returns s x = []"

text \<open>A schedule with the calls in the order in which they take effect and in the order in which they return.\<close>

fun lin_run :: "'p spsc \<Rightarrow> 'p sched list \<Rightarrow> ('p spsc \<times> 'p qcall list \<times> 'p qcall list) option" where
  "lin_run s [] = Some (s, [], [])"
| "lin_run s (x # xs) = do {
     t \<leftarrow> spsc_exec s x;
     (u, effects, results) \<leftarrow> lin_run t xs;
     Some (u, takes_effect s x @ effects, call_returns s x @ results)
   }"

text \<open>The call that has taken effect and not returned.\<close>

fun push_pending :: "'p tn_queue_spsc \<Rightarrow> 'p prod_pc \<Rightarrow> 'p qcall list" where
  "push_pending q (P_tail p head tail) = (if head - tail = q_capacity q then [Did_push p TN_QUEUE_FULL] else [])"
| "push_pending q pc = []"

fun pop_pending :: "'p cons_pc \<Rightarrow> 'p qcall list" where
  "pop_pending (C_head limit tail head) = (if head = tail then [Did_pop []] else [])"
| "pop_pending pc = []"

fun is_push :: "'p qcall \<Rightarrow> bool" where
  "is_push (Did_push p rc) = True"
| "is_push (Did_pop ps) = False"

section \<open>The calls one after the other\<close>

text \<open>\<open>None\<close> when the call does not return what is written in it.\<close>

fun do_call :: "'p tn_queue_spsc \<Rightarrow> 'p qcall \<Rightarrow> 'p tn_queue_spsc option" where
  "do_call q (Did_push p rc) = do {
     (rc', q) \<leftarrow> tn_queue_spsc_push q p;
     if rc' = rc then Some q else None
   }"
| "do_call q (Did_pop []) = do {
     (rc, out, q) \<leftarrow> tn_queue_spsc_pop_back q;
     if rc = TN_QUEUE_EMPTY then Some q else None
   }"
| "do_call q (Did_pop (p # ps)) = do {
     (rc, out, n, q) \<leftarrow> tn_queue_spsc_pop_all q (replicate (Suc (length ps)) p) (of_nat (Suc (length ps)));
     if rc = TN_SUCCESS \<and> out = p # ps \<and> n = of_nat (Suc (length ps)) then Some q else None
   }"

fun do_calls :: "'p tn_queue_spsc \<Rightarrow> 'p qcall list \<Rightarrow> 'p tn_queue_spsc option" where
  "do_calls q [] = Some q"
| "do_calls q (c # cs) = do { q \<leftarrow> do_call q c; do_calls q cs }"

lemma do_calls_append: "do_calls q (cs @ ds) = do { q \<leftarrow> do_calls q cs; do_calls q ds }"
  by (induction cs arbitrary: q) (simp_all add: Option.bind_assoc)

text \<open>The two queues hold the same.\<close>

definition same_queue :: "'p tn_queue_spsc \<Rightarrow> 'p tn_queue_spsc \<Rightarrow> bool" where
  "same_queue q r \<longleftrightarrow> q_inv q \<and> q_elems q = q_elems r \<and> q_cap q = q_cap r"

lemma call_pop:
  assumes "same_queue q r" and "q_elems r = ps @ rest" and "ps \<noteq> []"
  shows "\<exists>q'. do_call q (Did_pop ps) = Some q' \<and> q_inv q' \<and> q_elems q' = rest \<and> q_cap q' = q_cap r"
proof -
  obtain p qs where ps: "ps = p # qs" using assms(3) by (cases ps) auto
  let ?n = "Suc (length qs)" and ?q = "q\<lparr>q_tail := q_tail q + of_nat (Suc (length qs))\<rparr>"
  have q: "q_inv q" "q_elems q = p # qs @ rest" "q_cap q = q_cap r" using assms(1,2) ps by (auto simp: same_queue_def)
  have "?n \<le> length (q_elems q)" unfolding q(2) by simp
  then have "?n < 2 ^ 64" using unat_lt64 [of "q_head q - q_tail q"] by simp
  then have u: "unat (of_nat ?n :: u64) = ?n" by (rule unat_of_nat64)
  then have pos: "(0 :: u64) < of_nat ?n" unfolding word_less_nat_alt by simp
  have m: "min (unat (of_nat ?n :: u64)) (length (q_elems q)) = ?n" unfolding u q(2) by simp
  have "tn_queue_spsc_pop_all q (replicate ?n p) (of_nat ?n) = Some (TN_SUCCESS, p # qs, of_nat ?n, ?q)"
    using q_pop_all_ok [OF q(1) _ pos, of "replicate ?n p"] u m q(2) by simp
  moreover have "q_inv ?q" "q_elems ?q = rest"
    using q_drop_elems [OF q(1), of "of_nat ?n"] u q(2) by (simp_all del: length_q_elems of_nat_Suc)
  ultimately show ?thesis using ps q(3) by simp
qed

section \<open>Every step\<close>

text \<open>What the invariant says of the content before and after a step.\<close>

lemma push_elems:
  assumes "spsc_inv s" and "prod_step (sq s) (producer s) = Some (q, pc, ps)"
  shows "q_elems q = q_elems (sq s) @ ps \<and> q_cap q = q_cap (sq s)"
proof -
  have "pushed s @ ps = popped s @ q_elems q" using prod_step_inv [OF assms] by (simp add: spsc_inv_def)
  moreover have "pushed s = popped s @ q_elems (sq s)" using assms(1) by (simp add: spsc_inv_def)
  moreover have "q_cap q = q_cap (sq s)"
    using assms(2) by (cases "producer s") (auto simp: bind_eq_Some_conv q_cap_def split: if_splits)
  ultimately show ?thesis by simp
qed

lemma pop_elems:
  assumes "spsc_inv s" and "cons_step (sq s) (consumer s) = Some (q, pc, ps)"
  shows "q_elems (sq s) = ps @ q_elems q \<and> q_cap q = q_cap (sq s)"
proof -
  have "pushed s = (popped s @ ps) @ q_elems q" using cons_step_inv [OF assms] by (simp add: spsc_inv_def)
  moreover have "pushed s = popped s @ q_elems (sq s)" using assms(1) by (simp add: spsc_inv_def)
  moreover have "q_cap q = q_cap (sq s)"
    using assms(2) by (cases "consumer s") (auto simp: bind_eq_Some_conv split: if_splits)
  ultimately show ?thesis by simp
qed

lemma effect_push:
  assumes inv: "spsc_inv s" and st: "prod_step (sq s) (producer s) = Some (r, pc, ps)" and same: "same_queue q (sq s)"
  shows "\<exists>q'. do_calls q (takes_effect s Step_push) = Some q' \<and> same_queue q' r"
proof -
  have q: "q_inv q" "q_elems q = q_elems (sq s)" "q_cap q = q_cap (sq s)" using same by (auto simp: same_queue_def)
  have ok: "prod_ok (sq s) (producer s)" "q_inv (sq s)" using inv by (auto simp: spsc_inv_def)
  note e = push_elems [OF inv st]
  show ?thesis
  proof (cases "producer s")
    case (P_head p head)
    then have r: "r = sq s" "head = q_head (sq s)" using st ok by auto
    show ?thesis
    proof (cases "head - q_tail (sq s) = q_capacity (sq s)")
      case True
      then have "length (q_elems (sq s)) = q_cap (sq s)" using r(2) q_full_iff [OF ok(2)] by (simp del: length_q_elems)
      then have "length (q_elems q) = q_cap q" unfolding q(2,3) .
      from q_push_full [OF q(1) this] show ?thesis using P_head True r(1) same by simp
    qed (use P_head r(1) same in simp)
  next
    case (P_wrote p head)
    then have "length (q_elems (sq s)) < q_cap (sq s)" using ok(1) by (simp del: length_q_elems)
    then have "length (q_elems q) < q_cap q" unfolding q(2,3) .
    then obtain q' where "tn_queue_spsc_push q p = Some (TN_SUCCESS, q')" "q_inv q'" "q_elems q' = q_elems q @ [p]" "q_cap q' = q_cap q"
      using q_push_ok [OF q(1), of p] by metis
    moreover have "ps = [p]" using st P_wrote by auto
    ultimately show ?thesis using P_wrote e q by (simp add: same_queue_def)
  next
    case (P_tail p head tail)
    then have "ps = []" using st by (auto simp: bind_eq_Some_conv split: if_splits)
    then show ?thesis using P_tail e q by (simp add: same_queue_def)
  qed (use st same in auto)
qed

lemma effect_pop:
  assumes inv: "spsc_inv s" and st: "cons_step (sq s) (consumer s) = Some (r, pc, ps)" and same: "same_queue q (sq s)"
  shows "\<exists>q'. do_calls q (takes_effect s Step_pop) = Some q' \<and> same_queue q' r"
proof -
  have q: "q_inv q" "q_elems q = q_elems (sq s)" "q_cap q = q_cap (sq s)" using same by (auto simp: same_queue_def)
  have ok: "cons_ok (sq s) (consumer s)" using inv by (simp add: spsc_inv_def)
  note e = pop_elems [OF inv st]
  show ?thesis
  proof (cases "consumer s")
    case (C_tail limit tail)
    then have r: "r = sq s" "tail = q_tail (sq s)" using st ok by auto
    show ?thesis
    proof (cases "q_head (sq s) = tail")
      case True
      then have "q_elems q = []" using r(2) q(2) by (simp add: q_empty_iff)
      from q_pop_back_empty [OF this] show ?thesis using C_tail True r(1) same by simp
    qed (use C_tail r(1) same in simp)
  next
    case (C_head limit tail head)
    then show ?thesis using st same by (auto split: if_splits)
  next
    case (C_copy cnt tail acc)
    show ?thesis
    proof (cases "length acc < cnt")
      case True
      then have "r = sq s" using st C_copy by (auto simp: bind_eq_Some_conv)
      then show ?thesis using C_copy True same by simp
    next
      case False
      then have "acc \<noteq> []" "ps = acc" using st ok C_copy by (auto simp del: length_q_elems)
      from call_pop [OF same _ this(1)] e this(2)
      obtain q' where "do_call q (Did_pop acc) = Some q'" "q_inv q'" "q_elems q' = q_elems r" "q_cap q' = q_cap (sq s)" by auto
      then show ?thesis using C_copy False e by (simp add: same_queue_def)
    qed
  qed (use st same in auto)
qed

lemma effect_step:
  assumes "spsc_inv s" and "spsc_exec s x = Some t" and "same_queue q (sq s)"
  shows "\<exists>q'. do_calls q (takes_effect s x) = Some q' \<and> same_queue q' (sq t)"
proof (cases x)
  case Step_push
  then show ?thesis using assms effect_push [OF assms(1)] by (auto simp: bind_eq_Some_conv)
next
  case Step_pop
  then show ?thesis using assms effect_pop [OF assms(1)] by (auto simp: bind_eq_Some_conv)
qed (use assms in \<open>auto split: if_splits\<close>)

text \<open>A call returns what it was when it took effect.\<close>

lemma step_pending:
  assumes "spsc_exec s x = Some t"
  shows "push_pending (sq s) (producer s) @ filter is_push (takes_effect s x) =
      filter is_push (call_returns s x) @ push_pending (sq t) (producer t)"
    and "pop_pending (consumer s) @ filter (\<lambda>c. \<not> is_push c) (takes_effect s x) =
      filter (\<lambda>c. \<not> is_push c) (call_returns s x) @ pop_pending (consumer t)"
proof -
  have "q_capacity q = q_capacity (sq s)" if "cons_step (sq s) (consumer s) = Some (q, pc, ps)" for q pc ps
    using that by (cases "consumer s") (auto simp: bind_eq_Some_conv split: if_splits)
  then have cap: "push_pending q (producer s) = push_pending (sq s) (producer s)"
    if "cons_step (sq s) (consumer s) = Some (q, pc, ps)" for q pc ps
    using that by (cases "producer s") auto
  show "push_pending (sq s) (producer s) @ filter is_push (takes_effect s x) =
      filter is_push (call_returns s x) @ push_pending (sq t) (producer t)"
  proof (cases x)
    case Step_push
    then show ?thesis using assms by (cases "producer s") (auto simp: bind_eq_Some_conv split: if_splits)
  next
    case Step_pop
    then show ?thesis using assms cap by (cases "consumer s") (auto simp: bind_eq_Some_conv split: if_splits)
  qed (use assms in \<open>auto split: if_splits\<close>)
  show "pop_pending (consumer s) @ filter (\<lambda>c. \<not> is_push c) (takes_effect s x) =
      filter (\<lambda>c. \<not> is_push c) (call_returns s x) @ pop_pending (consumer t)"
  proof (cases x)
    case Step_push
    then show ?thesis using assms by (cases "producer s") (auto simp: bind_eq_Some_conv split: if_splits)
  next
    case Step_pop
    then show ?thesis using assms by (cases "consumer s") (auto simp: bind_eq_Some_conv split: if_splits)
  qed (use assms in \<open>auto split: if_splits\<close>)
qed

lemma lin_run_calls:
  assumes "spsc_inv s" and "same_queue q (sq s)" and "lin_run s xs = Some (t, effects, results)"
  shows "(\<exists>q'. do_calls q effects = Some q' \<and> same_queue q' (sq t)) \<and>
    push_pending (sq s) (producer s) @ filter is_push effects =
      filter is_push results @ push_pending (sq t) (producer t) \<and>
    pop_pending (consumer s) @ filter (\<lambda>c. \<not> is_push c) effects =
      filter (\<lambda>c. \<not> is_push c) results @ pop_pending (consumer t)"
  using assms
proof (induction xs arbitrary: s q effects results)
  case (Cons x xs)
  obtain u es rs where u: "spsc_exec s x = Some u" "lin_run u xs = Some (t, es, rs)"
      "effects = takes_effect s x @ es" "results = call_returns s x @ rs"
    using Cons.prems(3) by (auto simp: bind_eq_Some_conv)
  obtain q1 where q1: "do_calls q (takes_effect s x) = Some q1" "same_queue q1 (sq u)"
    using effect_step [OF Cons.prems(1) u(1) Cons.prems(2)] by blast
  have "spsc_inv u" using spsc_step_inv [OF spsc_exec_step [OF u(1)] Cons.prems(1)] .
  note ih = Cons.IH [OF this q1(2) u(2)]
  have "push_pending (sq s) (producer s) @ filter is_push effects = filter is_push results @ push_pending (sq t) (producer t)"
    using step_pending(1) [OF u(1)] ih u(3,4) by (metis append.assoc filter_append)
  moreover have "pop_pending (consumer s) @ filter (\<lambda>c. \<not> is_push c) effects =
      filter (\<lambda>c. \<not> is_push c) results @ pop_pending (consumer t)"
    using step_pending(2) [OF u(1)] ih u(3,4) by (metis append.assoc filter_append)
  ultimately show ?case using ih q1(1) u(3) by (auto simp: do_calls_append)
qed simp

section \<open>Properties\<close>


text \<open>Pointers 5 and 6 fill the queue, 7 is refused while 5 is being removed.\<close>

definition refused_schedule :: "nat sched list" where
  "refused_schedule = [Call_push 5, Step_push, Step_push, Step_push, Step_push,
     Call_push 6, Step_push, Step_push, Step_push, Step_push,
     Call_push 7, Step_push, Call_pop 1, Step_pop, Step_pop, Step_pop, Step_push, Step_pop, Step_pop, Step_push]"


end
