(* ===== verification/Tn_Atomic.thy ===== *)
theory Tn_Atomic
  imports Tn_Queue
begin

text \<open>
  The atomic variables of \<open>src/atomic.c\<close> over aws-c-common's \<open>atomics_gnu.inl\<close>, with the memory
  order of every access, and the operations of \<open>src/queue_spsc.c\<close> written over them. Shared
  memory is a function from locations to 64-bit values (\<open>struct tn_atomic_s\<close> is one such value,
  read as an integer or as a pointer) together with the accesses one thread has made, in program
  order. \<open>reordered\<close> are the orders in which the memory orders let another thread see those
  accesses: two neighbours may change places unless they concern the same location, the first
  one acquires, the second one releases, both are sequentially consistent, or the second one
  needs the value of the first.

  The lemmas show that the operations over the atomics are the operations of \<open>Tn_Queue\<close>, that
  the release stores of \<open>push\<close> and \<open>pop_back\<close> cannot be seen before the slot they publish or
  give back, and that the relaxed store of \<open>pop_all\<close> can.
\<close>

section \<open>Memory orders\<close>

definition TN_ATOMIC_RELAXED :: int where "TN_ATOMIC_RELAXED = 0"
definition TN_ATOMIC_ACQUIRE :: int where "TN_ATOMIC_ACQUIRE = 2"
definition TN_ATOMIC_RELEASE :: int where "TN_ATOMIC_RELEASE = 3"
definition TN_ATOMIC_ACQ_REL :: int where "TN_ATOMIC_ACQ_REL = 4"
definition TN_ATOMIC_SEQ_CST :: int where "TN_ATOMIC_SEQ_CST = 5"

datatype gnu_order = ATOMIC_RELAXED | ATOMIC_ACQUIRE | ATOMIC_RELEASE | ATOMIC_ACQ_REL | ATOMIC_SEQ_CST

text \<open>An unknown order aborts the program.\<close>

definition aws_atomic_priv_xlate_order :: "int \<Rightarrow> gnu_order option" where
  "aws_atomic_priv_xlate_order order =
     (if order = 0 then Some ATOMIC_RELAXED
      else if order = 2 then Some ATOMIC_ACQUIRE
      else if order = 3 then Some ATOMIC_RELEASE
      else if order = 4 then Some ATOMIC_ACQ_REL
      else if order = 5 then Some ATOMIC_SEQ_CST
      else None)"

section \<open>Shared memory and the atomic operations\<close>

datatype rw = Load | Store | Rmw

text \<open>\<open>None\<close> is the order of a plain access.\<close>

datatype 'l access = Access (acc_rw: rw) (acc_loc: 'l) (acc_order: "gnu_order option")

record 'l shared =
  cell :: "'l \<Rightarrow> u64"
  trace :: "'l access list"

definition plain_load :: "'l \<Rightarrow> 'l shared \<Rightarrow> u64 \<times> 'l shared" where
  "plain_load l m = (cell m l, m\<lparr>trace := trace m @ [Access Load l None]\<rparr>)"

definition plain_store :: "'l \<Rightarrow> u64 \<Rightarrow> 'l shared \<Rightarrow> 'l shared" where
  "plain_store l v m = m\<lparr>cell := (cell m)(l := v), trace := trace m @ [Access Store l None]\<rparr>"

definition aws_atomic_load_int_explicit :: "'l \<Rightarrow> int \<Rightarrow> 'l shared \<Rightarrow> (u64 \<times> 'l shared) option" where
  "aws_atomic_load_int_explicit var memory_order m = do {
     ord \<leftarrow> aws_atomic_priv_xlate_order memory_order;
     Some (cell m var, m\<lparr>trace := trace m @ [Access Load var (Some ord)]\<rparr>)
   }"

definition aws_atomic_load_ptr_explicit :: "'l \<Rightarrow> int \<Rightarrow> 'l shared \<Rightarrow> (u64 \<times> 'l shared) option" where
  "aws_atomic_load_ptr_explicit var memory_order m = do {
     ord \<leftarrow> aws_atomic_priv_xlate_order memory_order;
     Some (cell m var, m\<lparr>trace := trace m @ [Access Load var (Some ord)]\<rparr>)
   }"

definition aws_atomic_store_int_explicit :: "'l \<Rightarrow> u64 \<Rightarrow> int \<Rightarrow> 'l shared \<Rightarrow> 'l shared option" where
  "aws_atomic_store_int_explicit var n memory_order m = do {
     ord \<leftarrow> aws_atomic_priv_xlate_order memory_order;
     Some (m\<lparr>cell := (cell m)(var := n), trace := trace m @ [Access Store var (Some ord)]\<rparr>)
   }"

definition aws_atomic_store_ptr_explicit :: "'l \<Rightarrow> u64 \<Rightarrow> int \<Rightarrow> 'l shared \<Rightarrow> 'l shared option" where
  "aws_atomic_store_ptr_explicit var p memory_order m = do {
     ord \<leftarrow> aws_atomic_priv_xlate_order memory_order;
     Some (m\<lparr>cell := (cell m)(var := p), trace := trace m @ [Access Store var (Some ord)]\<rparr>)
   }"

definition aws_atomic_fetch_add_explicit :: "'l \<Rightarrow> u64 \<Rightarrow> int \<Rightarrow> 'l shared \<Rightarrow> (u64 \<times> 'l shared) option" where
  "aws_atomic_fetch_add_explicit var n order m = do {
     ord \<leftarrow> aws_atomic_priv_xlate_order order;
     Some (cell m var, m\<lparr>cell := (cell m)(var := cell m var + n),
       trace := trace m @ [Access Rmw var (Some ord)]\<rparr>)
   }"

definition tn_atomic_load_explicit :: "'l \<Rightarrow> int \<Rightarrow> 'l shared \<Rightarrow> (u64 \<times> 'l shared) option" where
  "tn_atomic_load_explicit a mem_order m = aws_atomic_load_int_explicit a mem_order m"

definition tn_atomic_load :: "'l \<Rightarrow> 'l shared \<Rightarrow> (u64 \<times> 'l shared) option" where
  "tn_atomic_load a m = aws_atomic_load_int_explicit a TN_ATOMIC_ACQUIRE m"

definition tn_atomic_load_ptr :: "'l \<Rightarrow> 'l shared \<Rightarrow> (u64 \<times> 'l shared) option" where
  "tn_atomic_load_ptr a m = aws_atomic_load_ptr_explicit a TN_ATOMIC_ACQUIRE m"

definition tn_atomic_load_ptr_explicit :: "'l \<Rightarrow> int \<Rightarrow> 'l shared \<Rightarrow> (u64 \<times> 'l shared) option" where
  "tn_atomic_load_ptr_explicit a mem_order m = aws_atomic_load_ptr_explicit a mem_order m"

definition tn_atomic_store :: "'l \<Rightarrow> u64 \<Rightarrow> 'l shared \<Rightarrow> 'l shared option" where
  "tn_atomic_store a val m = aws_atomic_store_int_explicit a val TN_ATOMIC_RELEASE m"

definition tn_atomic_store_explicit :: "'l \<Rightarrow> u64 \<Rightarrow> int \<Rightarrow> 'l shared \<Rightarrow> 'l shared option" where
  "tn_atomic_store_explicit a val mem_order m = aws_atomic_store_int_explicit a val mem_order m"

definition tn_atomic_store_ptr :: "'l \<Rightarrow> u64 \<Rightarrow> 'l shared \<Rightarrow> 'l shared option" where
  "tn_atomic_store_ptr a val m = aws_atomic_store_ptr_explicit a val TN_ATOMIC_RELEASE m"

definition tn_atomic_store_ptr_explicit :: "'l \<Rightarrow> u64 \<Rightarrow> int \<Rightarrow> 'l shared \<Rightarrow> 'l shared option" where
  "tn_atomic_store_ptr_explicit a val mem_order m = aws_atomic_store_ptr_explicit a val mem_order m"

definition tn_atomic_fetch_add :: "'l \<Rightarrow> u64 \<Rightarrow> 'l shared \<Rightarrow> (u64 \<times> 'l shared) option" where
  "tn_atomic_fetch_add a val m = aws_atomic_fetch_add_explicit a val TN_ATOMIC_ACQ_REL m"

text \<open>The order this function is given is not used.\<close>

definition tn_atomic_store_fetch_add :: "'l \<Rightarrow> u64 \<Rightarrow> int \<Rightarrow> 'l shared \<Rightarrow> (u64 \<times> 'l shared) option" where
  "tn_atomic_store_fetch_add a val mem_order m = aws_atomic_fetch_add_explicit a val TN_ATOMIC_ACQ_REL m"

section \<open>The queue over the atomics\<close>

text \<open>
  The locations of one queue; capacity, mask and the length of the array do not change after
  \<open>tn_queue_spsc_setup\<close> and \<open>tail_cache\<close> belongs to the consumer, so they are not shared.
\<close>

datatype q_loc = Q_head | Q_tail | Q_slot nat

record q_layout =
  ql_capacity :: u64
  ql_mask :: u64
  ql_slots :: nat

definition slot_load :: "q_layout \<Rightarrow> nat \<Rightarrow> q_loc shared \<Rightarrow> (u64 \<times> q_loc shared) option" where
  "slot_load L i m = (if i < ql_slots L then Some (plain_load (Q_slot i) m) else None)"

definition slot_store :: "q_layout \<Rightarrow> nat \<Rightarrow> u64 \<Rightarrow> q_loc shared \<Rightarrow> q_loc shared option" where
  "slot_store L i v m = (if i < ql_slots L then Some (plain_store (Q_slot i) v m) else None)"

definition queue_count :: "q_loc shared \<Rightarrow> (u64 \<times> q_loc shared) option" where
  "queue_count m = do {
     (head, m) \<leftarrow> tn_atomic_load_explicit Q_head TN_ATOMIC_RELAXED m;
     (tail, m) \<leftarrow> tn_atomic_load Q_tail m;
     Some (head - tail, m)
   }"

definition queue_push :: "q_layout \<Rightarrow> u64 \<Rightarrow> q_loc shared \<Rightarrow> (int \<times> q_loc shared) option" where
  "queue_push L ptr m = do {
     (head, m) \<leftarrow> tn_atomic_load_explicit Q_head TN_ATOMIC_RELAXED m;
     (tail, m) \<leftarrow> tn_atomic_load Q_tail m;
     if head - tail = ql_capacity L then Some (TN_QUEUE_FULL, m)
     else do {
       m \<leftarrow> slot_store L (unat (head AND ql_mask L)) ptr m;
       m \<leftarrow> tn_atomic_store Q_head (head + 1) m;
       Some (TN_SUCCESS, m)
     }
   }"

text \<open>\<open>tail_cache\<close> is the second result.\<close>

definition queue_peek ::
  "q_layout \<Rightarrow> u64 \<Rightarrow> q_loc shared \<Rightarrow> (int \<times> u64 option \<times> u64 \<times> q_loc shared) option" where
  "queue_peek L tail_cache m = do {
     (tail, m) \<leftarrow> tn_atomic_load_explicit Q_tail TN_ATOMIC_RELAXED m;
     (head, m) \<leftarrow> tn_atomic_load Q_head m;
     if head = tail then Some (TN_QUEUE_EMPTY, None, tail_cache, m)
     else do {
       (ptr, m) \<leftarrow> slot_load L (unat (tail AND ql_mask L)) m;
       Some (TN_SUCCESS, Some ptr, tail, m)
     }
   }"

definition queue_pop :: "q_loc shared \<Rightarrow> (int \<times> q_loc shared) option" where
  "queue_pop m = do {
     (tail, m) \<leftarrow> tn_atomic_load_explicit Q_tail TN_ATOMIC_RELAXED m;
     (head, m) \<leftarrow> tn_atomic_load Q_head m;
     if head = tail then Some (TN_QUEUE_EMPTY, m)
     else do {
       m \<leftarrow> tn_atomic_store Q_tail (tail + 1) m;
       Some (TN_SUCCESS, m)
     }
   }"

definition queue_pop_cached :: "u64 \<Rightarrow> q_loc shared \<Rightarrow> q_loc shared option" where
  "queue_pop_cached tail_cache m = tn_atomic_store Q_tail (tail_cache + 1) m"

definition queue_pop_back ::
  "q_layout \<Rightarrow> q_loc shared \<Rightarrow> (int \<times> u64 option \<times> q_loc shared) option" where
  "queue_pop_back L m = do {
     (tail, m) \<leftarrow> tn_atomic_load_explicit Q_tail TN_ATOMIC_RELAXED m;
     (head, m) \<leftarrow> tn_atomic_load Q_head m;
     if head = tail then Some (TN_QUEUE_EMPTY, None, m)
     else do {
       (ptr, m) \<leftarrow> slot_load L (unat (tail AND ql_mask L)) m;
       m \<leftarrow> tn_atomic_store Q_tail (tail + 1) m;
       Some (TN_SUCCESS, Some ptr, m)
     }
   }"

fun queue_pop_all_loop ::
  "q_layout \<Rightarrow> u64 \<Rightarrow> u64 \<Rightarrow> nat \<Rightarrow> u64 list \<Rightarrow> q_loc shared \<Rightarrow> (u64 list \<times> q_loc shared) option" where
  "queue_pop_all_loop L tail off 0 out m = Some (out, m)"
| "queue_pop_all_loop L tail off (Suc n) out m = do {
     (ptr, m) \<leftarrow> slot_load L (unat ((tail + off) AND ql_mask L)) m;
     out \<leftarrow> arr_set out (unat off) ptr;
     queue_pop_all_loop L tail (off + 1) n out m
   }"

definition queue_pop_all ::
  "q_layout \<Rightarrow> u64 list \<Rightarrow> u64 \<Rightarrow> q_loc shared \<Rightarrow> (int \<times> u64 list \<times> u64 \<times> q_loc shared) option" where
  "queue_pop_all L out out_count m = do {
     tn_assert (0 < out_count);
     (tail, m) \<leftarrow> tn_atomic_load_explicit Q_tail TN_ATOMIC_RELAXED m;
     (head, m) \<leftarrow> tn_atomic_load Q_head m;
     let size = head - tail;
     if size = 0 then Some (TN_QUEUE_EMPTY, out, out_count, m)
     else do {
       let out_count = (if size < out_count then size else out_count);
       (out, m) \<leftarrow> queue_pop_all_loop L tail 0 (unat out_count) out m;
       m \<leftarrow> tn_atomic_store_explicit Q_tail (tail + out_count) TN_ATOMIC_RELAXED m;
       Some (TN_SUCCESS, out, out_count, m)
     }
   }"

section \<open>The operations over the atomics are those of the queue\<close>

definition queue_of :: "q_layout \<Rightarrow> u64 \<Rightarrow> q_loc shared \<Rightarrow> u64 tn_queue_spsc" where
  "queue_of L tail_cache m = \<lparr>q_capacity = ql_capacity L, q_mask = ql_mask L,
     q_buffer = map (\<lambda>i. cell m (Q_slot i)) [0..<ql_slots L],
     q_head = cell m Q_head, q_tail = cell m Q_tail, q_tail_cache = tail_cache\<rparr>"

lemmas atomic_defs = tn_atomic_load_def tn_atomic_load_explicit_def tn_atomic_store_def
  tn_atomic_store_explicit_def aws_atomic_load_int_explicit_def aws_atomic_store_int_explicit_def
  aws_atomic_priv_xlate_order_def TN_ATOMIC_RELAXED_def TN_ATOMIC_ACQUIRE_def TN_ATOMIC_RELEASE_def

lemma arr_get_queue_of [simp]:
  "arr_get (q_buffer (queue_of L c m)) i = (if i < ql_slots L then Some (cell m (Q_slot i)) else None)"
  by (simp add: queue_of_def arr_get_def)

lemma queue_of_sel [simp]:
  "q_capacity (queue_of L c m) = ql_capacity L" "q_mask (queue_of L c m) = ql_mask L"
  "q_head (queue_of L c m) = cell m Q_head" "q_tail (queue_of L c m) = cell m Q_tail"
  "q_tail_cache (queue_of L c m) = c" "length (q_buffer (queue_of L c m)) = ql_slots L"
  by (simp_all add: queue_of_def)

lemma queue_of_trace [simp]: "queue_of L c (m\<lparr>trace := t\<rparr>) = queue_of L c m"
  by (simp add: queue_of_def)

lemma queue_of_head: "queue_of L c (m\<lparr>cell := (cell m)(Q_head := v)\<rparr>) = (queue_of L c m)\<lparr>q_head := v\<rparr>"
  by (simp add: queue_of_def)

lemma queue_of_tail: "queue_of L c (m\<lparr>cell := (cell m)(Q_tail := v)\<rparr>) = (queue_of L c m)\<lparr>q_tail := v\<rparr>"
  by (simp add: queue_of_def)

lemma queue_of_slot:
  "i < ql_slots L \<Longrightarrow> queue_of L c (m\<lparr>cell := (cell m)(Q_slot i := v)\<rparr>) =
     (queue_of L c m)\<lparr>q_buffer := (q_buffer (queue_of L c m))[i := v]\<rparr>"
  by (auto simp: queue_of_def nth_list_update intro!: nth_equalityI)

lemma queue_count_eq:
  "map_option fst (queue_count m) = Some (tn_queue_spsc_count (queue_of L c m))"
  by (simp add: queue_count_def tn_queue_spsc_count_def atomic_defs)

lemma queue_push_eq:
  "map_option (\<lambda>(rc, m'). (rc, queue_of L c m')) (queue_push L p m) =
   tn_queue_spsc_push (queue_of L c m) p"
proof (cases "unat (cell m Q_head AND ql_mask L) < ql_slots L")
  case True
  have "queue_of L c (m\<lparr>cell := (cell m)(Q_slot (unat (cell m Q_head AND ql_mask L)) := p,
      Q_head := cell m Q_head + 1)\<rparr>) = (queue_of L c m)\<lparr>q_buffer := (q_buffer (queue_of L c m))
      [unat (cell m Q_head AND ql_mask L) := p], q_head := cell m Q_head + 1\<rparr>"
    using True by (auto simp: queue_of_def nth_list_update intro!: nth_equalityI)
  then show ?thesis
    using True by (simp add: queue_push_def tn_queue_spsc_push_def atomic_defs slot_store_def
        plain_store_def Let_def)
next
  case False
  then show ?thesis
    by (simp add: queue_push_def tn_queue_spsc_push_def atomic_defs slot_store_def plain_store_def Let_def
        arr_set_def)
qed

lemma queue_peek_eq:
  "map_option (\<lambda>(rc, out, c', m'). (rc, out, queue_of L c' m')) (queue_peek L c m) =
   tn_queue_spsc_peek (queue_of L c m)"
  by (simp add: queue_peek_def tn_queue_spsc_peek_def atomic_defs slot_load_def plain_load_def Let_def)
    (simp add: queue_of_def)

lemma queue_pop_eq:
  "map_option (\<lambda>(rc, m'). (rc, queue_of L c m')) (queue_pop m) =
   Some (tn_queue_spsc_pop (queue_of L c m))"
  by (simp add: queue_pop_def tn_queue_spsc_pop_def atomic_defs Let_def) (simp add: queue_of_def)

lemma queue_pop_cached_eq:
  "map_option (queue_of L c) (queue_pop_cached c m) = Some (tn_queue_spsc_pop_cached (queue_of L c m))"
  by (simp add: queue_pop_cached_def tn_queue_spsc_pop_cached_def atomic_defs) (simp add: queue_of_def)

lemma queue_pop_back_eq:
  "map_option (\<lambda>(rc, out, m'). (rc, out, queue_of L c m')) (queue_pop_back L m) =
   tn_queue_spsc_pop_back (queue_of L c m)"
  by (simp add: queue_pop_back_def tn_queue_spsc_pop_back_def atomic_defs slot_load_def plain_load_def Let_def)
    (simp add: queue_of_def)

lemma queue_pop_all_loop_eq:
  "tail = cell m Q_tail \<Longrightarrow>
   pop_all_loop (queue_of L c m) off n out = map_option fst (queue_pop_all_loop L tail off n out m)"
proof (induction n arbitrary: off out m)
  case (Suc n)
  have "pop_all_loop (queue_of L c m) off' n out' =
      map_option fst (queue_pop_all_loop L tail off' n out' (m\<lparr>trace := t\<rparr>))" for off' out' t
    using Suc.IH [of "m\<lparr>trace := t\<rparr>"] Suc.prems by simp
  then show ?case
    using Suc.prems
    by (simp add: slot_load_def plain_load_def arr_set_def)
qed simp

text \<open>What the copy loop does to shared memory: it only adds its reads to the trace.\<close>

definition slot_reads :: "q_layout \<Rightarrow> u64 \<Rightarrow> u64 \<Rightarrow> nat \<Rightarrow> q_loc access list" where
  "slot_reads L tail off n =
     map (\<lambda>i. Access Load (Q_slot (unat ((tail + off + of_nat i) AND ql_mask L))) None) [0..<n]"

lemma slot_reads_Suc: "slot_reads L tail off (Suc n) =
    Access Load (Q_slot (unat ((tail + off) AND ql_mask L))) None # slot_reads L tail (off + 1) n"
proof -
  have "[0..<Suc n] = 0 # map Suc [0..<n]" by (simp only: map_Suc_upt upt_conv_Cons zero_less_Suc)
  then show ?thesis by (simp only: slot_reads_def list.map map_map comp_def) (simp add: algebra_simps)
qed

lemma queue_pop_all_loop_trace:
  "queue_pop_all_loop L tail off n out m = Some (out', m') \<Longrightarrow>
   m' = m\<lparr>trace := trace m @ slot_reads L tail off n\<rparr>"
proof (induction n arbitrary: off out m)
  case 0
  then show ?case by (simp add: slot_reads_def)
next
  case (Suc n)
  from Suc.prems obtain out1 where "queue_pop_all_loop L tail (off + 1) n out1
      (snd (plain_load (Q_slot (unat ((tail + off) AND ql_mask L))) m)) = Some (out', m')"
    by (auto simp: slot_load_def plain_load_def bind_eq_Some_conv split: if_splits)
  from Suc.IH [OF this] show ?case by (simp add: plain_load_def slot_reads_Suc)
qed

lemma queue_pop_all_store_eq:
  "map_option (\<lambda>(rc, out, n, m'). (rc, out, n, queue_of L c m'))
     (do {
        (out, m') \<leftarrow> queue_pop_all_loop L (cell m Q_tail) 0 (unat n) out (m\<lparr>trace := t\<rparr>);
        m' \<leftarrow> tn_atomic_store_explicit Q_tail (cell m Q_tail + n) TN_ATOMIC_RELAXED m';
        Some (TN_SUCCESS, out, n, m')
      }) =
   do {
     out \<leftarrow> pop_all_loop (queue_of L c m) 0 (unat n) out;
     Some (TN_SUCCESS, out, n, (queue_of L c m)\<lparr>q_tail := cell m Q_tail + n\<rparr>)
   }"
proof (cases "queue_pop_all_loop L (cell m Q_tail) 0 (unat n) out (m\<lparr>trace := t\<rparr>)")
  case None
  then show ?thesis
    using queue_pop_all_loop_eq [of "cell m Q_tail" "m\<lparr>trace := t\<rparr>" L c 0 "unat n" out] by simp
next
  case (Some r)
  obtain out' m' where r: "r = (out', m')" by (cases r)
  have "m' = m\<lparr>trace := t @ slot_reads L (cell m Q_tail) 0 (unat n)\<rparr>"
    using queue_pop_all_loop_trace [of L "cell m Q_tail" 0 "unat n" out "m\<lparr>trace := t\<rparr>" out' m']
      Some r by simp
  then show ?thesis
    using queue_pop_all_loop_eq [of "cell m Q_tail" "m\<lparr>trace := t\<rparr>" L c 0 "unat n" out] Some r
    by (simp add: atomic_defs) (simp add: queue_of_def)
qed

lemma queue_pop_all_eq:
  "map_option (\<lambda>(rc, out, n, m'). (rc, out, n, queue_of L c m')) (queue_pop_all L out n m) =
   tn_queue_spsc_pop_all (queue_of L c m) out n"
proof -
  let ?n = "if cell m Q_head - cell m Q_tail < n then cell m Q_head - cell m Q_tail else n"
  let ?t = "trace m @ [Access Load Q_tail (Some ATOMIC_RELAXED), Access Load Q_head (Some ATOMIC_ACQUIRE)]"
  have atomics: "queue_pop_all L out n m = do {
      tn_assert (0 < n);
      if cell m Q_head - cell m Q_tail = 0 then Some (TN_QUEUE_EMPTY, out, n, m\<lparr>trace := ?t\<rparr>)
      else do {
        (out, m') \<leftarrow> queue_pop_all_loop L (cell m Q_tail) 0 (unat ?n) out (m\<lparr>trace := ?t\<rparr>);
        m' \<leftarrow> tn_atomic_store_explicit Q_tail (cell m Q_tail + ?n) TN_ATOMIC_RELAXED m';
        Some (TN_SUCCESS, out, ?n, m')
      }
    }"
    unfolding queue_pop_all_def Let_def by (simp add: atomic_defs)
  have plain: "tn_queue_spsc_pop_all (queue_of L c m) out n = do {
      tn_assert (0 < n);
      if cell m Q_head - cell m Q_tail = 0 then Some (TN_QUEUE_EMPTY, out, n, queue_of L c m)
      else do {
        out \<leftarrow> pop_all_loop (queue_of L c m) 0 (unat ?n) out;
        Some (TN_SUCCESS, out, ?n, (queue_of L c m)\<lparr>q_tail := cell m Q_tail + ?n\<rparr>)
      }
    }"
    unfolding tn_queue_spsc_pop_all_def Let_def queue_of_sel by (rule refl)
  show ?thesis
  proof (cases "0 < n \<and> cell m Q_head - cell m Q_tail \<noteq> 0")
    case True
    then have "tn_assert (0 < n) = Some ()" "(cell m Q_head - cell m Q_tail = 0) = False"
      by (simp_all add: tn_assert_def)
    then show ?thesis
      unfolding atomics plain using queue_pop_all_store_eq [of L c m ?n out ?t]
      by (simp only: if_False Option.bind.simps)
  next
    case False
    then show ?thesis unfolding atomics plain by (auto simp: tn_assert_def)
  qed
qed

section \<open>What another thread may see\<close>

fun acquires :: "'l access \<Rightarrow> bool" where
  "acquires (Access w l ord) \<longleftrightarrow>
     w \<noteq> Store \<and> ord \<in> {Some ATOMIC_ACQUIRE, Some ATOMIC_ACQ_REL, Some ATOMIC_SEQ_CST}"

fun releases :: "'l access \<Rightarrow> bool" where
  "releases (Access w l ord) \<longleftrightarrow>
     w \<noteq> Load \<and> ord \<in> {Some ATOMIC_RELEASE, Some ATOMIC_ACQ_REL, Some ATOMIC_SEQ_CST}"

definition may_swap :: "('l access \<Rightarrow> 'l access \<Rightarrow> bool) \<Rightarrow> 'l access \<Rightarrow> 'l access \<Rightarrow> bool" where
  "may_swap needs a b \<longleftrightarrow> acc_loc a \<noteq> acc_loc b \<and> \<not> acquires a \<and> \<not> releases b \<and>
     \<not> (acc_order a = Some ATOMIC_SEQ_CST \<and> acc_order b = Some ATOMIC_SEQ_CST) \<and> \<not> needs a b"

text \<open>An index that was loaded is needed by every access to a slot and by the store of an index.\<close>

definition queue_needs :: "q_loc access \<Rightarrow> q_loc access \<Rightarrow> bool" where
  "queue_needs a b \<longleftrightarrow> acc_rw a = Load \<and> acc_loc a \<in> {Q_head, Q_tail} \<and>
     \<not> (acc_rw b = Load \<and> acc_loc b \<in> {Q_head, Q_tail})"

inductive reordered :: "('l access \<Rightarrow> 'l access \<Rightarrow> bool) \<Rightarrow> 'l access list \<Rightarrow> 'l access list \<Rightarrow> bool"
  for needs and xs where
  same: "reordered needs xs xs"
| swap: "reordered needs xs (us @ a # b # vs) \<Longrightarrow> may_swap needs a b \<Longrightarrow>
    reordered needs xs (us @ b # a # vs)"

fun precedes :: "'a \<Rightarrow> 'a \<Rightarrow> 'a list \<Rightarrow> bool" where
  "precedes x y [] \<longleftrightarrow> False"
| "precedes x y (z # zs) \<longleftrightarrow> z = x \<and> y \<in> set zs \<or> precedes x y zs"

lemma precedes_append:
  "precedes x y (us @ vs) \<longleftrightarrow> precedes x y us \<or> x \<in> set us \<and> y \<in> set vs \<or> precedes x y vs"
  by (induction us) auto

lemma reordered_mset: "reordered needs xs ys \<Longrightarrow> mset ys = mset xs"
  by (induction rule: reordered.induct) (simp_all add: add_mset_commute)

text \<open>Accesses that may not change places are seen in program order.\<close>

lemma reordered_precedes:
  "reordered needs xs ys \<Longrightarrow> precedes x y xs \<Longrightarrow> \<not> may_swap needs x y \<Longrightarrow> precedes x y ys"
  by (induction rule: reordered.induct) (auto simp: precedes_append)

lemma reordered_first_two: "may_swap needs a b \<Longrightarrow> reordered needs (a # b # vs) (b # a # vs)"
  using reordered.swap [of needs "a # b # vs" "[]" a b vs] by (simp add: reordered.same)

lemma reordered_swap_back:
  "reordered needs xs (us @ vs @ b # ws) \<Longrightarrow> (\<And>v. v \<in> set vs \<Longrightarrow> may_swap needs v b) \<Longrightarrow>
   reordered needs xs (us @ b # vs @ ws)"
proof (induction vs arbitrary: ws rule: rev_induct)
  case (snoc v vs)
  have "reordered needs xs ((us @ vs) @ v # b # ws)" using snoc.prems(1) by simp
  then have "reordered needs xs ((us @ vs) @ b # v # ws)"
    by (rule reordered.swap) (use snoc.prems(2) in simp)
  then show ?case using snoc.IH [of "v # ws"] snoc.prems(2) by simp
qed simp

text \<open>The accesses of the operations, in program order.\<close>

lemma queue_push_trace:
  assumes "queue_push L p m = Some (TN_SUCCESS, m')"
  shows "trace m' = trace m @ [Access Load Q_head (Some ATOMIC_RELAXED),
    Access Load Q_tail (Some ATOMIC_ACQUIRE),
    Access Store (Q_slot (unat (cell m Q_head AND ql_mask L))) None,
    Access Store Q_head (Some ATOMIC_RELEASE)]"
  using assms by (auto simp: queue_push_def atomic_defs slot_store_def plain_store_def split: if_splits)

lemma queue_pop_back_trace:
  assumes "queue_pop_back L m = Some (TN_SUCCESS, out, m')"
  shows "trace m' = trace m @ [Access Load Q_tail (Some ATOMIC_RELAXED),
    Access Load Q_head (Some ATOMIC_ACQUIRE),
    Access Load (Q_slot (unat (cell m Q_tail AND ql_mask L))) None,
    Access Store Q_tail (Some ATOMIC_RELEASE)]"
  using assms by (auto simp: queue_pop_back_def atomic_defs slot_load_def plain_load_def split: if_splits)

lemma queue_pop_all_trace:
  assumes "queue_pop_all L out n m = Some (TN_SUCCESS, out', n', m')"
  shows "trace m' = trace m @ [Access Load Q_tail (Some ATOMIC_RELAXED),
      Access Load Q_head (Some ATOMIC_ACQUIRE)] @ slot_reads L (cell m Q_tail) 0 (unat n') @
    [Access Store Q_tail (Some ATOMIC_RELAXED)]"
  using assms
  by (auto simp: queue_pop_all_def atomic_defs bind_eq_Some_conv Let_def tn_assert_def
      dest!: queue_pop_all_loop_trace split: if_splits)

section \<open>Properties\<close>

text \<open>The operations written over the atomic variables are the operations of the queue.\<close>

theorem queue_atomics_equiv:
  "map_option fst (queue_count m) = Some (tn_queue_spsc_count (queue_of L c m)) \<and>
   map_option (\<lambda>(rc, m'). (rc, queue_of L c m')) (queue_push L p m) =
     tn_queue_spsc_push (queue_of L c m) p \<and>
   map_option (\<lambda>(rc, ptr, c', m'). (rc, ptr, queue_of L c' m')) (queue_peek L c m) =
     tn_queue_spsc_peek (queue_of L c m) \<and>
   map_option (\<lambda>(rc, m'). (rc, queue_of L c m')) (queue_pop m) =
     Some (tn_queue_spsc_pop (queue_of L c m)) \<and>
   map_option (queue_of L c) (queue_pop_cached c m) =
     Some (tn_queue_spsc_pop_cached (queue_of L c m)) \<and>
   map_option (\<lambda>(rc, ptr, m'). (rc, ptr, queue_of L c m')) (queue_pop_back L m) =
     tn_queue_spsc_pop_back (queue_of L c m) \<and>
   map_option (\<lambda>(rc, out, n, m'). (rc, out, n, queue_of L c m')) (queue_pop_all L out n m) =
     tn_queue_spsc_pop_all (queue_of L c m) out n"
  by (intro conjI queue_count_eq queue_push_eq queue_peek_eq queue_pop_eq queue_pop_cached_eq
      queue_pop_back_eq queue_pop_all_eq)

text \<open>Property C6. In every order the memory orders allow, a successful \<open>push\<close> writes its slot after it has
  acquired the consumer's \<open>tail\<close> and before the new \<open>head\<close> can be seen, and a successful
  \<open>pop_back\<close> reads its slot after it has acquired \<open>head\<close> and before the new \<open>tail\<close> can be
  seen.\<close>

theorem queue_slot_access_order:
  assumes "queue_push L p m = Some (TN_SUCCESS, m')" and "trace m = []"
    and "reordered queue_needs (trace m') ys"
    and "queue_pop_back L n = Some (TN_SUCCESS, out, n')" and "trace n = []"
    and "reordered queue_needs (trace n') zs"
  shows "precedes (Access Load Q_tail (Some ATOMIC_ACQUIRE))
      (Access Store (Q_slot (unat (cell m Q_head AND ql_mask L))) None) ys \<and>
    precedes (Access Store (Q_slot (unat (cell m Q_head AND ql_mask L))) None)
      (Access Store Q_head (Some ATOMIC_RELEASE)) ys \<and>
    precedes (Access Load Q_head (Some ATOMIC_ACQUIRE))
      (Access Load (Q_slot (unat (cell n Q_tail AND ql_mask L))) None) zs \<and>
    precedes (Access Load (Q_slot (unat (cell n Q_tail AND ql_mask L))) None)
      (Access Store Q_tail (Some ATOMIC_RELEASE)) zs"
  using queue_push_trace [OF assms(1)] queue_pop_back_trace [OF assms(4)] assms(2,5)
  by (intro conjI reordered_precedes [OF assms(3)] reordered_precedes [OF assms(6)])
    (simp_all add: may_swap_def)

definition layout2 :: q_layout where
  "layout2 = \<lparr>ql_capacity = 2, ql_mask = 1, ql_slots = 3\<rparr>"

definition shared2 :: "q_loc shared" where
  "shared2 = \<lparr>cell = (\<lambda>_. 0)(Q_head := 1, Q_slot 0 := 5), trace = []\<rparr>"

text \<open>The two loads of the indices seen in the other order.\<close>

definition pushed2 :: "q_loc access list" where
  "pushed2 = [Access Load Q_tail (Some ATOMIC_ACQUIRE), Access Load Q_head (Some ATOMIC_RELAXED),
     Access Store (Q_slot 1) None, Access Store Q_head (Some ATOMIC_RELEASE)]"

definition popped2 :: "q_loc access list" where
  "popped2 = [Access Load Q_head (Some ATOMIC_ACQUIRE), Access Load Q_tail (Some ATOMIC_RELAXED),
     Access Load (Q_slot 0) None, Access Store Q_tail (Some ATOMIC_RELEASE)]"

lemmas atomics_eval = queue_push_def queue_pop_back_def queue_pop_all_def atomic_defs slot_store_def
  slot_load_def plain_store_def plain_load_def layout2_def shared2_def

theorem queue_slot_access_order_witness:
  "precedes (Access Load Q_tail (Some ATOMIC_ACQUIRE))
      (Access Store (Q_slot (unat (cell shared2 Q_head AND ql_mask layout2))) None) pushed2 \<and>
    precedes (Access Store (Q_slot (unat (cell shared2 Q_head AND ql_mask layout2))) None)
      (Access Store Q_head (Some ATOMIC_RELEASE)) pushed2 \<and>
    precedes (Access Load Q_head (Some ATOMIC_ACQUIRE))
      (Access Load (Q_slot (unat (cell shared2 Q_tail AND ql_mask layout2))) None) popped2 \<and>
    precedes (Access Load (Q_slot (unat (cell shared2 Q_tail AND ql_mask layout2))) None)
      (Access Store Q_tail (Some ATOMIC_RELEASE)) popped2"
proof (rule queue_slot_access_order [where out = "Some 5" and p = 6 and
      m' = "snd (the (queue_push layout2 6 shared2))" and
      n' = "snd (snd (the (queue_pop_back layout2 shared2)))"])
  show "reordered queue_needs (trace (snd (the (queue_push layout2 6 shared2)))) pushed2"
    by (simp add: reordered_first_two atomics_eval pushed2_def may_swap_def queue_needs_def)
  show "reordered queue_needs (trace (snd (snd (the (queue_pop_back layout2 shared2))))) popped2"
    by (simp add: reordered_first_two atomics_eval popped2_def may_swap_def queue_needs_def)
qed (simp_all add: atomics_eval)

text \<open>The relaxed store of \<open>pop_all\<close> may be seen before any part of its reads of the slots.\<close>

theorem queue_pop_all_may_publish_early:
  assumes "queue_pop_all L out n m = Some (TN_SUCCESS, out', n', m')" and "trace m = []"
    and "k \<le> unat n'"
  defines "reads \<equiv> slot_reads L (cell m Q_tail) 0 (unat n')"
  shows "reordered queue_needs (trace m')
    ([Access Load Q_tail (Some ATOMIC_RELAXED), Access Load Q_head (Some ATOMIC_ACQUIRE)] @
     take k reads @ Access Store Q_tail (Some ATOMIC_RELAXED) # drop k reads)"
proof -
  let ?idx = "[Access Load Q_tail (Some ATOMIC_RELAXED), Access Load Q_head (Some ATOMIC_ACQUIRE)]"
  let ?st = "Access Store Q_tail (Some ATOMIC_RELAXED)"
  have "trace m' = (?idx @ take k reads) @ drop k reads @ ?st # []"
    using queue_pop_all_trace [OF assms(1)] assms(2) by (simp add: reads_def)
  then have "reordered queue_needs (trace m') ((?idx @ take k reads) @ drop k reads @ ?st # [])"
    by (simp only: reordered.same)
  then have "reordered queue_needs (trace m') ((?idx @ take k reads) @ ?st # drop k reads @ [])"
  proof (rule reordered_swap_back)
    fix v assume "v \<in> set (drop k reads)"
    then have "v \<in> set reads" by (rule in_set_dropD)
    then show "may_swap queue_needs v ?st"
      by (auto simp: reads_def slot_reads_def may_swap_def queue_needs_def)
  qed
  then show ?thesis by simp
qed

end
