(* ===== verification/Tn_Event.thy ===== *)
theory Tn_Event
  imports Tn_Queue Tn_Handles
begin

text \<open>
  The event list of \<open>src/event.c\<close>: a fixed array of events, a queue of the free ones (main thread
  to IO thread) and a queue of the ready ones (IO thread to main thread). An event is identified
  by its index in the array.

  The event structs of \<open>include/tn/event.h\<close> are views of the same 256 bytes. The model has one field
  per member of the views; an operation that fills in an event of some type sets the members of
  that view, and nobody reads a member that the view of the current type lacks.
\<close>

definition TN_EVENT_NONE :: u32 where [simp]: "TN_EVENT_NONE = 0"
definition TN_EVENT_IOERROR :: u32 where [simp]: "TN_EVENT_IOERROR = 1"
definition TN_EVENT_CLIENT_OPEN :: u32 where [simp]: "TN_EVENT_CLIENT_OPEN = 2"
definition TN_EVENT_CLIENT_CLOSE :: u32 where [simp]: "TN_EVENT_CLIENT_CLOSE = 3"
definition TN_EVENT_CLIENT_READ :: u32 where [simp]: "TN_EVENT_CLIENT_READ = 4"

record tn_event =
  ev_id :: u32
  ev_type :: u32
  ev_client_id :: u64
  ev_tn_buffer :: "nat option"
  ev_error_code :: int
  ev_host_local :: string
  ev_host_remote :: string
  ev_buffer :: addr
  ev_len :: size_t

record tn_event_list =
  el_tn_events :: "tn_event list"
  el_tn_events_free :: "nat tn_queue_spsc"
  el_tn_events_ready :: "nat tn_queue_spsc"
  el_capacity :: u64

section \<open>Operations\<close>

text \<open>
  The loop of \<open>tn_event_list_setup\<close> has a 32-bit counter and a 64-bit bound. The first argument
  bounds the number of iterations; one more than the capacity is enough, because the queue is
  full by then and the insertion fails.
\<close>

fun event_setup_loop :: "nat \<Rightarrow> u32 \<Rightarrow> tn_event_list \<Rightarrow> (int \<times> tn_event_list) option" where
  "event_setup_loop fuel i l =
     (if \<not> unat i < unat (el_capacity l) then Some (TN_SUCCESS, l)
      else case fuel of 0 \<Rightarrow> None
      | Suc fuel \<Rightarrow> do {
          evt \<leftarrow> arr_get (el_tn_events l) (unat i);
          evts \<leftarrow> arr_set (el_tn_events l) (unat i) (evt\<lparr>ev_id := i\<rparr>);
          (rc, q) \<leftarrow> tn_queue_spsc_push (el_tn_events_free l) (unat i);
          let l = l\<lparr>el_tn_events := evts, el_tn_events_free := q\<rparr>;
          if rc \<noteq> 0 then Some (TN_ERROR, l) else event_setup_loop fuel (i + 1) l
        })"

declare event_setup_loop.simps [simp del]

text \<open>An event has 256 bytes.\<close>

definition tn_event_list_setup ::
  "bool \<Rightarrow> (nat \<Rightarrow> nat) \<Rightarrow> bool \<Rightarrow> (nat \<Rightarrow> nat) \<Rightarrow> bool \<Rightarrow> (nat \<Rightarrow> tn_event) \<Rightarrow>
   tn_event_list \<Rightarrow> u64 \<Rightarrow> (int \<times> tn_event_list) option" where
  "tn_event_list_setup ok_free junk_free ok_ready junk_ready ok_events junk_events l capacity = do {
     tn_assert (0 < capacity);
     (rc, q) \<leftarrow> tn_queue_spsc_setup ok_free junk_free (el_tn_events_free l) capacity;
     let l = l\<lparr>el_tn_events_free := q\<rparr>;
     if rc \<noteq> 0 then Some (TN_ERROR, l)
     else do {
       (rc, q) \<leftarrow> tn_queue_spsc_setup ok_ready junk_ready (el_tn_events_ready l) capacity;
       let l = l\<lparr>el_tn_events_ready := q\<rparr>;
       if rc \<noteq> 0 then Some (TN_ERROR, l)
       else do {
         let l = l\<lparr>el_capacity := tn_queue_spsc_capacity (el_tn_events_ready l)\<rparr>;
         case tn_mem_acquire ok_events junk_events (unat (el_capacity l * 256) div 256) of
           None \<Rightarrow> Some (TN_ERROR, l\<lparr>el_tn_events := []\<rparr>)
         | Some evts \<Rightarrow>
             event_setup_loop (Suc (unat (el_capacity l))) 0 (l\<lparr>el_tn_events := evts\<rparr>)
       }
     }
   }"

definition tn_event_list_cleanup :: "tn_event_list \<Rightarrow> tn_event_list" where
  "tn_event_list_cleanup l = l\<lparr>el_tn_events_free := tn_queue_spsc_cleanup (el_tn_events_free l),
     el_tn_events_ready := tn_queue_spsc_cleanup (el_tn_events_ready l), el_tn_events := []\<rparr>"

definition tn_event_list_free_pop_back :: "tn_event_list \<Rightarrow> (int \<times> nat option \<times> tn_event_list) option" where
  "tn_event_list_free_pop_back l = do {
     (rc, out, q) \<leftarrow> tn_queue_spsc_pop_back (el_tn_events_free l);
     Some (rc, out, l\<lparr>el_tn_events_free := q\<rparr>)
   }"

text \<open>The four typed variants differ in the members they set.\<close>

definition free_pop_as ::
  "(tn_event \<Rightarrow> tn_event) \<Rightarrow> tn_event_list \<Rightarrow> (int \<times> nat option \<times> tn_event_list) option" where
  "free_pop_as f l = do {
     (rc, out, q) \<leftarrow> tn_queue_spsc_pop_back (el_tn_events_free l);
     let l = l\<lparr>el_tn_events_free := q\<rparr>;
     if rc \<noteq> 0 then Some (TN_ERROR, None, l)
     else do {
       i \<leftarrow> out;
       evt \<leftarrow> arr_get (el_tn_events l) i;
       evts \<leftarrow> arr_set (el_tn_events l) i (f evt);
       Some (TN_SUCCESS, Some i, l\<lparr>el_tn_events := evts\<rparr>)
     }
   }"

definition tn_event_list_free_pop_error :: "tn_event_list \<Rightarrow> (int \<times> nat option \<times> tn_event_list) option" where
  "tn_event_list_free_pop_error =
     free_pop_as (\<lambda>evt. evt\<lparr>ev_type := TN_EVENT_IOERROR, ev_tn_buffer := None\<rparr>)"

definition tn_event_list_free_pop_open :: "tn_event_list \<Rightarrow> (int \<times> nat option \<times> tn_event_list) option" where
  "tn_event_list_free_pop_open = free_pop_as (\<lambda>evt. evt\<lparr>ev_type := TN_EVENT_CLIENT_OPEN\<rparr>)"

definition tn_event_list_free_pop_close :: "tn_event_list \<Rightarrow> (int \<times> nat option \<times> tn_event_list) option" where
  "tn_event_list_free_pop_close =
     free_pop_as (\<lambda>evt. evt\<lparr>ev_type := TN_EVENT_CLIENT_CLOSE, ev_tn_buffer := None\<rparr>)"

definition tn_event_list_free_pop_read :: "tn_event_list \<Rightarrow> (int \<times> nat option \<times> tn_event_list) option" where
  "tn_event_list_free_pop_read =
     free_pop_as (\<lambda>evt. evt\<lparr>ev_type := TN_EVENT_CLIENT_READ, ev_tn_buffer := None\<rparr>)"

definition tn_event_list_ready_push :: "tn_event_list \<Rightarrow> nat \<Rightarrow> (int \<times> tn_event_list) option" where
  "tn_event_list_ready_push l evt = do {
     (rc, q) \<leftarrow> tn_queue_spsc_push (el_tn_events_ready l) evt;
     Some (rc, l\<lparr>el_tn_events_ready := q\<rparr>)
   }"

definition tn_event_list_ready_peek :: "tn_event_list \<Rightarrow> (int \<times> nat option \<times> tn_event_list) option" where
  "tn_event_list_ready_peek l = do {
     (rc, out, q) \<leftarrow> tn_queue_spsc_peek (el_tn_events_ready l);
     Some (if rc \<noteq> 0 then TN_ERROR else TN_SUCCESS, out, l\<lparr>el_tn_events_ready := q\<rparr>)
   }"

definition tn_event_list_ready_pop :: "tn_event_list \<Rightarrow> int \<times> tn_event_list" where
  "tn_event_list_ready_pop l =
     (let (rc, q) = tn_queue_spsc_pop (el_tn_events_ready l)
      in (if rc \<noteq> 0 then TN_ERROR else TN_SUCCESS, l\<lparr>el_tn_events_ready := q\<rparr>))"

definition tn_event_list_ready_pop_cached :: "tn_event_list \<Rightarrow> tn_event_list" where
  "tn_event_list_ready_pop_cached l =
     l\<lparr>el_tn_events_ready := tn_queue_spsc_pop_cached (el_tn_events_ready l)\<rparr>"

definition tn_event_list_ready_pop_back :: "tn_event_list \<Rightarrow> (int \<times> nat option \<times> tn_event_list) option" where
  "tn_event_list_ready_pop_back l = do {
     (rc, out, q) \<leftarrow> tn_queue_spsc_pop_back (el_tn_events_ready l);
     Some (if rc \<noteq> 0 then TN_ERROR else TN_SUCCESS, out, l\<lparr>el_tn_events_ready := q\<rparr>)
   }"

definition tn_event_list_ready_pop_all ::
  "tn_event_list \<Rightarrow> nat list \<Rightarrow> u64 \<Rightarrow> (int \<times> nat list \<times> u64 \<times> tn_event_list) option" where
  "tn_event_list_ready_pop_all l out out_count = do {
     tn_assert (0 < out_count);
     (rc, out, out_count, q) \<leftarrow> tn_queue_spsc_pop_all (el_tn_events_ready l) out out_count;
     Some (if rc \<noteq> 0 then TN_ERROR else TN_SUCCESS, out, out_count, l\<lparr>el_tn_events_ready := q\<rparr>)
   }"

definition tn_event_list_free_push :: "tn_event_list \<Rightarrow> nat \<Rightarrow> (int \<times> tn_event_list) option" where
  "tn_event_list_free_push l evt = do {
     (rc, q) \<leftarrow> tn_queue_spsc_push (el_tn_events_free l) evt;
     Some (rc, l\<lparr>el_tn_events_free := q\<rparr>)
   }"

section \<open>Invariant\<close>

abbreviation ev_free :: "tn_event_list \<Rightarrow> nat list" where
  "ev_free l \<equiv> q_elems (el_tn_events_free l)"

abbreviation ev_ready :: "tn_event_list \<Rightarrow> nat list" where
  "ev_ready l \<equiv> q_elems (el_tn_events_ready l)"

abbreviation ev_total :: "tn_event_list \<Rightarrow> nat" where
  "ev_total l \<equiv> unat (el_capacity l)"

definition event_inv :: "tn_event_list \<Rightarrow> bool" where
  "event_inv l \<longleftrightarrow> length (el_tn_events l) = ev_total l \<and>
     q_inv (el_tn_events_free l) \<and> q_inv (el_tn_events_ready l) \<and>
     q_cap (el_tn_events_free l) = ev_total l \<and> q_cap (el_tn_events_ready l) = ev_total l \<and>
     distinct (ev_free l @ ev_ready l) \<and> set (ev_free l @ ev_ready l) \<subseteq> {..<ev_total l}"

lemma event_invD:
  assumes "event_inv l"
  shows "length (el_tn_events l) = ev_total l" and "q_inv (el_tn_events_free l)"
    and "q_inv (el_tn_events_ready l)" and "q_cap (el_tn_events_free l) = ev_total l"
    and "q_cap (el_tn_events_ready l) = ev_total l" and "distinct (ev_free l)" and "distinct (ev_ready l)"
    and "set (ev_free l) \<inter> set (ev_ready l) = {}"
    and "set (ev_free l) \<subseteq> {..<ev_total l}" and "set (ev_ready l) \<subseteq> {..<ev_total l}"
  using assms unfolding event_inv_def distinct_append set_append by blast+

lemma event_invI:
  assumes "event_inv l" and "length (el_tn_events l') = ev_total l" and "el_capacity l' = el_capacity l"
    and "q_inv (el_tn_events_free l')" and "q_inv (el_tn_events_ready l')"
    and "q_cap (el_tn_events_free l') = ev_total l" and "q_cap (el_tn_events_ready l') = ev_total l"
    and "distinct (ev_free l' @ ev_ready l')" and "set (ev_free l' @ ev_ready l') \<subseteq> {..<ev_total l}"
  shows "event_inv l'"
  using assms unfolding event_inv_def by simp

lemma free_pop_as_ok:
  assumes "event_inv l" and "ev_free l = i # is"
  obtains l' where "free_pop_as f l = Some (TN_SUCCESS, Some i, l')" "event_inv l'" "ev_free l' = is"
    "ev_ready l' = ev_ready l" "el_tn_events l' = (el_tn_events l)[i := f (el_tn_events l ! i)]"
    "el_capacity l' = el_capacity l"
proof -
  let ?q = "(el_tn_events_free l)\<lparr>q_tail := q_tail (el_tn_events_free l) + 1\<rparr>"
  let ?l = "l\<lparr>el_tn_events_free := ?q, el_tn_events := (el_tn_events l)[i := f (el_tn_events l ! i)]\<rparr>"
  note q = q_drop_one [OF event_invD(2) [OF assms(1)] assms(2)]
  have i: "i < length (el_tn_events l)" using event_invD(1,9) [OF assms(1)] assms(2) by auto
  have "free_pop_as f l = Some (TN_SUCCESS, Some i, ?l)"
    using q_pop_back_ok [OF event_invD(2) [OF assms(1)] assms(2)] i by (simp add: free_pop_as_def Let_def)
  moreover have "event_inv ?l"
    by (rule event_invI [OF assms(1)])
      (use q event_invD [OF assms(1)] assms(2) in \<open>auto simp del: length_q_elems\<close>)
  ultimately show thesis using q(2) by (intro that [of ?l]) simp_all
qed

lemma free_pop_as_empty: "ev_free l = [] \<Longrightarrow> free_pop_as f l = Some (TN_ERROR, None, l)"
  by (simp add: free_pop_as_def q_pop_back_empty Let_def)

lemma ready_push_ok:
  assumes "event_inv l" and "i < ev_total l" and "i \<notin> set (ev_free l)" and "i \<notin> set (ev_ready l)"
  obtains l' where "tn_event_list_ready_push l i = Some (TN_SUCCESS, l')" "event_inv l'"
    "ev_ready l' = ev_ready l @ [i]" "ev_free l' = ev_free l" "el_tn_events l' = el_tn_events l"
    "el_capacity l' = el_capacity l"
proof -
  note D = event_invD [OF assms(1)]
  have "length (ev_ready l) < q_cap (el_tn_events_ready l)"
    using distinct_room [OF D(7,10) assms(2,4)] D(5) by simp
  from q_push_ok [OF D(3) this, of i] obtain q where q:
      "tn_queue_spsc_push (el_tn_events_ready l) i = Some (TN_SUCCESS, q)" "q_inv q"
      "q_elems q = ev_ready l @ [i]" "q_cap q = q_cap (el_tn_events_ready l)" by blast
  let ?l = "l\<lparr>el_tn_events_ready := q\<rparr>"
  have "event_inv ?l"
    by (rule event_invI [OF assms(1)]) (use q D assms in \<open>auto simp del: length_q_elems\<close>)
  then show thesis using q by (intro that [of ?l]) (simp_all add: tn_event_list_ready_push_def)
qed

lemma free_push_ok:
  assumes "event_inv l" and "i < ev_total l" and "i \<notin> set (ev_free l)" and "i \<notin> set (ev_ready l)"
  obtains l' where "tn_event_list_free_push l i = Some (TN_SUCCESS, l')" "event_inv l'"
    "ev_free l' = ev_free l @ [i]" "ev_ready l' = ev_ready l" "el_tn_events l' = el_tn_events l"
    "el_capacity l' = el_capacity l"
proof -
  note D = event_invD [OF assms(1)]
  have "length (ev_free l) < q_cap (el_tn_events_free l)"
    using distinct_room [OF D(6,9) assms(2,3)] D(4) by simp
  from q_push_ok [OF D(2) this, of i] obtain q where q:
      "tn_queue_spsc_push (el_tn_events_free l) i = Some (TN_SUCCESS, q)" "q_inv q"
      "q_elems q = ev_free l @ [i]" "q_cap q = q_cap (el_tn_events_free l)" by blast
  let ?l = "l\<lparr>el_tn_events_free := q\<rparr>"
  have "event_inv ?l"
    by (rule event_invI [OF assms(1)]) (use q D assms in \<open>auto simp del: length_q_elems\<close>)
  then show thesis using q by (intro that [of ?l]) (simp_all add: tn_event_list_free_push_def)
qed

lemma ready_pop_all_empty:
  assumes "0 < n" and "ev_ready l = []"
  shows "tn_event_list_ready_pop_all l out n = Some (TN_ERROR, out, n, l)"
  using assms q_pop_all_empty [OF assms] by (simp add: tn_event_list_ready_pop_all_def)

lemma ready_pop_all_ok:
  assumes "event_inv l" and "ev_ready l \<noteq> []" and "0 < n" and "unat n \<le> length out"
  defines "m \<equiv> min (unat n) (length (ev_ready l))"
  obtains l' where "tn_event_list_ready_pop_all l out n =
      Some (TN_SUCCESS, take m (ev_ready l) @ drop m out, of_nat m, l')" "event_inv l'"
    "ev_ready l' = drop m (ev_ready l)" "ev_free l' = ev_free l" "el_tn_events l' = el_tn_events l"
    "el_capacity l' = el_capacity l"
proof -
  note D = event_invD [OF assms(1)]
  let ?q = "(el_tn_events_ready l)\<lparr>q_tail := q_tail (el_tn_events_ready l) + of_nat m\<rparr>"
  let ?l = "l\<lparr>el_tn_events_ready := ?q\<rparr>"
  have "m < 2 ^ 64" using unat_lt64 [of n] by (simp add: m_def)
  then have m: "unat (of_nat m :: u64) = m" by (rule unat_of_nat64)
  then have "unat (of_nat m :: u64) \<le> length (ev_ready l)" by (simp add: m_def)
  from q_drop_elems [OF D(3) this] m have q: "q_inv ?q" "q_elems ?q = drop m (ev_ready l)" by simp_all
  have "event_inv ?l"
  proof (rule event_invI [OF assms(1)])
    show "distinct (ev_free ?l @ ev_ready ?l)" using D(6-8) q(2) set_drop_subset [of m "ev_ready l"] by auto
    show "set (ev_free ?l @ ev_ready ?l) \<subseteq> {..<ev_total l}"
      using D(9,10) q(2) set_drop_subset [of m "ev_ready l"] by auto
  qed (use q(1) D in simp_all)
  then show thesis
    using q_pop_all_ok [OF D(3) assms(2-4)] assms(3) q(2)
    by (intro that [of ?l]) (simp_all add: tn_event_list_ready_pop_all_def m_def)
qed

interpretation ev_pool: handle_pool "\<lambda>l. event_inv l \<and> ev_ready l = []" ev_free ev_total
  tn_event_list_free_pop_back tn_event_list_free_push
proof (unfold_locales, goal_cases)
  case (1 l)
  then obtain i "is" where "is": "ev_free l = i # is" by (cases "ev_free l") auto
  have inv: "event_inv l" using 1 by simp
  let ?q = "(el_tn_events_free l)\<lparr>q_tail := q_tail (el_tn_events_free l) + 1\<rparr>"
  note q = q_drop_one [OF event_invD(2) [OF inv] "is"]
  have "event_inv (l\<lparr>el_tn_events_free := ?q\<rparr>)"
    by (rule event_invI [OF inv]) (use q event_invD [OF inv] "is" in \<open>auto simp del: length_q_elems\<close>)
  then show ?case using q_pop_back_ok [OF event_invD(2) [OF inv] "is"] q "is" 1
    by (simp add: tn_event_list_free_pop_back_def)
next
  case (2 l)
  then show ?case using q_pop_back_empty [of "el_tn_events_free l"]
    by (simp add: tn_event_list_free_pop_back_def)
next
  case (3 l h)
  then have inv: "event_inv l" and "h \<notin> set (ev_ready l)" by simp_all
  from inv 3(2,3) this(2) show ?case by (rule free_push_ok) (use 3 in auto)
qed

section \<open>Setting up\<close>

definition ev_setup_inv :: "nat \<Rightarrow> tn_event_list \<Rightarrow> bool" where
  "ev_setup_inv k l \<longleftrightarrow> k \<le> ev_total l \<and> length (el_tn_events l) = ev_total l \<and>
     q_inv (el_tn_events_free l) \<and> q_cap (el_tn_events_free l) = ev_total l \<and> ev_free l = [0..<k] \<and>
     (\<forall>i < k. ev_id (el_tn_events l ! i) = of_nat i)"

lemma event_setup_loop_ok:
  assumes "ev_setup_inv k l" and "k + n = ev_total l" and "ev_total l \<le> 2 ^ 31" and "n \<le> fuel"
  shows "\<exists>l'. event_setup_loop fuel (of_nat k) l = Some (TN_SUCCESS, l') \<and> ev_setup_inv (k + n) l' \<and>
    el_capacity l' = el_capacity l \<and> el_tn_events_ready l' = el_tn_events_ready l"
  using assms
proof (induction n arbitrary: k l fuel)
  case 0
  have "unat (of_nat k :: u32) = k" using 0(2,3) by (simp only: unat_of_nat) simp
  then show ?case using 0 by (simp add: event_setup_loop.simps)
next
  case (Suc n)
  then obtain fuel' where fuel: "fuel = Suc fuel'" "n \<le> fuel'" by (cases fuel) auto
  have kt: "k < ev_total l" using Suc.prems(2) by simp
  then have k: "unat (of_nat k :: u32) = k" using Suc.prems(3) by (simp only: unat_of_nat) simp
  have room: "length (ev_free l) < q_cap (el_tn_events_free l)" and qinv: "q_inv (el_tn_events_free l)"
    using Suc.prems(1) kt by (simp_all add: ev_setup_inv_def del: length_q_elems)
  obtain q where q: "tn_queue_spsc_push (el_tn_events_free l) k = Some (TN_SUCCESS, q)" "q_inv q"
      "q_elems q = ev_free l @ [k]" "q_cap q = q_cap (el_tn_events_free l)"
    by (rule q_push_ok [OF qinv room, of k])
  let ?l = "l\<lparr>el_tn_events := (el_tn_events l)[k := (el_tn_events l ! k)\<lparr>ev_id := of_nat k\<rparr>], el_tn_events_free := q\<rparr>"
  have inv: "ev_setup_inv (Suc k) ?l"
    using Suc.prems(1) q kt
    by (auto simp: ev_setup_inv_def nth_list_update less_Suc_eq simp del: length_q_elems)
  have "event_setup_loop fuel (of_nat k) l = event_setup_loop fuel' (of_nat (Suc k)) ?l"
    using fuel(1) k kt q(1) Suc.prems(1)
    by (subst event_setup_loop.simps) (simp add: ev_setup_inv_def add.commute)
  then show ?case using Suc.IH [OF inv, of fuel'] Suc.prems(2,3) fuel(2) by simp
qed

lemma q_setup_cap:
  "tn_queue_spsc_setup True junk q c = Some (TN_SUCCESS, q') \<Longrightarrow> q_capacity q' = round_capacity c"
  by (auto simp: tn_queue_spsc_setup_def Let_def split: if_splits)

text \<open>Setting up the events for a capacity of up to 2 to the 30 gives a list in which every event is free and
  carries its index as id, with the capacity rounded up to a power of two: for the 40000 of the
  service there are 65536 events.\<close>

lemma event_list_setup_ok:
  assumes "0 < c" and "unat c \<le> 2 ^ 30"
  shows "\<exists>l. tn_event_list_setup True j1 True j2 True j3 l0 c = Some (TN_SUCCESS, l) \<and> event_inv l \<and>
    ev_free l = [0..<ev_total l] \<and> ev_ready l = [] \<and> el_capacity l = round_capacity c \<and>
    unat c \<le> ev_total l \<and> (\<forall>i < ev_total l. ev_id (el_tn_events l ! i) = of_nat i)"
proof -
  have c: "unat c \<le> 2 ^ 60" using assms(2) by simp
  obtain q1 where q1: "tn_queue_spsc_setup True j1 (el_tn_events_free l0) c = Some (TN_SUCCESS, q1)" "q_inv q1"
      "q_elems q1 = []" "unat c \<le> q_cap q1" "q_cap q1 < 2 * unat c" by (rule q_setup_ok [OF assms(1) c])
  obtain q2 where q2: "tn_queue_spsc_setup True j2 (el_tn_events_ready l0) c = Some (TN_SUCCESS, q2)" "q_inv q2"
      "q_elems q2 = []" by (rule q_setup_ok [OF assms(1) c])
  have cap: "q_capacity q1 = round_capacity c" "q_capacity q2 = round_capacity c"
    using q_setup_cap [OF q1(1)] q_setup_cap [OF q2(1)] by simp_all
  let ?t = "unat (round_capacity c)"
  have t: "unat c \<le> ?t" "?t \<le> 2 ^ 31" using q1(4,5) cap assms(2) by (simp_all add: q_cap_def)
  have "unat (round_capacity c * 256) = ?t * 256" using t(2) by (subst unat_mult64) simp_all
  then have n: "unat (round_capacity c * 256) div 256 = ?t" by simp
  define l1 where "l1 = l0\<lparr>el_tn_events_free := q1, el_tn_events_ready := q2, el_capacity := round_capacity c,
    el_tn_events := map j3 [0..<?t]\<rparr>"
  have "ev_setup_inv 0 l1"
    using q1(2,3) cap(1) by (simp add: ev_setup_inv_def l1_def q_cap_def del: length_q_elems)
  then obtain l where l: "event_setup_loop (Suc ?t) 0 l1 = Some (TN_SUCCESS, l)" "ev_setup_inv ?t l"
      "el_capacity l = round_capacity c" "el_tn_events_ready l = q2"
    using event_setup_loop_ok [of 0 l1 ?t "Suc ?t"] t(2) by (auto simp: l1_def)
  have "tn_event_list_setup True j1 True j2 True j3 l0 c = Some (TN_SUCCESS, l)"
    using q1(1) q2(1) assms(1) cap(2) n l(1)
    by (simp add: tn_event_list_setup_def Let_def tn_queue_spsc_capacity_def l1_def)
  moreover have "event_inv l"
    using l(2-4) q2(2,3) cap(2)
    by (simp add: event_inv_def ev_setup_inv_def q_cap_def lessThan_atLeast0 del: length_q_elems)
  ultimately show ?thesis using l(2-4) q2(3) t(1) by (simp add: ev_setup_inv_def del: length_q_elems)
qed

end
