(* ===== verification/Tn_Queue_Relaxed.thy ===== *)
theory Tn_Queue_Relaxed
  imports Tn_Queue_Conc Tn_Atomic Tn_Event
begin

text \<open>
  The queue of \<open>src/queue_spsc.c\<close> under two threads when the last store of
  \<open>tn_queue_spsc_pop_all\<close>, which has the order \<open>TN_ATOMIC_RELAXED\<close>, is seen by the producer
  before the reads of the slots (\<open>Tn_Atomic.queue_pop_all_may_publish_early\<close>). The steps are
  those of \<open>Tn_Queue_Conc\<close>, with one more for the consumer: a copy loop that stores \<open>tail\<close> now
  and reads the rest of its slots later (\<open>R_late\<close>). The step is there only when the order of the
  store does not keep it behind the reads.

  A full queue then loses a pointer. The event list is not affected: it never has more pointers
  in circulation than slots, and a pointer goes back to the producer only after \<open>pop_all\<close>
  returned it; \<open>circ_step\<close> is that discipline, and under it the queue is still a FIFO queue
  that never refuses an insertion.
\<close>

section \<open>A consumer that publishes early\<close>

datatype 'p rcons_pc =
    R_seq "'p cons_pc"
  | R_late nat u64 "'p list"

fun rcons_step ::
  "'p tn_queue_spsc \<Rightarrow> 'p rcons_pc \<Rightarrow> ('p tn_queue_spsc \<times> 'p rcons_pc \<times> 'p list) option" where
  "rcons_step q (R_seq pc) = do {
     (q, pc, ps) \<leftarrow> cons_step q pc;
     Some (q, R_seq pc, ps)
   }"
| "rcons_step q (R_late cnt tail acc) =
     (if length acc < cnt then do {
        p \<leftarrow> arr_get (q_buffer q) (unat ((tail + of_nat (length acc)) AND q_mask q));
        Some (q, R_late cnt tail (acc @ [p]), [])
      }
      else Some (q, R_seq C_idle, acc))"

text \<open>The early store, for a store of \<open>tail\<close> with the given memory order.\<close>

fun rcons_publish ::
  "int \<Rightarrow> 'p tn_queue_spsc \<Rightarrow> 'p rcons_pc \<Rightarrow> ('p tn_queue_spsc \<times> 'p rcons_pc) option" where
  "rcons_publish order q (R_seq (C_copy cnt tail acc)) = do {
     ord \<leftarrow> aws_atomic_priv_xlate_order order;
     if releases (Access Store Q_tail (Some ord)) then None
     else Some (q\<lparr>q_tail := tail + of_nat cnt\<rparr>, R_late cnt tail acc)
   }"
| "rcons_publish order q pc = None"

record 'p relaxed =
  rq :: "'p tn_queue_spsc"
  rproducer :: "'p prod_pc"
  rconsumer :: "'p rcons_pc"
  rpushed :: "'p list"
  rpopped :: "'p list"
  pool :: "'p list"
  held :: "'p list"

section \<open>A schedule that loses a pointer\<close>

datatype 'p rsched = RCall_push 'p | RStep_push | RCall_pop nat | RPublish | RStep_pop

fun relaxed_exec :: "int \<Rightarrow> 'p relaxed \<Rightarrow> 'p rsched \<Rightarrow> 'p relaxed option" where
  "relaxed_exec order s (RCall_push p) =
     (if rproducer s = P_idle then Some (s\<lparr>rproducer := P_call p\<rparr>) else None)"
| "relaxed_exec order s RStep_push = do {
     (q, pc, ps) \<leftarrow> prod_step (rq s) (rproducer s);
     Some (s\<lparr>rq := q, rproducer := pc, rpushed := rpushed s @ ps\<rparr>)
   }"
| "relaxed_exec order s (RCall_pop limit) =
     (if rconsumer s = R_seq C_idle \<and> 0 < limit then Some (s\<lparr>rconsumer := R_seq (C_call limit)\<rparr>)
      else None)"
| "relaxed_exec order s RPublish = do {
     (q, pc) \<leftarrow> rcons_publish order (rq s) (rconsumer s);
     Some (s\<lparr>rq := q, rconsumer := pc\<rparr>)
   }"
| "relaxed_exec order s RStep_pop = do {
     (q, pc, ps) \<leftarrow> rcons_step (rq s) (rconsumer s);
     Some (s\<lparr>rq := q, rconsumer := pc, rpopped := rpopped s @ ps, held := held s @ ps\<rparr>)
   }"

fun relaxed_run :: "int \<Rightarrow> 'p relaxed \<Rightarrow> 'p rsched list \<Rightarrow> 'p relaxed option" where
  "relaxed_run order s [] = Some s"
| "relaxed_run order s (x # xs) = do { s \<leftarrow> relaxed_exec order s x; relaxed_run order s xs }"

definition relaxed_start :: "'p tn_queue_spsc \<Rightarrow> 'p list \<Rightarrow> 'p relaxed" where
  "relaxed_start q ps = \<lparr>rq = q, rproducer = P_idle, rconsumer = R_seq C_idle, rpushed = [],
     rpopped = [], pool = ps, held = []\<rparr>"

text \<open>
  \<open>pop_all\<close> on a full queue whose store of \<open>tail\<close> is seen before it reads a slot, with one
  insertion in between.
\<close>

definition early_schedule :: "nat \<Rightarrow> 'p \<Rightarrow> 'p rsched list" where
  "early_schedule n p = [RCall_pop n, RStep_pop, RStep_pop, RStep_pop, RPublish,
     RCall_push p, RStep_push, RStep_push, RStep_push, RStep_push] @ replicate (Suc n) RStep_pop"

lemma relaxed_run_append:
  "relaxed_run order s (xs @ ys) = do { s \<leftarrow> relaxed_run order s xs; relaxed_run order s ys }"
  by (induction xs arbitrary: s) (simp_all add: Option.bind_assoc)

text \<open>The reads after the early store, and the return.\<close>

definition late_slots :: "'p tn_queue_spsc \<Rightarrow> u64 \<Rightarrow> nat \<Rightarrow> nat \<Rightarrow> 'p list" where
  "late_slots q tail i cnt = map (\<lambda>i. q_buffer q ! unat ((tail + of_nat i) AND q_mask q)) [i..<cnt]"

lemma late_slots_Cons: "i < cnt \<Longrightarrow>
    late_slots q tail i cnt = q_buffer q ! unat ((tail + of_nat i) AND q_mask q) # late_slots q tail (Suc i) cnt"
  by (simp add: late_slots_def upt_conv_Cons)

lemma late_reads:
  assumes "rconsumer s = R_late cnt tail acc" and "cnt = length acc + n"
    and "\<And>i. unat ((tail + of_nat i) AND q_mask (rq s)) < length (q_buffer (rq s))"
  shows "relaxed_run order s (replicate (Suc n) RStep_pop) =
    Some (s\<lparr>rconsumer := R_seq C_idle, rpopped := rpopped s @ acc @ late_slots (rq s) tail (length acc) cnt,
      held := held s @ acc @ late_slots (rq s) tail (length acc) cnt\<rparr>)"
  using assms
proof (induction n arbitrary: s acc)
  case 0
  then show ?case by (simp add: late_slots_def)
next
  case (Suc n)
  let ?p = "q_buffer (rq s) ! unat ((tail + of_nat (length acc)) AND q_mask (rq s))"
  let ?s = "s\<lparr>rconsumer := R_late cnt tail (acc @ [?p])\<rparr>"
  have lt: "length acc < cnt" using Suc.prems(2) by simp
  have "relaxed_exec order s RStep_pop = Some ?s" using Suc.prems(1,3) lt by simp
  moreover have "relaxed_run order ?s (replicate (Suc n) RStep_pop) = Some (?s\<lparr>rconsumer := R_seq C_idle,
      rpopped := rpopped ?s @ (acc @ [?p]) @ late_slots (rq ?s) tail (length (acc @ [?p])) cnt,
      held := held ?s @ (acc @ [?p]) @ late_slots (rq ?s) tail (length (acc @ [?p])) cnt\<rparr>)"
    using Suc.prems by (intro Suc.IH) simp_all
  ultimately show ?case using late_slots_Cons [OF lt, of "rq s" tail] by simp
qed

lemma q_slot_wraps: "q_inv q \<Longrightarrow> q_slot q (q_cap q) = q_slot q 0"
  by (erule q_invE) (simp add: q_slot_mod)

text \<open>What the late reads find when the slot of the oldest pointer has been written again.\<close>

lemma late_slots_overwritten:
  assumes inv: "q_inv q" and elems: "q_elems q = x # xs" and full: "length (q_elems q) = q_cap q"
  shows "late_slots (q\<lparr>q_tail := t, q_buffer := (q_buffer q)[q_slot q 0 := p], q_head := h\<rparr>)
    (q_tail q) 0 (q_cap q) = p # xs"
proof (rule nth_equalityI)
  let ?b = "(q_buffer q)[q_slot q 0 := p]"
  have len: "length (late_slots (q\<lparr>q_tail := t, q_buffer := ?b, q_head := h\<rparr>) (q_tail q) 0 (q_cap q)) = q_cap q"
    by (simp add: late_slots_def)
  then show "length (late_slots (q\<lparr>q_tail := t, q_buffer := ?b, q_head := h\<rparr>) (q_tail q) 0 (q_cap q)) =
      length (p # xs)"
    using full elems by simp
  fix i assume "i < length (late_slots (q\<lparr>q_tail := t, q_buffer := ?b, q_head := h\<rparr>) (q_tail q) 0 (q_cap q))"
  then have i: "i < q_cap q" by (simp add: len)
  have "late_slots (q\<lparr>q_tail := t, q_buffer := ?b, q_head := h\<rparr>) (q_tail q) 0 (q_cap q) ! i = ?b ! q_slot q i"
    using i by (simp add: late_slots_def q_slot_def)
  also have "\<dots> = (p # xs) ! i"
  proof (cases i)
    case 0
    then show ?thesis using q_slot_in_buffer [OF inv] by simp
  next
    case (Suc j)
    then have "q_slot q 0 \<noteq> q_slot q i" using q_slot_inj [OF inv, of 0 i] i by auto
    then have "?b ! q_slot q i = q_elems q ! i" using q_elems_nth [of i q] i full by simp
    then show ?thesis using elems Suc by simp
  qed
  finally show "late_slots (q\<lparr>q_tail := t, q_buffer := ?b, q_head := h\<rparr>) (q_tail q) 0 (q_cap q) ! i =
      (p # xs) ! i" .
qed

text \<open>Property C23. With the memory order that \<open>tn_queue_spsc_pop_all\<close> gives its last store, a
  consumer that empties a full queue can return the pointer of an insertion made in the meantime
  in place of the oldest one, which is lost, while the inserted one is also still in the queue.\<close>

theorem relaxed_pop_all_loses_pointer:
  assumes "q_inv q" and "q_elems q = x # xs" and "length (q_elems q) = q_cap q"
  shows "\<exists>s. relaxed_run TN_ATOMIC_RELAXED (relaxed_start q ps) (early_schedule (q_cap q) p) = Some s \<and>
    rpushed s = [p] \<and> rpopped s = p # xs \<and> q_elems (rq s) = [p]"
proof -
  let ?n = "q_cap q"
  have n: "0 < ?n" using assms(2,3) by simp
  have diff: "q_head q - q_tail q = q_capacity q" using assms(1,3) by (simp add: q_full_iff)
  have ofn: "of_nat ?n = q_capacity q" by (simp add: q_cap_def)
  have un: "unat (q_capacity q) = ?n" by (simp add: q_cap_def)
  have head: "q_tail q + q_capacity q = q_head q" using diff by (simp add: algebra_simps)
  have ne: "q_head q \<noteq> q_tail q" using assms(2) q_empty_iff [of q] by auto
  have cap0: "q_capacity q \<noteq> 0" using n by (auto simp: q_cap_def)
  have slot: "unat (q_head q AND q_mask q) = q_slot q 0"
    using q_slot_head [of q] q_slot_wraps [OF assms(1)] assms(3) by simp
  have sl: "q_slot q 0 < length (q_buffer q)" by (rule q_slot_in_buffer [OF assms(1)])
  let ?q = "q\<lparr>q_tail := q_head q, q_buffer := (q_buffer q)[q_slot q 0 := p], q_head := q_head q + 1\<rparr>"
  let ?s = "(relaxed_start q ps)\<lparr>rq := ?q, rconsumer := R_late ?n (q_tail q) [], rpushed := [p]\<rparr>"
  have "relaxed_run TN_ATOMIC_RELAXED (relaxed_start q ps) [RCall_pop ?n, RStep_pop, RStep_pop, RStep_pop,
      RPublish, RCall_push p, RStep_push, RStep_push, RStep_push, RStep_push] = Some ?s"
    using n ne sl cap0 by (simp add: relaxed_start_def diff un ofn head slot TN_ATOMIC_RELAXED_def
        aws_atomic_priv_xlate_order_def)
  moreover have "unat ((q_tail q + of_nat i) AND q_mask ?q) < length (q_buffer ?q)" for i
    using q_slot_in_buffer [OF assms(1), of i] by (simp add: q_slot_def)
  then have "relaxed_run TN_ATOMIC_RELAXED ?s (replicate (Suc ?n) RStep_pop) =
      Some (?s\<lparr>rconsumer := R_seq C_idle, rpopped := p # xs, held := p # xs\<rparr>)"
    using late_reads [of ?s ?n "q_tail q" "[]" ?n TN_ATOMIC_RELAXED]
      late_slots_overwritten [OF assms] by (simp add: relaxed_start_def)
  moreover have "q_elems ?q = [p]"
    using sl slot by (simp add: q_elems_def q_slot_def)
  ultimately show ?thesis
    by (intro exI [of _ "?s\<lparr>rconsumer := R_seq C_idle, rpopped := p # xs, held := p # xs\<rparr>"])
      (simp only: early_schedule_def relaxed_run_append, simp)
qed

text \<open>The full queue that holds the pointers 5 and 6.\<close>

definition q_full2 :: "nat tn_queue_spsc" where
  "q_full2 = q_fresh2\<lparr>q_buffer := [5, 6, 0], q_head := 2\<rparr>"

lemma q_full2_ok: "q_inv q_full2" "q_elems q_full2 = [5, 6]" "length (q_elems q_full2) = q_cap q_full2"
proof -
  show "q_inv q_full2" by (auto simp: q_inv_def q_full2_def q_fresh2_def intro!: exI [of _ 1])
  show "q_elems q_full2 = [5, 6]"
    by (simp add: q_elems_def q_full2_def q_fresh2_def q_slot_def upt_conv_Cons)
  show "length (q_elems q_full2) = q_cap q_full2" by (simp add: q_full2_def q_fresh2_def q_cap_def)
qed

theorem relaxed_pop_all_loses_pointer_witness:
  "\<exists>s. relaxed_run TN_ATOMIC_RELAXED (relaxed_start q_full2 []) (early_schedule (q_cap q_full2) 7) = Some s \<and>
    rpushed s = [7] \<and> rpopped s = [7, 6] \<and> q_elems (rq s) = [7]"
  by (rule relaxed_pop_all_loses_pointer [OF q_full2_ok])

section \<open>Pointers in circulation\<close>

text \<open>
  How the event list uses the queue: a pointer is inserted when it was taken from the free
  pointers (\<open>pool\<close>, the queue \<open>tn_events_free\<close>), and a pointer that was removed (\<open>held\<close>) is
  given back to them when it has been handled.
\<close>

inductive circ_step :: "int \<Rightarrow> 'p relaxed \<Rightarrow> 'p relaxed \<Rightarrow> bool" for order where
  take_free: "rproducer s = P_idle \<Longrightarrow> pool s = p # ps \<Longrightarrow>
    circ_step order s (s\<lparr>rproducer := P_call p, pool := ps\<rparr>)"
| access: "relaxed_exec order s x = Some t \<Longrightarrow> x \<in> {RStep_push, RCall_pop n, RPublish, RStep_pop} \<Longrightarrow>
    circ_step order s t"
| give_back: "held s = p # ps \<Longrightarrow> circ_step order s (s\<lparr>held := ps, pool := pool s @ [p]\<rparr>)"

inductive circ_reachable :: "int \<Rightarrow> 'p tn_queue_spsc \<Rightarrow> 'p list \<Rightarrow> 'p relaxed \<Rightarrow> bool"
  for order q0 ps where
  start: "circ_reachable order q0 ps (relaxed_start q0 ps)"
| step: "circ_reachable order q0 ps s \<Longrightarrow> circ_step order s t \<Longrightarrow> circ_reachable order q0 ps t"

text \<open>
  The state in which the early store has not happened yet, as \<open>Tn_Queue_Conc\<close> knows it: \<open>tail\<close>
  rolled back to what the copy loop started from. A producer that has just loaded \<open>tail\<close> may
  have seen the early store, so that point is not part of it.
\<close>

fun rview :: "'p tn_queue_spsc \<Rightarrow> 'p rcons_pc \<Rightarrow> 'p tn_queue_spsc" where
  "rview q (R_seq pc) = q"
| "rview q (R_late cnt tail acc) = q\<lparr>q_tail := tail\<rparr>"

fun rpc :: "'p rcons_pc \<Rightarrow> 'p cons_pc" where
  "rpc (R_seq pc) = pc"
| "rpc (R_late cnt tail acc) = C_copy cnt tail acc"

fun settled :: "'p prod_pc \<Rightarrow> 'p prod_pc" where
  "settled (P_tail p head tail) = P_idle"
| "settled pc = pc"

definition rabs :: "'p relaxed \<Rightarrow> 'p spsc" where
  "rabs s = \<lparr>sq = rview (rq s) (rconsumer s), producer = settled (rproducer s),
     consumer = rpc (rconsumer s), pushed = rpushed s, popped = rpopped s\<rparr>"

fun late_ok :: "'p tn_queue_spsc \<Rightarrow> 'p rcons_pc \<Rightarrow> bool" where
  "late_ok q (R_seq pc) = True"
| "late_ok q (R_late cnt tail acc) = (q_tail q = tail + of_nat cnt)"

fun tail_seen :: "'p tn_queue_spsc \<Rightarrow> 'p prod_pc \<Rightarrow> bool" where
  "tail_seen q (P_tail p head tail) = (head = q_head q \<and> unat (head - tail) < q_cap q)"
| "tail_seen q pc = True"

fun in_flight :: "'p prod_pc \<Rightarrow> nat" where
  "in_flight P_idle = 0"
| "in_flight pc = 1"

definition circ_inv :: "'p relaxed \<Rightarrow> bool" where
  "circ_inv s \<longleftrightarrow> spsc_inv (rabs s) \<and> tail_seen (rq s) (rproducer s) \<and> late_ok (rq s) (rconsumer s) \<and>
     length (pool s) + in_flight (rproducer s) + length (q_elems (sq (rabs s))) + length (held s)
       \<le> q_cap (rq s)"

lemma rview_sel [simp]:
  "q_head (rview q c) = q_head q" "q_capacity (rview q c) = q_capacity q" "q_mask (rview q c) = q_mask q"
  "q_buffer (rview q c) = q_buffer q" "q_cap (rview q c) = q_cap q"
  by (cases c; simp add: q_cap_def)+

lemma rview_update [simp]:
  "rview (q\<lparr>q_buffer := b\<rparr>) c = (rview q c)\<lparr>q_buffer := b\<rparr>"
  "rview (q\<lparr>q_head := h\<rparr>) c = (rview q c)\<lparr>q_head := h\<rparr>"
  by (cases c; simp)+

lemma late_ok_update [simp]:
  "late_ok (q\<lparr>q_buffer := b\<rparr>) c = late_ok q c" "late_ok (q\<lparr>q_head := h\<rparr>) c = late_ok q c"
  by (cases c; simp)+

lemma tail_seen_cong: "tail_seen q pc \<Longrightarrow> q_head q' = q_head q \<Longrightarrow> q_cap q' = q_cap q \<Longrightarrow> tail_seen q' pc"
  by (cases pc) auto

text \<open>The queue as the producer sees it holds what the rolled-back one holds behind the batch.\<close>

lemma late_real_elems:
  assumes "spsc_inv (rabs s)" and "late_ok (rq s) (rconsumer s)"
  shows "length (q_elems (rq s)) \<le> length (q_elems (sq (rabs s)))"
    and "rconsumer s = R_late cnt tail acc \<Longrightarrow> q_elems (rq s) = drop cnt (q_elems (sq (rabs s)))"
proof -
  have "q_elems (rq s) = drop cnt (q_elems (sq (rabs s)))" if c: "rconsumer s = R_late cnt tail acc"
    for cnt tail acc
  proof -
    let ?v = "(rq s)\<lparr>q_tail := tail\<rparr>"
    have v: "q_inv ?v" "cnt \<le> length (q_elems ?v)"
      using assms(1) c by (auto simp: rabs_def spsc_inv_def simp del: length_q_elems)
    then have "cnt < 2 ^ 64" using unat_lt64 [of "q_head ?v - q_tail ?v"] by simp
    then have u: "unat (of_nat cnt :: u64) = cnt" by (rule unat_of_nat64)
    moreover have "?v\<lparr>q_tail := q_tail ?v + of_nat cnt\<rparr> = rq s" using assms(2) c by simp
    ultimately show ?thesis
      using q_drop_elems(2) [OF v(1), of "of_nat cnt"] v(2) c by (simp add: rabs_def del: length_q_elems)
  qed
  note d = this
  then show "rconsumer s = R_late cnt tail acc \<Longrightarrow> q_elems (rq s) = drop cnt (q_elems (sq (rabs s)))" .
  show "length (q_elems (rq s)) \<le> length (q_elems (sq (rabs s)))"
  proof (cases "rconsumer s")
    case (R_late cnt tail acc)
    show ?thesis unfolding d [OF R_late] by (simp del: length_q_elems)
  qed (simp add: rabs_def)
qed

lemma circ_push_inv:
  assumes inv: "circ_inv s" and st: "relaxed_exec order s RStep_push = Some t"
  shows "circ_inv t"
proof -
  note i = inv [unfolded circ_inv_def]
  have abs: "spsc_inv (rabs s)" using i by blast
  have qi: "q_inv (sq (rabs s))" using abs by (simp add: spsc_inv_def)
  show ?thesis
  proof (cases "rproducer s")
    case (P_call p)
    then show ?thesis using i st by (auto simp: circ_inv_def rabs_def spsc_inv_def)
  next
    case (P_head p head)
    have "length (q_elems (rq s)) < q_cap (rq s)"
      using late_real_elems(1) [OF abs] i P_head by (simp del: length_q_elems)
    moreover have "head = q_head (rq s)" using abs P_head by (simp add: spsc_inv_def rabs_def)
    ultimately show ?thesis using i st P_head by (auto simp: circ_inv_def rabs_def spsc_inv_def)
  next
    case (P_tail p head tail)
    let ?v = "sq (rabs s)" and ?slot = "unat (head AND q_mask (rq s))"
    have h: "head = q_head (rq s)" "unat (head - tail) < q_cap (rq s)" using i P_tail by auto
    then have nf: "head - tail \<noteq> q_capacity (rq s)" by (auto simp: q_cap_def)
    have room: "length (q_elems ?v) < q_cap (rq s)" using i P_tail by (simp del: length_q_elems)
    have slot: "?slot = q_slot ?v (length (q_elems ?v))"
      using h(1) q_slot_head [of ?v] by (simp add: rabs_def)
    then have "?slot < length (q_buffer (rq s))"
      using q_slot_in_buffer [OF qi, of "length (q_elems ?v)"] by (simp add: rabs_def)
    then have t: "t = s\<lparr>rq := (rq s)\<lparr>q_buffer := (q_buffer (rq s))[?slot := p]\<rparr>, rproducer := P_wrote p head\<rparr>"
      using st P_tail nf by auto
    let ?s = "(rabs s)\<lparr>producer := P_tail p head (q_tail ?v)\<rparr>"
    have "spsc_inv ?s" using abs h(1) room by (auto simp: spsc_inv_def rabs_def)
    moreover have "prod_step (sq ?s) (producer ?s) =
        Some (?v\<lparr>q_buffer := (q_buffer (rq s))[?slot := p]\<rparr>, P_wrote p head, [])"
      using room h(1) \<open>?slot < length (q_buffer (rq s))\<close>
      by (auto simp: rabs_def q_cap_def)
    ultimately have "spsc_inv (?s\<lparr>sq := ?v\<lparr>q_buffer := (q_buffer (rq s))[?slot := p]\<rparr>,
        producer := P_wrote p head, pushed := pushed ?s @ []\<rparr>)"
      by (rule prod_step_inv)
    then show ?thesis using i P_tail t by (simp add: circ_inv_def rabs_def q_cap_def)
  next
    case (P_wrote p head)
    let ?q = "(sq (rabs s))\<lparr>q_head := head + 1\<rparr>"
    have t: "t = s\<lparr>rq := (rq s)\<lparr>q_head := head + 1\<rparr>, rproducer := P_idle, rpushed := rpushed s @ [p]\<rparr>"
      using st P_wrote by auto
    have "prod_step (sq (rabs s)) (producer (rabs s)) = Some (?q, P_idle, [p])"
      using P_wrote by (simp add: rabs_def)
    with abs have new: "spsc_inv ((rabs s)\<lparr>sq := ?q, producer := P_idle, pushed := pushed (rabs s) @ [p]\<rparr>)"
      by (rule prod_step_inv)
    have "length (q_elems ?q) = Suc (length (q_elems (sq (rabs s))))"
    proof -
      have "pushed (rabs s) @ [p] = popped (rabs s) @ q_elems ?q" using new by (simp add: spsc_inv_def)
      moreover have "pushed (rabs s) = popped (rabs s) @ q_elems (sq (rabs s))"
        using abs by (simp add: spsc_inv_def)
      ultimately show ?thesis by (metis append.assoc append_same_eq same_append_eq length_append_singleton)
    qed
    then show ?thesis using i P_wrote t new
      by (simp add: circ_inv_def rabs_def q_cap_def del: length_q_elems)
  qed (use st in simp)
qed

lemma circ_pop_inv:
  assumes inv: "circ_inv s" and st: "cons_step (sq (rabs s)) (consumer (rabs s)) = Some (v, pc, ps)"
    and t: "rabs t = (rabs s)\<lparr>sq := v, consumer := pc, popped := popped (rabs s) @ ps\<rparr>"
    and rest: "late_ok (rq t) (rconsumer t)" "rproducer t = rproducer s" "pool t = pool s"
      "held t = held s @ ps" "q_head (rq t) = q_head (rq s)" "q_cap (rq t) = q_cap (rq s)"
  shows "circ_inv t"
proof -
  note i = inv [unfolded circ_inv_def]
  have new: "spsc_inv (rabs t)" unfolding t using i st by (intro cons_step_inv) auto
  moreover have "length ps + length (q_elems v) = length (q_elems (sq (rabs s)))"
  proof -
    have "pushed (rabs s) = (popped (rabs s) @ ps) @ q_elems v" using new t by (simp add: spsc_inv_def)
    moreover have "pushed (rabs s) = popped (rabs s) @ q_elems (sq (rabs s))"
      using i by (simp add: spsc_inv_def)
    ultimately have "ps @ q_elems v = q_elems (sq (rabs s))" by simp
    then show ?thesis by (metis length_append)
  qed
  moreover have "tail_seen (rq t) (rproducer t)" using i rest tail_seen_cong by metis
  moreover have "sq (rabs t) = v" by (simp add: t)
  ultimately show ?thesis using i rest by (simp add: circ_inv_def del: length_q_elems)
qed

lemma cons_step_cap: "cons_step q pc = Some (q', pc', ps) \<Longrightarrow> q_head q' = q_head q \<and> q_cap q' = q_cap q"
  by (cases pc) (auto simp: bind_eq_Some_conv split: if_splits)

lemma circ_step_pop_inv:
  assumes inv: "circ_inv s" and st: "relaxed_exec order s RStep_pop = Some t"
  shows "circ_inv t"
proof (cases "rconsumer s")
  case (R_seq pc)
  then obtain q pc' ps where c: "cons_step (rq s) pc = Some (q, pc', ps)"
    and t: "t = s\<lparr>rq := q, rconsumer := R_seq pc', rpopped := rpopped s @ ps, held := held s @ ps\<rparr>"
    using st by (auto simp: bind_eq_Some_conv)
  show ?thesis
    by (rule circ_pop_inv [OF inv, of q pc' ps])
      (use R_seq c t cons_step_cap [OF c] in \<open>simp_all add: rabs_def\<close>)
next
  case (R_late cnt tail acc)
  have late: "q_tail (rq s) = tail + of_nat cnt" using inv R_late by (simp add: circ_inv_def)
  show ?thesis
  proof (cases "length acc < cnt")
    case True
    then obtain p where p: "arr_get (q_buffer (rq s)) (unat ((tail + of_nat (length acc)) AND q_mask (rq s))) = Some p"
      and t: "t = s\<lparr>rconsumer := R_late cnt tail (acc @ [p])\<rparr>"
      using st R_late by (auto simp: bind_eq_Some_conv)
    show ?thesis
      by (rule circ_pop_inv [OF inv, of "sq (rabs s)" "C_copy cnt tail (acc @ [p])" "[]"])
        (use R_late True p t late in \<open>simp_all add: rabs_def\<close>)
  next
    case False
    have t: "t = s\<lparr>rconsumer := R_seq C_idle, rpopped := rpopped s @ acc, held := held s @ acc\<rparr>"
      using st R_late False by simp
    show ?thesis
      by (rule circ_pop_inv [OF inv, of "rq s" C_idle acc])
        (use R_late False t late in \<open>simp_all add: rabs_def\<close>)
  qed
qed

lemma circ_publish_inv:
  assumes inv: "circ_inv s" and st: "relaxed_exec order s RPublish = Some t"
  shows "circ_inv t"
proof -
  obtain cnt tail acc where c: "rconsumer s = R_seq (C_copy cnt tail acc)"
    and t: "t = s\<lparr>rq := (rq s)\<lparr>q_tail := tail + of_nat cnt\<rparr>, rconsumer := R_late cnt tail acc\<rparr>"
    using st by (cases "(order, rq s, rconsumer s)" rule: rcons_publish.cases)
      (auto simp: bind_eq_Some_conv split: if_splits)
  have "tail = q_tail (rq s)" using inv c by (simp add: circ_inv_def spsc_inv_def rabs_def)
  then have "rabs t = rabs s" using c t by (simp add: rabs_def)
  moreover have "tail_seen (rq t) (rproducer t)"
    using inv t tail_seen_cong [of "rq s" "rproducer s" "rq t"] by (simp add: circ_inv_def)
  ultimately show ?thesis using inv t by (simp add: circ_inv_def)
qed

lemma circ_step_inv: "circ_step order s t \<Longrightarrow> circ_inv s \<Longrightarrow> circ_inv t"
proof (induction rule: circ_step.induct)
  case (take_free s p ps)
  then show ?case by (auto simp: circ_inv_def rabs_def spsc_inv_def)
next
  case (access s x t n)
  consider "x = RStep_push" | "x = RCall_pop n" | "x = RPublish" | "x = RStep_pop" using access.hyps(2) by blast
  then show ?case
  proof cases
    case 2
    then show ?thesis using access by (auto simp: circ_inv_def rabs_def spsc_inv_def split: if_splits)
  qed (use access circ_push_inv circ_publish_inv circ_step_pop_inv in blast)+
next
  case (give_back s p ps)
  then show ?case by (auto simp: circ_inv_def rabs_def)
qed

lemma circ_reachable_inv:
  assumes "circ_reachable order q0 ps s" and "q_inv q0" and "q_elems q0 = []" and "length ps \<le> q_cap q0"
  shows "circ_inv s"
  using assms(1)
proof (induction rule: circ_reachable.induct)
  case start
  have "unat (q_head q0 - q_tail q0) = 0" using assms(3) length_q_elems [of q0] by simp
  then show ?case using assms(2-4) by (simp add: circ_inv_def relaxed_start_def rabs_def spsc_inv_def)
next
  case (step s t)
  then show ?case by (blast intro: circ_step_inv)
qed

section \<open>Properties of the circulation\<close>

text \<open>The pointers of a batch whose removal can be seen already and that was not returned yet.\<close>

fun unreturned :: "'p tn_queue_spsc \<Rightarrow> 'p rcons_pc \<Rightarrow> 'p list" where
  "unreturned q (R_seq pc) = []"
| "unreturned q (R_late cnt tail acc) = acc @ late_slots q tail (length acc) cnt"

lemma unreturned_batch:
  assumes "spsc_inv (rabs s)" and "late_ok (rq s) (rconsumer s)"
  shows "q_elems (sq (rabs s)) = unreturned (rq s) (rconsumer s) @ q_elems (rq s)"
proof (cases "rconsumer s")
  case (R_late cnt tail acc)
  let ?v = "(rq s)\<lparr>q_tail := tail\<rparr>"
  have v: "sq (rabs s) = ?v" using R_late by (simp add: rabs_def)
  have ok: "cnt \<le> length (q_elems ?v)" "length acc \<le> cnt" "acc = take (length acc) (q_elems ?v)"
    using assms(1) R_late by (auto simp: rabs_def spsc_inv_def simp del: length_q_elems)
  have "late_slots (rq s) tail (length acc) cnt = drop (length acc) (take cnt (q_elems ?v))"
  proof (rule nth_equalityI)
    show "length (late_slots (rq s) tail (length acc) cnt) = length (drop (length acc) (take cnt (q_elems ?v)))"
      using ok(1) by (simp add: late_slots_def)
    fix i assume "i < length (late_slots (rq s) tail (length acc) cnt)"
    then have "length acc + i < cnt" by (simp add: late_slots_def)
    moreover from this have "[length acc..<cnt] ! i = length acc + i" by simp
    ultimately show "late_slots (rq s) tail (length acc) cnt ! i = drop (length acc) (take cnt (q_elems ?v)) ! i"
      using ok(1) q_elems_nth [of "length acc + i" ?v] by (simp add: late_slots_def q_slot_def)
  qed
  moreover have "acc = take (length acc) (take cnt (q_elems ?v))"
    using ok(2,3) by (simp add: min_def)
  ultimately have "acc @ late_slots (rq s) tail (length acc) cnt = take cnt (q_elems ?v)"
    by (metis append_take_drop_id)
  then show ?thesis using late_real_elems(2) [OF assms R_late] v R_late by simp
qed (simp add: rabs_def)

text \<open>Whatever the memory order of the last store of \<open>pop_all\<close>: when no more pointers are in
  circulation than the queue has slots, and a pointer is free again only after \<open>pop_all\<close>
  returned it, the pointers removed are the pointers inserted, in order, up to a batch about to be
  returned and the content of the queue, and no insertion finds the queue full.\<close>

lemma circulation_fifo:
  assumes "circ_reachable order q0 ps s" and "q_inv q0" and "q_elems q0 = []" and "length ps \<le> q_cap q0"
  shows "rpushed s = rpopped s @ unreturned (rq s) (rconsumer s) @ q_elems (rq s) \<and>
    (\<forall>p head tail. rproducer s = P_tail p head tail \<longrightarrow> head - tail \<noteq> q_capacity (rq s))"
proof -
  note i = circ_reachable_inv [OF assms, unfolded circ_inv_def]
  have "rpushed s = rpopped s @ q_elems (sq (rabs s))" using i by (simp add: spsc_inv_def rabs_def)
  moreover have "q_elems (sq (rabs s)) = unreturned (rq s) (rconsumer s) @ q_elems (rq s)"
    using i by (intro unreturned_batch) auto
  moreover have "head - tail \<noteq> q_capacity (rq s)" if "rproducer s = P_tail p head tail" for p head tail
    using i that by (auto simp: q_cap_def)
  ultimately show ?thesis by simp
qed

lemma circ_run:
  "circ_reachable order q0 ps s \<Longrightarrow> relaxed_run order s xs = Some t \<Longrightarrow>
   set xs \<subseteq> {RStep_push, RCall_pop n, RPublish, RStep_pop} \<Longrightarrow> circ_reachable order q0 ps t"
proof (induction xs arbitrary: s)
  case (Cons x xs)
  then obtain u where u: "relaxed_exec order s x = Some u" "relaxed_run order u xs = Some t"
    by (auto simp: bind_eq_Some_conv)
  then have "circ_step order s u" using Cons.prems(3) by (intro circ_step.access) auto
  then show ?case using Cons u by (auto intro: circ_reachable.step)
qed simp

section \<open>The event list\<close>

text \<open>Property C4. The queue of ready events of an event list that was set up for up to 2 to the 30 events, under every
  interleaving of the IO thread, which inserts free events, and the main thread, which removes and
  frees them, and whatever the memory order of the last store of \<open>pop_all\<close>: the events removed are the
  events inserted, in order, up to a batch about to be returned and the content of the queue, and
  no insertion finds the queue full.\<close>

theorem event_order_relaxed:
  assumes "0 < c" and "unat c \<le> 2 ^ 30" and "tn_event_list_setup True j1 True j2 True j3 l0 c = Some (TN_SUCCESS, l)"
    and "circ_reachable order (el_tn_events_ready l) (q_elems (el_tn_events_free l)) s"
  shows "rpushed s = rpopped s @ unreturned (rq s) (rconsumer s) @ q_elems (rq s) \<and>
    (\<forall>p head tail. rproducer s = P_tail p head tail \<longrightarrow> head - tail \<noteq> q_capacity (rq s))"
proof -
  have l: "event_inv l" "ev_free l = [0..<ev_total l]" "ev_ready l = []"
    using event_list_setup_ok [OF assms(1,2), of j1 j2 j3 l0] assms(3) by auto
  have "length (q_elems (el_tn_events_free l)) \<le> q_cap (el_tn_events_ready l)"
    using l(2) event_invD(5) [OF l(1)] by (metis length_upt diff_zero order_refl)
  with event_invD(3) [OF l(1)] l(3) show ?thesis by (intro circulation_fifo [OF assms(4)]) auto
qed

text \<open>A list for two events. The batch of event 0 can be seen to be removed but is not read yet, and
  the insertion of event 1 has loaded the new \<open>tail\<close>.\<close>

definition late_state :: "nat relaxed" where
  "late_state = \<lparr>rq = q_fresh2\<lparr>q_buffer := [0, 0, 0], q_head := 1, q_tail := 1\<rparr>,
     rproducer = P_tail 1 1 1, rconsumer = R_late 1 0 [], rpushed = [0], rpopped = [],
     pool = [], held = []\<rparr>"

lemma late_reachable: "circ_reachable TN_ATOMIC_RELAXED q_fresh2 [0, 1] late_state"
proof -
  let ?s = "relaxed_start q_fresh2 [0, 1]"
  let ?t = "late_state\<lparr>rproducer := P_idle, pool := [1]\<rparr>"
  have "circ_reachable TN_ATOMIC_RELAXED q_fresh2 [0, 1] (?s\<lparr>rproducer := P_call 0, pool := [1]\<rparr>)"
    by (rule circ_reachable.step [OF circ_reachable.start circ_step.take_free])
      (simp_all add: relaxed_start_def)
  then have "circ_reachable TN_ATOMIC_RELAXED q_fresh2 [0, 1] ?t"
    by (rule circ_run [where xs = "[RStep_push, RStep_push, RStep_push, RStep_push, RCall_pop 2,
          RStep_pop, RStep_pop, RStep_pop, RPublish]" and n = 2])
      (simp_all add: relaxed_start_def late_state_def q_fresh2_def TN_ATOMIC_RELAXED_def
        aws_atomic_priv_xlate_order_def)
  then have "circ_reachable TN_ATOMIC_RELAXED q_fresh2 [0, 1] (?t\<lparr>rproducer := P_call 1, pool := []\<rparr>)"
    by (rule circ_reachable.step [OF _ circ_step.take_free]) (simp_all add: late_state_def)
  then show ?thesis
    by (rule circ_run [where xs = "[RStep_push, RStep_push]"])
      (simp_all add: late_state_def q_fresh2_def)
qed

lemma events2_setup:
  defines "l0 \<equiv> \<lparr>el_tn_events = [], el_tn_events_free = q_fresh2, el_tn_events_ready = q_fresh2, el_capacity = 0\<rparr>"
    and "e0 \<equiv> \<lparr>ev_id = 0, ev_type = 0, ev_client_id = 0, ev_tn_buffer = None, ev_error_code = 0, ev_host_local = [], ev_host_remote = [],
      ev_buffer = 0, ev_len = 0\<rparr>"
  obtains l where "tn_event_list_setup True (\<lambda>_. 0) True (\<lambda>_. 0) True (\<lambda>_. e0) l0 2 = Some (TN_SUCCESS, l)"
    and "el_tn_events_ready l = q_fresh2" and "q_elems (el_tn_events_free l) = [0, 1]"
proof -
  have r: "round_capacity 2 = 2" by (simp add: round_capacity_def)
  have u2: "[0..<2] = [0, 1::nat]" by (simp add: numeral_2_eq_2)
  have u: "map (\<lambda>_. 0) [0..<3] = [0, 0, 0::nat]" by (simp add: numeral_3_eq_3)
  obtain l where l: "tn_event_list_setup True (\<lambda>_. 0) True (\<lambda>_. 0) True (\<lambda>_. e0) l0 2 = Some (TN_SUCCESS, l)"
      "ev_free l = [0..<ev_total l]" "el_capacity l = 2"
    using event_list_setup_ok [of 2 "\<lambda>_. 0" "\<lambda>_. 0" "\<lambda>_. e0" l0] r by auto
  moreover have "el_tn_events_ready l = q_fresh2"
    using l(1) by (auto simp: tn_event_list_setup_def tn_queue_spsc_setup_def r tn_assert_def tn_mem_acquire_def l0_def Let_def
        tn_queue_spsc_capacity_def event_setup_loop.simps tn_queue_spsc_push_def q_fresh2_def arr_get_def arr_set_def u split: if_splits)
  moreover have "ev_total l = 2" using l(3) by simp
  then have "q_elems (el_tn_events_free l) = [0, 1]" using l(2) u2 by simp
  ultimately show thesis by (intro that)
qed

theorem event_order_relaxed_witness:
  "rpushed late_state = rpopped late_state @ unreturned (rq late_state) (rconsumer late_state) @
      q_elems (rq late_state) \<and> 1 - 1 \<noteq> q_capacity (rq late_state)"
proof (rule events2_setup)
  fix l
  assume l: "tn_event_list_setup True (\<lambda>_. 0) True (\<lambda>_. 0) True
      (\<lambda>_. \<lparr>ev_id = 0, ev_type = 0, ev_client_id = 0, ev_tn_buffer = None, ev_error_code = 0, ev_host_local = [], ev_host_remote = [],
        ev_buffer = 0, ev_len = 0\<rparr>)
      \<lparr>el_tn_events = [], el_tn_events_free = q_fresh2, el_tn_events_ready = q_fresh2, el_capacity = 0\<rparr> 2 = Some (TN_SUCCESS, l)"
    "el_tn_events_ready l = q_fresh2" "q_elems (el_tn_events_free l) = [0, 1]"
  have "circ_reachable TN_ATOMIC_RELAXED (el_tn_events_ready l) (q_elems (el_tn_events_free l)) late_state"
    using late_reachable l(2,3) by simp
  from event_order_relaxed [OF _ _ l(1) this] show ?thesis by (simp add: q_fresh2_def late_state_def)
qed

end
