(* ===== verification/Tn_Conn_Props.thy ===== *)
theory Tn_Conn_Props
  imports Tn_Wire
begin

text \<open>
  Properties of the client connection: the receive callback always returns, whatever the peer sends
  and however it is cut; a full buffer; the life cycle of the connection and of its handle as a step
  relation.
\<close>

section \<open>The receive callback on arbitrary input\<close>

definition conn_ok :: "tcp_conn \<Rightarrow> bool" where
  "conn_ok conn \<longleftrightarrow> (case cn_next_buffer conn of None \<Rightarrow> False | Some b \<Rightarrow> buf_inv b) \<and>
     (cn_read_state conn = TCP_CHANNEL_READ_HEADER \<or> cn_read_state conn = TCP_CHANNEL_READ_PAYLOAD)"

lemma conn_okE:
  assumes "conn_ok conn"
  obtains b where "cn_next_buffer conn = Some b" "buf_inv b"
    "cn_read_state conn = TCP_CHANNEL_READ_HEADER \<or> cn_read_state conn = TCP_CHANNEL_READ_PAYLOAD"
  using assms by (auto simp: conn_ok_def split: option.splits)

lemma conn_ok_read:
  "buf_inv b \<Longrightarrow> st = TCP_CHANNEL_READ_HEADER \<or> st = TCP_CHANNEL_READ_PAYLOAD \<Longrightarrow> conn_ok (conn_read conn b len st mid)"
  by (simp add: conn_ok_def)

lemma conn_ok_buffer:
  "conn_ok conn \<Longrightarrow> buf_inv b \<Longrightarrow> conn_ok (conn\<lparr>cn_next_buffer := Some b\<rparr>)"
  by (simp add: conn_ok_def)

definition loop_returns :: "bool \<Rightarrow> mem \<Rightarrow> u64 \<Rightarrow> u64 \<Rightarrow> tcp_conn \<Rightarrow> bool" where
  "loop_returns be m cur lat conn \<longleftrightarrow> (\<exists>res conn'. recv_loop be m cur lat conn = Some (res, conn') \<and> conn_ok conn')"

text \<open>A payload that is complete and at most 16 bytes long: one of the two reads or the skip fails, or the skip takes at least one byte.\<close>

lemma loop_short_payload:
  assumes "cn_next_buffer conn = Some b" and "buf_inv b" and "cn_read_state conn = TCP_CHANNEL_READ_PAYLOAD"
    and "unat (cn_next_payload_len conn) \<le> buf_left b" and "unat (cn_next_payload_len conn) \<le> 16"
    and "\<And>b' lat mid. buf_inv b' \<Longrightarrow> buf_left b' < buf_left b \<Longrightarrow>
      loop_returns be m cur lat (conn_read conn b' (cn_next_payload_len conn) TCP_CHANNEL_READ_HEADER mid)"
  shows "loop_returns be m cur lat conn"
proof -
  let ?n = "cn_next_payload_len conn" and ?b1 = "buf_consume b (of_nat 8)"
  let ?b2 = "buf_consume ?b1 (of_nat 8)" and ?k = "ucast (cn_next_payload_len conn - 16) :: size_t"
  have ok: "conn_ok conn" using assms(1-3) by (simp add: conn_ok_def)
  have go: "\<not> tn_buffer_read_length b < ucast ?n"
    using assms(4) by (simp add: tn_buffer_read_length_def word_less_nat_alt unat_ucast_32_64)
  note loop = recv_loop.simps [of be m cur lat conn]
  consider (no_id) "buf_left b < 8" | (no_ts) "8 \<le> buf_left b" "buf_left b < 16"
    | (no_skip) "16 \<le> buf_left b" "buf_left b - 16 < unat ?k \<or> ?k = 0" | (skip) "16 \<le> buf_left b" "unat ?k \<le> buf_left b - 16" "?k \<noteq> 0"
    by linarith
  then show ?thesis
  proof cases
    case no_id
    then show ?thesis using go assms(1,3) f64.rd_short [OF no_id, of be m] conn_ok_buffer [OF ok assms(2)]
      by (simp add: loop loop_returns_def)
  next
    case no_ts
    note b1 = buf_consume_inv(1,2) [OF assms(2) , of 8]
    have "buf_left ?b1 < 8" using b1 no_ts by simp
    from f64.rd_short [OF this, of be m] f64.rd_ok [OF assms(2) no_ts(1), of be m] show ?thesis
      using go assms(1,3) conn_ok_buffer [OF ok, of ?b1] b1 no_ts by (simp add: loop loop_returns_def)
  next
    case no_skip
    have l8: "8 \<le> buf_left b" using no_skip by simp
    note b1 = buf_consume_inv(1,2) [OF assms(2) , of 8]
    have i1: "buf_inv ?b1" and l1: "8 \<le> buf_left ?b1" using b1 no_skip by simp_all
    note b2 = buf_consume_inv(1,2) [OF i1, of 8]
    have i2: "buf_inv ?b2" and l2: "buf_left ?b2 = buf_left b - 16" using b1 b2 no_skip by simp_all
    have "\<exists>b3. tn_buffer_read_skip ?b2 ?k = (TN_ERROR, b3) \<and> buf_inv b3"
    proof (cases "?k = 0")
      case True
      then show ?thesis using read_skip_ok [OF i2, of 0] i2 by simp
    next
      case False
      then show ?thesis using read_skip_short [of ?b2 ?k] no_skip(2) l2 i2 by simp
    qed
    then show ?thesis using go assms(1,3) f64.rd_ok [OF assms(2) l8, of be m] f64.rd_ok [OF i1 l1, of be m] conn_ok_buffer [OF ok]
      by (auto simp: loop loop_returns_def)
  next
    case skip
    have l8: "8 \<le> buf_left b" using skip by simp
    note b1 = buf_consume_inv(1,2) [OF assms(2) , of 8]
    have i1: "buf_inv ?b1" and l1: "8 \<le> buf_left ?b1" using b1 skip by simp_all
    note b2 = buf_consume_inv(1,2) [OF i1, of 8]
    have i2: "buf_inv ?b2" and l2: "buf_left ?b2 = buf_left b - 16" using b1 b2 skip by simp_all
    have lk: "unat ?k \<le> buf_left ?b2" using skip l2 by simp
    let ?b3 = "buf_consume ?b2 ?k"
    have i3: "buf_inv ?b3" "buf_left ?b3 < buf_left b" using buf_consume_inv(1,2) [OF i2 lk] skip l2 by simp_all
    obtain lat' mid where "recv_loop be m cur lat conn = recv_loop be m cur lat' (conn_read conn ?b3 ?n TCP_CHANNEL_READ_HEADER mid)"
      using go assms(1,3) f64.rd_ok [OF assms(2) l8, of be m] f64.rd_ok [OF i1 l1, of be m] read_skip_ok [OF i2 lk] skip(3)
      by (simp add: loop conn_read_def Let_def)
    then show ?thesis using assms(6) [OF i3, of lat' mid]
      by (simp add: loop_returns_def)
  qed
qed

lemma recv_loop_returns:
  assumes "conn_ok conn"
  shows "loop_returns be m cur lat conn"
  using assms
proof (induction "buf_left (the (cn_next_buffer conn)) * 2 + (if cn_read_state conn = TCP_CHANNEL_READ_PAYLOAD then 0 else 1)"
    arbitrary: conn lat rule: less_induct)
  case less
  obtain b where b: "cn_next_buffer conn = Some b" "buf_inv b"
      "cn_read_state conn = TCP_CHANNEL_READ_HEADER \<or> cn_read_state conn = TCP_CHANNEL_READ_PAYLOAD"
    using conn_okE [OF less.prems] .
  note loop = recv_loop.simps [of be m cur lat conn]
  consider (head) "cn_read_state conn = TCP_CHANNEL_READ_HEADER" "4 \<le> buf_left b"
    | (wait_head) "cn_read_state conn = TCP_CHANNEL_READ_HEADER" "buf_left b < 4"
    | (wait_pay) "cn_read_state conn = TCP_CHANNEL_READ_PAYLOAD" "buf_left b < unat (cn_next_payload_len conn)"
    | (short) "cn_read_state conn = TCP_CHANNEL_READ_PAYLOAD" "unat (cn_next_payload_len conn) \<le> buf_left b" "unat (cn_next_payload_len conn) \<le> 16"
    | (pay) "cn_read_state conn = TCP_CHANNEL_READ_PAYLOAD" "unat (cn_next_payload_len conn) \<le> buf_left b" "16 < unat (cn_next_payload_len conn)"
    using b(3) by (meson not_le)
  then show ?case
  proof cases
    case head
    obtain b' where "recv_loop be m cur lat conn = recv_loop be m cur lat
        (conn_read conn b' (of_be_bytes (take 4 (buf_unread m b))) TCP_CHANNEL_READ_PAYLOAD (cn_last_recv_msg_id conn))"
        "buf_inv b'" "buf_unread m b' = drop 4 (buf_unread m b)"
      using loop_header [OF b(1,2) head] by metis
    moreover from this(3) have "buf_left b' = buf_left b - 4" using arg_cong [of _ _ length] by (metis length_buf_unread length_drop)
    ultimately show ?thesis using less.hyps [OF _ conn_ok_read] head b(1) by (simp add: loop_returns_def)
  next
    case wait_head
    then show ?thesis using b less.prems by (simp add: loop loop_returns_def tn_buffer_read_length_def word_less_nat_alt)
  next
    case wait_pay
    then show ?thesis using b less.prems
      by (simp add: loop loop_returns_def tn_buffer_read_length_def word_less_nat_alt unat_ucast_32_64)
  next
    case short
    show ?thesis
    proof (rule loop_short_payload [OF b(1,2) short])
      fix b' lat mid
      assume "buf_inv b'" "buf_left b' < buf_left b"
      then show "loop_returns be m cur lat (conn_read conn b' (cn_next_payload_len conn) TCP_CHANNEL_READ_HEADER mid)"
        using less.hyps [OF _ conn_ok_read] short(1) b(1) by simp
    qed
  next
    case pay
    obtain b' mid lat' where "recv_loop be m cur lat conn = recv_loop be m cur lat'
        (conn_read conn b' (cn_next_payload_len conn) TCP_CHANNEL_READ_HEADER mid)"
        "buf_inv b'" "buf_unread m b' = drop (unat (cn_next_payload_len conn)) (buf_unread m b)"
      using loop_payload [OF b(1,2) pay] by metis
    moreover from this(3) have "buf_left b' = buf_left b - unat (cn_next_payload_len conn)" by (metis length_buf_unread length_drop)
    ultimately show ?thesis using less.hyps [OF _ conn_ok_read] pay b(1) by (simp add: loop_returns_def)
  qed
qed

lemma conn_ok_cong:
  "cn_next_buffer conn' = cn_next_buffer conn \<Longrightarrow> cn_read_state conn' = cn_read_state conn \<Longrightarrow> conn_ok conn' \<longleftrightarrow> conn_ok conn"
  by (simp add: conn_ok_def)

lemma disconnect_fields [simp]:
  "cn_next_buffer (cw_conn (tcp_conn_disconnect w)) = cn_next_buffer (cw_conn w)"
  "cn_read_state (cw_conn (tcp_conn_disconnect w)) = cn_read_state (cw_conn w)"
  "cn_tcp_handle (cw_conn (tcp_conn_disconnect w)) = cn_tcp_handle (cw_conn w)"
  "cw_mem (tcp_conn_disconnect w) = cw_mem w" "cw_writes (tcp_conn_disconnect w) = cw_writes w"
  by (auto simp: tcp_conn_disconnect_def Let_def split: option.splits)

lemma recv_stats_fields [simp]:
  "cn_next_buffer (cw_conn (recv_stats cur lat n w)) = cn_next_buffer (cw_conn w)"
  "cn_read_state (cw_conn (recv_stats cur lat n w)) = cn_read_state (cw_conn w)"
  "cn_tcp_handle (cw_conn (recv_stats cur lat n w)) = cn_tcp_handle (cw_conn w)"
  "cn_state (cw_conn (recv_stats cur lat n w)) = cn_state (cw_conn w)"
  "cw_closing (recv_stats cur lat n w) = cw_closing w"
  by (simp_all add: recv_stats_def Let_def)

lemma conn_ok_world [simp]:
  "conn_ok (cw_conn (tcp_conn_disconnect w)) = conn_ok (cw_conn w)"
  "conn_ok (cw_conn (recv_stats cur lat n w)) = conn_ok (cw_conn w)"
  by (rule conn_ok_cong; simp)+

lemma recv_cb_returns:
  assumes "conn_ok (cw_conn w)" and "0 < nread \<Longrightarrow> int (length bytes) = nread" and "nread < 2 ^ 63"
  shows "\<exists>w'. on_tcp_recv_cb be cur nread bytes w = Some w' \<and> conn_ok (cw_conn w')"
proof -
  obtain b where b: "cn_next_buffer (cw_conn w) = Some b" "buf_inv b" using conn_okE [OF assms(1)] by metis
  consider "nread < 0" | "nread = 0" | (pos) "0 < nread" by linarith
  then show ?thesis
  proof cases
    case pos
    let ?n = "word_of_int nread :: u64"
    have len: "int (length bytes) = nread" using assms(2) pos by simp
    then have n: "unat ?n = length bytes" using assms(3) by (simp add: unat_of_nat64 flip: len)
    show ?thesis
    proof (cases "buf_fill b + unat ?n \<le> buf_cap b")
      case True
      let ?m = "mem_write (cw_mem w) (tn_buffer_write_ptr b) (take (unat ?n) bytes)" and ?b = "buf_extend b ?n"
      let ?c = "(cw_conn w)\<lparr>cn_next_buffer := Some ?b\<rparr>"
      have wr: "tn_buffer_write (cw_mem w) b bytes ?n = Some (TN_SUCCESS, ?m, ?b)"
        by (rule buf_write_ok [OF b(2) True]) (simp add: n)
      have "conn_ok ?c" by (rule conn_ok_buffer [OF assms(1) buf_extend_inv [OF b(2) True]])
      from recv_loop_returns [OF this, of be ?m cur 0]
      obtain res conn' where l: "recv_loop be ?m cur 0 ?c = Some (res, conn')" "conn_ok conn'" by (auto simp: loop_returns_def)
      obtain b' where b': "cn_next_buffer conn' = Some b'" "buf_inv b'" using conn_okE [OF l(2)] by metis
      have reset: "conn_ok (conn'\<lparr>cn_next_buffer := Some (tn_buffer_reset b')\<rparr>)"
        by (rule conn_ok_buffer [OF l(2) buf_reset_ok(1) [OF b'(2)]])
      show ?thesis
      proof (cases res)
        case None
        then show ?thesis using pos b wr l by (simp add: on_tcp_recv_cb_def Let_def)
      next
        case (Some lat)
        then show ?thesis using pos b wr l b' reset
          by (simp add: on_tcp_recv_cb_def Let_def)
      qed
    next
      case False
      then show ?thesis using pos b buf_write_full [OF b(2), of ?n "cw_mem w" bytes] conn_ok_buffer [OF assms(1) b(2)]
        by (simp add: on_tcp_recv_cb_def)
    qed
  qed (use assms(1) in \<open>simp_all add: on_tcp_recv_cb_def conn_ok_def\<close>)
qed

lemma conn_init_ok:
  assumes "next_buf \<noteq> 0" and "unat next_buf + 131070 < 2 ^ 64"
  obtains conn where "tcp_conn_init next_buf True junk = Some (TN_SUCCESS, conn)" "conn_ok conn"
    "\<And>w. conn_view (w\<lparr>cw_conn := conn\<rparr>) None [] 0 131070"
proof -
  have "unat next_buf_size = 131070" "next_buf_size \<noteq> 0" "next_buf_size < SIZE_HALF"
    by (simp_all add: next_buf_size_def word_less_nat_alt unat_SIZE_HALF)
  then obtain b where b: "tn_buffer_setup junk next_buf next_buf_size = Some (TN_SUCCESS, b)" "buf_inv b" "buf_fill b = 0" "buf_cap b = 131070"
    using buf_setup_ok [of next_buf next_buf_size junk] assms by auto
  have "buf_left b = 0" using buf_invD(4) [OF b(2)] b(3) by linarith
  then have "buf_unread m b = []" for m unfolding buf_unread_def by (simp only: mem_read_0)
  moreover define c where "c = conn_zero\<lparr>cn_ctx := True, cn_read_state := TCP_CHANNEL_READ_HEADER, cn_next_buf := next_buf, cn_next_buffer := Some b\<rparr>"
  moreover have "cn_last_recv_msg_id conn_zero = 0" by (simp add: conn_zero_def)
  ultimately show thesis using assms(1) b
    by (intro that [of c]) (simp_all add: tcp_conn_init_def conn_ok_def conn_view_def rd_state_simps Let_def)
qed

section \<open>Life cycle\<close>

text \<open>
  The events of a connection. libuv reports the end of a connection attempt once, only for the handle
  that was given to \<open>uv_tcp_connect\<close> and with a negative status when the handle was closed before; the
  second component is that handle. It calls a close callback once for every handle that is closing, after
  the callbacks of its requests. An allocation gives a handle that is not in use.
\<close>

inductive conn_step :: "conn_world \<times> nat option \<Rightarrow> conn_world \<times> nat option \<Rightarrow> bool" where
  connect: "tcp_connect_begin env w = (rc, w') \<Longrightarrow> (\<And>h. cx_handle env = Some h \<Longrightarrow> \<not> cw_closing w h) \<Longrightarrow>
     conn_step (w, pc) (w', if rc = TN_SUCCESS then cx_handle env else pc)"
| connected: "(0 \<le> status \<Longrightarrow> \<not> cw_closing w h) \<Longrightarrow> conn_step (w, Some h) (on_tcp_connected_cb status h rc_read w, None)"
| recv: "on_tcp_recv_cb be cur nread bytes w = Some w' \<Longrightarrow> conn_step (w, pc) (w', pc)"
| writing: "tcp_write_begin be cur buffer ok rc h data len w = Some w' \<Longrightarrow> conn_step (w, pc) (w', pc)"
| written: "conn_step (w, pc) (on_tcp_write_cb cur status len w, pc)"
| closing: "conn_step (w, pc) (tcp_conn_close w, pc)"
| closed: "cn_tcp_handle (cw_conn w) = Some h \<Longrightarrow> cw_closing w h \<Longrightarrow> pc \<noteq> Some h \<Longrightarrow>
     conn_step (w, pc) (on_tcp_close_cb w, pc)"

definition conn_life :: "conn_world \<times> nat option \<Rightarrow> bool" where
  "conn_life s = (case s of (w, pc) \<Rightarrow>
     (case cn_tcp_handle (cw_conn w) of
        None \<Rightarrow> cn_state (cw_conn w) \<in> {CS_NEW, CS_DISCONNECTED} \<and> pc = None
      | Some h \<Rightarrow> (cw_closing w h \<longleftrightarrow> cn_state (cw_conn w) = CS_DISCONNECTING) \<and>
          (pc \<noteq> None \<longrightarrow> pc = Some h \<and> cn_state (cw_conn w) \<notin> {CS_NEW, CS_DISCONNECTED})))"

lemma conn_life_cong:
  assumes "cn_tcp_handle (cw_conn w') = cn_tcp_handle (cw_conn w)" and "cn_state (cw_conn w') = cn_state (cw_conn w)"
    and "cw_closing w' = cw_closing w"
  shows "conn_life (w', pc) = conn_life (w, pc)"
  using assms by (simp add: conn_life_def split: option.splits)

lemma conn_life_disconnect: "conn_life (w, pc) \<Longrightarrow> conn_life (tcp_conn_disconnect w, pc)"
  by (auto simp: conn_life_def tcp_conn_disconnect_def Let_def split: option.splits)

lemma recv_loop_life:
  assumes "recv_loop be m cur lat conn = Some (res, conn')"
  shows "cn_state conn' = cn_state conn \<and> cn_tcp_handle conn' = cn_tcp_handle conn"
proof -
  have "(\<lambda>be m cur lat conn r. cn_state (snd r) = cn_state conn \<and> cn_tcp_handle (snd r) = cn_tcp_handle conn)
      be m cur lat conn (res, conn')"
    using assms by (rule recv_loop.raw_induct [rotated]) (auto simp: Let_def split: option.splits if_splits prod.splits)
  then show ?thesis by simp
qed

lemma conn_life_recv:
  assumes "conn_life (w, pc)" and "on_tcp_recv_cb be cur nread bytes w = Some w'"
  shows "conn_life (w', pc)"
proof (cases "nread < 0")
  case True
  have "conn_life (w\<lparr>cw_conn := (cw_conn w)\<lparr>cn_read_err := nread\<rparr>\<rparr>, pc)" using assms(1) by (subst conn_life_cong) simp_all
  then show ?thesis using assms(2) True conn_life_disconnect by (auto simp: on_tcp_recv_cb_def)
next
  case False
  have "cn_tcp_handle (cw_conn w') = cn_tcp_handle (cw_conn w) \<and> cn_state (cw_conn w') = cn_state (cw_conn w) \<and> cw_closing w' = cw_closing w"
    using assms(2) False by (auto simp: on_tcp_recv_cb_def Let_def bind_eq_Some_conv dest!: recv_loop_life split: if_splits option.splits)
  then show ?thesis using assms(1) conn_life_cong by metis
qed

lemma conn_life_write:
  assumes "conn_life (w, pc)" and "tcp_write_begin be cur buffer ok rc h data len w = Some w'"
  shows "conn_life (w', pc)"
proof -
  have c: "conn_life (v, pc)"
    if "cn_state (cw_conn w) = CS_CONNECTING \<or> cn_state (cw_conn w) = CS_CONNECTED" and "cn_state (cw_conn v) = CS_CONNECTED"
      and "cn_tcp_handle (cw_conn v) = cn_tcp_handle (cw_conn w)" and "cw_closing v = cw_closing w" for v
    using assms(1) that by (auto simp: conn_life_def split: option.splits)
  show ?thesis using assms
    by (auto simp: tcp_write_begin_def Let_def bind_eq_Some_conv c conn_life_disconnect split: if_splits option.splits)
qed

lemma conn_life_written: "conn_life (w, pc) \<Longrightarrow> conn_life (on_tcp_write_cb cur status len w, pc)"
proof -
  assume "conn_life (w, pc)"
  then have "conn_life (w\<lparr>cw_conn := (cw_conn w)\<lparr>cn_write_err := e\<rparr>\<rparr>, pc)"
    "conn_life (w\<lparr>cw_conn := (cw_conn w)\<lparr>cn_tstamp_first_msg := a, cn_send_msgs := b, cn_send_bytes := c\<rparr>, cw_ctx := x\<rparr>, pc)" for e a b c x
    by (subst conn_life_cong; simp)+
  then show ?thesis using \<open>conn_life (w, pc)\<close> by (simp add: on_tcp_write_cb_def Let_def conn_life_disconnect)
qed

lemma conn_life_connected:
  assumes "conn_life (w, Some h)" and "0 \<le> status \<Longrightarrow> \<not> cw_closing w h"
  shows "conn_life (on_tcp_connected_cb status h rc w, None)"
proof (cases "status < 0")
  case True
  have "conn_life (w, None)" using assms(1) by (auto simp: conn_life_def split: option.splits)
  then show ?thesis using True by (simp add: on_tcp_connected_cb_def conn_life_disconnect)
next
  case False
  then have "conn_life (w\<lparr>cw_conn := (cw_conn w)\<lparr>cn_state := CS_CONNECTED, cn_tcp_handle := Some h\<rparr>\<rparr>, None)"
    using assms by (simp add: conn_life_def)
  then show ?thesis using False by (simp add: on_tcp_connected_cb_def Let_def conn_life_disconnect)
qed

text \<open>The state that \<open>tcp_connect_begin\<close> reaches before it leaves through the cleanup.\<close>

lemma conn_life_connect:
  assumes "conn_life (w, pc)" and "\<And>h. cx_handle env = Some h \<Longrightarrow> \<not> cw_closing w h" and "tcp_connect_begin env w = (rc, w')"
  shows "conn_life (w', if rc = TN_SUCCESS then cx_handle env else pc)"
proof (cases "cn_state (cw_conn w) \<in> {CS_NEW, CS_DISCONNECTED}")
  case True
  then have pc: "pc = None" using assms(1) by (auto simp: conn_life_def split: option.splits)
  have fresh: "conn_life (v, None)" if "cn_tcp_handle (cw_conn v) = cx_handle env" "cn_state (cw_conn v) = cn_state (cw_conn w)"
      "cw_closing v = cw_closing w" for v
    using that True assms(2) by (auto simp: conn_life_def split: option.splits)
  have started: "conn_life (v, None)" "cx_handle env = Some h \<Longrightarrow> conn_life (v, Some h)"
    if "cn_tcp_handle (cw_conn v) = cx_handle env" "cn_state (cw_conn v) = CS_CONNECTING"
      "cw_closing v = cw_closing w" "cx_handle env \<noteq> None" for v h
    using that assms(2) by (auto simp: conn_life_def split: option.splits)
  show ?thesis using assms(3,1) unfolding pc
    by (auto simp: tcp_connect_begin_def connect_cleanup_def Let_def fresh started conn_life_disconnect split: if_splits)
next
  case False
  then have "(rc, w') = (EINVAL, w)" using assms(3) by (auto simp: tcp_connect_begin_def)
  then show ?thesis using assms(1) by simp
qed

lemma conn_life_step: "conn_step s s' \<Longrightarrow> conn_life s \<Longrightarrow> conn_life s'"
proof (induction rule: conn_step.induct)
  case (connect env w rc w' pc)
  then show ?case using conn_life_connect by blast
next
  case (connected status w h rc_read)
  then show ?case using conn_life_connected by blast
next
  case (recv be cur nread bytes w w' pc)
  then show ?case using conn_life_recv by blast
next
  case (writing be cur buffer ok rc h data len w w' pc)
  then show ?case using conn_life_write by blast
next
  case (closed w h pc)
  then show ?case by (auto simp: conn_life_def on_tcp_close_cb_def)
qed (simp_all add: conn_life_written tcp_conn_close_def conn_life_disconnect)

lemma conn_life_reach: "conn_step\<^sup>*\<^sup>* s s' \<Longrightarrow> conn_life s \<Longrightarrow> conn_life s'"
  by (induction rule: rtranclp_induct) (auto intro: conn_life_step)

section \<open>Properties\<close>

definition ctx_sample :: tcp_ctx where
  "ctx_sample = ctx_zero\<lparr>tx_config := Some \<lparr>cfg_uv_loop = Some 1\<rparr>\<rparr>"

definition world_of :: "tcp_conn \<Rightarrow> conn_world" where
  "world_of conn = \<lparr>cw_conn = conn, cw_ctx = ctx_sample, cw_mem = (\<lambda>_. 0), cw_closing = (\<lambda>_. False), cw_writes = []\<rparr>"

definition conn_started :: tcp_conn where
  "conn_started = (case tcp_conn_init 4096 True buf64 of None \<Rightarrow> conn_zero | Some (_, conn) \<Rightarrow> conn)"

lemma conn_started:
  shows conn_started_ok: "conn_ok conn_started"
    and conn_started_view: "conn_view (world_of conn_started) None [] 0 131070"
proof -
  obtain conn where c: "tcp_conn_init 4096 True buf64 = Some (TN_SUCCESS, conn)" "conn_ok conn"
      "\<And>w. conn_view (w\<lparr>cw_conn := conn\<rparr>) None [] 0 131070"
    by (rule conn_init_ok [of 4096 buf64]) simp_all
  then have "conn_started = conn" by (simp add: conn_started_def)
  then show "conn_ok conn_started" "conn_view (world_of conn_started) None [] 0 131070"
    using c(2) c(3) [of "world_of conn"] by (simp_all add: world_of_def)
qed



text \<open>
  Property C0. Whatever the peer sends and however it is cut, \<open>on_tcp_recv_cb\<close> returns: its loop ends
  on every byte sequence, malformed length prefixes included, and no read leaves the buffer. The
  connection stays in a state from which the next chunk can be handled.
\<close>

theorem recv_always_returns:
  assumes "conn_ok (cw_conn w)" and "0 < nread \<Longrightarrow> int (length bytes) = nread" and "nread < 2 ^ 63"
  shows "\<exists>w'. on_tcp_recv_cb be cur nread bytes w = Some w' \<and> conn_ok (cw_conn w')"
  using recv_cb_returns [OF assms] .

theorem recv_always_returns_witness:
  "\<exists>w'. on_tcp_recv_cb False 9 6 [0, 0, 0, 2, 1, 1] (world_of conn_started) = Some w' \<and> conn_ok (cw_conn w')"
  by (rule recv_always_returns) (simp_all add: world_of_def conn_started_ok)

text \<open>
  Property C0. A chunk that does not fit behind the bytes in the buffer is lost as a whole: the
  callback changes neither the connection nor the memory, counts nothing and keeps the connection
  open, even when the bytes before the read position have all been used.
\<close>

theorem full_buffer_drops_chunk:
  assumes "cn_next_buffer (cw_conn w) = Some b" and "buf_inv b"
    and "0 < nread" and "nread < 2 ^ 63" and "buf_cap b < buf_fill b + nat nread"
  shows "on_tcp_recv_cb be cur nread bytes w = Some w"
proof -
  have "unat (word_of_int nread :: u64) = nat nread"
    using assms(3,4) unat_of_nat64 [of "nat nread"] by simp
  with assms(5) have full: "buf_cap b < buf_fill b + unat (word_of_int nread :: u64)" by simp
  show ?thesis using assms(1,3) buf_write_full [OF assms(2) full] by (simp add: on_tcp_recv_cb_def)
qed

theorem full_buffer_drops_chunk_witness:
  "on_tcp_recv_cb False 9 65 (replicate 65 1) (world_of (conn_started\<lparr>cn_next_buffer := Some buf64\<rparr>)) =
    Some (world_of (conn_started\<lparr>cn_next_buffer := Some buf64\<rparr>))"
  by (rule full_buffer_drops_chunk [where b = buf64]) (simp_all add: world_of_def buf64_inv, simp add: buf64_def)

text \<open>
  Property C0. The life cycle of a connection that \<open>tcp_get_conns\<close> made, under any sequence of
  connects, callbacks, writes and closes: while it is connecting or connected it has a handle for which
  \<open>uv_close\<close> was not called, while it is disconnecting it has one for which it was, and then the handle
  is not given up before its close callback.
\<close>

theorem conn_handle_life_cycle:
  assumes "tcp_get_conn next_buf ok junk = Some conn" and "cw_conn w = conn" and "conn_step\<^sup>*\<^sup>* (w, None) (w', pc)"
  shows "case cn_tcp_handle (cw_conn w') of
      None \<Rightarrow> cn_state (cw_conn w') \<in> {CS_NEW, CS_DISCONNECTED}
    | Some h \<Rightarrow> cw_closing w' h \<longleftrightarrow> cn_state (cw_conn w') = CS_DISCONNECTING"
proof -
  have "cn_tcp_handle conn = None \<and> cn_state conn = CS_DISCONNECTED"
    using assms(1) by (auto simp: tcp_get_conn_def tcp_conn_init_def Let_def bind_eq_Some_conv conn_zero_def split: if_splits)
  then have "conn_life (w, None)" using assms(2) by (simp add: conn_life_def)
  from conn_life_reach [OF assms(3) this] show ?thesis by (auto simp: conn_life_def split: option.splits)
qed

definition env_sample :: connect_env where
  "env_sample = \<lparr>cx_handle = Some 3, cx_tcp_init = 0, cx_set_remote = (0, endpoint_zero), cx_set_local = (0, endpoint_zero),
     cx_nodelay = 0, cx_bind = 0, cx_connection = True, cx_connect = 0\<rparr>"

theorem conn_handle_life_cycle_witness:
  "\<exists>conn w'. tcp_get_conn 0 True buf64 = Some conn \<and> tcp_connect_begin env_sample (world_of conn) = (TN_SUCCESS, w') \<and>
    (case cn_tcp_handle (cw_conn w') of None \<Rightarrow> cn_state (cw_conn w') \<in> {CS_NEW, CS_DISCONNECTED}
     | Some h \<Rightarrow> cw_closing w' h \<longleftrightarrow> cn_state (cw_conn w') = CS_DISCONNECTING)"
proof -
  obtain conn where c: "tcp_get_conn 0 True buf64 = Some conn" "cn_ctx conn" "cn_state conn = CS_DISCONNECTED"
    by (auto simp: tcp_get_conn_def tcp_conn_init_def)
  obtain w' where w': "tcp_connect_begin env_sample (world_of conn) = (TN_SUCCESS, w')"
    using c(2,3) by (auto simp: tcp_connect_begin_def env_sample_def world_of_def ctx_sample_def tcp_context_get_loop_def SAFE_TCP_CTX_def Let_def)
  have "conn_step\<^sup>*\<^sup>* (world_of conn, None) (w', Some 3)"
    using conn_step.connect [OF w', of None] by (intro r_into_rtranclp) (simp add: env_sample_def world_of_def)
  from conn_handle_life_cycle [OF c(1) _ this] c(1) w' show ?thesis by (simp add: world_of_def)
qed

text \<open>
  Property C0. A connection attempt that fails before \<open>uv_tcp_connect\<close> on a connection that is
  disconnected, as all those of \<open>tcp_get_conns\<close> are, leaves its handle behind: \<open>tcp_conn_disconnect\<close>
  returns at once, \<open>uv_close\<close> is not called, and the next attempt overwrites the pointer.
\<close>

theorem failed_connect_leaks_handle:
  assumes "cn_state (cw_conn w) = CS_DISCONNECTED" and "cn_ctx (cw_conn w)"
    and "tcp_context_get_loop (Some (cw_ctx w)) \<noteq> None" and "cx_handle env = Some h"
    and "cx_tcp_init env \<noteq> 0 \<or> fst (cx_set_remote env) \<noteq> 0 \<or> fst (cx_set_local env) \<noteq> 0 \<or> cx_nodelay env \<noteq> 0 \<or>
      cx_bind env \<noteq> 0 \<or> \<not> cx_connection env"
  shows "\<exists>w'. tcp_connect_begin env w = (TN_ERROR, w') \<and> cn_tcp_handle (cw_conn w') = Some h \<and>
    cw_closing w' = cw_closing w \<and> cn_state (cw_conn w') = CS_DISCONNECTED"
  using assms by (auto simp: tcp_connect_begin_def connect_cleanup_def tcp_conn_disconnect_def Let_def)

theorem failed_connect_leaks_handle_witness:
  "\<exists>w'. tcp_connect_begin (env_sample\<lparr>cx_bind := -98\<rparr>) (world_of (conn_started\<lparr>cn_ctx := True, cn_state := CS_DISCONNECTED\<rparr>)) = (TN_ERROR, w') \<and>
    cn_tcp_handle (cw_conn w') = Some 3 \<and> \<not> cw_closing w' 3"
  using failed_connect_leaks_handle [of "world_of (conn_started\<lparr>cn_ctx := True, cn_state := CS_DISCONNECTED\<rparr>)" "env_sample\<lparr>cx_bind := -98\<rparr>" 3]
  by (auto simp: world_of_def env_sample_def ctx_sample_def tcp_context_get_loop_def SAFE_TCP_CTX_def)

end
