(* ===== verification/Tn_Machine.thy ===== *)
theory Tn_Machine
  imports Tn_Prelude
begin

text \<open>
  What the event-driven components share: heap pointers that are released without being reset, and
  machines whose steps are callbacks and calls with a guard each.
\<close>

section \<open>Heap pointers\<close>

text \<open>NULL, valid, or dangling. Releasing NULL does nothing; releasing a block a second time has no result.\<close>

datatype heap_ptr = PTR_NULL | PTR_VALID | PTR_DANGLING

definition block :: "bool \<Rightarrow> heap_ptr" where
  "block ok = (if ok then PTR_VALID else PTR_NULL)"

definition release_block :: "heap_ptr \<Rightarrow> heap_ptr option" where
  "release_block b = (case b of PTR_NULL \<Rightarrow> Some PTR_NULL | PTR_VALID \<Rightarrow> Some PTR_DANGLING | PTR_DANGLING \<Rightarrow> None)"

lemma release_block_block [simp]:
  "release_block (block b) = Some (if b then PTR_DANGLING else PTR_NULL)" "block b = PTR_NULL \<longleftrightarrow> \<not> b" "block b \<noteq> PTR_DANGLING"
  by (simp_all add: release_block_def block_def)

definition UV_ENOMEM :: int where "UV_ENOMEM = -12"

section \<open>Machines with an invariant\<close>

inductive machine_reach :: "('op \<Rightarrow> 's \<Rightarrow> 's option) \<Rightarrow> ('op \<Rightarrow> 's \<Rightarrow> bool) \<Rightarrow> 's \<Rightarrow> 's \<Rightarrow> bool"
  for exec allowed s where
  reach_refl: "machine_reach exec allowed s s"
| reach_step: "machine_reach exec allowed s s' \<Longrightarrow> allowed op s' \<Longrightarrow> exec op s' = Some s'' \<Longrightarrow>
    machine_reach exec allowed s s''"

fun machine_run :: "('op \<Rightarrow> 's \<Rightarrow> 's option) \<Rightarrow> 'op list \<Rightarrow> 's \<Rightarrow> 's option" where
  "machine_run exec [] s = Some s"
| "machine_run exec (op # ops) s = Option.bind (exec op s) (machine_run exec ops)"

locale guarded_machine =
  fixes exec :: "'op \<Rightarrow> 's \<Rightarrow> 's option" and allowed :: "'op \<Rightarrow> 's \<Rightarrow> bool" and inv :: "'s \<Rightarrow> bool"
  assumes step_ok: "inv s \<Longrightarrow> allowed op s \<Longrightarrow> \<exists>s'. exec op s = Some s' \<and> inv s'"
begin

lemma reach_inv: "machine_reach exec allowed s s' \<Longrightarrow> inv s \<Longrightarrow> inv s'"
proof (induction rule: machine_reach.induct)
  case (reach_step s' op s'')
  then show ?case using step_ok [of s' op] by auto
qed simp

lemma reach_progress:
  "machine_reach exec allowed s s' \<Longrightarrow> inv s \<Longrightarrow> allowed op s' \<Longrightarrow> \<exists>s''. exec op s' = Some s'' \<and> inv s''"
  using reach_inv step_ok by blast

text \<open>A sequence of operations that are allowed in every state.\<close>

lemma run_ok:
  assumes "inv s" and "\<And>op s. op \<in> set ops \<Longrightarrow> allowed op s"
  shows "\<exists>s'. machine_run exec ops s = Some s' \<and> inv s'"
  using assms
proof (induction ops arbitrary: s)
  case (Cons op ops)
  obtain s1 where "exec op s = Some s1" "inv s1" using step_ok [OF Cons.prems(1)] Cons.prems(2) by fastforce
  then show ?case using Cons.IH Cons.prems(2) by simp
qed simp

end

end
