(* ===== verification/Tn_Tcpserv.thy ===== *)
theory Tn_Tcpserv
  imports Tn_Machine
begin

text \<open>
  The plain echo server of \<open>src/tcpserv/tcpserv.c\<close>. Its callbacks allocate and release memory for every
  chunk, so the heap is explicit: \<open>es_heap\<close> lists the blocks that are allocated, a block is a number,
  and releasing one that is not allocated has no result. The blocks of the client handles are in it
  too, and a handle is named by its block. \<open>es_inflight\<close> has the writes libuv has accepted and not called back
  for (handle, request block, data block, bytes), \<open>es_echoed\<close> all bytes handed to libuv so far, in order.
\<close>

record echo_state =
  es_send_msgs :: u64
  es_send_bytes :: u64
  es_recv_msgs :: u64
  es_recv_bytes :: u64
  es_heap :: "nat list"
  es_handles :: "nat list"
  es_closing :: "nat \<Rightarrow> bool"
  es_inflight :: "(nat \<times> nat \<times> nat \<times> u8 list) list"
  es_echoed :: "(nat \<times> u8 list) list"

definition release :: "nat option \<Rightarrow> echo_state \<Rightarrow> echo_state option" where
  "release b s = (case b of None \<Rightarrow> Some s
     | Some b \<Rightarrow> if b \<in> set (es_heap s) then Some (s\<lparr>es_heap := remove1 b (es_heap s)\<rparr>) else None)"

definition acquired :: "nat option \<Rightarrow> echo_state \<Rightarrow> echo_state" where
  "acquired b s = (case b of None \<Rightarrow> s | Some b \<Rightarrow> s\<lparr>es_heap := b # es_heap s\<rparr>)"

section \<open>Callbacks\<close>

definition free_write_req :: "nat \<Rightarrow> nat \<Rightarrow> echo_state \<Rightarrow> echo_state option" where
  "free_write_req req base s = do { s \<leftarrow> release (Some base) s; release (Some req) s }"

definition serv_on_recv_alloc_cb :: "nat option \<Rightarrow> size_t \<Rightarrow> echo_state \<Rightarrow> (nat option \<times> size_t) \<times> echo_state" where
  "serv_on_recv_alloc_cb base suggested_size s = ((base, suggested_size), acquired base s)"

definition serv_on_close_cb :: "nat \<Rightarrow> echo_state \<Rightarrow> echo_state option" where
  "serv_on_close_cb handle s = release (Some handle) s"

definition serv_on_send_cb :: "nat \<Rightarrow> nat \<Rightarrow> u8 list \<Rightarrow> int \<Rightarrow> echo_state \<Rightarrow> echo_state option" where
  "serv_on_send_cb req base bytes status s =
     (let s = (if status \<noteq> 0 then s
        else s\<lparr>es_send_msgs := es_send_msgs s + 1, es_send_bytes := es_send_bytes s + of_nat (length bytes)\<rparr>)
      in free_write_req req base s)"

definition recv_release :: "nat option \<Rightarrow> nat option \<Rightarrow> echo_state \<Rightarrow> echo_state option" where
  "recv_release base send_req s = do { s \<leftarrow> release base s; release send_req s }"

definition recv_close :: "nat \<Rightarrow> nat option \<Rightarrow> nat option \<Rightarrow> echo_state \<Rightarrow> echo_state option" where
  "recv_close handle base send_req s =
     recv_release base send_req (if es_closing s handle then s else s\<lparr>es_closing := (es_closing s)(handle := True)\<rparr>)"

text \<open>\<open>base\<close> is the block libuv was given, \<open>bytes\<close> what it holds, \<open>send_req\<close> the result of the allocation and \<open>ret\<close> that of \<open>uv_write\<close>.\<close>

definition serv_on_recv_cb :: "nat \<Rightarrow> int \<Rightarrow> nat option \<Rightarrow> u8 list \<Rightarrow> nat option \<Rightarrow> int \<Rightarrow> echo_state \<Rightarrow> echo_state option" where
  "serv_on_recv_cb handle nread base bytes send_req ret s =
     (if nread < 0 then recv_close handle base None s
      else if nread = 0 then recv_release base None s
      else let s = s\<lparr>es_recv_msgs := es_recv_msgs s + 1, es_recv_bytes := es_recv_bytes s + word_of_int nread\<rparr> in
      case send_req of None \<Rightarrow> recv_close handle base None s
      | Some req \<Rightarrow> let s = acquired send_req s in
          if ret \<noteq> 0 then recv_close handle base send_req s
          else do {
            b \<leftarrow> base;
            Some (s\<lparr>es_inflight := es_inflight s @ [(handle, req, b, bytes)], es_echoed := es_echoed s @ [(handle, bytes)]\<rparr>)
          })"

definition serv_on_connection_cb :: "int \<Rightarrow> nat option \<Rightarrow> int \<Rightarrow> int \<Rightarrow> echo_state \<Rightarrow> echo_state" where
  "serv_on_connection_cb status client rc_accept rc_read_start s =
     (if status < 0 then s
      else case client of None \<Rightarrow> s
      | Some h \<Rightarrow> let s = acquired client (s\<lparr>es_handles := h # es_handles s\<rparr>) in
          if rc_accept \<noteq> 0 \<or> rc_read_start \<noteq> 0
          then (if es_closing s h then s else s\<lparr>es_closing := (es_closing s)(h := True)\<rparr>)
          else s)"

section \<open>Start, stop and the server thread\<close>

text \<open>The globals of the server: \<open>uvu_thread_priv\<close>, \<open>uvu_closing\<close> and the three blocks of the thread.\<close>

record uvu_state =
  uvu_thread_priv :: heap_ptr
  uvu_closing :: bool
  uvu_loop :: heap_ptr
  uvu_tcp_server :: heap_ptr
  uvu_accept_timer :: heap_ptr
  uvu_server_closed :: bool
  uvu_timer_closed :: bool

definition UV_UNKNOWN :: int where "UV_UNKNOWN = -4094"

text \<open>The results of the allocation, of the two address conversions and of starting the thread. A conversion that works sets the family, so the test of the family that follows does not fail.\<close>

definition uvu_server_start :: "bool \<Rightarrow> int \<Rightarrow> int \<Rightarrow> int \<Rightarrow> uvu_state \<Rightarrow> int \<times> uvu_state" where
  "uvu_server_start ok rc_ip6 rc_ip4 rc_thread u =
     (let u = u\<lparr>uvu_closing := False\<rparr> in
      if uvu_thread_priv u \<noteq> PTR_NULL then (UV_UNKNOWN, u)
      else let u = u\<lparr>uvu_thread_priv := block ok\<rparr> in
      if uvu_thread_priv u = PTR_NULL then (UV_ENOMEM, u)
      else if rc_ip6 \<noteq> 0 \<and> rc_ip4 \<noteq> 0 then (rc_ip4, u)
      else if rc_thread \<noteq> 0 then (rc_thread, u)
      else (0, u))"

definition timer_cb :: "bool \<Rightarrow> uvu_state \<Rightarrow> uvu_state" where
  "timer_cb own_timer u =
     (if \<not> own_timer then u
      else if uvu_closing u then
        let u = (if \<not> uvu_server_closed u then u\<lparr>uvu_server_closed := True\<rparr> else u)
        in (if \<not> uvu_timer_closed u then u\<lparr>uvu_timer_closed := True\<rparr> else u)
      else u)"

definition async_cb :: "uvu_state \<Rightarrow> uvu_state" where
  "async_cb u = u\<lparr>uvu_closing := True\<rparr>"

text \<open>
  Stopping sends the async request, whose callback runs on the server thread before the thread can be
  joined (\<open>server\<close> is what the thread does after it), and releases \<open>uvu_thread_priv\<close>. The request is
  registered with the loop, which has to be there. The memory for the request has the size of a pointer;
  what libuv writes beyond it is outside of the model.
\<close>

definition uvu_server_stop :: "(uvu_state \<Rightarrow> uvu_state) \<Rightarrow> uvu_state \<Rightarrow> (int \<times> uvu_state) option" where
  "uvu_server_stop server u =
     (if uvu_closing u then Some (-1, u)
      else if uvu_loop u \<noteq> PTR_VALID then None
      else let u = server (async_cb u)
      in map_option (\<lambda>p. (0, u\<lparr>uvu_thread_priv := p\<rparr>)) (release_block (uvu_thread_priv u)))"

text \<open>The callback that most handles are closed with releases nothing.\<close>

definition close_cb :: "echo_state \<Rightarrow> echo_state" where
  "close_cb s = s"

definition walk_cb :: "nat \<Rightarrow> echo_state \<Rightarrow> echo_state" where
  "walk_cb handle s = (if es_closing s handle then s else s\<lparr>es_closing := (es_closing s)(handle := True)\<rparr>)"

definition shutdown_walk_cb :: "nat \<Rightarrow> echo_state \<Rightarrow> echo_state" where
  "shutdown_walk_cb handle s = (if \<not> es_closing s handle then s\<lparr>es_closing := (es_closing s)(handle := True)\<rparr> else s)"

definition uvu_server_run_cleanup :: "uvu_state \<Rightarrow> uvu_state option" where
  "uvu_server_run_cleanup u = do {
     b \<leftarrow> release_block (uvu_accept_timer u); let u = u\<lparr>uvu_accept_timer := b\<rparr>;
     b \<leftarrow> release_block (uvu_tcp_server u); let u = u\<lparr>uvu_tcp_server := b\<rparr>;
     b \<leftarrow> release_block (uvu_loop u);
     Some (u\<lparr>uvu_loop := b\<rparr>)
   }"

record uvu_env =
  ue_loop :: bool
  ue_server :: bool
  ue_timer :: bool
  ue_loop_init :: int
  ue_timer_init :: int
  ue_timer_start :: int
  ue_tcp_init :: int
  ue_tcp_nodelay :: int
  ue_tcp_bind :: int
  ue_listen :: int
  ue_run :: int
  ue_loop_close :: int
  ue_loop_close_again :: int

text \<open>The thread: whether it ended without an error, and the globals. \<open>loop\<close> is what the callbacks of \<open>uv_run\<close> do to them.\<close>

definition uvu_server_run :: "uvu_env \<Rightarrow> (uvu_state \<Rightarrow> uvu_state) \<Rightarrow> uvu_state \<Rightarrow> (bool \<times> uvu_state) option" where
  "uvu_server_run env loop u =
     (let u = u\<lparr>uvu_loop := PTR_NULL, uvu_tcp_server := PTR_NULL, uvu_accept_timer := PTR_NULL\<rparr>;
          error = (\<lambda>u. map_option (Pair False) (uvu_server_run_cleanup u));
          u = u\<lparr>uvu_loop := block (ue_loop env)\<rparr>
      in if uvu_loop u = PTR_NULL then error u else
      let u = u\<lparr>uvu_tcp_server := block (ue_server env)\<rparr> in
      if uvu_tcp_server u = PTR_NULL then error u else
      let u = u\<lparr>uvu_accept_timer := block (ue_timer env)\<rparr> in
      if uvu_accept_timer u = PTR_NULL then error u
      else if ue_loop_init env \<noteq> 0 then error u
      else if ue_timer_init env \<noteq> 0 then error u
      else if ue_timer_start env \<noteq> 0 then error u
      else if ue_tcp_init env \<noteq> 0 then error u
      else if ue_tcp_nodelay env \<noteq> 0 then error u
      else if ue_tcp_bind env \<noteq> 0 then error u
      else if ue_listen env \<noteq> 0 then error u
      else let u = loop u in
      if ue_run env \<noteq> 0 then error u
      else if ue_loop_close env \<noteq> 0 \<and> ue_loop_close_again env \<noteq> 0 then error u
      else map_option (Pair True) (uvu_server_run_cleanup u))"

text \<open>\<open>main\<close>: the result of the start is not looked at. \<open>thread\<close> is what the server thread has done by the time a key is pressed.\<close>

definition tcpserv_main ::
  "bool \<Rightarrow> int \<Rightarrow> int \<Rightarrow> int \<Rightarrow> (uvu_state \<Rightarrow> uvu_state) \<Rightarrow> (uvu_state \<Rightarrow> uvu_state) \<Rightarrow> uvu_state \<Rightarrow> (int \<times> uvu_state) option" where
  "tcpserv_main ok rc_ip6 rc_ip4 rc_thread thread server u =
     (case uvu_server_start ok rc_ip6 rc_ip4 rc_thread u of (_, u) \<Rightarrow>
        map_option (\<lambda>(_, u). (0, u)) (uvu_server_stop server (thread u)))"

section \<open>Memory and order\<close>

definition inflight_blocks :: "(nat \<times> nat \<times> nat \<times> u8 list) list \<Rightarrow> nat list" where
  "inflight_blocks ws = concat (map (\<lambda>(h, req, base, bytes). [req, base]) ws)"

text \<open>Every allocated block is the handle of a client or belongs to exactly one write libuv has not finished.\<close>

definition echo_inv :: "echo_state \<Rightarrow> bool" where
  "echo_inv s \<longleftrightarrow> distinct (es_heap s) \<and> mset (es_heap s) = mset (es_handles s) + mset (inflight_blocks (es_inflight s))"

lemma inflight_blocks_simps [simp]:
  "inflight_blocks [] = []" "inflight_blocks (ws @ vs) = inflight_blocks ws @ inflight_blocks vs"
  "inflight_blocks ((h, req, base, bytes) # ws) = req # base # inflight_blocks ws"
  by (simp_all add: inflight_blocks_def)

lemma echo_inv_heap: "echo_inv s \<Longrightarrow> b \<in> set (es_heap s) \<longleftrightarrow> b \<in> set (es_handles s) \<or> b \<in> set (inflight_blocks (es_inflight s))"
  unfolding echo_inv_def by (metis set_mset_mset set_mset_union Un_iff)

text \<open>
  The steps, with what libuv guarantees of them: an allocation gives blocks that are not in use; a
  chunk arrives on a handle that is not closing, and without a block libuv reports \<open>UV_ENOBUFS\<close>; a
  write is called back once; the close callback of a handle comes once, after those of its writes.
\<close>

datatype echo_op = EConnect int "nat option" int int | ERead nat int "nat option" "u8 list" "nat option" int
  | ESent "nat \<times> nat \<times> nat \<times> u8 list" int | EClosed nat

definition fresh_blocks :: "nat option list \<Rightarrow> echo_state \<Rightarrow> bool" where
  "fresh_blocks bs s \<longleftrightarrow> distinct (filter (\<lambda>b. b \<noteq> None) bs) \<and> (\<forall>b \<in> set (es_heap s). Some b \<notin> set bs)"

fun echo_allowed :: "echo_op \<Rightarrow> echo_state \<Rightarrow> bool" where
  "echo_allowed (EConnect status client rc1 rc2) s \<longleftrightarrow> fresh_blocks [client] s"
| "echo_allowed (ERead h nread base bytes req ret) s \<longleftrightarrow> h \<in> set (es_handles s) \<and> \<not> es_closing s h \<and> fresh_blocks [base, req] s \<and>
     nread \<le> int (length bytes)"
| "echo_allowed (ESent w status) s \<longleftrightarrow> w \<in> set (es_inflight s)"
| "echo_allowed (EClosed h) s \<longleftrightarrow> h \<in> set (es_handles s) \<and> es_closing s h \<and> h \<notin> fst ` set (es_inflight s)"

fun echo_exec :: "echo_op \<Rightarrow> echo_state \<Rightarrow> echo_state option" where
  "echo_exec (EConnect status client rc1 rc2) s = Some (serv_on_connection_cb status client rc1 rc2 s)"
| "echo_exec (ERead h nread base bytes req ret) s =
     (case serv_on_recv_alloc_cb base 65536 s of (_, s) \<Rightarrow>
        serv_on_recv_cb h (if base = None then -105 else nread) base (take (nat nread) bytes) req ret s)"
| "echo_exec (ESent w status) s = (case w of (h, req, base, bytes) \<Rightarrow>
     serv_on_send_cb req base bytes status (s\<lparr>es_inflight := remove1 w (es_inflight s)\<rparr>))"
| "echo_exec (EClosed h) s = serv_on_close_cb h (s\<lparr>es_handles := remove1 h (es_handles s), es_closing := (es_closing s)(h := False)\<rparr>)"

lemma mset_inflight_remove1:
  "(h, req, base, bytes) \<in> set ws \<Longrightarrow>
    mset (inflight_blocks ws) = add_mset req (add_mset base (mset (inflight_blocks (remove1 (h, req, base, bytes) ws))))"
proof (induction ws)
  case (Cons w ws)
  obtain h' r' b' x' where w: "w = (h', r', b', x')" by (cases w)
  show ?case using Cons w by (cases "w = (h, req, base, bytes)") (auto simp: add_mset_commute)
qed simp

lemma release_new:
  assumes "b \<noteq> None \<Longrightarrow> the b \<notin> set (es_heap s)"
  shows "release b (acquired b s) = Some s"
  using assms by (cases b) (auto simp: release_def acquired_def)

lemma echo_inv_acquired:
  assumes "echo_inv s" and "\<forall>x \<in> set (es_heap s). Some x \<notin> set [Some b]" and "es_heap s' = b # es_heap s"
    and "mset (es_handles s') + mset (inflight_blocks (es_inflight s')) = add_mset b (mset (es_handles s) + mset (inflight_blocks (es_inflight s)))"
  shows "echo_inv s'"
  using assms by (auto simp: echo_inv_def)

lemma echo_read_ok:
  assumes "echo_inv s" and "echo_allowed (ERead h nread base bytes req ret) s"
  shows "\<exists>s'. echo_exec (ERead h nread base bytes req ret) s = Some s' \<and> echo_inv s'"
proof -
  have close: "echo_inv (s\<lparr>es_closing := f\<rparr>)" "echo_inv (s\<lparr>es_recv_msgs := a, es_recv_bytes := b\<rparr>)"
    "echo_inv (s\<lparr>es_recv_msgs := a, es_recv_bytes := b, es_closing := f\<rparr>)" for f a b
    using assms(1) by (simp_all add: echo_inv_def)
  show ?thesis
  proof (cases base)
    case None
    then show ?thesis using assms close
      by (simp add: serv_on_recv_alloc_cb_def acquired_def serv_on_recv_cb_def recv_close_def recv_release_def release_def)
  next
    case (Some b)
    have b: "b \<notin> set (es_heap s)" using assms(2) Some by (auto simp: fresh_blocks_def)
    consider "nread \<le> 0" | "0 < nread" "req = None" | r where "0 < nread" "req = Some r" "ret \<noteq> 0" | (go) r where "0 < nread" "req = Some r" "ret = 0"
      by (cases req) force+
    then show ?thesis
    proof cases
      case (go r)
      have r: "r \<notin> set (es_heap s)" "r \<noteq> b" using assms(2) Some go by (auto simp: fresh_blocks_def)
      then show ?thesis using go Some assms(1) b
        by (auto simp: serv_on_recv_alloc_cb_def acquired_def serv_on_recv_cb_def echo_inv_def)
    qed (use assms close Some b in \<open>auto simp: serv_on_recv_alloc_cb_def acquired_def serv_on_recv_cb_def recv_close_def
        recv_release_def release_def fresh_blocks_def echo_inv_def\<close>)
  qed
qed

interpretation echo: guarded_machine echo_exec echo_allowed echo_inv
proof (unfold_locales, goal_cases)
  case (1 s op)
  show ?case
  proof (cases op)
    case (EConnect status client rc1 rc2)
    then show ?thesis using 1
      by (auto simp: serv_on_connection_cb_def acquired_def echo_inv_def fresh_blocks_def Let_def split: option.splits)
  next
    case (ERead h nread base bytes req ret)
    then show ?thesis using 1 echo_read_ok by blast
  next
    case (ESent w status)
    obtain h req base bytes where w: "w = (h, req, base, bytes)" by (cases w)
    then have "(h, req, base, bytes) \<in> set (es_inflight s)" using 1(2) ESent by simp
    note m = mset_inflight_remove1 [OF this]
    have heap: "mset (es_heap s) = add_mset base (add_mset req (mset (es_handles s) + mset (inflight_blocks (remove1 w (es_inflight s)))))"
      using 1(1) m w by (simp add: echo_inv_def add_mset_commute)
    then have in_heap: "base \<in> set (es_heap s)" "req \<in> set (remove1 base (es_heap s))"
      by (metis set_mset_mset union_single_eq_member add_mset_add_single) (metis heap add_mset_remove_trivial mset_remove1 set_mset_mset union_single_eq_member)
    have "distinct (remove1 req (remove1 base (es_heap s)))" using 1(1) by (simp add: echo_inv_def distinct_remove1)
    moreover have "mset (remove1 req (remove1 base (es_heap s))) = mset (es_handles s) + mset (inflight_blocks (remove1 w (es_inflight s)))"
      using heap by simp
    ultimately show ?thesis using ESent w in_heap
      by (simp add: serv_on_send_cb_def free_write_req_def release_def echo_inv_def)
  next
    case (EClosed h)
    then have h: "h \<in> set (es_handles s)" using 1(2) by simp
    then have "h \<in> set (es_heap s)" using echo_inv_heap [OF 1(1)] by blast
    then show ?thesis using 1(1) h EClosed
      by (simp add: serv_on_close_cb_def release_def echo_inv_def distinct_remove1 union_single_eq_diff)
  qed
qed

section \<open>Properties\<close>

definition echo_init :: echo_state where
  "echo_init = \<lparr>es_send_msgs = 0, es_send_bytes = 0, es_recv_msgs = 0, es_recv_bytes = 0, es_heap = [], es_handles = [],
     es_closing = (\<lambda>_. False), es_inflight = [], es_echoed = []\<rparr>"

lemma echo_init_inv: "echo_inv echo_init"
  by (simp add: echo_inv_def echo_init_def)



text \<open>
  Property C0. The server can be started once. \<open>uvu_thread_priv\<close> is not reset, neither when the start
  fails after the allocation nor when the server is stopped: every later start returns \<open>UV_UNKNOWN\<close>.
  As such a start still clears \<open>uvu_closing\<close>, stopping after it uses the loop that the server thread
  has released.
\<close>

theorem server_starts_once:
  assumes "uvu_thread_priv u = PTR_NULL" and "uvu_server_start True rc_ip6 rc_ip4 rc_thread u = (rc, u1)"
    and "\<And>x. uvu_thread_priv (server x) = uvu_thread_priv x" and "\<And>x. uvu_loop (server x) = PTR_DANGLING"
  shows "fst (uvu_server_start ok r6 r4 rt u1) = UV_UNKNOWN \<and>
    (\<exists>u2. uvu_server_stop server (u1\<lparr>uvu_loop := PTR_VALID\<rparr>) = Some (0, u2) \<and>
      fst (uvu_server_start ok r6 r4 rt u2) = UV_UNKNOWN \<and>
      uvu_server_stop server (snd (uvu_server_start ok r6 r4 rt u2)) = None)"
proof -
  have u1: "uvu_thread_priv u1 = PTR_VALID" "\<not> uvu_closing u1"
    using assms(1,2) by (auto simp: uvu_server_start_def block_def Let_def split: if_splits)
  then show ?thesis using assms(3,4) by (simp add: uvu_server_start_def uvu_server_stop_def async_cb_def release_block_def Let_def)
qed

definition uvu_init :: uvu_state where
  "uvu_init = \<lparr>uvu_thread_priv = PTR_NULL, uvu_closing = False, uvu_loop = PTR_NULL, uvu_tcp_server = PTR_NULL,
     uvu_accept_timer = PTR_NULL, uvu_server_closed = False, uvu_timer_closed = False\<rparr>"

definition thread_ends :: "uvu_state \<Rightarrow> uvu_state" where
  "thread_ends u = u\<lparr>uvu_loop := PTR_DANGLING\<rparr>"

theorem server_starts_once_witness:
  "\<exists>u1. uvu_server_start True 1 0 0 uvu_init = (0, u1) \<and> fst (uvu_server_start True 0 0 0 u1) = UV_UNKNOWN"
proof -
  obtain u1 where u1: "uvu_server_start True 1 0 0 uvu_init = (0, u1)" by (simp add: uvu_server_start_def uvu_init_def block_def Let_def)
  have "uvu_thread_priv uvu_init = PTR_NULL" by (simp add: uvu_init_def)
  from server_starts_once [OF this u1, of thread_ends] u1 show ?thesis by (simp add: thread_ends_def)
qed

text \<open>The thread leaves no loop behind, however it ends.\<close>

lemma release_block_not_valid: "release_block b = Some b' \<Longrightarrow> b' \<noteq> PTR_VALID"
  by (auto simp: release_block_def split: heap_ptr.splits)

lemma run_cleanup_loop: "uvu_server_run_cleanup u = Some u' \<Longrightarrow> uvu_loop u' \<noteq> PTR_VALID \<and> uvu_closing u' = uvu_closing u"
  by (auto simp: uvu_server_run_cleanup_def bind_eq_Some_conv Let_def dest: release_block_not_valid)

lemma server_run_loop: "uvu_server_run env loop u = Some (r, u') \<Longrightarrow> uvu_loop u' \<noteq> PTR_VALID"
  by (auto simp: uvu_server_run_def Let_def dest: run_cleanup_loop split: if_splits)

lemma server_run_error_open:
  assumes "uvu_server_run env loop u = Some (r, u')" and "ue_listen env \<noteq> 0 \<or> ue_tcp_bind env \<noteq> 0"
  shows "uvu_closing u' = uvu_closing u"
  using assms by (auto simp: uvu_server_run_def Let_def dest!: run_cleanup_loop split: if_splits)

text \<open>
  Property C0. \<open>main\<close> of the plain echo server does not survive a server thread that cannot listen on the
  port, for instance because it is in use: the thread has released its loop by the time a key is
  pressed, and stopping the server registers a request with it.
\<close>

theorem port_in_use_crashes_main:
  assumes "uvu_thread_priv u = PTR_NULL" and "\<And>x. uvu_server_run env loop x = Some (r x, thread x)"
    and "ue_listen env \<noteq> 0 \<or> ue_tcp_bind env \<noteq> 0"
  shows "tcpserv_main True rc_ip6 0 0 thread server u = None"
proof -
  obtain u1 where u1: "uvu_server_start True rc_ip6 0 0 u = (0, u1)" "\<not> uvu_closing u1"
    using assms(1) by (auto simp: uvu_server_start_def block_def Let_def)
  have "\<not> uvu_closing (thread u1)" using server_run_error_open [OF assms(2,3)] u1(2) by simp
  then show ?thesis using u1(1) server_run_loop [OF assms(2)] by (simp add: tcpserv_main_def uvu_server_stop_def)
qed

text \<open>\<open>EADDRINUSE\<close> from \<open>uv_listen\<close>.\<close>

definition env_in_use :: uvu_env where
  "env_in_use = \<lparr>ue_loop = True, ue_server = True, ue_timer = True, ue_loop_init = 0, ue_timer_init = 0, ue_timer_start = 0,
     ue_tcp_init = 0, ue_tcp_nodelay = 0, ue_tcp_bind = 0, ue_listen = -98, ue_run = 0, ue_loop_close = 0, ue_loop_close_again = 0\<rparr>"

theorem port_in_use_crashes_main_witness:
  "tcpserv_main True 1 0 0 (\<lambda>x. snd (the (uvu_server_run env_in_use (\<lambda>x. x) x))) (\<lambda>x. x) uvu_init = None"
proof (rule port_in_use_crashes_main)
  show "uvu_server_run env_in_use (\<lambda>x. x) x = Some (False, snd (the (uvu_server_run env_in_use (\<lambda>x. x) x)))" for x
    by (simp add: uvu_server_run_def env_in_use_def uvu_server_run_cleanup_def block_def release_block_def Let_def)
qed (simp_all add: uvu_init_def env_in_use_def)

end
