(* ===== verification/Tn_Echo_Path.thy ===== *)
theory Tn_Echo_Path
  imports Tn_Conn_Props Tn_Tcpserv "HOL-Library.Sublist"
begin

text \<open>
  The client connection (\<open>src/tcp_connection.c\<close>) and the plain echo server
  (\<open>src/tcpserv/tcpserv.c\<close>) together. \<open>link\<close> is the state of both, with the bytes the client has
  handed to libuv, those the server has read from the client's handle and those the client has
  received; TCP is a stream, so what is read at one end is a prefix of what was written at the
  other. A step is one call or callback of either program, in any order: the client sends, the
  server handles any callback of any of its clients, the client receives what was echoed, in chunks
  of any size.
\<close>

section \<open>What the server echoes\<close>

definition echoed_to :: "nat \<Rightarrow> echo_state \<Rightarrow> u8 list" where
  "echoed_to k s = concat (map snd (filter (\<lambda>e. fst e = k) (es_echoed s)))"

text \<open>The bytes that an operation of the server reads from a handle.\<close>

fun read_from :: "nat \<Rightarrow> echo_op \<Rightarrow> u8 list" where
  "read_from k (ERead h nread base bytes req ret) = (if h = k \<and> base \<noteq> None \<and> 0 < nread then take (nat nread) bytes else [])"
| "read_from k op = []"

lemma echoed_to_simps [simp]:
  "echoed_to k (s\<lparr>es_echoed := es_echoed s @ [(h, bs)]\<rparr>) = echoed_to k s @ (if h = k then bs else [])"
  "echoed_to k (acquired b s) = echoed_to k s" "echoed_to k (s\<lparr>es_closing := f\<rparr>) = echoed_to k s"
  by (auto simp: echoed_to_def acquired_def split: option.splits)

lemma release_fields:
  "release b s = Some s' \<Longrightarrow> es_echoed s' = es_echoed s \<and> es_closing s' = es_closing s \<and> es_handles s' = es_handles s"
  by (auto simp: release_def split: option.splits if_splits)

lemma recv_release_fields:
  "recv_release b r s = Some s' \<Longrightarrow> es_echoed s' = es_echoed s \<and> es_closing s' = es_closing s \<and> es_handles s' = es_handles s"
  by (auto simp: recv_release_def bind_eq_Some_conv dest!: release_fields)

lemma recv_close_fields:
  "recv_close h b r s = Some s' \<Longrightarrow> es_echoed s' = es_echoed s \<and> es_closing s' = (es_closing s)(h := True) \<and> es_handles s' = es_handles s"
  by (auto simp: recv_close_def fun_upd_idem dest!: recv_release_fields split: if_splits)

lemma acquired_fields [simp]:
  "es_echoed (acquired b s) = es_echoed s" "es_closing (acquired b s) = es_closing s" "es_handles (acquired b s) = es_handles s"
  by (auto simp: acquired_def split: option.splits)

text \<open>A chunk is either echoed to the handle it came from, or the handle is closing after it.\<close>

lemma read_echoes:
  assumes "echo_exec (ERead h nread base bytes req ret) s = Some s'"
  shows "es_handles s' = es_handles s"
    and "k \<noteq> h \<Longrightarrow> es_closing s' k = es_closing s k"
    and "echoed_to k s' = echoed_to k s @ read_from k (ERead h nread base bytes req ret) \<or>
      echoed_to k s' = echoed_to k s \<and> k = h \<and> es_closing s' h"
proof -
  have "es_handles s' = es_handles s \<and> (k \<noteq> h \<longrightarrow> es_closing s' k = es_closing s k) \<and>
      (echoed_to k s' = echoed_to k s @ read_from k (ERead h nread base bytes req ret) \<or>
       echoed_to k s' = echoed_to k s \<and> k = h \<and> es_closing s' h)"
    using assms
    by (auto simp: serv_on_recv_alloc_cb_def serv_on_recv_cb_def echoed_to_def Let_def
        dest!: recv_close_fields recv_release_fields split: if_splits option.splits)
  then show "es_handles s' = es_handles s" "k \<noteq> h \<Longrightarrow> es_closing s' k = es_closing s k"
    "echoed_to k s' = echoed_to k s @ read_from k (ERead h nread base bytes req ret) \<or>
      echoed_to k s' = echoed_to k s \<and> k = h \<and> es_closing s' h"
    by blast+
qed

text \<open>
  What one step of the server does for a handle that stays in use: it echoes what it reads from it,
  or reads without echoing and closes it, and a handle that is closing is not read any more.
\<close>

lemma serve_step:
  assumes "echo_inv s" and "k \<in> set (es_handles s)" and "echo_allowed op s" and "op \<noteq> EClosed k"
    and "echo_exec op s = Some s'"
  shows "echo_inv s' \<and> k \<in> set (es_handles s') \<and> (es_closing s k \<longrightarrow> es_closing s' k \<and> read_from k op = []) \<and>
    (echoed_to k s' = echoed_to k s @ read_from k op \<or> echoed_to k s' = echoed_to k s \<and> es_closing s' k)"
proof -
  have inv: "echo_inv s'" using echo.step_ok [OF assms(1,3)] assms(5) by simp
  have heap: "k \<in> set (es_heap s)" using echo_inv_heap [OF assms(1)] assms(2) by blast
  show ?thesis
  proof (cases op)
    case (EConnect status client rc1 rc2)
    then have "client \<noteq> Some k" using assms(3) heap by (auto simp: fresh_blocks_def)
    then show ?thesis using assms(2,5) inv EConnect
      by (auto simp: serv_on_connection_cb_def Let_def echoed_to_def split: option.splits if_splits)
  next
    case (ERead h nread base bytes req ret)
    note r = read_echoes [OF assms(5) [unfolded ERead]]
    have "\<not> es_closing s h" using assms(3) ERead by simp
    then show ?thesis using r(1) r(2,3) [of k] assms(2) inv ERead by (cases "k = h") auto
  next
    case (ESent w status)
    then show ?thesis using assms(2,5) inv
      by (auto simp: serv_on_send_cb_def free_write_req_def bind_eq_Some_conv Let_def echoed_to_def
          dest!: release_fields split: prod.splits if_splits)
  next
    case (EClosed h)
    then have "h \<noteq> k" using assms(4) by simp
    then show ?thesis using assms(2,5) inv EClosed
      by (auto simp: serv_on_close_cb_def echoed_to_def dest!: release_fields)
  qed
qed

section \<open>The client while it sends\<close>

lemma byte_buf_write_frame:
  assumes "aws_byte_buf_write m buf src len = Some (ok, m', buf')"
  shows "bb_buffer buf' = bb_buffer buf \<and> bb_capacity buf' = bb_capacity buf \<and>
    (\<forall>x. unat (bb_capacity buf) \<le> unat (x - bb_buffer buf) \<longrightarrow> m' x = m x)"
proof (cases "bb_len buf > SIZE_HALF \<or> len > SIZE_HALF \<or> bb_len buf + len > bb_capacity buf")
  case False
  then have len: "unat (bb_len buf) < 2 ^ 63" "unat len < 2 ^ 63" "unat (bb_len buf + len) \<le> unat (bb_capacity buf)"
    by (auto simp: word_le_nat_alt not_less unat_SIZE_HALF)
  then have "unat (bb_len buf) + unat len \<le> unat (bb_capacity buf)" by (simp add: unat_add64)
  then show ?thesis using assms False mem_write_beyond [of "bb_len buf" "take (unat len) src" "unat (bb_capacity buf)"]
    by (auto simp: aws_byte_buf_write_def split: if_splits)
qed (use assms in \<open>auto simp: aws_byte_buf_write_def\<close>)

lemma write_frame_frame:
  assumes "write_frame be m bb mid ts data len = Some (m', out)" and "unat (bb_capacity bb) \<le> unat (x - bb_buffer bb)"
  shows "m' x = m x"
  using assms
  by (auto simp: write_frame_def aws_byte_buf_write_be32_def aws_byte_buf_write_be64_def aws_byte_buf_write_u8_def
      bind_eq_Some_conv Let_def dest!: byte_buf_write_frame split: if_splits)

text \<open>A message that was accepted leaves the receiving side alone when its memory lies outside of the receive buffer.\<close>

definition storage_apart :: "addr \<Rightarrow> nat \<Rightarrow> addr \<times> nat \<Rightarrow> bool" where
  "storage_apart buffer n storage \<longleftrightarrow> list_all (\<lambda>i. n \<le> unat (fst storage + of_nat i - buffer)) [0..<snd storage]"

lemma buf_unread_apart:
  assumes "buf_inv b" and "storage_apart buffer n (buf_base b, buf_cap b)" and "\<And>x. n \<le> unat (x - buffer) \<Longrightarrow> m' x = m x"
  shows "buf_unread m' b = buf_unread m b"
  unfolding buf_unread_def
proof (rule nth_equalityI)
  let ?p = "cur_ptr (tb_pos b)"
  fix i assume "i < length (mem_read m' ?p (buf_left b))"
  then have i: "i < buf_left b" by simp
  have le: "buf_left b \<le> buf_fill b" "buf_fill b \<le> buf_cap b" using assms(1) by (auto simp: buf_inv_def)
  have "?p + cur_len (tb_pos b) = buf_base b + bb_len (tb_buf b)" using assms(1) by (simp add: buf_inv_def)
  then have "?p = buf_base b + (bb_len (tb_buf b) - cur_len (tb_pos b))" by (simp add: algebra_simps)
  also have "bb_len (tb_buf b) - cur_len (tb_pos b) = of_nat (buf_fill b - buf_left b)" using le(1) by (simp add: of_nat_diff)
  finally have at: "?p + of_nat i = buf_base b + of_nat (buf_fill b - buf_left b + i)" by simp
  have "buf_fill b - buf_left b + i < buf_cap b" using i le by simp
  then have "n \<le> unat (buf_base b + of_nat (buf_fill b - buf_left b + i) - buffer)"
    using assms(2) unfolding storage_apart_def list_all_iff by (simp del: of_nat_add)
  then have "m' (?p + of_nat i) = m (?p + of_nat i)" unfolding at by (rule assms(3))
  then show "mem_read m' ?p (buf_left b) ! i = mem_read m ?p (buf_left b) ! i" using i by (simp add: mem_read_nth)
qed simp

lemma client_send:
  assumes view: "conn_view w st bs prev room" and send: "send_view w = (CS_CONNECTED, mid, Some storage)"
    and msg: "sendable_msgs [(ts, buffer, data)]" and ap: "storage_apart buffer (length data + 21) storage"
    and st: "tcp_write_begin be ts buffer True 0 (Some h) (Some data) (int (length data)) w = Some w'"
  shows "conn_view w' st bs prev room \<and> send_view w' = (CS_CONNECTED, mid + 1, Some storage) \<and>
    wire_bytes w' = frame (mid + 1) ts data"
proof -
  obtain b where b: "cn_next_buffer (cw_conn w) = Some b" "buf_inv b" "rd_state (cw_conn w) = Some st"
      "buf_unread (cw_mem w) b = bs" "cn_last_recv_msg_id (cw_conn w) = prev" "room + buf_fill b \<le> buf_cap b"
    using view by (auto simp: conn_view_def)
  have s: "cn_state (cw_conn w) = CS_CONNECTED" "cn_current_msg_id (cw_conn w) = mid" "storage = (buf_base b, buf_cap b)"
    using send b(1) by (auto simp: send_view_def recv_storage_def)
  have d: "buffer \<noteq> 0" "data \<noteq> []" "length data + 21 < 2 ^ 31" using msg by (auto simp: sendable_msgs_def)
  obtain n where ok: "cw_writes w' = cw_writes w @ [(buffer, n)]"
      "mem_read (cw_mem w') buffer (unat n) = frame (mid + 1) ts data"
      "cn_state (cw_conn w') = CS_CONNECTED" "cn_current_msg_id (cw_conn w') = mid + 1"
    using write_begin_ok [of w buffer data be ts h] st s d by auto
  let ?c = "word_of_int (int (length data)) + 4 + 8 + 8 + 1 :: size_t"
  have "unat (of_nat (length data) :: size_t) = length data" using d(3) by (simp add: unat_of_nat64)
  then have c: "unat ?c = length data + 21" using d(3) by (simp only: unat_word_ariths of_int_of_nat_eq) simp
  have fields: "cn_next_buffer (cw_conn w') = Some b" "cn_read_state (cw_conn w') = cn_read_state (cw_conn w)"
      "cn_next_payload_len (cw_conn w') = cn_next_payload_len (cw_conn w)" "cn_last_recv_msg_id (cw_conn w') = prev"
    using st s(1) d(1,2) b(1,5)
    by (auto simp: tcp_write_begin_def aws_byte_buf_init_def Let_def bind_eq_Some_conv split: if_splits option.splits)
  obtain out where "write_frame be (cw_mem w) \<lparr>bb_len = 0, bb_buffer = buffer, bb_capacity = ?c, bb_allocator = 1\<rparr>
      (mid + 1) ts data (int (length data)) = Some (cw_mem w', out)"
    using st s(1,2) d(1,2)
    by (auto simp: tcp_write_begin_def aws_byte_buf_init_def Let_def bind_eq_Some_conv split: if_splits option.splits)
  from write_frame_frame [OF this] c have mem: "\<And>x. length data + 21 \<le> unat (x - buffer) \<Longrightarrow> cw_mem w' x = cw_mem w x"
    by simp
  have "buf_unread (cw_mem w') b = bs" using buf_unread_apart [OF b(2) _ mem] ap s(3) b(4) by simp
  moreover have "rd_state (cw_conn w') = Some st"
    using b(3) fields by (simp add: rd_state_def cong: tcp_channel_read_state.case_cong)
  ultimately show ?thesis
    using b(2,6) fields ok s by (auto simp: conn_view_def send_view_def recv_storage_def wire_bytes_def)
qed

lemma client_written:
  "send_view w = (CS_CONNECTED, mid, storage) \<Longrightarrow> conn_view w st bs prev room \<Longrightarrow>
   conn_view (on_tcp_write_cb cur 0 len w) st bs prev room \<and> send_view (on_tcp_write_cb cur 0 len w) = send_view w"
  by (auto simp: on_tcp_write_cb_def Let_def conn_view_def send_view_def recv_storage_def rd_state_def
      cong: tcp_channel_read_state.case_cong)

section \<open>A part of the stream\<close>

abbreviation frames :: "(u64 \<times> u64 \<times> u8 list) list \<Rightarrow> u8 list" where
  "frames ms \<equiv> concat (map (\<lambda>(mid, ts, data). frame mid ts data) ms)"

lemma parse_partial_frame:
  assumes "length data + 17 < 2 ^ 32" and "prefix xs (frame mid ts data)" and "length xs < length (frame mid ts data)"
  shows "\<exists>st rest. parse None xs = (True, st, rest, [])"
proof (cases "length xs < 4")
  case True
  then show ?thesis by (simp add: parse.simps(1))
next
  case False
  define n :: u32 where "n = of_nat (length data + 17)"
  have n: "unat n = length data + 17" unfolding n_def using assms(1) by (simp only: unat_of_nat) simp
  have "take 4 xs = take 4 (frame mid ts data)" using assms(2) False by (auto simp: prefix_def)
  then have "take 4 xs = be_bytes 4 n" by (simp add: frame_def n_def)
  then have "of_be_bytes (take 4 xs) = n" by (simp add: net32.be_bytes_round_trip)
  then show ?thesis using False n assms(3) by (simp add: parse.simps(1) parse.simps(2) [of n])
qed

text \<open>The reader on a part of a stream of frames: it has taken the frames that are complete.\<close>

lemma parse_frames_part:
  assumes "\<forall>(mid, ts, data) \<in> set ms. length data + 17 < 2 ^ 32" and "prefix xs (frames ms)"
  shows "\<exists>n st rest. n \<le> length ms \<and> parse None xs = (True, st, rest, map (\<lambda>(mid, ts, data). (mid, ts)) (take n ms)) \<and>
    prefix (frames (take n ms)) xs \<and> (xs = frames ms \<longrightarrow> n = length ms \<and> st = None \<and> rest = [])"
  using assms
proof (induction ms arbitrary: xs)
  case Nil
  then show ?case by (simp add: parse_nil)
next
  case (Cons m ms)
  obtain mid ts data where m: "m = (mid, ts, data)" by (cases m)
  have short: "length data + 17 < 2 ^ 32" using Cons.prems(1) m by simp
  show ?case
  proof (cases "length xs < length (frame mid ts data)")
    case True
    then have "prefix xs (frame mid ts data)" using Cons.prems(2) m by (auto simp: prefix_append)
    then obtain st rest where "parse None xs = (True, st, rest, [])" using parse_partial_frame [OF short _ True] by blast
    moreover have "xs \<noteq> frames (m # ms)"
    proof
      assume "xs = frames (m # ms)"
      then have "length xs = length (frame mid ts data) + length (frames ms)" using m by (simp del: length_frame)
      then show False using True by simp
    qed
    ultimately show ?thesis by (intro exI [of _ 0]) simp
  next
    case False
    have "prefix (frame mid ts data) xs"
    proof (rule prefix_length_prefix)
      show "prefix (frame mid ts data) (frames (m # ms))" using m by simp
    qed (use Cons.prems(2) False in simp_all)
    then obtain ys where ys: "xs = frame mid ts data @ ys" "prefix ys (frames ms)"
      using Cons.prems(2) m by (auto simp: prefix_def)
    from Cons.IH [OF _ ys(2)] Cons.prems(1) obtain n st rest where
      "n \<le> length ms" "parse None ys = (True, st, rest, map (\<lambda>(mid, ts, data). (mid, ts)) (take n ms))"
      "prefix (frames (take n ms)) ys" "ys = frames ms \<longrightarrow> n = length ms \<and> st = None \<and> rest = []" by auto
    then show ?thesis using parse_frame [OF short, of mid ts ys] ys(1) m
      by (intro exI [of _ "Suc n"] exI [of _ st] exI [of _ rest]) simp
  qed
qed

lemma length_numbered [simp]: "length (numbered mid ms) = length ms"
  by (induction mid ms rule: numbered.induct) auto

lemma take_numbered: "take n (numbered mid ms) = numbered mid (take n ms)"
proof (induction mid ms arbitrary: n rule: numbered.induct)
  case (2 mid ts buffer data msgs)
  then show ?case by (cases n) auto
qed simp

lemma numbered_snoc: "numbered mid (ms @ [(ts, buffer, data)]) = numbered mid ms @ [(mid + of_nat (length ms) + 1, ts, data)]"
  by (induction mid ms rule: numbered.induct) (auto simp: algebra_simps)

section \<open>The link\<close>

record link =
  lk_client :: conn_world
  lk_server :: echo_state
  lk_sent :: "u8 list"
  lk_taken :: "u8 list"
  lk_recvd :: "u8 list"

text \<open>The room in the client's receive buffer; a chunk that does not fit is lost (\<open>full_buffer_drops_chunk\<close>).\<close>

definition recv_room :: "conn_world \<Rightarrow> nat" where
  "recv_room w = (case cn_next_buffer (cw_conn w) of None \<Rightarrow> 0 | Some b \<Rightarrow> buf_cap b - buf_fill b)"

inductive link_step :: "bool \<Rightarrow> nat \<Rightarrow> nat \<Rightarrow> link \<Rightarrow> link \<Rightarrow> bool" for be h k where
  send: "sendable_msgs [(ts, buffer, data)] \<Longrightarrow>
    recv_storage (lk_client s) = Some storage \<Longrightarrow> storage_apart buffer (length data + 21) storage \<Longrightarrow>
    tcp_write_begin be ts buffer True 0 (Some h) (Some data) (int (length data)) (lk_client s) = Some w \<Longrightarrow>
    link_step be h k s (s\<lparr>lk_client := w, lk_sent := lk_sent s @ wire_bytes w\<rparr>)"
| written: "link_step be h k s (s\<lparr>lk_client := on_tcp_write_cb cur 0 len (lk_client s)\<rparr>)"
| serve: "echo_allowed op (lk_server s) \<Longrightarrow> op \<noteq> EClosed k \<Longrightarrow> prefix (lk_taken s @ read_from k op) (lk_sent s) \<Longrightarrow>
    echo_exec op (lk_server s) = Some e \<Longrightarrow>
    link_step be h k s (s\<lparr>lk_server := e, lk_taken := lk_taken s @ read_from k op\<rparr>)"
| recv: "chunk \<noteq> [] \<Longrightarrow> prefix (lk_recvd s @ chunk) (echoed_to k (lk_server s)) \<Longrightarrow> length chunk \<le> recv_room (lk_client s) \<Longrightarrow>
    on_tcp_recv_cb be cur (int (length chunk)) chunk (lk_client s) = Some w \<Longrightarrow>
    link_step be h k s (s\<lparr>lk_client := w, lk_recvd := lk_recvd s @ chunk\<rparr>)"

definition wire_inv :: "nat \<Rightarrow> link \<Rightarrow> bool" where
  "wire_inv k s \<longleftrightarrow> echo_inv (lk_server s) \<and> k \<in> set (es_handles (lk_server s)) \<and>
     prefix (lk_recvd s) (echoed_to k (lk_server s)) \<and> prefix (echoed_to k (lk_server s)) (lk_taken s) \<and>
     prefix (lk_taken s) (lk_sent s) \<and> (\<not> es_closing (lk_server s) k \<longrightarrow> echoed_to k (lk_server s) = lk_taken s)"

definition client_inv :: "u64 \<Rightarrow> link \<Rightarrow> (u64 \<times> addr \<times> u8 list) list \<Rightarrow> bool" where
  "client_inv mid0 s ms \<longleftrightarrow> sendable_msgs ms \<and> lk_sent s = frames (numbered mid0 ms) \<and>
     (\<exists>storage. send_view (lk_client s) = (CS_CONNECTED, mid0 + of_nat (length ms), Some storage)) \<and>
     (\<exists>st rest got. parse None (lk_recvd s) = (True, st, rest, got) \<and>
        conn_view (lk_client s) st rest (foldl accept_id mid0 (map fst got)) 0)"

lemma conn_view_recv_room: "conn_view w st bs prev room \<Longrightarrow> conn_view w st bs prev (recv_room w)"
  by (auto simp: conn_view_def recv_room_def buf_inv_def)

lemma conn_view_less: "conn_view w st bs prev room \<Longrightarrow> conn_view w st bs prev 0"
  by (auto simp: conn_view_def)

text \<open>The client takes any part of what it has sent.\<close>

lemma client_recv:
  assumes inv: "client_inv mid0 s ms" and pre: "prefix (lk_recvd s @ chunk) (lk_sent s)"
    and chunk: "chunk \<noteq> []" "length chunk \<le> recv_room (lk_client s)"
  shows "\<exists>w. on_tcp_recv_cb be cur (int (length chunk)) chunk (lk_client s) = Some w \<and> send_view w = send_view (lk_client s) \<and>
    client_inv mid0 (s\<lparr>lk_client := w, lk_recvd := lk_recvd s @ chunk\<rparr>) ms"
proof -
  obtain st rest got where p: "parse None (lk_recvd s) = (True, st, rest, got)"
      "conn_view (lk_client s) st rest (foldl accept_id mid0 (map fst got)) 0"
    using inv by (auto simp: client_inv_def)
  have short: "\<forall>(mid, ts, data) \<in> set (numbered mid0 ms). length data + 17 < 2 ^ 32"
    by (rule numbered_short) (use inv in \<open>simp add: client_inv_def\<close>)
  obtain st1 rest1 got1 where p1: "parse None (lk_recvd s @ chunk) = (True, st1, rest1, got1)"
    using parse_frames_part [OF short, of "lk_recvd s @ chunk"] pre inv by (auto simp: client_inv_def)
  then obtain ms2 where p2: "parse st (rest @ chunk) = (True, st1, rest1, ms2)" "got1 = got @ ms2"
    using parse_append [OF p(1), of chunk] by (auto split: prod.splits)
  from recv_chunk [OF conn_view_recv_room [OF p(2)] chunk p2(1), of be cur]
  obtain w where w: "on_tcp_recv_cb be cur (int (length chunk)) chunk (lk_client s) = Some w" "send_view w = send_view (lk_client s)"
      "conn_view w st1 rest1 (foldl accept_id mid0 (map fst got1)) (recv_room (lk_client s) - length chunk)"
    using p2(2) by auto
  have "client_inv mid0 (s\<lparr>lk_client := w, lk_recvd := lk_recvd s @ chunk\<rparr>) ms"
    using inv p1 w(2) conn_view_less [OF w(3)] unfolding client_inv_def by auto
  then show ?thesis using w(1,2) by blast
qed

lemma client_inv_step:
  assumes "link_step be h k s t" and "wire_inv k s" and "client_inv mid0 s ms"
  shows "\<exists>ms. client_inv mid0 t ms"
  using assms
proof (induction rule: link_step.induct)
  case (send ts buffer data s storage w)
  obtain st rest got where p: "parse None (lk_recvd s) = (True, st, rest, got)"
      "conn_view (lk_client s) st rest (foldl accept_id mid0 (map fst got)) 0"
    using send.prems(2) by (auto simp: client_inv_def)
  have "send_view (lk_client s) = (CS_CONNECTED, mid0 + of_nat (length ms), Some storage)"
    using send.prems(2) send.hyps(2) by (auto simp: client_inv_def send_view_def)
  from client_send [OF p(2) this send.hyps(1,3,4)] have "client_inv mid0
      (s\<lparr>lk_client := w, lk_sent := lk_sent s @ wire_bytes w\<rparr>) (ms @ [(ts, buffer, data)])"
    using send.prems(2) send.hyps(1) p(1)
    by (auto simp: client_inv_def numbered_snoc sendable_msgs_def add.assoc)
  then show ?case by blast
next
  case (written s cur len)
  obtain storage st rest got where p: "parse None (lk_recvd s) = (True, st, rest, got)"
      "conn_view (lk_client s) st rest (foldl accept_id mid0 (map fst got)) 0"
      "send_view (lk_client s) = (CS_CONNECTED, mid0 + of_nat (length ms), Some storage)"
    using written by (auto simp: client_inv_def)
  have "client_inv mid0 (s\<lparr>lk_client := on_tcp_write_cb cur 0 len (lk_client s)\<rparr>) ms"
    using written.prems(2) client_written [OF p(3,2), of cur len] p(1,3) unfolding client_inv_def by simp
  then show ?case by blast
next
  case (serve op s e)
  then show ?case by (auto simp: client_inv_def)
next
  case (recv chunk s cur w)
  have "prefix (lk_recvd s @ chunk) (lk_sent s)"
    using recv.hyps(2) recv.prems(1) by (auto simp: wire_inv_def intro: prefix_order.trans)
  from client_recv [OF recv.prems(2) this recv.hyps(1,3), of be cur] recv.hyps(4) show ?case by auto
qed

lemma wire_inv_step:
  assumes "link_step be h k s t" and "wire_inv k s"
  shows "wire_inv k t"
  using assms
proof (induction rule: link_step.induct)
  case (serve op s e)
  have i: "echo_inv (lk_server s)" "k \<in> set (es_handles (lk_server s))" using serve.prems by (auto simp: wire_inv_def)
  note v = serve_step [OF i serve.hyps(1,2,4)]
  have r: "prefix (lk_recvd s) (echoed_to k (lk_server s))" "prefix (echoed_to k (lk_server s)) (lk_taken s)"
      "\<not> es_closing (lk_server s) k \<longrightarrow> echoed_to k (lk_server s) = lk_taken s"
    using serve.prems by (auto simp: wire_inv_def)
  have "prefix (echoed_to k (lk_server s)) (echoed_to k e)" using v by (auto simp: prefix_def)
  then have "prefix (lk_recvd s) (echoed_to k e)" using r(1) by (rule prefix_order.trans [rotated])
  moreover have "prefix (echoed_to k e) (lk_taken s @ read_from k op)"
    using v r(2,3) by (cases "es_closing (lk_server s) k") (auto intro: prefix_order.trans)
  moreover have "echoed_to k e = lk_taken s @ read_from k op" if "\<not> es_closing e k"
    using v r(3) that by auto
  ultimately show ?case using v serve.hyps(3) by (simp add: wire_inv_def)
qed (auto simp: wire_inv_def intro: prefix_order.trans)

lemma link_reach:
  assumes "(link_step be h k)\<^sup>*\<^sup>* s t" and "wire_inv k s" and "client_inv mid0 s ms"
  shows "wire_inv k t \<and> (\<exists>ms. client_inv mid0 t ms)"
  using assms(1)
proof (induction rule: rtranclp_induct)
  case base
  then show ?case using assms(2,3) by blast
next
  case (step t u)
  then show ?case using wire_inv_step client_inv_step by blast
qed

section \<open>Properties\<close>


text \<open>One message, read by the server in one piece and received in one piece.\<close>

definition link_sample :: link where
  "link_sample = \<lparr>lk_client = world_of (conn_started\<lparr>cn_state := CS_CONNECTED\<rparr>),
     lk_server = the (echo_exec (EConnect 0 (Some 7) 0 0) echo_init), lk_sent = [], lk_taken = [], lk_recvd = []\<rparr>"

lemma link_sample_server:
  "lk_server link_sample = echo_init\<lparr>es_handles := [7], es_heap := [7]\<rparr>"
  by (simp add: link_sample_def serv_on_connection_cb_def acquired_def echo_init_def Let_def)

lemma link_sample_ok:
  shows "echo_inv (lk_server link_sample)" and "7 \<in> set (es_handles (lk_server link_sample))"
    and "echoed_to 7 (lk_server link_sample) = []" and "conn_view (lk_client link_sample) None [] 0 131070"
    and "send_view (lk_client link_sample) = (CS_CONNECTED, 0, Some (4096, 131070))"
proof -
  show "echo_inv (lk_server link_sample)" "7 \<in> set (es_handles (lk_server link_sample))" "echoed_to 7 (lk_server link_sample) = []"
    by (simp_all add: link_sample_server echo_inv_def echo_init_def echoed_to_def)
  show "conn_view (lk_client link_sample) None [] 0 131070"
    using conn_started_view by (simp add: link_sample_def conn_view_def world_of_def rd_state_def cong: tcp_channel_read_state.case_cong)
  show "send_view (lk_client link_sample) = (CS_CONNECTED, 0, Some (4096, 131070))"
    by (simp add: link_sample_def send_view_def recv_storage_def world_of_def conn_started_def tcp_conn_init_def conn_zero_def
        Let_def tn_buffer_setup_def next_buf_size_def aws_byte_buf_from_empty_array_def)
qed

lemma storage_apart_above:
  assumes "unat base + cap \<le> unat buffer" and "unat buffer + n \<le> 2 ^ 64"
  shows "storage_apart buffer n (base, cap)"
  unfolding storage_apart_def list_all_iff
proof
  fix i assume "i \<in> set [0..<snd (base, cap)]"
  then have i: "unat base + i < unat buffer" using assms(1) by simp
  then have "unat base + i < 2 ^ 64" using unat_lt64 [of buffer] by linarith
  then have "unat (base + of_nat i) = unat base + i" using unat_of_nat64 [of i] unat_add64 [of base "of_nat i"] by simp
  then show "n \<le> unat (fst (base, cap) + of_nat i - buffer)" using i assms(2) by (simp add: unat_sub_if' word_le_nat_alt)
qed


end
