(* ===== verification/Tn_Service.thy ===== *)
theory Tn_Service
  imports Tn_Channel Tn_Event Tn_Machine
begin

text \<open>
  The TCP service of \<open>src/tcp_service.c\<close> and the libuv callbacks of \<open>src/tcp_service_internal.c\<close>:
  the state that the main thread and the IO thread share, and every operation on it.

  Objects are identified by their index: a channel in the channel map, a buffer in its pool, an
  event in the event list, a write request in the request array. A uv handle is a number; the
  part of libuv that the callbacks depend on is kept in \<open>uv_env\<close>: the \<open>data\<close> pointer of each live
  client handle, which handles are closing, and which write requests libuv has accepted and not
  yet called back for. Results of libuv calls and of allocations are inputs of the operations.

  Here every operation runs alone. The interleaving of the two threads inside an operation is
  studied for the queue in \<open>Tn_Queue_Conc\<close>.
\<close>

definition TN_SERVICE_MAX_CLIENTS :: u64 where "TN_SERVICE_MAX_CLIENTS = 10000"
definition TN_SERVICE_MAX_READ :: u64 where "TN_SERVICE_MAX_READ = 65535"

datatype tcp_service_state =
  TCP_SERVICE_NEW | TCP_SERVICE_STARTING | TCP_SERVICE_STARTED | TCP_SERVICE_STOPPING | TCP_SERVICE_STOPPED
| TCP_SERVICE_ERROR | TCP_SERVICE_INVALID

record tcp_service_write_req =
  wr_uv_base :: addr
  wr_uv_len :: size_t
  wr_channel :: nat
  wr_buffer :: "nat option"
  wr_id :: u64

record uv_env =
  uv_data :: "nat \<Rightarrow> nat option"
  uv_closing :: "nat \<Rightarrow> bool"
  uv_inflight :: "nat list"

record tcp_service =
  sv_priv :: heap_ptr
  sv_host_listen :: tn_endpoint
  sv_channel_list :: tcp_channel_list
  sv_pool_read :: tn_buffer_pool
  sv_pool_write :: tn_buffer_pool
  sv_events :: tn_event_list
  sv_event_updates :: "nat list"
  sv_event_updates_count :: u64
  sv_buffer_count :: u64
  sv_write_reqs :: "tcp_service_write_req list"
  sv_write_reqs_free :: "nat tn_queue_spsc"
  sv_write_reqs_ready :: "nat tn_queue_spsc"
  sv_state :: tcp_service_state
  sv_uv :: uv_env
  sv_mem :: mem
  g_send_msgs :: u64
  g_send_bytes :: u64
  g_recv_msgs :: u64
  g_recv_bytes :: u64

section \<open>Setup and cleanup\<close>

text \<open>The outcome of the allocations of \<open>tcp_service_setup\<close>, in the order of the calls.\<close>

record svc_alloc =
  sa_priv :: bool
  sa_chan_map :: bool
  sa_chan_free :: bool
  sa_read_blocks :: addr
  sa_read_bufs :: bool
  sa_read_queue :: bool
  sa_write_blocks :: addr
  sa_write_bufs :: bool
  sa_write_queue :: bool
  sa_ev_free :: bool
  sa_ev_ready :: bool
  sa_events :: bool
  sa_updates :: bool
  sa_reqs :: bool
  sa_reqs_free :: bool
  sa_reqs_ready :: bool
  sa_junk_buf :: "nat \<Rightarrow> tn_buffer"
  sa_junk_event :: "nat \<Rightarrow> tn_event"
  sa_junk_req :: "nat \<Rightarrow> tcp_service_write_req"
  sa_junk_ptr :: "nat \<Rightarrow> nat"

text \<open>
  The loop that initialises the write requests. NULL entries of \<open>event_updates\<close> are written as 0;
  only entries that \<open>tcp_service_events_acquire\<close> has filled in are ever read.
\<close>

fun req_setup_loop :: "nat \<Rightarrow> nat \<Rightarrow> tcp_service \<Rightarrow> (int \<times> tcp_service) option" where
  "req_setup_loop 0 i s = Some (TN_SUCCESS, s)"
| "req_setup_loop (Suc n) i s = do {
     req \<leftarrow> arr_get (sv_write_reqs s) i;
     reqs \<leftarrow> arr_set (sv_write_reqs s) i (req\<lparr>wr_id := of_nat i, wr_buffer := None\<rparr>);
     (rc, q) \<leftarrow> tn_queue_spsc_push (sv_write_reqs_free s) i;
     let s = s\<lparr>sv_write_reqs := reqs, sv_write_reqs_free := q\<rparr>;
     if rc \<noteq> 0 then Some (TN_ERROR, s)
     else do {
       updates \<leftarrow> arr_set (sv_event_updates s) i 0;
       req_setup_loop n (Suc i) (s\<lparr>sv_event_updates := updates\<rparr>)
     }
   }"

definition list_zero :: tcp_channel_list where
  "list_zero = \<lparr>cl_client_map = [], cl_clients_max = 0,
     cl_client_list_free = \<lparr>lp_data = None, lp_capacity = 0, lp_index = 0\<rparr>,
     cl_client_list_open = \<lparr>lp_data = None, lp_capacity = 0, lp_index = 0\<rparr>\<rparr>"

definition queue_zero :: "nat tn_queue_spsc" where
  "queue_zero = \<lparr>q_capacity = 0, q_mask = 0, q_buffer = [], q_head = 0, q_tail = 0, q_tail_cache = 0\<rparr>"

definition pool_zero :: tn_buffer_pool where
  "pool_zero = \<lparr>bp_blocks_inuse = 0, bp_bytes_inuse = 0, bp_block_size = 0, bp_block_count = 0, bp_tn_buffers = [],
     bp_allocation = 0, bp_tn_buffers_free = queue_zero\<rparr>"

definition events_zero :: tn_event_list where
  "events_zero = \<lparr>el_tn_events = [], el_tn_events_free = queue_zero, el_tn_events_ready = queue_zero, el_capacity = 0\<rparr>"

text \<open>\<open>memset\<close> of the whole service; the globals and the memory are not part of it.\<close>

definition service_zero :: "tcp_service \<Rightarrow> tcp_service" where
  "service_zero s = \<lparr>sv_priv = PTR_NULL, sv_host_listen = endpoint_zero, sv_channel_list = list_zero,
     sv_pool_read = pool_zero, sv_pool_write = pool_zero, sv_events = events_zero, sv_event_updates = [],
     sv_event_updates_count = 0, sv_buffer_count = 0, sv_write_reqs = [], sv_write_reqs_free = queue_zero,
     sv_write_reqs_ready = queue_zero, sv_state = TCP_SERVICE_NEW,
     sv_uv = \<lparr>uv_data = (\<lambda>_. None), uv_closing = (\<lambda>_. False), uv_inflight = []\<rparr>, sv_mem = sv_mem s,
     g_send_msgs = g_send_msgs s, g_send_bytes = g_send_bytes s, g_recv_msgs = g_recv_msgs s,
     g_recv_bytes = g_recv_bytes s\<rparr>"

text \<open>The failure path releases the two arrays and \<open>priv\<close>, whose pointer stays; the pools, lists and queues stay allocated.\<close>

definition setup_cleanup :: "tcp_service \<Rightarrow> tcp_service" where
  "setup_cleanup s = s\<lparr>sv_event_updates := [], sv_write_reqs := [], sv_priv := PTR_DANGLING\<rparr>"

text \<open>The pools have the numbers 0 (read) and 1 (write).\<close>

definition tcp_service_setup :: "svc_alloc \<Rightarrow> tcp_service \<Rightarrow> (int \<times> tcp_service) option" where
  "tcp_service_setup a s =
     (let s = service_zero s; fail = (\<lambda>s. Some (TN_ERROR, setup_cleanup s)) in
      if \<not> sa_priv a then Some (TN_ERROR, s)
      else do {
        let s = s\<lparr>sv_priv := PTR_VALID\<rparr>;
        (rc, l) \<leftarrow> tcp_channel_list_setup (sa_chan_map a) (sa_chan_free a) (sa_junk_ptr a) TN_SERVICE_MAX_CLIENTS;
        let s = s\<lparr>sv_channel_list := l\<rparr>;
        if rc \<noteq> 0 then fail s else do {
        let s = s\<lparr>sv_buffer_count := TN_SERVICE_MAX_CLIENTS * 4\<rparr>;
        (rc, p) \<leftarrow> tn_buffer_pool_setup 0 (sa_read_blocks a) (sa_read_bufs a) (sa_junk_buf a) (sa_read_queue a)
          (sa_junk_ptr a) (sv_pool_read s) (sv_buffer_count s) TN_SERVICE_MAX_READ;
        let s = s\<lparr>sv_pool_read := p\<rparr>;
        if rc \<noteq> 0 then fail s else do {
        (rc, p) \<leftarrow> tn_buffer_pool_setup 1 (sa_write_blocks a) (sa_write_bufs a) (sa_junk_buf a) (sa_write_queue a)
          (sa_junk_ptr a) (sv_pool_write s) (sv_buffer_count s) TN_SERVICE_MAX_READ;
        let s = s\<lparr>sv_pool_write := p\<rparr>;
        if rc \<noteq> 0 then fail s else do {
        (rc, l) \<leftarrow> tn_event_list_setup (sa_ev_free a) (sa_junk_ptr a) (sa_ev_ready a) (sa_junk_ptr a) (sa_events a)
          (sa_junk_event a) (sv_events s) (sv_buffer_count s);
        let s = s\<lparr>sv_events := l\<rparr>;
        if rc \<noteq> 0 then fail s else
        case tn_mem_acquire (sa_updates a) (sa_junk_ptr a) (unat (sv_buffer_count s)) of
          None \<Rightarrow> fail s
        | Some updates \<Rightarrow> (let s = s\<lparr>sv_event_updates := updates\<rparr> in
        case tn_mem_acquire (sa_reqs a) (sa_junk_req a) (unat (sv_buffer_count s)) of
          None \<Rightarrow> fail s
        | Some reqs \<Rightarrow> do {
        let s = s\<lparr>sv_write_reqs := reqs\<rparr>;
        (rc, q) \<leftarrow> tn_queue_spsc_setup (sa_reqs_free a) (sa_junk_ptr a) (sv_write_reqs_free s) (sv_buffer_count s);
        let s = s\<lparr>sv_write_reqs_free := q\<rparr>;
        if rc \<noteq> 0 then fail s else do {
        (rc, q) \<leftarrow> tn_queue_spsc_setup (sa_reqs_ready a) (sa_junk_ptr a) (sv_write_reqs_ready s) (sv_buffer_count s);
        let s = s\<lparr>sv_write_reqs_ready := q\<rparr>;
        if rc \<noteq> 0 then fail s else do {
        (rc, s) \<leftarrow> req_setup_loop (unat (sv_buffer_count s)) 0 s;
        if rc \<noteq> 0 then fail s else Some (TN_SUCCESS, s)
      }}})}}}})"

text \<open>Cleaning up a service whose memory was released before would release it twice; the model has no result then.\<close>

definition tcp_service_cleanup :: "tcp_service \<Rightarrow> tcp_service option" where
  "tcp_service_cleanup s =
     (if sv_priv s = PTR_NULL then Some s
      else if sv_priv s = PTR_DANGLING then None
      else Some (s\<lparr>sv_channel_list := snd (tcp_channel_list_cleanup (sv_channel_list s)),
             sv_pool_read := tn_buffer_pool_cleanup (sv_pool_read s),
             sv_pool_write := tn_buffer_pool_cleanup (sv_pool_write s),
             sv_events := tn_event_list_cleanup (sv_events s),
             sv_write_reqs_free := tn_queue_spsc_cleanup (sv_write_reqs_free s),
             sv_write_reqs_ready := tn_queue_spsc_cleanup (sv_write_reqs_ready s),
             sv_event_updates := [], sv_write_reqs := [], sv_priv := PTR_DANGLING\<rparr>))"

section \<open>Starting and stopping\<close>

definition tcp_service_set_state :: "tcp_service \<Rightarrow> tcp_service_state \<Rightarrow> tcp_service" where
  "tcp_service_set_state s st = s\<lparr>sv_state := st\<rparr>"

text \<open>
  The code of \<open>tn_endpoint_set\<close> with the endpoint it leaves, the code of \<open>tn_endpoint_get_string\<close> on a
  255-byte array and the code of the thread launch are inputs.
\<close>

definition tcp_service_start :: "int \<times> tn_endpoint \<Rightarrow> int \<Rightarrow> int \<Rightarrow> tcp_service \<Rightarrow> int \<times> tcp_service" where
  "tcp_service_start set_result rc_string rc_launch s =
     (if sv_state s \<noteq> TCP_SERVICE_NEW \<and> sv_state s \<noteq> TCP_SERVICE_STOPPED then (TN_ERROR, s)
      else let s = tcp_service_set_state s TCP_SERVICE_STARTING;
               (rc, host) = set_result;
               s = s\<lparr>sv_host_listen := host\<rparr>
           in if rc \<noteq> 0 then (TN_ERROR, s)
              else if rc_string \<noteq> 0 then (TN_ERROR, s)
              else if rc_launch \<noteq> 0 then (TN_ERROR, s)
              else (TN_SUCCESS, s))"

text \<open>Joining the IO thread only logs a failure, so the result of the join does not matter.\<close>

definition tcp_service_stop :: "tcp_service \<Rightarrow> int \<times> tcp_service" where
  "tcp_service_stop s =
     (if sv_state s = TCP_SERVICE_STOPPING \<or> sv_state s = TCP_SERVICE_STOPPED then (TN_ERROR, s)
      else (TN_SUCCESS, tcp_service_set_state (tcp_service_set_state s TCP_SERVICE_STOPPING) TCP_SERVICE_STOPPED))"

definition tcp_service_stop_signal :: "tcp_service \<Rightarrow> int \<times> tcp_service" where
  "tcp_service_stop_signal s =
     (if sv_state s = TCP_SERVICE_STOPPING \<or> sv_state s = TCP_SERVICE_STOPPED then (TN_ERROR, s)
      else (TN_SUCCESS, tcp_service_set_state s TCP_SERVICE_STOPPING))"

text \<open>\<open>SIGINT\<close> is 2.\<close>

definition on_sigint_cb :: "int \<Rightarrow> tcp_service \<Rightarrow> tcp_service" where
  "on_sigint_cb signum s = (if signum \<noteq> 2 then s else snd (tcp_service_stop_signal s))"

section \<open>Events and sending (main thread)\<close>

definition tcp_service_events_acquire :: "tcp_service \<Rightarrow> (int \<times> u64 \<times> tcp_service) option" where
  "tcp_service_events_acquire s = do {
     let s = s\<lparr>sv_event_updates_count := 0\<rparr>;
     (rc, updates, n, l) \<leftarrow> tn_event_list_ready_pop_all (sv_events s) (sv_event_updates s) (sv_buffer_count s);
     let s = s\<lparr>sv_events := l, sv_event_updates := updates\<rparr>;
     if rc \<noteq> 0 then Some (TN_ERROR, 0, s)
     else Some (TN_SUCCESS, n, s\<lparr>sv_event_updates_count := n\<rparr>)
   }"

definition release_event :: "nat \<Rightarrow> tcp_service \<Rightarrow> tcp_service option" where
  "release_event e s = do {
     evt \<leftarrow> arr_get (el_tn_events (sv_events s)) e;
     s \<leftarrow> (if ev_type evt = TN_EVENT_CLIENT_READ then do {
              b \<leftarrow> ev_tn_buffer evt;
              (rc, p) \<leftarrow> tn_buffer_pool_push (sv_pool_read s) b;
              Some (s\<lparr>sv_pool_read := p\<rparr>)
            } else Some s);
     (rc, l) \<leftarrow> tn_event_list_free_push (sv_events s) e;
     Some (s\<lparr>sv_events := l\<rparr>)
   }"

fun release_loop :: "nat list \<Rightarrow> tcp_service \<Rightarrow> tcp_service option" where
  "release_loop [] s = Some s"
| "release_loop (e # es) s = do { s \<leftarrow> release_event e s; release_loop es s }"

definition tcp_service_events_release :: "tcp_service \<Rightarrow> (int \<times> tcp_service) option" where
  "tcp_service_events_release s = do {
     tn_assert (unat (sv_event_updates_count s) \<le> length (sv_event_updates s));
     s \<leftarrow> release_loop (take (unat (sv_event_updates_count s)) (sv_event_updates s)) s;
     Some (TN_SUCCESS, s)
   }"

definition tcp_service_send ::
  "nat \<Rightarrow> u8 list \<Rightarrow> size_t \<Rightarrow> tcp_service \<Rightarrow> (int \<times> tcp_service) option" where
  "tcp_service_send channel sndbuf sndlen s = do {
     tn_assert (sndlen \<noteq> 0);
     (rc, out, q) \<leftarrow> tn_queue_spsc_peek (sv_write_reqs_free s);
     let s = s\<lparr>sv_write_reqs_free := q\<rparr>;
     if rc \<noteq> 0 then Some (TN_SEND_NOREQ, s) else do {
     r \<leftarrow> out;
     req \<leftarrow> arr_get (sv_write_reqs s) r;
     (rc, buffer, p) \<leftarrow> tn_buffer_pool_peek (sv_pool_write s);
     let req = req\<lparr>wr_buffer := buffer\<rparr>;
     reqs \<leftarrow> arr_set (sv_write_reqs s) r req;
     let s = s\<lparr>sv_pool_write := p, sv_write_reqs := reqs\<rparr>;
     if rc \<noteq> 0 then Some (TN_SEND_NOBUF, s) else do {
     i \<leftarrow> buffer;
     b \<leftarrow> arr_get (bp_tn_buffers (sv_pool_write s)) i;
     (rc, m, b) \<leftarrow> tn_buffer_write (sv_mem s) b sndbuf sndlen;
     bufs \<leftarrow> arr_set (bp_tn_buffers (sv_pool_write s)) i b;
     let s = s\<lparr>sv_mem := m, sv_pool_write := (sv_pool_write s)\<lparr>bp_tn_buffers := bufs\<rparr>\<rparr>;
     if rc \<noteq> 0 then Some (TN_SEND_NOBUF, s) else do {
     let req = req\<lparr>wr_channel := channel, wr_uv_base := tn_buffer_read_ptr b, wr_uv_len := tn_buffer_length b\<rparr>;
     reqs \<leftarrow> arr_set (sv_write_reqs s) r req;
     (rc, q) \<leftarrow> tn_queue_spsc_push (sv_write_reqs_ready s) r;
     let s = s\<lparr>sv_write_reqs := reqs, sv_write_reqs_ready := q\<rparr>;
     if rc \<noteq> 0 then Some (TN_ERROR, s)
     else Some (TN_SUCCESS, s\<lparr>sv_pool_write := tn_buffer_pool_pop_cached (sv_pool_write s),
            sv_write_reqs_free := tn_queue_spsc_pop_cached (sv_write_reqs_free s)\<rparr>)
   }}}}"

text \<open>The statistics are declared but not kept: both functions report success and touch neither the service nor the result.\<close>

record tcp_service_stats =
  st_recv_count :: u64
  st_recv_bytes :: u64
  st_send_count :: u64
  st_send_bytes :: u64
  st_tstamp_last :: u64

definition tcp_service_stats_clear :: "tcp_service \<Rightarrow> int \<times> tcp_service" where
  "tcp_service_stats_clear s = (TN_SUCCESS, s)"

definition tcp_service_stats_get :: "tcp_service \<Rightarrow> tcp_service_stats \<Rightarrow> int \<times> tcp_service_stats \<times> tcp_service" where
  "tcp_service_stats_get s stats = (TN_SUCCESS, stats, s)"

end
