(* ===== verification/Tn_Service_IO.thy ===== *)
theory Tn_Service_IO
  imports Tn_Service
begin

text \<open>
  The callbacks that libuv runs on the IO thread, from \<open>src/tcp_service_internal.c\<close>, and the IO
  thread itself. Results of the libuv calls a callback makes are its inputs, in the order of the
  calls; logging is left out.
\<close>

section \<open>Small updates\<close>

definition set_channel :: "nat \<Rightarrow> tcp_channel \<Rightarrow> tcp_service \<Rightarrow> tcp_service option" where
  "set_channel c ch s = do {
     chans \<leftarrow> arr_set (cl_client_map (sv_channel_list s)) c ch;
     Some (s\<lparr>sv_channel_list := (sv_channel_list s)\<lparr>cl_client_map := chans\<rparr>\<rparr>)
   }"

definition get_channel :: "nat \<Rightarrow> tcp_service \<Rightarrow> tcp_channel option" where
  "get_channel c s = arr_get (cl_client_map (sv_channel_list s)) c"

definition set_event :: "nat \<Rightarrow> (tn_event \<Rightarrow> tn_event) \<Rightarrow> tcp_service \<Rightarrow> tcp_service option" where
  "set_event e f s = do {
     evt \<leftarrow> arr_get (el_tn_events (sv_events s)) e;
     evts \<leftarrow> arr_set (el_tn_events (sv_events s)) e (f evt);
     Some (s\<lparr>sv_events := (sv_events s)\<lparr>el_tn_events := evts\<rparr>\<rparr>)
   }"

definition uv_close_handle :: "nat \<Rightarrow> tcp_service \<Rightarrow> tcp_service" where
  "uv_close_handle h s = s\<lparr>sv_uv := (sv_uv s)\<lparr>uv_closing := (uv_closing (sv_uv s))(h := True)\<rparr>\<rparr>"

text \<open>Releasing the memory of a client handle.\<close>

definition free_handle :: "nat \<Rightarrow> tcp_service \<Rightarrow> tcp_service" where
  "free_handle h s = s\<lparr>sv_uv := (sv_uv s)\<lparr>uv_data := (uv_data (sv_uv s))(h := None),
     uv_closing := (uv_closing (sv_uv s))(h := False)\<rparr>\<rparr>"

section \<open>Callbacks\<close>

definition on_close_handle_cb :: "nat \<Rightarrow> tcp_service \<Rightarrow> tcp_service" where
  "on_close_handle_cb h s = free_handle h s"

definition on_close_channel_cb :: "nat \<Rightarrow> tcp_service \<Rightarrow> tcp_service option" where
  "on_close_channel_cb h s = do {
     c \<leftarrow> uv_data (sv_uv s) h;
     ch \<leftarrow> get_channel c s;
     let ch = ch\<lparr>ch_state := TCP_CHANNEL_CLOSED\<rparr>;
     (ch, s) \<leftarrow> (case ch_read_buffer ch of None \<Rightarrow> Some (ch, s)
       | Some b \<Rightarrow> do {
           (rc, p) \<leftarrow> tn_buffer_pool_push (sv_pool_read s) b;
           Some (ch\<lparr>ch_read_buffer := None\<rparr>, s\<lparr>sv_pool_read := p\<rparr>)
         });
     s \<leftarrow> set_channel c ch s;
     (rc, out, l) \<leftarrow> tn_event_list_free_pop_close (sv_events s);
     let s = s\<lparr>sv_events := l\<rparr>;
     if rc \<noteq> 0 then Some (free_handle h s) else do {
     e \<leftarrow> out;
     s \<leftarrow> set_event e (\<lambda>evt. evt\<lparr>ev_client_id := ch_id ch, ev_error_code := 0\<rparr>) s;
     (rc, l) \<leftarrow> tn_event_list_ready_push (sv_events s) e;
     let s = s\<lparr>sv_events := l\<rparr>;
     (rc, l) \<leftarrow> tcp_channel_list_close (sv_channel_list s) c;
     Some (free_handle h (s\<lparr>sv_channel_list := l\<rparr>))
   }}"

definition on_send_cb :: "nat \<Rightarrow> int \<Rightarrow> tcp_service \<Rightarrow> tcp_service option" where
  "on_send_cb r status s = do {
     req \<leftarrow> arr_get (sv_write_reqs s) r;
     let s = (if status \<noteq> 0 then s
       else s\<lparr>g_send_msgs := g_send_msgs s + 1, g_send_bytes := g_send_bytes s + wr_uv_len req\<rparr>);
     reqs \<leftarrow> arr_set (sv_write_reqs s) r (req\<lparr>wr_buffer := None\<rparr>);
     let s = s\<lparr>sv_write_reqs := reqs\<rparr>;
     b \<leftarrow> wr_buffer req;
     (rc, p) \<leftarrow> tn_buffer_pool_push (sv_pool_write s) b;
     let s = s\<lparr>sv_pool_write := p\<rparr>;
     (rc, q) \<leftarrow> tn_queue_spsc_push (sv_write_reqs_free s) r;
     Some (s\<lparr>sv_write_reqs_free := q\<rparr>)
   }"

text \<open>The uv buffer handed to libuv: base and length, NULL and 0 when there is none.\<close>

definition on_recv_alloc_cb :: "nat \<Rightarrow> tcp_service \<Rightarrow> ((addr \<times> size_t) \<times> tcp_service) option" where
  "on_recv_alloc_cb h s = do {
     c \<leftarrow> uv_data (sv_uv s) h;
     ch \<leftarrow> get_channel c s;
     (rc, ch, s) \<leftarrow> (case ch_read_buffer ch of Some b \<Rightarrow> Some (TN_SUCCESS, ch, s)
       | None \<Rightarrow> do {
           (rc, out, p) \<leftarrow> tn_buffer_pool_pop_back (sv_pool_read s);
           Some (rc, ch\<lparr>ch_read_buffer := out\<rparr>, s\<lparr>sv_pool_read := p\<rparr>)
         });
     s \<leftarrow> set_channel c ch s;
     if rc \<noteq> 0 then Some ((0, 0), s) else do {
     i \<leftarrow> ch_read_buffer ch;
     b \<leftarrow> arr_get (bp_tn_buffers (sv_pool_read s)) i;
     Some ((tn_buffer_write_ptr b, tn_buffer_remaining b), s)
   }}"

text \<open>
  \<open>nread\<close> is a negative error number, or the number of bytes libuv stored at the base of the buffer
  it was given; the bytes are already in memory when the callback runs. The \<open>cleanup\<close> part is
  separate.
\<close>

definition recv_cleanup :: "nat \<Rightarrow> nat \<Rightarrow> int \<Rightarrow> bool \<Rightarrow> tcp_service \<Rightarrow> tcp_service option" where
  "recv_cleanup h c ret close_channel s = do {
     ch \<leftarrow> get_channel c s;
     let ch = ch\<lparr>ch_error_code := ret\<rparr>;
     if close_channel \<and> \<not> uv_closing (sv_uv s) h then do {
       s \<leftarrow> set_channel c (ch\<lparr>ch_state := TCP_CHANNEL_CLOSING\<rparr>) s;
       Some (uv_close_handle h s)
     }
     else set_channel c ch s
   }"

definition on_recv_cb :: "nat \<Rightarrow> int \<Rightarrow> bool \<Rightarrow> tcp_service \<Rightarrow> tcp_service option" where
  "on_recv_cb h nread has_buf s = do {
     c \<leftarrow> uv_data (sv_uv s) h;
     if nread < 0 then recv_cleanup h c nread True s
     else if nread = 0 \<or> \<not> has_buf then recv_cleanup h c TN_RECV_ERROR False s
     else do {
     let n = word_of_int nread;
     let s = s\<lparr>g_recv_msgs := g_recv_msgs s + 1, g_recv_bytes := g_recv_bytes s + n\<rparr>;
     ch \<leftarrow> get_channel c s;
     i \<leftarrow> ch_read_buffer ch;
     b \<leftarrow> arr_get (bp_tn_buffers (sv_pool_read s)) i;
     let (rc, b) = tn_buffer_add_length b n;
     bufs \<leftarrow> arr_set (bp_tn_buffers (sv_pool_read s)) i b;
     let s = s\<lparr>sv_pool_read := (sv_pool_read s)\<lparr>bp_tn_buffers := bufs\<rparr>\<rparr>;
     if rc \<noteq> 0 then recv_cleanup h c TN_RECV_EBUF False s else do {
     (rc, out, l) \<leftarrow> tn_event_list_free_pop_read (sv_events s);
     let s = s\<lparr>sv_events := l\<rparr>;
     if rc \<noteq> 0 then recv_cleanup h c TN_RECV_EVTPOP False s else do {
     e \<leftarrow> out;
     s \<leftarrow> set_event e (\<lambda>evt. evt\<lparr>ev_client_id := ch_id ch, ev_tn_buffer := Some i,
       ev_buffer := tn_buffer_read_ptr b, ev_len := tn_buffer_read_length b\<rparr>) s;
     (rc, l) \<leftarrow> tn_event_list_ready_push (sv_events s) e;
     let s = s\<lparr>sv_events := l\<rparr>;
     if rc \<noteq> 0 then recv_cleanup h c TN_RECV_EVTPUSH False s
     else set_channel c (ch\<lparr>ch_read_buffer := None\<rparr>) s
   }}}}"

text \<open>
  The results that \<open>on_connection_cb\<close> depends on: whether the handle could be allocated and its
  number, the codes of the libuv calls, and the two addresses libuv reports.
\<close>

record conn_env =
  ce_alloc :: bool
  ce_handle :: nat
  ce_tcp_init :: int
  ce_accept :: int
  ce_getpeername :: int
  ce_peer :: sockaddr
  ce_getsockname :: int
  ce_sock :: sockaddr
  ce_read_start :: int
  ce_big_endian :: bool
  ce_ip4_name :: "sockaddr \<Rightarrow> string"
  ce_ip6_name :: "sockaddr \<Rightarrow> string"

text \<open>The \<open>cleanup\<close> part: without a channel only an initialised handle is closed.\<close>

definition connection_cleanup :: "nat option \<Rightarrow> bool \<Rightarrow> nat option \<Rightarrow> tcp_service \<Rightarrow> tcp_service option" where
  "connection_cleanup client_handle handle_is_init channel s =
     (case client_handle of None \<Rightarrow> Some s
      | Some h \<Rightarrow> (case channel of
          Some c \<Rightarrow> do {
            ch \<leftarrow> get_channel c s;
            s \<leftarrow> set_channel c (ch\<lparr>ch_state := TCP_CHANNEL_CLOSING\<rparr>) s;
            Some (uv_close_handle h s)
          }
        | None \<Rightarrow> Some (if handle_is_init then uv_close_handle h s else s)))"

definition init_channel :: "nat \<Rightarrow> tcp_channel \<Rightarrow> tcp_channel" where
  "init_channel h ch = ch\<lparr>ch_priv := Some h, ch_has_service := True, ch_read_state := TCP_CHANNEL_READ_HEADER,
     ch_state := TCP_CHANNEL_OPEN, ch_error_code := 0, ch_read_buffer := None, ch_last_msg_id := 0\<rparr>"

definition on_connection_cb :: "int \<Rightarrow> conn_env \<Rightarrow> tcp_service \<Rightarrow> tcp_service option" where
  "on_connection_cb status env s =
     (if status < 0 then connection_cleanup None False None s
      else if \<not> ce_alloc env then connection_cleanup None False None s
      else let h = ce_handle env in
      if ce_tcp_init env \<noteq> 0 then connection_cleanup (Some h) False None s
      else if ce_accept env \<noteq> 0 then connection_cleanup (Some h) True None s
      else do {
        (rc, out, l) \<leftarrow> tcp_channel_list_open (sv_channel_list s);
        let s = s\<lparr>sv_channel_list := l\<rparr>;
        if rc \<noteq> 0 then connection_cleanup (Some h) True None s else do {
        c \<leftarrow> out;
        let s = s\<lparr>sv_uv := (sv_uv s)\<lparr>uv_data := (uv_data (sv_uv s))(h \<mapsto> c)\<rparr>\<rparr>;
        ch \<leftarrow> get_channel c s;
        let ch = init_channel h ch;
        s \<leftarrow> set_channel c ch s;
        if ce_getpeername env \<noteq> 0 then connection_cleanup (Some h) True (Some c) s else do {
        let (rc, ep) = tn_endpoint_convert_from (ce_peer env);
        let ch = ch\<lparr>ch_endpoint := ep\<rparr>;
        s \<leftarrow> set_channel c ch s;
        if rc \<noteq> 0 then connection_cleanup (Some h) True (Some c) s
        else if ce_getsockname env \<noteq> 0 then connection_cleanup (Some h) True (Some c) s else do {
        let (rc, host_local) = tn_endpoint_convert_from (ce_sock env);
        if rc \<noteq> 0 then connection_cleanup (Some h) True (Some c) s else do {
        (rc, out, l) \<leftarrow> tn_event_list_free_pop_open (sv_events s);
        let s = s\<lparr>sv_events := l\<rparr>;
        if rc \<noteq> 0 then connection_cleanup (Some h) True (Some c) s else do {
        e \<leftarrow> out;
        s \<leftarrow> set_event e (\<lambda>evt. evt\<lparr>ev_type := TN_EVENT_CLIENT_OPEN, ev_client_id := ch_id ch\<rparr>) s;
        (rc, str) \<leftarrow> tn_endpoint_get_string (ce_ip4_name env) (ce_ip6_name env) (ce_big_endian env) host_local 64;
        s \<leftarrow> set_event e (\<lambda>evt. evt\<lparr>ev_host_local := str\<rparr>) s;
        if rc \<noteq> 0 then connection_cleanup (Some h) True (Some c) s else do {
        (rc, str) \<leftarrow> tn_endpoint_get_string (ce_ip4_name env) (ce_ip6_name env) (ce_big_endian env) (ch_endpoint ch) 64;
        s \<leftarrow> set_event e (\<lambda>evt. evt\<lparr>ev_host_remote := str\<rparr>) s;
        if rc \<noteq> 0 then connection_cleanup (Some h) True (Some c) s else do {
        (rc, l) \<leftarrow> tn_event_list_ready_push (sv_events s) e;
        let s = s\<lparr>sv_events := l\<rparr>;
        if rc \<noteq> 0 then connection_cleanup (Some h) True (Some c) s
        else if ce_read_start env \<noteq> 0 then connection_cleanup (Some h) True (Some c) s
        else Some s
      }}}}}}}})"

text \<open>
  The loop of \<open>on_prep_cb\<close>: each iteration takes one request from the ready queue. \<open>uvw\<close> gives the
  result of \<open>uv_write\<close> for a request; libuv keeps an accepted request until it calls back. The
  first argument bounds the number of iterations.
\<close>

definition give_back_request :: "nat \<Rightarrow> nat option \<Rightarrow> tcp_service \<Rightarrow> tcp_service option" where
  "give_back_request r buffer s = do {
     b \<leftarrow> buffer;
     (rc, p) \<leftarrow> tn_buffer_pool_push (sv_pool_write s) b;
     let s = s\<lparr>sv_pool_write := p\<rparr>;
     (rc, q) \<leftarrow> tn_queue_spsc_push (sv_write_reqs_free s) r;
     Some (s\<lparr>sv_write_reqs_free := q\<rparr>)
   }"

definition prep_request :: "(nat \<Rightarrow> int) \<Rightarrow> nat \<Rightarrow> tcp_service \<Rightarrow> tcp_service option" where
  "prep_request uvw r s = do {
     req \<leftarrow> arr_get (sv_write_reqs s) r;
     ch \<leftarrow> get_channel (wr_channel req) s;
     if ch_state ch \<noteq> TCP_CHANNEL_OPEN then give_back_request r (wr_buffer req) s
     else if uvw r \<noteq> 0 then do {
       reqs \<leftarrow> arr_set (sv_write_reqs s) r (req\<lparr>wr_buffer := None\<rparr>);
       give_back_request r (wr_buffer req) (s\<lparr>sv_write_reqs := reqs\<rparr>)
     }
     else Some (s\<lparr>sv_uv := (sv_uv s)\<lparr>uv_inflight := r # uv_inflight (sv_uv s)\<rparr>\<rparr>)
   }"

fun prep_loop :: "nat \<Rightarrow> (nat \<Rightarrow> int) \<Rightarrow> tcp_service \<Rightarrow> tcp_service option" where
  "prep_loop 0 uvw s = None"
| "prep_loop (Suc fuel) uvw s = do {
     (rc, out, q) \<leftarrow> tn_queue_spsc_pop_back (sv_write_reqs_ready s);
     let s = s\<lparr>sv_write_reqs_ready := q\<rparr>;
     if rc \<noteq> 0 then Some s else do {
     r \<leftarrow> out;
     s \<leftarrow> prep_request uvw r s;
     prep_loop fuel uvw s
   }}"

definition on_prep_cb :: "(nat \<Rightarrow> int) \<Rightarrow> tcp_service \<Rightarrow> tcp_service option" where
  "on_prep_cb uvw s = prep_loop (Suc (length (q_elems (sv_write_reqs_ready s)))) uvw s"

end
