(* ===== verification/Tn_Service_Inv.thy ===== *)
theory Tn_Service_Inv
  imports Tn_Service_IO
begin

text \<open>
  The invariant of the running service and that every operation keeps it. It says who owns what:
  a write request is free, ready or with libuv, a write buffer is free or belongs to one of the
  busy requests, an event is free, ready or in the hands of the main thread, a read buffer is free,
  attached to a channel or attached to a read event; each exactly once.

  Every lemma also says that the operation gives a result, so that no assertion fails, no array
  is accessed out of range and no NULL pointer is followed.
\<close>

section \<open>Write requests\<close>

abbreviation req_free :: "tcp_service \<Rightarrow> nat list" where
  "req_free s \<equiv> q_elems (sv_write_reqs_free s)"

abbreviation req_ready :: "tcp_service \<Rightarrow> nat list" where
  "req_ready s \<equiv> q_elems (sv_write_reqs_ready s)"

abbreviation req_total :: "tcp_service \<Rightarrow> nat" where
  "req_total s \<equiv> unat (sv_buffer_count s)"

text \<open>
  The busy requests are ready, with libuv, or in the hands of a callback that is running
  (\<open>hs\<close>, empty between operations).
\<close>

definition req_busy :: "nat list \<Rightarrow> tcp_service \<Rightarrow> nat list" where
  "req_busy hs s = req_ready s @ uv_inflight (sv_uv s) @ hs"

definition req_bufs :: "tcp_service_write_req list \<Rightarrow> nat list \<Rightarrow> nat list" where
  "req_bufs reqs rs = map (\<lambda>r. the (wr_buffer (reqs ! r))) rs"

definition req_inv :: "nat list \<Rightarrow> tcp_service \<Rightarrow> bool" where
  "req_inv hs s \<longleftrightarrow> length (sv_write_reqs s) = req_total s \<and>
     q_inv (sv_write_reqs_free s) \<and> q_inv (sv_write_reqs_ready s) \<and>
     req_total s \<le> q_cap (sv_write_reqs_free s) \<and> req_total s \<le> q_cap (sv_write_reqs_ready s) \<and>
     conserved (req_total s) (req_busy hs s) (req_free s) \<and>
     pool_inv 1 (sv_pool_write s) \<and> pool_total (sv_pool_write s) = req_total s \<and>
     (\<forall>r \<in> set (req_busy hs s). wr_buffer (sv_write_reqs s ! r) \<noteq> None) \<and>
     (\<forall>r \<in> set (req_busy hs s). wr_channel (sv_write_reqs s ! r) < chan_total (sv_channel_list s)) \<and>
     conserved (req_total s) (req_bufs (sv_write_reqs s) (req_busy hs s)) (pool_free (sv_pool_write s))"

lemma req_invD:
  assumes "req_inv hs s"
  shows "length (sv_write_reqs s) = req_total s" and "q_inv (sv_write_reqs_free s)"
    and "q_inv (sv_write_reqs_ready s)" and "req_total s \<le> q_cap (sv_write_reqs_free s)"
    and "req_total s \<le> q_cap (sv_write_reqs_ready s)"
    and "conserved (req_total s) (req_busy hs s) (req_free s)"
    and "pool_inv 1 (sv_pool_write s)" and "pool_total (sv_pool_write s) = req_total s"
    and "\<And>r. r \<in> set (req_busy hs s) \<Longrightarrow> wr_buffer (sv_write_reqs s ! r) \<noteq> None"
    and "\<And>r. r \<in> set (req_busy hs s) \<Longrightarrow> wr_channel (sv_write_reqs s ! r) < chan_total (sv_channel_list s)"
    and "conserved (req_total s) (req_bufs (sv_write_reqs s) (req_busy hs s)) (pool_free (sv_pool_write s))"
  using assms unfolding req_inv_def by blast+

text \<open>A request that is free is not busy, and the other way round.\<close>

lemma conserved_disjoint:
  assumes "conserved n held free"
  shows "h \<in> set held \<Longrightarrow> h \<notin> set free" and "h \<in> set free \<Longrightarrow> h \<notin> set held"
    and "h \<in> set held \<Longrightarrow> h < n" and "h \<in> set free \<Longrightarrow> h < n" and "distinct held" and "distinct free"
    and "set free \<subseteq> {..<n}"
  using assms unfolding conserved_def distinct_append set_append by blast+

lemma req_bufs_simps [simp]:
  "req_bufs reqs [] = []" "req_bufs reqs (r # rs) = the (wr_buffer (reqs ! r)) # req_bufs reqs rs"
  "req_bufs reqs (rs @ rs') = req_bufs reqs rs @ req_bufs reqs rs'"
  by (simp_all add: req_bufs_def)

lemma req_bufs_update:
  assumes "r \<notin> set rs"
  shows "req_bufs (reqs[r := q]) rs = req_bufs reqs rs"
  unfolding req_bufs_def using assms by (intro map_cong refl) (metis nth_list_update_neq)

text \<open>Moving requests between the queues and libuv, and their buffers, keeps the invariant.\<close>

lemma req_invI:
  assumes "req_inv hs s" and "length (sv_write_reqs s') = req_total s" and "sv_buffer_count s' = sv_buffer_count s"
    and "cl_clients_max (sv_channel_list s') = cl_clients_max (sv_channel_list s)"
    and "q_inv (sv_write_reqs_free s')" and "q_inv (sv_write_reqs_ready s')"
    and "q_cap (sv_write_reqs_free s') = q_cap (sv_write_reqs_free s)"
    and "q_cap (sv_write_reqs_ready s') = q_cap (sv_write_reqs_ready s)"
    and "pool_inv 1 (sv_pool_write s')" and "pool_total (sv_pool_write s') = pool_total (sv_pool_write s)"
    and "mset (req_busy hs' s') + mset (req_free s') = mset (req_busy hs s) + mset (req_free s)"
    and "mset (req_bufs (sv_write_reqs s') (req_busy hs' s')) + mset (pool_free (sv_pool_write s')) =
      mset (req_bufs (sv_write_reqs s) (req_busy hs s)) + mset (pool_free (sv_pool_write s))"
    and "\<And>r. r \<in> set (req_busy hs' s') \<Longrightarrow> wr_buffer (sv_write_reqs s' ! r) \<noteq> None \<and>
      wr_channel (sv_write_reqs s' ! r) < chan_total (sv_channel_list s)"
  shows "req_inv hs' s'"
  using assms(2-13) req_invD(4-6,8,11) [OF assms(1)]
  unfolding req_inv_def conserved_mset by (simp only:) blast

text \<open>As many buffers as requests are taken, so a free request comes with a free buffer.\<close>

lemma req_free_pool_free:
  assumes "req_inv hs s"
  shows "length (req_free s) = length (pool_free (sv_pool_write s))"
  using conserved_length [OF req_invD(6) [OF assms]] conserved_length [OF req_invD(11) [OF assms]]
  by (simp add: req_bufs_def)

section \<open>Sending\<close>

lemma send_noreq:
  assumes "req_free s = []" and "sndlen \<noteq> 0"
  shows "tcp_service_send c data sndlen s = Some (TN_SEND_NOREQ, s)"
  using assms q_peek_empty [OF assms(1)] by (simp add: tcp_service_send_def)

text \<open>
  What the peek at the pool and the write into the peeked buffer do to the pool: the buffer is
  still free, and it holds the bytes.
\<close>

lemma pool_peek_write:
  assumes "pool_inv pid pool" and "pool_free pool = i # is" and "unat len \<le> length data"
    and "unat len \<le> unat (bp_block_size pool)"
  obtains pool1 b m' b' where "tn_buffer_pool_peek pool = Some (TN_SUCCESS, Some i, pool1)"
    "i < length (bp_tn_buffers pool1)" "bp_tn_buffers pool1 ! i = b"
    "tn_buffer_write m b data len = Some (TN_SUCCESS, m', b')"
    "pool_inv pid (pool1\<lparr>bp_tn_buffers := (bp_tn_buffers pool1)[i := b']\<rparr>)"
    "pool_free pool1 = i # is" "q_peeked (bp_tn_buffers_free pool1)" "pool_total pool1 = pool_total pool"
    "mem_read m' (tn_buffer_read_ptr b') (unat (tn_buffer_length b')) = take (unat len) data"
    "tn_buffer_length b' = len" "bp_block_size pool1 = bp_block_size pool"
proof -
  obtain pool1 where p: "tn_buffer_pool_peek pool = Some (TN_SUCCESS, Some i, pool1)" "pool_inv pid pool1"
      "pool_free pool1 = i # is" "q_peeked (bp_tn_buffers_free pool1)"
      "bp_tn_buffers pool1 = (bp_tn_buffers pool)[i := tn_buffer_reset (bp_tn_buffers pool ! i)]"
      "pool_total pool1 = pool_total pool" "bp_block_size pool1 = bp_block_size pool"
    by (rule pool_peek_ok [OF assms(1,2)])
  have i: "i < pool_total pool" using pool_invD(7) [OF assms(1)] assms(2) by auto
  let ?b = "tn_buffer_reset (bp_tn_buffers pool ! i)"
  have b: "bp_tn_buffers pool1 ! i = ?b" using p(5) i pool_invD(2) [OF assms(1)] by simp
  have ok: "pool_buffer_ok pid pool1 i ?b" using pool_invD(3) [OF p(2), of i] i p(6) b by simp
  have fill: "buf_fill ?b = 0" using pool_reset_ok(3) [OF assms(1) i] .
  have inv: "buf_inv ?b" using ok by (simp add: pool_buffer_ok_def)
  have room: "buf_fill ?b + unat len \<le> buf_cap ?b" using fill ok p(7) assms(4) by (simp add: pool_buffer_ok_def)
  have len0: "bb_len (tb_buf ?b) = 0" using fill by (simp add: unat_eq_zero)
  have pos: "cur_ptr (tb_pos ?b) = buf_base ?b"
    by (simp add: tn_buffer_reset_def tn_buffer_write_reset_def tn_buffer_read_reset_def)
  let ?m = "mem_write m (tn_buffer_write_ptr ?b) (take (unat len) data)"
  have "buf_content ?m (buf_extend ?b len) = buf_content m ?b @ take (unat len) data"
    by (rule buf_content_extend [OF inv room]) (use assms(3) in simp)
  then have c: "mem_read ?m (tn_buffer_read_ptr (buf_extend ?b len)) (unat (tn_buffer_length (buf_extend ?b len))) =
      take (unat len) data"
    using len0 pos by (simp add: buf_content_def tn_buffer_read_ptr_def tn_buffer_length_def buf_extend_def)
  have l: "tn_buffer_length (buf_extend ?b len) = len" using len0 by (simp add: tn_buffer_length_def buf_extend_def)
  have i1: "i < length (bp_tn_buffers pool1)" using i p(6) pool_invD(2) [OF p(2)] by simp
  have "pool_inv pid (pool1\<lparr>bp_tn_buffers := (bp_tn_buffers pool1)[i := buf_extend ?b len]\<rparr>)"
    by (rule pool_inv_buffer [OF p(2)])
      (use ok buf_extend_inv [OF inv room] in \<open>simp add: pool_buffer_ok_def buf_extend_def\<close>)
  from that [OF p(1) i1 b buf_write_ok [OF inv room assms(3)] this p(3,4,6) c l p(7)] show thesis .
qed

lemma q_tail_cache_keeps:
  "q_inv (q\<lparr>q_tail_cache := t\<rparr>) = q_inv q" "q_elems (q\<lparr>q_tail_cache := t\<rparr>) = q_elems q"
  "q_cap (q\<lparr>q_tail_cache := t\<rparr>) = q_cap q"
  by (simp_all add: q_cap_def)

lemma send_ok:
  assumes "req_inv hs s" and "req_free s = r # rs" and "sndlen \<noteq> 0" and "unat sndlen \<le> length data"
    and "unat sndlen \<le> unat (bp_block_size (sv_pool_write s))" and "c < chan_total (sv_channel_list s)"
  obtains reqs free ready pool m' where
    "tcp_service_send c data sndlen s = Some (TN_SUCCESS, s\<lparr>sv_write_reqs := reqs, sv_write_reqs_free := free,
       sv_write_reqs_ready := ready, sv_pool_write := pool, sv_mem := m'\<rparr>)"
    "req_inv hs (s\<lparr>sv_write_reqs := reqs, sv_write_reqs_free := free, sv_write_reqs_ready := ready,
       sv_pool_write := pool, sv_mem := m'\<rparr>)"
    "q_elems free = rs" "q_elems ready = req_ready s @ [r]" "wr_channel (reqs ! r) = c"
    "mem_read m' (wr_uv_base (reqs ! r)) (unat (wr_uv_len (reqs ! r))) = take (unat sndlen) data"
    "bp_block_size pool = bp_block_size (sv_pool_write s)"
proof -
  note D = req_invD [OF assms(1)]
  obtain i "is" where pf: "pool_free (sv_pool_write s) = i # is"
    using req_free_pool_free [OF assms(1)] assms(2) by (cases "pool_free (sv_pool_write s)") simp_all
  obtain pool1 b m' b' where p: "tn_buffer_pool_peek (sv_pool_write s) = Some (TN_SUCCESS, Some i, pool1)"
      "i < length (bp_tn_buffers pool1)" "bp_tn_buffers pool1 ! i = b"
      "tn_buffer_write (sv_mem s) b data sndlen = Some (TN_SUCCESS, m', b')"
      "pool_inv 1 (pool1\<lparr>bp_tn_buffers := (bp_tn_buffers pool1)[i := b']\<rparr>)"
      "pool_free pool1 = i # is" "q_peeked (bp_tn_buffers_free pool1)" "pool_total pool1 = pool_total (sv_pool_write s)"
      "mem_read m' (tn_buffer_read_ptr b') (unat (tn_buffer_length b')) = take (unat sndlen) data"
      "tn_buffer_length b' = sndlen" "bp_block_size pool1 = bp_block_size (sv_pool_write s)"
    by (rule pool_peek_write [OF D(7) pf assms(4,5), of "sv_mem s"])
  let ?pool2 = "pool1\<lparr>bp_tn_buffers := (bp_tn_buffers pool1)[i := b']\<rparr>"
  let ?pool = "tn_buffer_pool_pop_cached ?pool2"
  have pc: "pool_inv 1 ?pool" "pool_free ?pool = is"
    using pool_pop_cached_ok [OF p(5), of i "is"] p(6,7) by simp_all
  let ?f1 = "(sv_write_reqs_free s)\<lparr>q_tail_cache := q_tail (sv_write_reqs_free s)\<rparr>"
  have f1: "q_inv ?f1" "q_elems ?f1 = r # rs" "q_peeked ?f1"
    using D(2) assms(2) by (simp_all add: q_peeked_def q_empty_iff)
  let ?free = "tn_queue_spsc_pop_cached ?f1"
  have fr: "q_inv ?free" "q_elems ?free = rs" "q_cap ?free = q_cap (sv_write_reqs_free s)"
    using q_fifo.pop_cached_some [OF f1(1,3,2)] by (simp_all add: q_tail_cache_keeps)
  have "r \<in> set (req_free s)" using assms(2) by simp
  then have r: "r < req_total s" "r \<notin> set (req_busy hs s)" using conserved_disjoint(2,4) [OF D(6)] by blast+
  have "distinct (req_ready s)" "set (req_ready s) \<subseteq> {..<req_total s}" "r \<notin> set (req_ready s)"
    using conserved_disjoint(3,5) [OF D(6)] r(2) by (auto simp: req_busy_def)
  then have "length (req_ready s) < q_cap (sv_write_reqs_ready s)"
    using distinct_room [of "req_ready s" "req_total s" r] r(1) D(5) by simp
  then obtain ready where rd: "tn_queue_spsc_push (sv_write_reqs_ready s) r = Some (TN_SUCCESS, ready)" "q_inv ready"
      "q_elems ready = req_ready s @ [r]" "q_cap ready = q_cap (sv_write_reqs_ready s)"
    using q_push_ok [OF D(3)] by blast
  let ?req1 = "(sv_write_reqs s ! r)\<lparr>wr_buffer := Some i\<rparr>"
  let ?req = "?req1\<lparr>wr_channel := c, wr_uv_base := tn_buffer_read_ptr b', wr_uv_len := tn_buffer_length b'\<rparr>"
  let ?reqs = "(sv_write_reqs s)[r := ?req]"
  let ?s = "s\<lparr>sv_write_reqs := ?reqs, sv_write_reqs_free := ?free, sv_write_reqs_ready := ready,
    sv_pool_write := ?pool, sv_mem := m'\<rparr>"
  have e: "tcp_service_send c data sndlen s = Some (TN_SUCCESS, ?s)"
    using assms(3) q_peek_ok [OF D(2) assms(2)] p(1-4) r(1) D(1) rd(1)
    by (simp add: tcp_service_send_def Let_def)
  have inv: "req_inv hs ?s"
  proof (rule req_invI [OF assms(1)])
    show "mset (req_busy hs ?s) + mset (req_free ?s) = mset (req_busy hs s) + mset (req_free s)"
      using rd(3) fr(2) assms(2) by (simp add: req_busy_def)
    show "mset (req_bufs (sv_write_reqs ?s) (req_busy hs ?s)) + mset (pool_free (sv_pool_write ?s)) =
        mset (req_bufs (sv_write_reqs s) (req_busy hs s)) + mset (pool_free (sv_pool_write s))"
      using rd(3) pc(2) pf r D(1) by (simp add: req_busy_def req_bufs_update)
    show "wr_buffer (sv_write_reqs ?s ! x) \<noteq> None \<and>
        wr_channel (sv_write_reqs ?s ! x) < chan_total (sv_channel_list s)" if "x \<in> set (req_busy hs ?s)" for x
      using that rd(3) r D(1) D(9,10) [of x] assms(6) by (cases "x = r") (auto simp: req_busy_def)
  qed (use D(1) fr rd pc(1) p(8) in \<open>simp_all add: tn_buffer_pool_pop_cached_def\<close>)
  show thesis
    by (rule that [OF e inv fr(2) rd(3)])
      (use r(1) D(1) p(9,11) in \<open>simp_all add: tn_buffer_pool_pop_cached_def\<close>)
qed

lemma send_too_long:
  assumes "req_inv hs s" and "req_free s = r # rs" and "sndlen \<noteq> 0"
    and "unat (bp_block_size (sv_pool_write s)) < unat sndlen"
  shows "\<exists>reqs free pool. tcp_service_send c data sndlen s =
      Some (TN_SEND_NOBUF, s\<lparr>sv_write_reqs := reqs, sv_write_reqs_free := free, sv_pool_write := pool\<rparr>) \<and>
    req_inv hs (s\<lparr>sv_write_reqs := reqs, sv_write_reqs_free := free, sv_pool_write := pool\<rparr>) \<and>
    bp_block_size pool = bp_block_size (sv_pool_write s)"
proof -
  note D = req_invD [OF assms(1)]
  obtain i "is" where pf: "pool_free (sv_pool_write s) = i # is"
    using req_free_pool_free [OF assms(1)] assms(2) by (cases "pool_free (sv_pool_write s)") simp_all
  obtain pool1 where p: "tn_buffer_pool_peek (sv_pool_write s) = Some (TN_SUCCESS, Some i, pool1)" "pool_inv 1 pool1"
      "pool_free pool1 = i # is" "pool_total pool1 = pool_total (sv_pool_write s)"
      "bp_block_size pool1 = bp_block_size (sv_pool_write s)"
    by (rule pool_peek_ok [OF D(7) pf])
  have i: "i < pool_total pool1" using pool_invD(7) [OF p(2)] p(3) by auto
  let ?b = "bp_tn_buffers pool1 ! i"
  have ok: "pool_buffer_ok 1 pool1 i ?b" using pool_invD(3) [OF p(2) i] .
  have full: "tn_buffer_write (sv_mem s) ?b data sndlen = Some (TN_ERROR, sv_mem s, ?b)"
    by (rule buf_write_full) (use ok assms(4) p(5) in \<open>simp_all add: pool_buffer_ok_def\<close>)
  have "r \<in> set (req_free s)" using assms(2) by simp
  then have r: "r < req_total s" "r \<notin> set (req_busy hs s)" using conserved_disjoint(2,4) [OF D(6)] by blast+
  let ?free = "(sv_write_reqs_free s)\<lparr>q_tail_cache := q_tail (sv_write_reqs_free s)\<rparr>"
  let ?reqs = "(sv_write_reqs s)[r := (sv_write_reqs s ! r)\<lparr>wr_buffer := Some i\<rparr>]"
  let ?s = "s\<lparr>sv_write_reqs := ?reqs, sv_write_reqs_free := ?free, sv_pool_write := pool1\<rparr>"
  have "tcp_service_send c data sndlen s = Some (TN_SEND_NOBUF, ?s)"
    using assms(3) q_peek_ok [OF D(2) assms(2)] p(1) r(1) D(1) full i pool_invD(2) [OF p(2)]
    by (simp add: tcp_service_send_def Let_def)
  moreover have "req_inv hs ?s"
  proof (rule req_invI [OF assms(1)])
    show "mset (req_bufs (sv_write_reqs ?s) (req_busy hs ?s)) + mset (pool_free (sv_pool_write ?s)) =
        mset (req_bufs (sv_write_reqs s) (req_busy hs s)) + mset (pool_free (sv_pool_write s))"
      using r(2) pf p(3) by (simp add: req_busy_def req_bufs_update)
    show "wr_buffer (sv_write_reqs ?s ! x) \<noteq> None \<and>
        wr_channel (sv_write_reqs ?s ! x) < chan_total (sv_channel_list s)" if "x \<in> set (req_busy hs ?s)" for x
    proof -
      have "x \<in> set (req_busy hs s)" using that by (simp add: req_busy_def)
      then show ?thesis using D(9,10) [of x] r(2) by (cases "x = r") auto
    qed
  qed (use D p in \<open>simp_all add: req_busy_def q_tail_cache_keeps\<close>)
  ultimately show ?thesis using p(5) by blast
qed

section \<open>Giving a request back\<close>

text \<open>Operations on the write side leave everything else alone.\<close>

definition write_side :: "tcp_service \<Rightarrow> tcp_service \<Rightarrow> bool" where
  "write_side s s' \<longleftrightarrow> sv_channel_list s' = sv_channel_list s \<and> sv_events s' = sv_events s \<and>
     sv_pool_read s' = sv_pool_read s \<and> sv_event_updates s' = sv_event_updates s \<and>
     sv_event_updates_count s' = sv_event_updates_count s \<and> sv_buffer_count s' = sv_buffer_count s \<and>
     uv_data (sv_uv s') = uv_data (sv_uv s) \<and> uv_closing (sv_uv s') = uv_closing (sv_uv s) \<and>
     sv_state s' = sv_state s \<and> bp_block_size (sv_pool_write s') = bp_block_size (sv_pool_write s)"

lemma write_side_trans [trans]: "write_side s s' \<Longrightarrow> write_side s' s'' \<Longrightarrow> write_side s s''"
  by (simp add: write_side_def)

lemma req_inv_frame [simp]:
  "req_inv hs (s\<lparr>g_send_msgs := x\<rparr>) = req_inv hs s" "req_inv hs (s\<lparr>g_send_bytes := x\<rparr>) = req_inv hs s"
  "req_inv hs (s\<lparr>g_recv_msgs := x\<rparr>) = req_inv hs s" "req_inv hs (s\<lparr>g_recv_bytes := x\<rparr>) = req_inv hs s"
  "req_inv hs (s\<lparr>sv_events := l\<rparr>) = req_inv hs s" "req_inv hs (s\<lparr>sv_pool_read := p\<rparr>) = req_inv hs s"
  "req_inv hs (s\<lparr>sv_mem := m\<rparr>) = req_inv hs s" "req_inv hs (s\<lparr>sv_event_updates := u\<rparr>) = req_inv hs s"
  "req_inv hs (s\<lparr>sv_event_updates_count := n\<rparr>) = req_inv hs s" "req_inv hs (s\<lparr>sv_state := st\<rparr>) = req_inv hs s"
  by (simp_all add: req_inv_def req_busy_def)

lemma give_back_ok:
  assumes "req_inv (r # hs) s" and "wr_buffer (sv_write_reqs s ! r) = Some b"
  shows "\<exists>free pool. let reqs = (sv_write_reqs s)[r := q] in
    give_back_request r (Some b) (s\<lparr>sv_write_reqs := reqs\<rparr>) =
      Some (s\<lparr>sv_write_reqs := reqs, sv_write_reqs_free := free, sv_pool_write := pool\<rparr>) \<and>
    req_inv hs (s\<lparr>sv_write_reqs := reqs, sv_write_reqs_free := free, sv_pool_write := pool\<rparr>) \<and>
    q_elems free = req_free s @ [r] \<and> bp_block_size pool = bp_block_size (sv_pool_write s)"
proof -
  note D = req_invD [OF assms(1)]
  have busy: "r \<in> set (req_busy (r # hs) s)" by (simp add: req_busy_def)
  then have r: "r < req_total s" "r \<notin> set (req_free s)" using conserved_disjoint(1,3) [OF D(6)] by blast+
  have nr: "r \<notin> set (req_ready s)" "r \<notin> set (uv_inflight (sv_uv s))" "r \<notin> set hs"
    using conserved_disjoint(5) [OF D(6)] by (simp_all add: req_busy_def)
  have "b \<in> set (req_bufs (sv_write_reqs s) (req_busy (r # hs) s))"
    using assms(2) by (simp add: req_busy_def)
  then have b: "b < pool_total (sv_pool_write s)" "b \<notin> set (pool_free (sv_pool_write s))"
    using conserved_disjoint(1,3) [OF D(11)] D(8) by simp_all
  obtain pool where p: "tn_buffer_pool_push (sv_pool_write s) b = Some (TN_SUCCESS, pool)" "pool_inv 1 pool"
      "pool_free pool = pool_free (sv_pool_write s) @ [b]" "pool_total pool = pool_total (sv_pool_write s)"
      "bp_block_size pool = bp_block_size (sv_pool_write s)"
    by (rule pool_push_ok [OF D(7) b])
  have "length (req_free s) < q_cap (sv_write_reqs_free s)"
    using distinct_room [OF conserved_disjoint(6,7) [OF D(6)] r] D(4) by simp
  then obtain free where f: "tn_queue_spsc_push (sv_write_reqs_free s) r = Some (TN_SUCCESS, free)" "q_inv free"
      "q_elems free = req_free s @ [r]" "q_cap free = q_cap (sv_write_reqs_free s)"
    using q_push_ok [OF D(2)] by blast
  let ?reqs = "(sv_write_reqs s)[r := q]"
  let ?s = "s\<lparr>sv_write_reqs := ?reqs, sv_write_reqs_free := free, sv_pool_write := pool\<rparr>"
  have "give_back_request r (Some b) (s\<lparr>sv_write_reqs := ?reqs\<rparr>) = Some ?s"
    using p(1) f(1) by (simp add: give_back_request_def)
  moreover have "req_inv hs ?s"
  proof (rule req_invI [OF assms(1)])
    show "wr_buffer (sv_write_reqs ?s ! x) \<noteq> None \<and>
        wr_channel (sv_write_reqs ?s ! x) < chan_total (sv_channel_list s)" if "x \<in> set (req_busy hs ?s)" for x
    proof -
      have "x \<in> set (req_busy (r # hs) s)" "x \<noteq> r" using that nr by (auto simp: req_busy_def)
      then show ?thesis using D(9,10) [of x] by simp
    qed
  qed (use D f p assms(2) nr in \<open>simp_all add: req_busy_def req_bufs_update\<close>)
  ultimately show ?thesis unfolding Let_def using f(3) p(5) by blast
qed

section \<open>The write callbacks\<close>

text \<open>A request is handed to libuv when its channel is open and \<open>uv_write\<close> accepts it.\<close>

definition sendable :: "(nat \<Rightarrow> int) \<Rightarrow> tcp_service \<Rightarrow> nat \<Rightarrow> bool" where
  "sendable uvw s r \<longleftrightarrow> uvw r = 0 \<and>
     ch_state (cl_client_map (sv_channel_list s) ! wr_channel (sv_write_reqs s ! r)) = TCP_CHANNEL_OPEN"

definition same_targets :: "tcp_service \<Rightarrow> tcp_service \<Rightarrow> bool" where
  "same_targets s s' \<longleftrightarrow> (\<forall>r. wr_channel (sv_write_reqs s' ! r) = wr_channel (sv_write_reqs s ! r))"

lemma prep_request_ok:
  assumes "req_inv (r # hs) s" and "chan_inv (sv_channel_list s)"
  shows "\<exists>s'. prep_request uvw r s = Some s' \<and> req_inv hs s' \<and> write_side s s' \<and> req_ready s' = req_ready s \<and>
    same_targets s s' \<and>
    uv_inflight (sv_uv s') = (if sendable uvw s r then [r] else []) @ uv_inflight (sv_uv s)"
proof -
  note D = req_invD [OF assms(1)]
  have busy: "r \<in> set (req_busy (r # hs) s)" by (simp add: req_busy_def)
  let ?req = "sv_write_reqs s ! r"
  obtain b where b: "wr_buffer ?req = Some b" using D(9) [OF busy] by blast
  have r: "r < length (sv_write_reqs s)" using conserved_disjoint(3) [OF D(6) busy] D(1) by simp
  let ?ch = "cl_client_map (sv_channel_list s) ! wr_channel ?req"
  have ch: "get_channel (wr_channel ?req) s = Some ?ch"
    using D(10) [OF busy] chan_invD(1) [OF assms(2)] by (simp add: get_channel_def)
  have give: ?thesis if "\<not> sendable uvw s r" "wr_channel q = wr_channel ?req"
      "prep_request uvw r s = give_back_request r (Some b) (s\<lparr>sv_write_reqs := (sv_write_reqs s)[r := q]\<rparr>)" for q
  proof -
    have "wr_channel ((sv_write_reqs s)[r := q] ! x) = wr_channel (sv_write_reqs s ! x)" for x
      using that(2) by (metis nth_list_update_eq nth_list_update_neq list_update_beyond not_le)
    then show ?thesis unfolding that(3)
      using give_back_ok [OF assms(1) b, of q] that(1) unfolding Let_def by (auto simp: write_side_def same_targets_def)
  qed
  consider "ch_state ?ch \<noteq> TCP_CHANNEL_OPEN" | "ch_state ?ch = TCP_CHANNEL_OPEN" "uvw r \<noteq> 0"
    | "ch_state ?ch = TCP_CHANNEL_OPEN" "uvw r = 0" by blast
  then show ?thesis
  proof cases
    case 1
    then show ?thesis using r ch b by (intro give [of ?req]) (simp_all add: prep_request_def sendable_def)
  next
    case 2
    then show ?thesis using r ch b
      by (intro give [of "?req\<lparr>wr_buffer := None\<rparr>"]) (simp_all add: prep_request_def sendable_def)
  next
    case 3
    let ?s = "s\<lparr>sv_uv := (sv_uv s)\<lparr>uv_inflight := r # uv_inflight (sv_uv s)\<rparr>\<rparr>"
    have "req_inv hs ?s"
      by (rule req_invI [OF assms(1)]) (use D in \<open>auto simp: req_busy_def\<close>)
    moreover have "prep_request uvw r s = Some ?s" using 3 r ch by (simp add: prep_request_def)
    moreover have "write_side s ?s" "same_targets s ?s" by (simp_all add: write_side_def same_targets_def)
    ultimately show ?thesis using 3 by (simp add: sendable_def)
  qed
qed

lemma req_inv_pop_ready:
  assumes "req_inv hs s" and "req_ready s = r # rs"
  shows "req_inv (r # hs) (s\<lparr>sv_write_reqs_ready := (sv_write_reqs_ready s)\<lparr>q_tail := q_tail (sv_write_reqs_ready s) + 1\<rparr>\<rparr>)"
  using q_drop_one [OF req_invD(3) [OF assms(1)] assms(2)] req_invD [OF assms(1)] assms(2)
  by (intro req_invI [OF assms(1)]) (auto simp: req_busy_def)

lemma sendable_same:
  "write_side s s' \<Longrightarrow> same_targets s s' \<Longrightarrow> sendable uvw s' = sendable uvw s"
  by (simp add: write_side_def same_targets_def sendable_def fun_eq_iff)

lemma prep_loop_ok:
  assumes "req_inv hs s" and "chan_inv (sv_channel_list s)" and "length (req_ready s) < fuel"
  shows "\<exists>s'. prep_loop fuel uvw s = Some s' \<and> req_inv hs s' \<and> write_side s s' \<and> req_ready s' = [] \<and> same_targets s s' \<and>
    uv_inflight (sv_uv s') = rev (filter (sendable uvw s) (req_ready s)) @ uv_inflight (sv_uv s)"
  using assms
proof (induction fuel arbitrary: s)
  case 0
  then show ?case by simp
next
  case (Suc fuel)
  show ?case
  proof (cases "req_ready s")
    case Nil
    then show ?thesis using Suc.prems(1) q_pop_back_empty [OF Nil] by (simp add: write_side_def same_targets_def)
  next
    case (Cons r rs)
    let ?q = "(sv_write_reqs_ready s)\<lparr>q_tail := q_tail (sv_write_reqs_ready s) + 1\<rparr>"
    let ?s = "s\<lparr>sv_write_reqs_ready := ?q\<rparr>"
    note q = q_drop_one [OF req_invD(3) [OF Suc.prems(1)] Cons]
    have "req_inv (r # hs) ?s" by (rule req_inv_pop_ready [OF Suc.prems(1) Cons])
    moreover have "chan_inv (sv_channel_list ?s)" using Suc.prems(2) by simp
    ultimately obtain s1 where s1: "prep_request uvw r ?s = Some s1" "req_inv hs s1" "write_side ?s s1"
        "req_ready s1 = req_ready ?s" "same_targets ?s s1"
        "uv_inflight (sv_uv s1) = (if sendable uvw ?s r then [r] else []) @ uv_inflight (sv_uv ?s)"
      using prep_request_ok by blast
    have w: "write_side s s1" "same_targets s s1" using s1(3,5) by (simp_all add: write_side_def same_targets_def)
    have sd: "sendable uvw s1 = sendable uvw s" by (rule sendable_same [OF w])
    have sd0: "sendable uvw ?s = sendable uvw s" by (simp add: sendable_def fun_eq_iff)
    have "chan_inv (sv_channel_list s1)" using w Suc.prems(2) by (simp add: write_side_def)
    moreover have "length (req_ready s1) < fuel" using s1(4) q(2) Cons Suc.prems(3) by (simp del: length_q_elems)
    ultimately obtain s2 where s2: "prep_loop fuel uvw s1 = Some s2" "req_inv hs s2" "write_side s1 s2" "req_ready s2 = []"
        "same_targets s1 s2" "uv_inflight (sv_uv s2) = rev (filter (sendable uvw s1) (req_ready s1)) @ uv_inflight (sv_uv s1)"
      using Suc.IH [OF s1(2)] by blast
    have "prep_loop (Suc fuel) uvw s = Some s2"
      using q_pop_back_ok [OF req_invD(3) [OF Suc.prems(1)] Cons] s1(1) s2(1) by simp
    moreover have "same_targets s s2" using w(2) s2(5) by (simp add: same_targets_def)
    moreover have "uv_inflight (sv_uv s2) = rev (filter (sendable uvw s) (req_ready s)) @ uv_inflight (sv_uv s)"
      using s2(6) s1(4,6) q(2) Cons unfolding sd sd0 by (simp del: length_q_elems)
    ultimately show ?thesis using s2(2,4) write_side_trans [OF w(1) s2(3)] by blast
  qed
qed

text \<open>libuv calls back for a request it has accepted; the request is no longer with libuv then.\<close>

lemma send_cb_ok:
  assumes "req_inv hs s" and "uv_inflight (sv_uv s) = as @ r # bs"
  defines "s1 \<equiv> s\<lparr>sv_uv := (sv_uv s)\<lparr>uv_inflight := as @ bs\<rparr>\<rparr>"
  shows "\<exists>s'. on_send_cb r status s1 = Some s' \<and> req_inv hs s' \<and> write_side s s' \<and> req_ready s' = req_ready s"
proof -
  have inv: "req_inv (r # hs) s1"
    by (rule req_invI [OF assms(1)]) (use req_invD [OF assms(1)] assms(2) in \<open>auto simp: s1_def req_busy_def\<close>)
  note D = req_invD [OF inv]
  have busy: "r \<in> set (req_busy (r # hs) s1)" by (simp add: req_busy_def)
  let ?req = "sv_write_reqs s1 ! r"
  obtain b where b: "wr_buffer ?req = Some b" using D(9) [OF busy] by blast
  have r: "r < length (sv_write_reqs s1)" using conserved_disjoint(3) [OF D(6) busy] D(1) by simp
  let ?s = "if status \<noteq> 0 then s1 else s1\<lparr>g_send_msgs := g_send_msgs s1 + 1, g_send_bytes := g_send_bytes s1 + wr_uv_len ?req\<rparr>"
  have inv': "req_inv (r # hs) ?s" using inv by simp
  have b': "wr_buffer (sv_write_reqs ?s ! r) = Some b" using b by simp
  let ?q = "?req\<lparr>wr_buffer := None\<rparr>"
  have e: "on_send_cb r status s1 = give_back_request r (Some b) (?s\<lparr>sv_write_reqs := (sv_write_reqs ?s)[r := ?q]\<rparr>)"
    using r b by (simp add: on_send_cb_def give_back_request_def Let_def)
  show ?thesis unfolding e
    using give_back_ok [OF inv' b', of ?q] unfolding Let_def by (auto simp: write_side_def s1_def)
qed

end
