(* ===== verification/Tn_Service_Read.thy ===== *)
theory Tn_Service_Read
  imports Tn_Service_Inv
begin

text \<open>
  The read side of the service's invariant: channels, events and read buffers, and the callbacks
  that move them. \<open>es\<close> are the events in the hands of the main thread, between
  \<open>tcp_service_events_acquire\<close> and \<open>tcp_service_events_release\<close>.
\<close>

section \<open>Who holds the read buffers\<close>

definition chan_buf :: "tcp_channel \<Rightarrow> nat list" where
  "chan_buf ch = (case ch_read_buffer ch of None \<Rightarrow> [] | Some b \<Rightarrow> [b])"

definition chan_bufs :: "tcp_channel list \<Rightarrow> nat list" where
  "chan_bufs chans = concat (map chan_buf chans)"

definition event_buf :: "tn_event \<Rightarrow> nat list" where
  "event_buf evt = (if ev_type evt = TN_EVENT_CLIENT_READ
     then (case ev_tn_buffer evt of None \<Rightarrow> [] | Some b \<Rightarrow> [b]) else [])"

definition event_bufs :: "tn_event list \<Rightarrow> nat list \<Rightarrow> nat list" where
  "event_bufs evts es = concat (map (\<lambda>e. event_buf (evts ! e)) es)"

abbreviation sv_chans :: "tcp_service \<Rightarrow> tcp_channel list" where
  "sv_chans s \<equiv> cl_client_map (sv_channel_list s)"

abbreviation sv_evts :: "tcp_service \<Rightarrow> tn_event list" where
  "sv_evts s \<equiv> el_tn_events (sv_events s)"

definition ev_busy :: "nat list \<Rightarrow> tcp_service \<Rightarrow> nat list" where
  "ev_busy es s = ev_ready (sv_events s) @ es"

text \<open>Every live client handle has a channel of its own that is not free; only such channels hold buffers.\<close>

definition handles_inv :: "tcp_service \<Rightarrow> bool" where
  "handles_inv s \<longleftrightarrow> chan_inv (sv_channel_list s) \<and>
     (\<forall>h c. uv_data (sv_uv s) h = Some c \<longrightarrow>
        c < chan_total (sv_channel_list s) \<and> c \<notin> set (chan_free (sv_channel_list s))) \<and>
     (\<forall>h h' c. uv_data (sv_uv s) h = Some c \<and> uv_data (sv_uv s) h' = Some c \<longrightarrow> h = h') \<and>
     (\<forall>c < chan_total (sv_channel_list s). ch_read_buffer (sv_chans s ! c) \<noteq> None \<longrightarrow>
        (\<exists>h. uv_data (sv_uv s) h = Some c))"

definition read_inv :: "nat list \<Rightarrow> tcp_service \<Rightarrow> bool" where
  "read_inv es s \<longleftrightarrow> event_inv (sv_events s) \<and>
     conserved (ev_total (sv_events s)) (ev_busy es s) (ev_free (sv_events s)) \<and>
     (\<forall>e \<in> set (ev_busy es s). ev_type (sv_evts s ! e) = TN_EVENT_CLIENT_READ \<longrightarrow> ev_tn_buffer (sv_evts s ! e) \<noteq> None) \<and>
     pool_inv 0 (sv_pool_read s) \<and> pool_total (sv_pool_read s) = req_total s \<and>
     conserved (req_total s) (chan_bufs (sv_chans s) @ event_bufs (sv_evts s) (ev_busy es s))
       (pool_free (sv_pool_read s)) \<and>
     handles_inv s"

lemma read_invD:
  assumes "read_inv es s"
  shows "event_inv (sv_events s)" and "conserved (ev_total (sv_events s)) (ev_busy es s) (ev_free (sv_events s))"
    and "\<And>e. e \<in> set (ev_busy es s) \<Longrightarrow> ev_type (sv_evts s ! e) = TN_EVENT_CLIENT_READ \<Longrightarrow> ev_tn_buffer (sv_evts s ! e) \<noteq> None"
    and "pool_inv 0 (sv_pool_read s)" and "pool_total (sv_pool_read s) = req_total s"
    and "conserved (req_total s) (chan_bufs (sv_chans s) @ event_bufs (sv_evts s) (ev_busy es s)) (pool_free (sv_pool_read s))"
    and "handles_inv s"
  using assms unfolding read_inv_def by blast+

lemma handles_invD:
  assumes "handles_inv s"
  shows "chan_inv (sv_channel_list s)"
    and "\<And>h c. uv_data (sv_uv s) h = Some c \<Longrightarrow> c < chan_total (sv_channel_list s)"
    and "\<And>h c. uv_data (sv_uv s) h = Some c \<Longrightarrow> c \<notin> set (chan_free (sv_channel_list s))"
    and "\<And>h h' c. uv_data (sv_uv s) h = Some c \<Longrightarrow> uv_data (sv_uv s) h' = Some c \<Longrightarrow> h = h'"
    and "\<And>c. c < chan_total (sv_channel_list s) \<Longrightarrow> ch_read_buffer (sv_chans s ! c) \<noteq> None \<Longrightarrow>
      \<exists>h. uv_data (sv_uv s) h = Some c"
  using assms unfolding handles_inv_def by blast+

lemma mset_concat_update:
  assumes "i < length xs"
  shows "mset (concat (map g (xs[i := y]))) + mset (g (xs ! i)) = mset (concat (map g xs)) + mset (g y)"
proof -
  have "concat (map g xs) = concat (map g (take i xs @ xs ! i # drop (Suc i) xs))"
    using id_take_nth_drop [OF assms] by simp
  then show ?thesis using assms by (simp add: upd_conv_take_nth_drop)
qed

lemma mset_chan_bufs_update:
  assumes "c < length chans"
  shows "mset (chan_bufs (chans[c := ch])) + mset (chan_buf (chans ! c)) = mset (chan_bufs chans) + mset (chan_buf ch)"
  using mset_concat_update [OF assms] by (simp add: chan_bufs_def)

lemma event_bufs_simps [simp]:
  "event_bufs evts [] = []" "event_bufs evts (e # es) = event_buf (evts ! e) @ event_bufs evts es"
  "event_bufs evts (es @ es') = event_bufs evts es @ event_bufs evts es'"
  by (simp_all add: event_bufs_def)

lemma event_bufs_update: "e \<notin> set es \<Longrightarrow> event_bufs (evts[e := x]) es = event_bufs evts es"
  unfolding event_bufs_def by (intro arg_cong [where f = concat] map_cong refl) (metis nth_list_update_neq)

text \<open>Moving events and buffers keeps the invariant.\<close>

lemma read_invI:
  assumes "read_inv es s" and "event_inv (sv_events s')" and "el_capacity (sv_events s') = el_capacity (sv_events s)"
    and "mset (ev_busy es' s') + mset (ev_free (sv_events s')) = mset (ev_busy es s) + mset (ev_free (sv_events s))"
    and "\<And>e. e \<in> set (ev_busy es' s') \<Longrightarrow> ev_type (sv_evts s' ! e) = TN_EVENT_CLIENT_READ \<Longrightarrow> ev_tn_buffer (sv_evts s' ! e) \<noteq> None"
    and "pool_inv 0 (sv_pool_read s')" and "pool_total (sv_pool_read s') = pool_total (sv_pool_read s)"
    and "sv_buffer_count s' = sv_buffer_count s"
    and "mset (chan_bufs (sv_chans s')) + mset (event_bufs (sv_evts s') (ev_busy es' s')) + mset (pool_free (sv_pool_read s')) =
      mset (chan_bufs (sv_chans s)) + mset (event_bufs (sv_evts s) (ev_busy es s)) + mset (pool_free (sv_pool_read s))"
    and "handles_inv s'"
  shows "read_inv es' s'"
  using assms(2-10) read_invD(2,5,6) [OF assms(1)]
  unfolding read_inv_def conserved_mset mset_append by (simp only:) blast

text \<open>Operations on the read side leave the write side alone.\<close>

definition read_side :: "tcp_service \<Rightarrow> tcp_service \<Rightarrow> bool" where
  "read_side s s' \<longleftrightarrow> sv_write_reqs s' = sv_write_reqs s \<and> sv_write_reqs_free s' = sv_write_reqs_free s \<and>
     sv_write_reqs_ready s' = sv_write_reqs_ready s \<and> sv_pool_write s' = sv_pool_write s \<and>
     sv_buffer_count s' = sv_buffer_count s \<and> uv_inflight (sv_uv s') = uv_inflight (sv_uv s) \<and>
     cl_clients_max (sv_channel_list s') = cl_clients_max (sv_channel_list s) \<and>
     sv_event_updates s' = sv_event_updates s \<and> sv_event_updates_count s' = sv_event_updates_count s"

lemma read_side_trans [trans]: "read_side s s' \<Longrightarrow> read_side s' s'' \<Longrightarrow> read_side s s''"
  by (simp add: read_side_def)

lemma req_inv_read_side: "read_side s s' \<Longrightarrow> req_inv hs s' = req_inv hs s"
  by (simp add: read_side_def req_inv_def req_busy_def)

lemma read_inv_write_side: "write_side s s' \<Longrightarrow> read_inv es s' = read_inv es s"
  by (simp add: write_side_def read_inv_def ev_busy_def handles_inv_def)

section \<open>Posting an event\<close>

lemma post_event:
  assumes "event_inv l" and "ev_free l = e # es"
  obtains l1 l2 where "free_pop_as f l = Some (TN_SUCCESS, Some e, l1)" "e < length (el_tn_events l1)"
    "el_tn_events l1 ! e = f (el_tn_events l ! e)"
    "tn_event_list_ready_push (l1\<lparr>el_tn_events := (el_tn_events l1)[e := evt]\<rparr>) e = Some (TN_SUCCESS, l2)"
    "event_inv l2" "ev_free l2 = es" "ev_ready l2 = ev_ready l @ [e]"
    "el_tn_events l2 = (el_tn_events l)[e := evt]" "el_capacity l2 = el_capacity l"
proof -
  obtain l1 where l1: "free_pop_as f l = Some (TN_SUCCESS, Some e, l1)" "event_inv l1" "ev_free l1 = es"
      "ev_ready l1 = ev_ready l" "el_tn_events l1 = (el_tn_events l)[e := f (el_tn_events l ! e)]"
      "el_capacity l1 = el_capacity l"
    by (rule free_pop_as_ok [OF assms])
  have e: "e < ev_total l" "e \<notin> set es" "e \<notin> set (ev_ready l)"
    using event_invD(6,8,9) [OF assms(1)] assms(2) by auto
  have len: "e < length (el_tn_events l)" using e(1) event_invD(1) [OF assms(1)] by simp
  let ?l = "l1\<lparr>el_tn_events := (el_tn_events l1)[e := evt]\<rparr>"
  have "event_inv ?l" using l1(2) by (simp add: event_inv_def)
  then obtain l2 where l2: "tn_event_list_ready_push ?l e = Some (TN_SUCCESS, l2)" "event_inv l2"
      "ev_ready l2 = ev_ready l @ [e]" "ev_free l2 = es" "el_tn_events l2 = (el_tn_events l)[e := evt]"
      "el_capacity l2 = el_capacity l"
    by (rule ready_push_ok) (use e l1 in simp_all)
  then show thesis using l1 len by (intro that [of l1 l2]) simp_all
qed

section \<open>Channels\<close>

definition put_channel :: "nat \<Rightarrow> tcp_channel \<Rightarrow> tcp_service \<Rightarrow> tcp_service" where
  "put_channel c ch s =
     s\<lparr>sv_channel_list := (sv_channel_list s)\<lparr>cl_client_map := (sv_chans s)[c := ch]\<rparr>\<rparr>"

lemma set_channel_eq: "c < length (sv_chans s) \<Longrightarrow> set_channel c ch s = Some (put_channel c ch s)"
  by (simp add: set_channel_def put_channel_def)

lemma get_channel_eq: "c < length (sv_chans s) \<Longrightarrow> get_channel c s = Some (sv_chans s ! c)"
  by (simp add: get_channel_def)

lemma put_channel_simps [simp]:
  "sv_chans (put_channel c ch s) = (sv_chans s)[c := ch]" "sv_events (put_channel c ch s) = sv_events s"
  "sv_pool_read (put_channel c ch s) = sv_pool_read s" "sv_uv (put_channel c ch s) = sv_uv s"
  "sv_buffer_count (put_channel c ch s) = sv_buffer_count s" "sv_mem (put_channel c ch s) = sv_mem s"
  "chan_free (sv_channel_list (put_channel c ch s)) = chan_free (sv_channel_list s)"
  "cl_clients_max (sv_channel_list (put_channel c ch s)) = cl_clients_max (sv_channel_list s)"
  by (simp_all add: put_channel_def)

lemma handles_inv_same:
  "handles_inv s \<Longrightarrow> sv_channel_list s' = sv_channel_list s \<Longrightarrow> uv_data (sv_uv s') = uv_data (sv_uv s) \<Longrightarrow> handles_inv s'"
  by (simp add: handles_inv_def)

lemma handle_channel:
  assumes "handles_inv s" and "uv_data (sv_uv s) h = Some c"
  shows "c < length (sv_chans s)"
  using handles_invD(2) [OF assms] chan_invD(1) [OF handles_invD(1) [OF assms(1)]] by simp

lemma handles_put_channel:
  assumes "handles_inv s" and "uv_data (sv_uv s) h = Some c" and "ch_id ch = ch_id (sv_chans s ! c)"
  shows "handles_inv (put_channel c ch s)"
proof -
  have "chan_inv (sv_channel_list (put_channel c ch s))"
    using chan_inv_update [OF handles_invD(1) [OF assms(1)] assms(3)] by (simp add: put_channel_def)
  moreover have "\<exists>h. uv_data (sv_uv s) h = Some d"
    if "d < chan_total (sv_channel_list s)" "ch_read_buffer ((sv_chans s)[c := ch] ! d) \<noteq> None" for d
    using handles_invD(5) [OF assms(1) that(1)] that(2) assms(2) by (cases "d = c") auto
  ultimately show ?thesis using handles_invD(2-4) [OF assms(1)] by (auto simp: handles_inv_def)
qed

lemma chan_buf_simps [simp]:
  "ch_read_buffer ch = None \<Longrightarrow> chan_buf ch = []" "ch_read_buffer ch = Some b \<Longrightarrow> chan_buf ch = [b]"
  by (simp_all add: chan_buf_def)

section \<open>Receiving\<close>

text \<open>The two shapes of a step that changes a channel: with the channel's buffer unchanged, or handed over.\<close>

lemma read_inv_put_channel:
  assumes "read_inv es s" and "uv_data (sv_uv s) h = Some c" and "ch_id ch = ch_id (sv_chans s ! c)"
    and "ch_read_buffer ch = ch_read_buffer (sv_chans s ! c)"
  shows "read_inv es (put_channel c ch s)" and "read_side s (put_channel c ch s)"
proof -
  note D = read_invD [OF assms(1)]
  have c: "c < length (sv_chans s)" by (rule handle_channel [OF D(7) assms(2)])
  have "chan_buf ch = chan_buf (sv_chans s ! c)" using assms(4) by (simp add: chan_buf_def)
  then have m: "mset (chan_bufs ((sv_chans s)[c := ch])) = mset (chan_bufs (sv_chans s))"
    using mset_chan_bufs_update [OF c, of ch] by simp
  show "read_inv es (put_channel c ch s)"
    by (rule read_invI [OF assms(1)])
      (use D m handles_put_channel [OF D(7) assms(2,3)] in \<open>simp_all add: ev_busy_def\<close>)
  show "read_side s (put_channel c ch s)" by (simp add: read_side_def put_channel_def)
qed

text \<open>A channel without a buffer gets an empty one from the pool.\<close>

lemma recv_alloc_fresh:
  assumes "read_inv es s" and "uv_data (sv_uv s) h = Some c" and "ch_read_buffer (sv_chans s ! c) = None"
    and "pool_free (sv_pool_read s) = i # is"
  obtains s1 b where "on_recv_alloc_cb h s = Some ((tn_buffer_write_ptr b, tn_buffer_remaining b), s1)"
    "b = bp_tn_buffers (sv_pool_read s1) ! i" "read_inv es s1" "read_side s s1" "sv_uv s1 = sv_uv s" "sv_mem s1 = sv_mem s"
    "sv_events s1 = sv_events s" "ch_read_buffer (sv_chans s1 ! c) = Some i" "ch_id (sv_chans s1 ! c) = ch_id (sv_chans s ! c)"
    "i < pool_total (sv_pool_read s1)" "buf_inv b" "buf_fill b = 0" "buf_cap b = unat (bp_block_size (sv_pool_read s))"
    "\<forall>m. buf_unread m b = []"
proof -
  note D = read_invD [OF assms(1)]
  have c: "c < length (sv_chans s)" by (rule handle_channel [OF D(7) assms(2)])
  obtain p where p: "tn_buffer_pool_pop_back (sv_pool_read s) = Some (TN_SUCCESS, Some i, p)" "pool_inv 0 p"
      "pool_free p = is" "i < pool_total (sv_pool_read s)" "pool_total p = pool_total (sv_pool_read s)"
      "bp_block_size p = bp_block_size (sv_pool_read s)" "pool_buffer_ok 0 p i (bp_tn_buffers p ! i)"
      "buf_fill (bp_tn_buffers p ! i) = 0" "\<forall>m. buf_unread m (bp_tn_buffers p ! i) = []"
    by (rule pool_pop_back_fresh [OF D(4) assms(4)])
  let ?ch = "(sv_chans s ! c)\<lparr>ch_read_buffer := Some i\<rparr>" and ?b = "bp_tn_buffers p ! i"
  let ?s = "put_channel c ?ch (s\<lparr>sv_pool_read := p\<rparr>)"
  have e: "on_recv_alloc_cb h s = Some ((tn_buffer_write_ptr ?b, tn_buffer_remaining ?b), ?s)"
    using assms(2,3) p(1,4,5) c pool_invD(2) [OF p(2)]
    by (simp add: on_recv_alloc_cb_def set_channel_eq get_channel_eq Let_def)
  have "read_inv es ?s"
  proof (rule read_invI [OF assms(1)])
    show "mset (chan_bufs (sv_chans ?s)) + mset (event_bufs (sv_evts ?s) (ev_busy es ?s)) + mset (pool_free (sv_pool_read ?s)) =
        mset (chan_bufs (sv_chans s)) + mset (event_bufs (sv_evts s) (ev_busy es s)) + mset (pool_free (sv_pool_read s))"
      using mset_chan_bufs_update [OF c, of ?ch] assms(3,4) p(3) by (simp add: ev_busy_def)
    have "handles_inv (s\<lparr>sv_pool_read := p\<rparr>)" by (rule handles_inv_same [OF D(7)]) simp_all
    then show "handles_inv ?s" by (rule handles_put_channel) (use assms(2) in simp_all)
  qed (use D(1,3) p(2,5) in \<open>simp_all add: ev_busy_def\<close>)
  then show thesis using e p c
    by (intro that [of ?b ?s]) (simp_all add: read_side_def put_channel_def pool_buffer_ok_def)
qed

lemma recv_alloc_ok:
  assumes "read_inv es s" and "uv_data (sv_uv s) h = Some c"
  shows "\<exists>base len s'. on_recv_alloc_cb h s = Some ((base, len), s') \<and> read_inv es s' \<and> read_side s s' \<and>
    sv_uv s' = sv_uv s \<and> sv_mem s' = sv_mem s \<and>
    (case ch_read_buffer (sv_chans s' ! c) of None \<Rightarrow> base = 0 \<and> len = 0
     | Some i \<Rightarrow> i < pool_total (sv_pool_read s') \<and> base = tn_buffer_write_ptr (bp_tn_buffers (sv_pool_read s') ! i) \<and>
         len = tn_buffer_remaining (bp_tn_buffers (sv_pool_read s') ! i))"
proof -
  note D = read_invD [OF assms(1)]
  have c: "c < length (sv_chans s)" by (rule handle_channel [OF D(7) assms(2)])
  let ?ch = "sv_chans s ! c"
  note simps = on_recv_alloc_cb_def set_channel_eq get_channel_eq c assms(2) Let_def
  show ?thesis
  proof (cases "ch_read_buffer ?ch")
    case (Some i)
    have "chan_buf ?ch = [i]" using Some by simp
    then have "i \<in> set (chan_bufs (sv_chans s))" using nth_mem [OF c] by (force simp: chan_bufs_def)
    then have i: "i < pool_total (sv_pool_read s)" using conserved_disjoint(3) [OF D(6)] D(5) by simp
    have "on_recv_alloc_cb h s = Some ((tn_buffer_write_ptr (bp_tn_buffers (sv_pool_read s) ! i),
        tn_buffer_remaining (bp_tn_buffers (sv_pool_read s) ! i)), put_channel c ?ch s)"
      using Some i pool_invD(2) [OF D(4)] by (simp add: simps)
    then show ?thesis using read_inv_put_channel [OF assms, of ?ch] Some i c by simp
  next
    case None
    show ?thesis
    proof (cases "pool_free (sv_pool_read s)")
      case Nil
      let ?ch0 = "?ch\<lparr>ch_read_buffer := None\<rparr>"
      have "on_recv_alloc_cb h s = Some ((0, 0), put_channel c ?ch0 s)"
        using None pool_pop_back_empty [OF Nil] c assms(2)
        by (simp add: on_recv_alloc_cb_def get_channel_eq set_channel_def put_channel_def)
      then show ?thesis using read_inv_put_channel [OF assms, of ?ch0] None c by simp
    next
      case (Cons i "is")
      show ?thesis by (rule recv_alloc_fresh [OF assms None Cons]) auto
    qed
  qed
qed

lemma read_inv_uv_close [simp]:
  "read_inv es (uv_close_handle h s) = read_inv es s" "read_side s (uv_close_handle h s)"
  "uv_data (sv_uv (uv_close_handle h s)) = uv_data (sv_uv s)"
  by (simp_all add: uv_close_handle_def read_inv_def read_side_def ev_busy_def handles_inv_def)

lemma recv_cleanup_ok:
  assumes "read_inv es s" and "uv_data (sv_uv s) h = Some c"
  shows "\<exists>s'. recv_cleanup h c ret close s = Some s' \<and> read_inv es s' \<and> read_side s s' \<and>
    uv_data (sv_uv s') = uv_data (sv_uv s)"
proof -
  have c: "c < length (sv_chans s)" by (rule handle_channel [OF read_invD(7) [OF assms(1)] assms(2)])
  let ?ch = "(sv_chans s ! c)\<lparr>ch_error_code := ret\<rparr>"
  have e: "recv_cleanup h c ret close s = Some (if close \<and> \<not> uv_closing (sv_uv s) h
      then uv_close_handle h (put_channel c (?ch\<lparr>ch_state := TCP_CHANNEL_CLOSING\<rparr>) s) else put_channel c ?ch s)"
    using c by (auto simp: recv_cleanup_def get_channel_eq set_channel_eq Let_def)
  show ?thesis unfolding e
    using read_inv_put_channel [OF assms, of ?ch]
      read_inv_put_channel [OF assms, of "?ch\<lparr>ch_state := TCP_CHANNEL_CLOSING\<rparr>"] read_inv_uv_close(2)
    by (auto intro: read_side_trans)
qed

lemma read_inv_counters [simp]:
  "read_inv es (s\<lparr>g_recv_msgs := x\<rparr>) = read_inv es s" "read_inv es (s\<lparr>g_recv_bytes := x\<rparr>) = read_inv es s"
  "read_inv es (s\<lparr>sv_mem := m\<rparr>) = read_inv es s"
  by (simp_all add: read_inv_def ev_busy_def handles_inv_def)

text \<open>A channel's buffer is a buffer of the read pool that is not free.\<close>

lemma channel_buffer:
  assumes "read_inv es s" and "c < length (sv_chans s)" and "ch_read_buffer (sv_chans s ! c) = Some i"
  shows "i < pool_total (sv_pool_read s)" and "i \<notin> set (pool_free (sv_pool_read s))"
    and "pool_buffer_ok 0 (sv_pool_read s) i (bp_tn_buffers (sv_pool_read s) ! i)"
proof -
  have "chan_buf (sv_chans s ! c) = [i]" using assms(3) by simp
  then have "i \<in> set (chan_bufs (sv_chans s))" using nth_mem [OF assms(2)] by (force simp: chan_bufs_def)
  then show i: "i < pool_total (sv_pool_read s)" and "i \<notin> set (pool_free (sv_pool_read s))"
    using conserved_disjoint(1,3) [OF read_invD(6) [OF assms(1)]] read_invD(5) [OF assms(1)] by simp_all
  show "pool_buffer_ok 0 (sv_pool_read s) i (bp_tn_buffers (sv_pool_read s) ! i)"
    by (rule pool_invD(3) [OF read_invD(4) [OF assms(1)] i])
qed

text \<open>Adding received bytes to a channel's buffer, whether they fit or not.\<close>

lemma add_received:
  assumes "read_inv es s" and "i < pool_total (sv_pool_read s)"
  defines "b \<equiv> bp_tn_buffers (sv_pool_read s) ! i"
  obtains rc b' where "tn_buffer_add_length b n = (rc, b')"
    "read_inv es (s\<lparr>sv_pool_read := (sv_pool_read s)\<lparr>bp_tn_buffers := (bp_tn_buffers (sv_pool_read s))[i := b']\<rparr>\<rparr>)"
    "rc = TN_SUCCESS \<longleftrightarrow> unat n \<le> buf_cap b - buf_fill b"
    "rc = TN_SUCCESS \<Longrightarrow> b' = buf_extend b n"
proof -
  note D = read_invD [OF assms(1)]
  have ok: "pool_buffer_ok 0 (sv_pool_read s) i b" unfolding b_def by (rule pool_invD(3) [OF D(4) assms(2)])
  then have inv: "buf_inv b" by (simp add: pool_buffer_ok_def)
  let ?s = "\<lambda>b'. s\<lparr>sv_pool_read := (sv_pool_read s)\<lparr>bp_tn_buffers := (bp_tn_buffers (sv_pool_read s))[i := b']\<rparr>\<rparr>"
  have keep: "read_inv es (?s b')" if "pool_buffer_ok 0 (sv_pool_read s) i b'" for b'
    by (rule read_invI [OF assms(1)])
      (use D(1,3) pool_inv_buffer [OF D(4) that] handles_inv_same [OF D(7), of "?s b'"] in \<open>simp_all add: ev_busy_def\<close>)
  show thesis
  proof (cases "buf_fill b + unat n \<le> buf_cap b")
    case True
    have "pool_buffer_ok 0 (sv_pool_read s) i (buf_extend b n)"
      using ok buf_extend_inv [OF inv True] by (simp add: pool_buffer_ok_def buf_extend_def)
    then show thesis using keep buf_add_length_ok [OF inv True] True
      by (intro that [of TN_SUCCESS "buf_extend b n"]) auto
  next
    case False
    then have "\<not> unat n \<le> buf_cap b - buf_fill b" using buf_invD(3) [OF inv] by linarith
    then show thesis using keep [OF ok] buf_add_length_full [OF inv, of n] False
      by (intro that [of TN_ERROR b]) auto
  qed
qed

text \<open>A free event is neither ready nor in the hands of the main thread.\<close>

lemma free_event:
  assumes "read_inv es s" and "ev_free (sv_events s) = e # fs"
  shows "e \<notin> set (ev_ready (sv_events s))" and "e \<notin> set es" and "e < length (sv_evts s)"
proof -
  have "e \<in> set (ev_free (sv_events s))" using assms(2) by simp
  then have "e \<notin> set (ev_busy es s)" "e < ev_total (sv_events s)"
    using conserved_disjoint(2,4) [OF read_invD(2) [OF assms(1)]] by blast+
  then show "e \<notin> set (ev_ready (sv_events s))" "e \<notin> set es" "e < length (sv_evts s)"
    using event_invD(1) [OF read_invD(1) [OF assms(1)]] by (simp_all add: ev_busy_def)
qed

text \<open>Posting an event and changing its channel: the buffer of the channel may go into the event.\<close>

lemma read_inv_post:
  assumes "read_inv es s" and "uv_data (sv_uv s) h = Some c" and "ev_free (sv_events s) = e # fs"
    and "event_inv l" and "ev_free l = fs" and "ev_ready l = ev_ready (sv_events s) @ [e]"
    and "el_tn_events l = (sv_evts s)[e := evt]" and "el_capacity l = el_capacity (sv_events s)"
    and "ch_id ch = ch_id (sv_chans s ! c)"
    and "mset (event_buf evt) + mset (chan_buf ch) = mset (chan_buf (sv_chans s ! c))"
    and "ev_type evt = TN_EVENT_CLIENT_READ \<Longrightarrow> ev_tn_buffer evt \<noteq> None"
  shows "read_inv es (put_channel c ch (s\<lparr>sv_events := l\<rparr>))"
proof (rule read_invI [OF assms(1)])
  let ?s = "put_channel c ch (s\<lparr>sv_events := l\<rparr>)"
  note D = read_invD [OF assms(1)] and f = free_event [OF assms(1,3)]
  have c: "c < length (sv_chans s)" by (rule handle_channel [OF D(7) assms(2)])
  show "mset (ev_busy es ?s) + mset (ev_free (sv_events ?s)) = mset (ev_busy es s) + mset (ev_free (sv_events s))"
    using assms(3,5,6) by (simp add: ev_busy_def)
  show "mset (chan_bufs (sv_chans ?s)) + mset (event_bufs (sv_evts ?s) (ev_busy es ?s)) + mset (pool_free (sv_pool_read ?s)) =
      mset (chan_bufs (sv_chans s)) + mset (event_bufs (sv_evts s) (ev_busy es s)) + mset (pool_free (sv_pool_read s))"
  proof -
    have "event_bufs (sv_evts ?s) (ev_busy es ?s) =
        event_bufs (sv_evts s) (ev_ready (sv_events s)) @ event_buf evt @ event_bufs (sv_evts s) es"
      using assms(6,7) f by (simp add: ev_busy_def event_bufs_update)
    moreover have "mset (chan_bufs ((sv_chans s)[c := ch])) + mset (event_buf evt) = mset (chan_bufs (sv_chans s))"
    proof -
      have "mset (chan_bufs ((sv_chans s)[c := ch])) + mset (event_buf evt) + mset (chan_buf ch) =
          mset (chan_bufs (sv_chans s)) + mset (chan_buf ch)"
        using mset_chan_bufs_update [OF c, of ch] assms(10) by (metis add.assoc)
      then show ?thesis by simp
    qed
    ultimately show ?thesis by (simp add: ev_busy_def add_ac)
  qed
  show "ev_tn_buffer (sv_evts ?s ! x) \<noteq> None"
    if "x \<in> set (ev_busy es ?s)" "ev_type (sv_evts ?s ! x) = TN_EVENT_CLIENT_READ" for x
    using that assms(6,7,11) f D(3) [of x] by (cases "x = e") (auto simp: ev_busy_def)
  have "handles_inv (s\<lparr>sv_events := l\<rparr>)" by (rule handles_inv_same [OF D(7)]) simp_all
  then show "handles_inv ?s" by (rule handles_put_channel) (use assms(2,9) in simp_all)
qed (use assms(4,8) read_invD(4) [OF assms(1)] in simp_all)

definition read_event :: "tcp_channel \<Rightarrow> nat \<Rightarrow> tn_buffer \<Rightarrow> tn_event \<Rightarrow> tn_event" where
  "read_event ch i b evt = evt\<lparr>ev_type := TN_EVENT_CLIENT_READ, ev_tn_buffer := Some i, ev_client_id := ch_id ch,
     ev_buffer := tn_buffer_read_ptr b, ev_len := tn_buffer_read_length b\<rparr>"

lemma read_event_simps [simp]:
  "ev_type (read_event ch i b evt) = TN_EVENT_CLIENT_READ" "ev_tn_buffer (read_event ch i b evt) = Some i"
  "event_buf (read_event ch i b evt) = [i]"
  by (simp_all add: read_event_def event_buf_def)

lemma recv_deliver:
  assumes "read_inv es s" and "uv_data (sv_uv s) h = Some c" and "ch_read_buffer (sv_chans s ! c) = Some i"
    and "ev_free (sv_events s) = e # fs" and "0 < nread"
    and "unat (word_of_int nread :: u64) \<le> buf_cap (bp_tn_buffers (sv_pool_read s) ! i) - buf_fill (bp_tn_buffers (sv_pool_read s) ! i)"
  defines "b \<equiv> buf_extend (bp_tn_buffers (sv_pool_read s) ! i) (word_of_int nread)"
  obtains s' where "on_recv_cb h nread True s = Some s'" "read_inv es s'" "read_side s s'"
    "uv_data (sv_uv s') = uv_data (sv_uv s)" "ev_ready (sv_events s') = ev_ready (sv_events s) @ [e]"
    "sv_evts s' ! e = read_event (sv_chans s ! c) i b (sv_evts s ! e)" "sv_mem s' = sv_mem s"
    "ch_read_buffer (sv_chans s' ! c) = None" "bp_tn_buffers (sv_pool_read s') ! i = b"
    "\<forall>x. x \<noteq> e \<longrightarrow> sv_evts s' ! x = sv_evts s ! x"
proof -
  let ?n = "word_of_int nread :: u64"
  let ?s0 = "s\<lparr>g_recv_msgs := g_recv_msgs s + 1, g_recv_bytes := g_recv_bytes s + ?n\<rparr>"
  have inv0: "read_inv es ?s0" using assms(1) by simp
  have c: "c < length (sv_chans s)" by (rule handle_channel [OF read_invD(7) [OF assms(1)] assms(2)])
  have i: "i < pool_total (sv_pool_read s)" by (rule channel_buffer(1) [OF assms(1) c assms(3)])
  let ?s1 = "?s0\<lparr>sv_pool_read := (sv_pool_read s)\<lparr>bp_tn_buffers := (bp_tn_buffers (sv_pool_read s))[i := b]\<rparr>\<rparr>"
  obtain rc b' where a: "tn_buffer_add_length (bp_tn_buffers (sv_pool_read s) ! i) ?n = (rc, b')"
      "read_inv es (?s0\<lparr>sv_pool_read := (sv_pool_read s)\<lparr>bp_tn_buffers := (bp_tn_buffers (sv_pool_read s))[i := b']\<rparr>\<rparr>)"
      "rc = TN_SUCCESS" "b' = b"
    using add_received [OF inv0, of i ?n] i assms(6) unfolding b_def by auto
  have inv1: "read_inv es ?s1" using a(2,4) by simp
  let ?evt = "read_event (sv_chans s ! c) i b (sv_evts s ! e)"
  let ?f = "\<lambda>evt. evt\<lparr>ev_type := TN_EVENT_CLIENT_READ, ev_tn_buffer := None\<rparr>"
  obtain l1 l2 where p: "free_pop_as ?f (sv_events s) = Some (TN_SUCCESS, Some e, l1)" "e < length (el_tn_events l1)"
      "el_tn_events l1 ! e = ?f (sv_evts s ! e)"
      "tn_event_list_ready_push (l1\<lparr>el_tn_events := (el_tn_events l1)[e := ?evt]\<rparr>) e = Some (TN_SUCCESS, l2)"
      "event_inv l2" "ev_free l2 = fs" "ev_ready l2 = ev_ready (sv_events s) @ [e]"
      "el_tn_events l2 = (sv_evts s)[e := ?evt]" "el_capacity l2 = el_capacity (sv_events s)"
    by (rule post_event [OF read_invD(1) [OF assms(1)] assms(4), of ?f ?evt])
  let ?ch = "(sv_chans s ! c)\<lparr>ch_read_buffer := None\<rparr>"
  let ?s = "put_channel c ?ch (?s1\<lparr>sv_events := l2\<rparr>)"
  have evt: "(?f (sv_evts s ! e))\<lparr>ev_client_id := ch_id (sv_chans s ! c), ev_tn_buffer := Some i,
      ev_buffer := tn_buffer_read_ptr b, ev_len := tn_buffer_read_length b\<rparr> = ?evt"
    by (simp add: read_event_def)
  have "on_recv_cb h nread True s = Some ?s"
    using assms(2,3,5) c i a(1,3,4) p(1-4) pool_invD(2) [OF read_invD(4) [OF assms(1)]] evt
    by (simp add: on_recv_cb_def Let_def get_channel_eq set_channel_eq tn_event_list_free_pop_read_def set_event_def)
  moreover have "read_inv es ?s"
    by (rule read_inv_post [OF inv1, of h c e fs l2 ?evt ?ch])
      (use assms(2-4) p(5-9) in simp_all)
  ultimately show thesis
    using p(7,8) free_event(3) [OF assms(1,4)] c i pool_invD(2) [OF read_invD(4) [OF assms(1)]]
    by (intro that [of ?s]) (simp_all add: read_side_def put_channel_def)
qed

end
