(* ===== verification/Tn_Service_Sys.thy ===== *)
theory Tn_Service_Sys
  imports Tn_Service_Read
begin

text \<open>
  The remaining operations on the read side, and the service as one machine: every operation of the
  main thread and every callback of the IO thread, in any order that libuv and the application's
  acquire/release protocol allow.
\<close>

section \<open>The read callback on every branch\<close>

lemma on_recv_ok:
  assumes "read_inv es s" and "uv_data (sv_uv s) h = Some c"
    and "0 < nread \<Longrightarrow> ch_read_buffer (sv_chans s ! c) \<noteq> None"
  shows "\<exists>s'. on_recv_cb h nread has_buf s = Some s' \<and> read_inv es s' \<and> read_side s s' \<and>
    uv_data (sv_uv s') = uv_data (sv_uv s)"
proof (cases "nread \<le> 0 \<or> \<not> has_buf")
  case True
  let ?ret = "if nread < 0 then nread else TN_RECV_ERROR"
  have "on_recv_cb h nread has_buf s = recv_cleanup h c ?ret (nread < 0) s"
    using True assms(2) by (auto simp: on_recv_cb_def)
  then show ?thesis using recv_cleanup_ok [OF assms(1,2), of ?ret "nread < 0"] by simp
next
  case False
  let ?n = "word_of_int nread :: u64"
  let ?s0 = "s\<lparr>g_recv_msgs := g_recv_msgs s + 1, g_recv_bytes := g_recv_bytes s + ?n\<rparr>"
  obtain i where i: "ch_read_buffer (sv_chans s ! c) = Some i" using assms(3) False by auto
  have c: "c < length (sv_chans s)" by (rule handle_channel [OF read_invD(7) [OF assms(1)] assms(2)])
  have it: "i < pool_total (sv_pool_read s)" by (rule channel_buffer(1) [OF assms(1) c i])
  let ?b = "bp_tn_buffers (sv_pool_read s) ! i"
  let ?s1 = "\<lambda>b'. ?s0\<lparr>sv_pool_read := (sv_pool_read s)\<lparr>bp_tn_buffers := (bp_tn_buffers (sv_pool_read s))[i := b']\<rparr>\<rparr>"
  have inv0: "read_inv es ?s0" using assms(1) by simp
  obtain rc b' where a: "tn_buffer_add_length ?b ?n = (rc, b')" "read_inv es (?s1 b')"
      "rc = TN_SUCCESS \<longleftrightarrow> unat ?n \<le> buf_cap ?b - buf_fill ?b"
    by (rule add_received [OF inv0, of i ?n]) (use it in auto)
  have side: "read_side s (?s1 b')" by (simp add: read_side_def)
  have u: "uv_data (sv_uv (?s1 b')) h = Some c" using assms(2) by simp
  have clean: ?thesis if "on_recv_cb h nread has_buf s = recv_cleanup h c ret False (?s1 b')" for ret
    using recv_cleanup_ok [OF a(2) u, of ret False] read_side_trans [OF side] that by auto
  show ?thesis
  proof (cases "rc \<noteq> 0")
    case True
    then show ?thesis using assms(2) False i c it a(1) pool_invD(2) [OF read_invD(4) [OF assms(1)]]
      by (intro clean [of TN_RECV_EBUF]) (simp add: on_recv_cb_def Let_def get_channel_eq)
  next
    case rc: False
    show ?thesis
    proof (cases "ev_free (sv_events s)")
      case Nil
      then show ?thesis
        using assms(2) False i c it a(1) rc free_pop_as_empty [OF Nil] pool_invD(2) [OF read_invD(4) [OF assms(1)]]
        by (intro clean [of TN_RECV_EVTPOP])
          (simp add: on_recv_cb_def Let_def get_channel_eq tn_event_list_free_pop_read_def)
    next
      case (Cons e fs)
      have "unat ?n \<le> buf_cap ?b - buf_fill ?b" using a(3) rc by simp
      then show ?thesis using recv_deliver [OF assms(1,2) i Cons, of nread] False by (metis not_le)
    qed
  qed
qed

section \<open>Closing a channel\<close>

text \<open>Taking a channel's buffer back into the pool.\<close>

lemma read_inv_return_buffer:
  assumes "read_inv es s" and "uv_data (sv_uv s) h = Some c" and "ch_read_buffer (sv_chans s ! c) = Some b"
    and "ch_id ch = ch_id (sv_chans s ! c)" and "ch_read_buffer ch = None"
  obtains p where "tn_buffer_pool_push (sv_pool_read s) b = Some (TN_SUCCESS, p)"
    "read_inv es (put_channel c ch (s\<lparr>sv_pool_read := p\<rparr>))"
proof -
  note D = read_invD [OF assms(1)]
  have c: "c < length (sv_chans s)" by (rule handle_channel [OF D(7) assms(2)])
  note b = channel_buffer [OF assms(1) c assms(3)]
  obtain p where p: "tn_buffer_pool_push (sv_pool_read s) b = Some (TN_SUCCESS, p)" "pool_inv 0 p"
      "pool_free p = pool_free (sv_pool_read s) @ [b]" "pool_total p = pool_total (sv_pool_read s)"
    using pool_push_ok [OF D(4) b(1,2)] by metis
  let ?s = "put_channel c ch (s\<lparr>sv_pool_read := p\<rparr>)"
  have "read_inv es ?s"
  proof (rule read_invI [OF assms(1)])
    show "mset (chan_bufs (sv_chans ?s)) + mset (event_bufs (sv_evts ?s) (ev_busy es ?s)) + mset (pool_free (sv_pool_read ?s)) =
        mset (chan_bufs (sv_chans s)) + mset (event_bufs (sv_evts s) (ev_busy es s)) + mset (pool_free (sv_pool_read s))"
      using mset_chan_bufs_update [OF c, of ch] assms(3,5) p(3) by (simp add: ev_busy_def)
    have "handles_inv (s\<lparr>sv_pool_read := p\<rparr>)" by (rule handles_inv_same [OF D(7)]) simp_all
    then show "handles_inv ?s" by (rule handles_put_channel) (use assms(2,4) in simp_all)
  qed (use D(1,3) p(2,4) in \<open>simp_all add: ev_busy_def\<close>)
  then show thesis using p(1) by (rule that [rotated])
qed

text \<open>Releasing the handle of a channel that holds no buffer, and putting the channel on the free list.\<close>

lemma handles_free:
  assumes "handles_inv s" and "uv_data (sv_uv s) h = Some c" and "ch_read_buffer (sv_chans s ! c) = None"
  shows "handles_inv (free_handle h s)"
proof -
  note D = handles_invD [OF assms(1)]
  have "\<exists>h'. h' \<noteq> h \<and> uv_data (sv_uv s) h' = Some d"
    if d: "d < chan_total (sv_channel_list s)" "ch_read_buffer (sv_chans s ! d) \<noteq> None" for d
  proof -
    obtain h' where h': "uv_data (sv_uv s) h' = Some d" using D(5) [OF d] by blast
    have "d \<noteq> c" using d(2) assms(3) by auto
    then have "h' \<noteq> h" using h' assms(2) by auto
    then show ?thesis using h' by blast
  qed
  then show ?thesis using D(1-4) unfolding handles_inv_def free_handle_def by simp blast
qed

lemma read_inv_free_handle:
  assumes "read_inv es s" and "uv_data (sv_uv s) h = Some c" and "ch_read_buffer (sv_chans s ! c) = None"
  shows "read_inv es (free_handle h s)" and "read_side s (free_handle h s)"
  using handles_free [OF read_invD(7) [OF assms(1)] assms(2,3)] assms(1)
  by (simp_all add: read_inv_def read_side_def free_handle_def ev_busy_def)

lemma handles_close:
  assumes "handles_inv s" and "uv_data (sv_uv s) h = Some c" and "ch_read_buffer (sv_chans s ! c) = None"
  obtains l where "tcp_channel_list_close (sv_channel_list s) c = Some (TN_SUCCESS, l)"
    "handles_inv (free_handle h (s\<lparr>sv_channel_list := l\<rparr>))" "cl_client_map l = sv_chans s"
    "cl_clients_max l = cl_clients_max (sv_channel_list s)" "chan_free l = chan_free (sv_channel_list s) @ [c]"
proof -
  note D = handles_invD [OF assms(1)]
  obtain l where l: "tcp_channel_list_close (sv_channel_list s) c = Some (TN_SUCCESS, l)" "chan_inv l"
      "chan_free l = chan_free (sv_channel_list s) @ [c]" "cl_client_map l = sv_chans s"
      "cl_clients_max l = cl_clients_max (sv_channel_list s)"
    by (rule channel_close_ok [OF D(1) D(2) [OF assms(2)] D(3) [OF assms(2)]])
  have "handles_inv (free_handle h s)" by (rule handles_free [OF assms])
  moreover have "d \<noteq> c" if "uv_data (sv_uv s) h' = Some d" "h' \<noteq> h" for h' d using D(4) [OF that(1)] that(2) assms(2) by metis
  ultimately have "handles_inv (free_handle h (s\<lparr>sv_channel_list := l\<rparr>))"
    using l(2-5) unfolding handles_inv_def free_handle_def by (simp split: if_splits)
  then show thesis using l by (intro that [of l]) simp_all
qed

lemma post_event_keeps:
  assumes "read_inv es s" and "uv_data (sv_uv s) h = Some c" and "ev_free (sv_events s) = e # fs"
    and "ev_type evt \<noteq> TN_EVENT_CLIENT_READ"
  obtains l1 l2 where "free_pop_as f (sv_events s) = Some (TN_SUCCESS, Some e, l1)" "e < length (el_tn_events l1)"
    "el_tn_events l1 ! e = f (sv_evts s ! e)"
    "tn_event_list_ready_push (l1\<lparr>el_tn_events := (el_tn_events l1)[e := evt]\<rparr>) e = Some (TN_SUCCESS, l2)"
    "read_inv es (s\<lparr>sv_events := l2\<rparr>)" "ev_ready l2 = ev_ready (sv_events s) @ [e]" "el_tn_events l2 = (sv_evts s)[e := evt]"
    "ev_free l2 = fs"
proof -
  obtain l1 l2 where p: "free_pop_as f (sv_events s) = Some (TN_SUCCESS, Some e, l1)" "e < length (el_tn_events l1)"
      "el_tn_events l1 ! e = f (sv_evts s ! e)"
      "tn_event_list_ready_push (l1\<lparr>el_tn_events := (el_tn_events l1)[e := evt]\<rparr>) e = Some (TN_SUCCESS, l2)"
      "event_inv l2" "ev_free l2 = fs" "ev_ready l2 = ev_ready (sv_events s) @ [e]"
      "el_tn_events l2 = (sv_evts s)[e := evt]" "el_capacity l2 = el_capacity (sv_events s)"
    by (rule post_event [OF read_invD(1) [OF assms(1)] assms(3), of f evt])
  have "read_inv es (put_channel c (sv_chans s ! c) (s\<lparr>sv_events := l2\<rparr>))"
    by (rule read_inv_post [OF assms(1-3) p(5-9)]) (use assms(4) in \<open>simp_all add: event_buf_def\<close>)
  then show thesis using p by (intro that [of l1 l2]) (simp_all add: put_channel_def)
qed

text \<open>What \<open>on_close_channel_cb\<close> does once the channel is closed and holds no buffer.\<close>

definition close_rest :: "nat \<Rightarrow> nat \<Rightarrow> tcp_channel \<Rightarrow> tcp_service \<Rightarrow> tcp_service option" where
  "close_rest h c ch s = do {
     (rc, out, l) \<leftarrow> tn_event_list_free_pop_close (sv_events s);
     let s = s\<lparr>sv_events := l\<rparr>;
     if rc \<noteq> 0 then Some (free_handle h s) else do {
     e \<leftarrow> out;
     s \<leftarrow> set_event e (\<lambda>evt. evt\<lparr>ev_client_id := ch_id ch, ev_error_code := 0\<rparr>) s;
     (rc, l) \<leftarrow> tn_event_list_ready_push (sv_events s) e;
     let s = s\<lparr>sv_events := l\<rparr>;
     (rc, l) \<leftarrow> tcp_channel_list_close (sv_channel_list s) c;
     Some (free_handle h (s\<lparr>sv_channel_list := l\<rparr>))
   }}"

lemma close_channel_prefix:
  assumes "read_inv es s" and "uv_data (sv_uv s) h = Some c"
  obtains ch s1 where "on_close_channel_cb h s = close_rest h c ch s1" "read_inv es s1" "read_side s s1"
    "sv_uv s1 = sv_uv s" "sv_events s1 = sv_events s" "ch_read_buffer (sv_chans s1 ! c) = None"
    "chan_free (sv_channel_list s1) = chan_free (sv_channel_list s)" "ch_id ch = of_nat c"
proof -
  note D = read_invD [OF assms(1)]
  have c: "c < length (sv_chans s)" by (rule handle_channel [OF D(7) assms(2)])
  have id: "ch_id (sv_chans s ! c) = of_nat c"
    using chan_invD(1,2) [OF handles_invD(1) [OF D(7)]] c by simp
  show thesis
  proof (cases "ch_read_buffer (sv_chans s ! c)")
    case None
    let ?ch = "(sv_chans s ! c)\<lparr>ch_state := TCP_CHANNEL_CLOSED\<rparr>"
    have "on_close_channel_cb h s = close_rest h c ?ch (put_channel c ?ch s)"
      using None c assms(2) by (simp add: on_close_channel_cb_def close_rest_def get_channel_eq set_channel_eq Let_def)
    then show thesis using read_inv_put_channel [OF assms, of ?ch] None c id
      by (intro that [of ?ch "put_channel c ?ch s"]) simp_all
  next
    case (Some b)
    let ?ch = "(sv_chans s ! c)\<lparr>ch_state := TCP_CHANNEL_CLOSED, ch_read_buffer := None\<rparr>"
    obtain p where p: "tn_buffer_pool_push (sv_pool_read s) b = Some (TN_SUCCESS, p)"
        "read_inv es (put_channel c ?ch (s\<lparr>sv_pool_read := p\<rparr>))"
      by (rule read_inv_return_buffer [OF assms Some, of ?ch]) simp_all
    let ?s1 = "put_channel c ?ch (s\<lparr>sv_pool_read := p\<rparr>)"
    have "on_close_channel_cb h s = close_rest h c ?ch ?s1"
      using Some c assms(2) p(1)
      by (simp add: on_close_channel_cb_def close_rest_def get_channel_eq set_channel_eq Let_def)
    then show thesis using p(2) c id
      by (intro that [of ?ch ?s1]) (simp_all add: read_side_def put_channel_def)
  qed
qed

text \<open>
  Closing a channel: with a free event it posts the close event and frees the channel; without one
  the channel is neither reported nor put back on the free list.
\<close>

lemma close_channel_ok:
  assumes "read_inv es s" and "uv_data (sv_uv s) h = Some c" and "ev_free (sv_events s) = e # fs"
  obtains s' where "on_close_channel_cb h s = Some s'" "read_inv es s'" "read_side s s'"
    "uv_data (sv_uv s') = (uv_data (sv_uv s))(h := None)" "ev_ready (sv_events s') = ev_ready (sv_events s) @ [e]"
    "ev_type (sv_evts s' ! e) = TN_EVENT_CLIENT_CLOSE" "ev_client_id (sv_evts s' ! e) = of_nat c"
    "chan_free (sv_channel_list s') = chan_free (sv_channel_list s) @ [c]"
    "ev_free (sv_events s') = fs" "uv_closing (sv_uv s') = (uv_closing (sv_uv s))(h := False)"
proof -
  obtain ch s1 where s1: "on_close_channel_cb h s = close_rest h c ch s1" "read_inv es s1" "read_side s s1"
      "sv_uv s1 = sv_uv s" "sv_events s1 = sv_events s" "ch_read_buffer (sv_chans s1 ! c) = None"
      "chan_free (sv_channel_list s1) = chan_free (sv_channel_list s)" "ch_id ch = of_nat c"
    by (rule close_channel_prefix [OF assms(1,2)])
  have u1: "uv_data (sv_uv s1) h = Some c" and f1: "ev_free (sv_events s1) = e # fs" using s1(4,5) assms(2,3) by simp_all
  let ?f = "\<lambda>evt. evt\<lparr>ev_type := TN_EVENT_CLIENT_CLOSE, ev_tn_buffer := None\<rparr>"
  let ?evt = "(?f (sv_evts s1 ! e))\<lparr>ev_client_id := ch_id ch, ev_error_code := 0\<rparr>"
  obtain l1 l2 where p: "free_pop_as ?f (sv_events s1) = Some (TN_SUCCESS, Some e, l1)" "e < length (el_tn_events l1)"
      "el_tn_events l1 ! e = ?f (sv_evts s1 ! e)"
      "tn_event_list_ready_push (l1\<lparr>el_tn_events := (el_tn_events l1)[e := ?evt]\<rparr>) e = Some (TN_SUCCESS, l2)"
      "read_inv es (s1\<lparr>sv_events := l2\<rparr>)" "ev_ready l2 = ev_ready (sv_events s1) @ [e]"
      "el_tn_events l2 = (sv_evts s1)[e := ?evt]" "ev_free l2 = fs"
    by (rule post_event_keeps [OF s1(2) u1 f1, of ?evt ?f]) simp_all
  let ?s2 = "s1\<lparr>sv_events := l2\<rparr>"
  obtain l where l: "tcp_channel_list_close (sv_channel_list ?s2) c = Some (TN_SUCCESS, l)"
      "handles_inv (free_handle h (?s2\<lparr>sv_channel_list := l\<rparr>))" "cl_client_map l = sv_chans ?s2"
      "cl_clients_max l = cl_clients_max (sv_channel_list ?s2)" "chan_free l = chan_free (sv_channel_list ?s2) @ [c]"
    by (rule handles_close [OF read_invD(7) [OF p(5)], of h c]) (use u1 s1(6) in simp_all)
  let ?s = "free_handle h (?s2\<lparr>sv_channel_list := l\<rparr>)"
  have "close_rest h c ch s1 = Some ?s"
    using p(1-4) l(1) by (simp add: close_rest_def tn_event_list_free_pop_close_def set_event_def Let_def)
  moreover have "read_inv es ?s" using p(5) l(2,3) by (simp add: read_inv_def free_handle_def ev_busy_def)
  moreover have "read_side s ?s" using s1(3) l(4) by (simp add: read_side_def free_handle_def)
  ultimately show thesis using s1(1,4,5,7,8) p(6-8) l(5) free_event(3) [OF s1(2) f1]
    by (intro that [of ?s]) (simp_all add: free_handle_def)
qed

lemma close_channel_no_event:
  assumes "read_inv es s" and "uv_data (sv_uv s) h = Some c" and "ev_free (sv_events s) = []"
  obtains s' where "on_close_channel_cb h s = Some s'" "read_inv es s'" "read_side s s'"
    "uv_data (sv_uv s') = (uv_data (sv_uv s))(h := None)" "ev_ready (sv_events s') = ev_ready (sv_events s)"
    "chan_free (sv_channel_list s') = chan_free (sv_channel_list s)"
proof -
  obtain ch s1 where s1: "on_close_channel_cb h s = close_rest h c ch s1" "read_inv es s1" "read_side s s1"
      "sv_uv s1 = sv_uv s" "sv_events s1 = sv_events s" "ch_read_buffer (sv_chans s1 ! c) = None"
      "chan_free (sv_channel_list s1) = chan_free (sv_channel_list s)" "ch_id ch = of_nat c"
    by (rule close_channel_prefix [OF assms(1,2)])
  have "uv_data (sv_uv s1) h = Some c" using s1(4) assms(2) by simp
  note f = read_inv_free_handle [OF s1(2) this s1(6)]
  have "ev_free (sv_events s1) = []" using s1(5) assms(3) by simp
  from free_pop_as_empty [OF this] have "close_rest h c ch s1 = Some (free_handle h s1)"
    by (simp add: close_rest_def tn_event_list_free_pop_close_def)
  then show thesis using s1 f read_side_trans [OF s1(3) f(2)]
    by (intro that [of "free_handle h s1"]) (simp_all add: free_handle_def)
qed

section \<open>Accepting a connection\<close>

text \<open>libuv's names of addresses are at most 45 characters long, the longest text of an IPv6 address.\<close>

definition names_fit :: "conn_env \<Rightarrow> bool" where
  "names_fit env \<longleftrightarrow> (\<forall>sa. length (ce_ip4_name env sa) \<le> 45) \<and> (\<forall>sa. length (ce_ip6_name env sa) \<le> 45)"

definition fresh_handle :: "nat \<Rightarrow> tcp_service \<Rightarrow> bool" where
  "fresh_handle h s \<longleftrightarrow> uv_data (sv_uv s) h = None \<and> \<not> uv_closing (sv_uv s) h"

lemma get_string_fits:
  assumes "names_fit env" and "sa_family (ep_sockaddr ep) \<in> {AF_INET, AF_INET6}"
  obtains str where
    "tn_endpoint_get_string (ce_ip4_name env) (ce_ip6_name env) (ce_big_endian env) ep 64 = Some (TN_SUCCESS, str)"
proof -
  let ?sa = "ep_sockaddr ep"
  have "length (ce_ip4_name env ?sa) \<le> 45" "length (ce_ip6_name env ?sa) \<le> 45"
    using assms(1) by (simp_all add: names_fit_def)
  then show thesis
    using length_show_port [of "aws_ntoh16 (ce_big_endian env) (sa_port ?sa)"] assms(2) that
    by (auto simp: tn_endpoint_get_string_def Let_def AF_INET_def AF_INET6_def)
qed

lemma convert_from_family:
  "tn_endpoint_convert_from sa = (0, ep) \<Longrightarrow> sa_family (ep_sockaddr ep) \<in> {AF_INET, AF_INET6}"
  by (auto simp: tn_endpoint_convert_from_def Let_def split: if_splits)

text \<open>Opening a channel for a fresh handle.\<close>

lemma open_channel_ok:
  assumes "read_inv es s" and "fresh_handle h s" and "chan_free (sv_channel_list s) = fs @ [c]"
  obtains l s1 where "tcp_channel_list_open (sv_channel_list s) = Some (TN_SUCCESS, Some c, l)"
    "s1 = s\<lparr>sv_channel_list := l, sv_uv := (sv_uv s)\<lparr>uv_data := (uv_data (sv_uv s))(h \<mapsto> c)\<rparr>\<rparr>"
    "read_inv es s1" "read_side s s1" "ch_read_buffer (sv_chans s1 ! c) = None" "sv_events s1 = sv_events s"
    "uv_data (sv_uv s1) h = Some c" "uv_data (sv_uv s1) = (uv_data (sv_uv s))(h \<mapsto> c)"
proof -
  note D = read_invD [OF assms(1)]
  note H = handles_invD [OF D(7)]
  obtain l where l: "tcp_channel_list_open (sv_channel_list s) = Some (TN_SUCCESS, Some c, l)" "chan_inv l"
      "chan_free l = fs" "cl_client_map l = sv_chans s" "cl_clients_max l = cl_clients_max (sv_channel_list s)"
    by (rule channel_open_ok [OF H(1) assms(3)])
  have c: "c < chan_total (sv_channel_list s)" "c \<notin> set fs" "c \<in> set (chan_free (sv_channel_list s))"
    using chan_invD(5,6) [OF H(1)] assms(3) by auto
  have nb: "ch_read_buffer (sv_chans s ! c) = None" using H(5) [OF c(1)] H(3) c(3) by blast
  have nc: "uv_data (sv_uv s) h' \<noteq> Some c" for h' using H(3) [of h' c] c(3) by auto
  have ob: "\<exists>h'. h' \<noteq> h \<and> uv_data (sv_uv s) h' = Some d"
    if d: "d < chan_total (sv_channel_list s)" "ch_read_buffer (sv_chans s ! d) \<noteq> None" for d
    using H(5) [OF d] assms(2) by (metis fresh_handle_def option.distinct(1))
  have nf: "d \<notin> set fs" if "uv_data (sv_uv s) h' = Some d" for h' d using H(3) [OF that] assms(3) by simp
  let ?s1 = "s\<lparr>sv_channel_list := l, sv_uv := (sv_uv s)\<lparr>uv_data := (uv_data (sv_uv s))(h \<mapsto> c)\<rparr>\<rparr>"
  have "handles_inv ?s1"
    using l(2-5) H(2,4) c(1,2) ob nc nf unfolding handles_inv_def by simp metis
  then have "read_inv es ?s1" using assms(1) l(4) by (simp add: read_inv_def ev_busy_def)
  then show thesis using l nb by (intro that [of l ?s1]) (simp_all add: read_side_def)
qed

lemma connection_cleanup_ok:
  assumes "read_inv es s" and "uv_data (sv_uv s) h = Some c"
  shows "\<exists>s'. connection_cleanup (Some h) True (Some c) s = Some s' \<and> read_inv es s' \<and> read_side s s' \<and>
    uv_data (sv_uv s') = uv_data (sv_uv s)"
proof -
  have c: "c < length (sv_chans s)" by (rule handle_channel [OF read_invD(7) [OF assms(1)] assms(2)])
  let ?ch = "(sv_chans s ! c)\<lparr>ch_state := TCP_CHANNEL_CLOSING\<rparr>"
  have "connection_cleanup (Some h) True (Some c) s = Some (uv_close_handle h (put_channel c ?ch s))"
    using c by (simp add: connection_cleanup_def get_channel_eq set_channel_eq)
  then show ?thesis
    using read_inv_put_channel [OF assms, of ?ch] read_inv_uv_close(2) by (auto intro: read_side_trans)
qed

text \<open>What \<open>on_connection_cb\<close> does once it has a channel: first up to the free event, then with it.\<close>

definition conn_post :: "nat \<Rightarrow> nat \<Rightarrow> conn_env \<Rightarrow> tcp_channel \<Rightarrow> tn_endpoint \<Rightarrow> tcp_service \<Rightarrow> tcp_service option" where
  "conn_post h c env ch host_local s = do {
     (rc, out, l) \<leftarrow> tn_event_list_free_pop_open (sv_events s);
     let s = s\<lparr>sv_events := l\<rparr>;
     if rc \<noteq> 0 then connection_cleanup (Some h) True (Some c) s else do {
     e \<leftarrow> out;
     s \<leftarrow> set_event e (\<lambda>evt. evt\<lparr>ev_type := TN_EVENT_CLIENT_OPEN, ev_client_id := ch_id ch\<rparr>) s;
     (rc, str) \<leftarrow> tn_endpoint_get_string (ce_ip4_name env) (ce_ip6_name env) (ce_big_endian env) host_local 64;
     s \<leftarrow> set_event e (\<lambda>evt. evt\<lparr>ev_host_local := str\<rparr>) s;
     if rc \<noteq> 0 then connection_cleanup (Some h) True (Some c) s else do {
     (rc, str) \<leftarrow> tn_endpoint_get_string (ce_ip4_name env) (ce_ip6_name env) (ce_big_endian env) (ch_endpoint ch) 64;
     s \<leftarrow> set_event e (\<lambda>evt. evt\<lparr>ev_host_remote := str\<rparr>) s;
     if rc \<noteq> 0 then connection_cleanup (Some h) True (Some c) s else do {
     (rc, l) \<leftarrow> tn_event_list_ready_push (sv_events s) e;
     let s = s\<lparr>sv_events := l\<rparr>;
     if rc \<noteq> 0 then connection_cleanup (Some h) True (Some c) s
     else if ce_read_start env \<noteq> 0 then connection_cleanup (Some h) True (Some c) s
     else Some s
   }}}}"

definition open_event :: "u64 \<Rightarrow> string \<Rightarrow> string \<Rightarrow> tn_event \<Rightarrow> tn_event" where
  "open_event cid host_local host_remote evt = evt\<lparr>ev_type := TN_EVENT_CLIENT_OPEN, ev_client_id := cid,
     ev_host_local := host_local, ev_host_remote := host_remote\<rparr>"

lemma conn_post_event:
  assumes "read_inv es s" and "uv_data (sv_uv s) h = Some c" and "ev_free (sv_events s) = e # fs"
    and "tn_endpoint_get_string (ce_ip4_name env) (ce_ip6_name env) (ce_big_endian env) host_local 64 = Some (TN_SUCCESS, str1)"
    and "tn_endpoint_get_string (ce_ip4_name env) (ce_ip6_name env) (ce_big_endian env) (ch_endpoint ch) 64 = Some (TN_SUCCESS, str2)"
  obtains s1 where "conn_post h c env ch host_local s =
      (if ce_read_start env \<noteq> 0 then connection_cleanup (Some h) True (Some c) s1 else Some s1)"
    "read_inv es s1" "read_side s s1" "sv_uv s1 = sv_uv s" "ev_ready (sv_events s1) = ev_ready (sv_events s) @ [e]"
    "sv_evts s1 ! e = open_event (ch_id ch) str1 str2 (sv_evts s ! e)" "sv_chans s1 = sv_chans s"
    "ev_free (sv_events s1) = fs" "sv_pool_read s1 = sv_pool_read s"
proof -
  let ?f = "\<lambda>evt. evt\<lparr>ev_type := TN_EVENT_CLIENT_OPEN\<rparr>"
  let ?evt = "open_event (ch_id ch) str1 str2 (sv_evts s ! e)"
  obtain l1 l2 where p: "free_pop_as ?f (sv_events s) = Some (TN_SUCCESS, Some e, l1)" "e < length (el_tn_events l1)"
      "el_tn_events l1 ! e = ?f (sv_evts s ! e)"
      "tn_event_list_ready_push (l1\<lparr>el_tn_events := (el_tn_events l1)[e := ?evt]\<rparr>) e = Some (TN_SUCCESS, l2)"
      "read_inv es (s\<lparr>sv_events := l2\<rparr>)" "ev_ready l2 = ev_ready (sv_events s) @ [e]"
      "el_tn_events l2 = (sv_evts s)[e := ?evt]" "ev_free l2 = fs"
    by (rule post_event_keeps [OF assms(1-3), of ?evt ?f]) (simp_all add: open_event_def)
  have "conn_post h c env ch host_local s = (if ce_read_start env \<noteq> 0
      then connection_cleanup (Some h) True (Some c) (s\<lparr>sv_events := l2\<rparr>) else Some (s\<lparr>sv_events := l2\<rparr>))"
    using p(1-4) assms(4,5)
    by (simp add: conn_post_def tn_event_list_free_pop_open_def set_event_def open_event_def Let_def)
  then show thesis using p(5-8) free_event(3) [OF assms(1,3)]
    by (intro that [of "s\<lparr>sv_events := l2\<rparr>"]) (simp_all add: read_side_def)
qed

lemma conn_post_ok:
  assumes "read_inv es s" and "uv_data (sv_uv s) h = Some c" and "names_fit env"
    and "sa_family (ep_sockaddr host_local) \<in> {AF_INET, AF_INET6}"
    and "sa_family (ep_sockaddr (ch_endpoint ch)) \<in> {AF_INET, AF_INET6}"
  shows "\<exists>s'. conn_post h c env ch host_local s = Some s' \<and> read_inv es s' \<and> read_side s s' \<and>
    uv_data (sv_uv s') = uv_data (sv_uv s)"
proof (cases "ev_free (sv_events s)")
  case Nil
  have "conn_post h c env ch host_local s = connection_cleanup (Some h) True (Some c) s"
    using free_pop_as_empty [OF Nil] by (simp add: conn_post_def tn_event_list_free_pop_open_def)
  then show ?thesis using connection_cleanup_ok [OF assms(1,2)] by simp
next
  case (Cons e fs)
  obtain str1 where str1:
      "tn_endpoint_get_string (ce_ip4_name env) (ce_ip6_name env) (ce_big_endian env) host_local 64 = Some (TN_SUCCESS, str1)"
    by (rule get_string_fits [OF assms(3,4)])
  obtain str2 where str2:
      "tn_endpoint_get_string (ce_ip4_name env) (ce_ip6_name env) (ce_big_endian env) (ch_endpoint ch) 64 = Some (TN_SUCCESS, str2)"
    by (rule get_string_fits [OF assms(3,5)])
  obtain s1 where s1: "conn_post h c env ch host_local s =
      (if ce_read_start env \<noteq> 0 then connection_cleanup (Some h) True (Some c) s1 else Some s1)"
    "read_inv es s1" "read_side s s1" "sv_uv s1 = sv_uv s"
    by (rule conn_post_event [OF assms(1,2) Cons str1 str2]) simp
  then have "uv_data (sv_uv s1) h = Some c" using assms(2) by simp
  from connection_cleanup_ok [OF s1(2) this] s1 show ?thesis by (auto intro: read_side_trans)
qed

definition conn_channel :: "nat \<Rightarrow> nat \<Rightarrow> conn_env \<Rightarrow> tcp_service \<Rightarrow> tcp_service option" where
  "conn_channel h c env s = do {
     ch \<leftarrow> get_channel c s;
     let ch = init_channel h ch;
     s \<leftarrow> set_channel c ch s;
     if ce_getpeername env \<noteq> 0 then connection_cleanup (Some h) True (Some c) s else do {
     let (rc, ep) = tn_endpoint_convert_from (ce_peer env);
     let ch = ch\<lparr>ch_endpoint := ep\<rparr>;
     s \<leftarrow> set_channel c ch s;
     if rc \<noteq> 0 then connection_cleanup (Some h) True (Some c) s
     else if ce_getsockname env \<noteq> 0 then connection_cleanup (Some h) True (Some c) s else do {
     let (rc, host_local) = tn_endpoint_convert_from (ce_sock env);
     if rc \<noteq> 0 then connection_cleanup (Some h) True (Some c) s else conn_post h c env ch host_local s
   }}}"

lemma conn_channel_ok:
  assumes "read_inv es s" and "uv_data (sv_uv s) h = Some c" and "names_fit env"
    and "ch_read_buffer (sv_chans s ! c) = None"
  shows "\<exists>s'. conn_channel h c env s = Some s' \<and> read_inv es s' \<and> read_side s s' \<and>
    uv_data (sv_uv s') = uv_data (sv_uv s)"
proof -
  have c: "c < length (sv_chans s)" by (rule handle_channel [OF read_invD(7) [OF assms(1)] assms(2)])
  let ?ch = "init_channel h (sv_chans s ! c)"
  let ?s1 = "put_channel c ?ch s"
  have s1: "read_inv es ?s1" "read_side s ?s1"
    using read_inv_put_channel [OF assms(1,2), of ?ch] assms(4) by (simp_all add: init_channel_def)
  have u1: "uv_data (sv_uv ?s1) h = Some c" using assms(2) by simp
  obtain rc ep where ep: "tn_endpoint_convert_from (ce_peer env) = (rc, ep)" by fastforce
  obtain rc' hl where hl: "tn_endpoint_convert_from (ce_sock env) = (rc', hl)" by fastforce
  let ?ch2 = "?ch\<lparr>ch_endpoint := ep\<rparr>"
  let ?s2 = "put_channel c ?ch2 ?s1"
  have s2: "read_inv es ?s2" "read_side ?s1 ?s2"
    using read_inv_put_channel [OF s1(1) u1, of ?ch2] c by simp_all
  have u2: "uv_data (sv_uv ?s2) h = Some c" using assms(2) by simp
  have done1: ?thesis if "conn_channel h c env s = connection_cleanup (Some h) True (Some c) ?s1"
    using connection_cleanup_ok [OF s1(1) u1] read_side_trans [OF s1(2)] that by auto
  have done2: ?thesis if "conn_channel h c env s = connection_cleanup (Some h) True (Some c) ?s2"
    using connection_cleanup_ok [OF s2(1) u2] read_side_trans [OF read_side_trans [OF s1(2) s2(2)]] that by auto
  show ?thesis
  proof (cases "ce_getpeername env \<noteq> 0")
    case True
    then show ?thesis using c by (intro done1) (simp add: conn_channel_def get_channel_eq set_channel_eq)
  next
    case peer: False
    show ?thesis
    proof (cases "rc \<noteq> 0 \<or> ce_getsockname env \<noteq> 0 \<or> rc' \<noteq> 0")
      case True
      then show ?thesis using c peer ep hl
        by (intro done2) (auto simp: conn_channel_def get_channel_eq set_channel_eq Let_def)
    next
      case False
      then have "conn_channel h c env s = conn_post h c env ?ch2 hl ?s2"
        using c peer ep hl by (simp add: conn_channel_def get_channel_eq set_channel_eq Let_def)
      moreover have "sa_family (ep_sockaddr hl) \<in> {AF_INET, AF_INET6}"
          "sa_family (ep_sockaddr (ch_endpoint ?ch2)) \<in> {AF_INET, AF_INET6}"
        using convert_from_family [of _ hl] convert_from_family [of _ ep] False ep hl by auto
      ultimately show ?thesis
        using conn_post_ok [OF s2(1) u2 assms(3), of hl ?ch2] read_side_trans [OF read_side_trans [OF s1(2) s2(2)]]
        by auto
    qed
  qed
qed

lemma on_connection_channel:
  assumes "\<not> status < 0" and "ce_alloc env" and "ce_tcp_init env = 0" and "ce_accept env = 0"
    and "tcp_channel_list_open (sv_channel_list s) = Some (TN_SUCCESS, Some c, l)"
  shows "on_connection_cb status env s = conn_channel (ce_handle env) c env
    (s\<lparr>sv_channel_list := l, sv_uv := (sv_uv s)\<lparr>uv_data := (uv_data (sv_uv s))(ce_handle env \<mapsto> c)\<rparr>\<rparr>)"
  using assms unfolding on_connection_cb_def conn_channel_def conn_post_def Let_def by simp

lemma on_connection_ok:
  assumes "read_inv es s" and "names_fit env" and "fresh_handle (ce_handle env) s"
  shows "\<exists>s'. on_connection_cb status env s = Some s' \<and> read_inv es s' \<and> read_side s s'"
proof -
  let ?h = "ce_handle env"
  have same: "read_side s s" by (simp add: read_side_def)
  note cleanup = connection_cleanup_def [of None] connection_cleanup_def [of "Some ?h" _ None]
  show ?thesis
  proof (cases "status < 0 \<or> \<not> ce_alloc env \<or> ce_tcp_init env \<noteq> 0 \<or> ce_accept env \<noteq> 0")
    case True
    then show ?thesis using assms(1) same by (auto simp: on_connection_cb_def cleanup Let_def)
  next
    case False
    show ?thesis
    proof (cases "chan_free (sv_channel_list s)" rule: rev_cases)
      case Nil
      then show ?thesis
        using False assms(1) same channel_open_none [OF handles_invD(1) [OF read_invD(7) [OF assms(1)]] Nil]
        by (simp add: on_connection_cb_def cleanup Let_def)
    next
      case (snoc fs c)
      obtain l s1 where o: "tcp_channel_list_open (sv_channel_list s) = Some (TN_SUCCESS, Some c, l)"
          "s1 = s\<lparr>sv_channel_list := l, sv_uv := (sv_uv s)\<lparr>uv_data := (uv_data (sv_uv s))(?h \<mapsto> c)\<rparr>\<rparr>"
          "read_inv es s1" "read_side s s1" "ch_read_buffer (sv_chans s1 ! c) = None" "uv_data (sv_uv s1) ?h = Some c"
        by (rule open_channel_ok [OF assms(1,3) snoc]) simp
      have "on_connection_cb status env s = conn_channel ?h c env s1"
        using on_connection_channel [OF _ _ _ _ o(1), of status env] False o(2) by simp
      then show ?thesis
        using conn_channel_ok [OF o(3,6) assms(2) o(5)] read_side_trans [OF o(4)] by auto
    qed
  qed
qed

text \<open>Nothing goes wrong while a connection is accepted; the two addresses print as \<open>local\<close> and \<open>remote\<close>.\<close>

definition conn_accepts :: "conn_env \<Rightarrow> tn_endpoint \<Rightarrow> string \<Rightarrow> string \<Rightarrow> bool" where
  "conn_accepts env ep loc rem \<longleftrightarrow> ce_alloc env \<and> ce_tcp_init env = 0 \<and> ce_accept env = 0 \<and> ce_getpeername env = 0 \<and>
     ce_getsockname env = 0 \<and> ce_read_start env = 0 \<and> tn_endpoint_convert_from (ce_peer env) = (TN_SUCCESS, ep) \<and>
     tn_endpoint_get_string (ce_ip4_name env) (ce_ip6_name env) (ce_big_endian env) ep 64 = Some (TN_SUCCESS, rem) \<and>
     fst (tn_endpoint_convert_from (ce_sock env)) = TN_SUCCESS \<and>
     tn_endpoint_get_string (ce_ip4_name env) (ce_ip6_name env) (ce_big_endian env)
       (snd (tn_endpoint_convert_from (ce_sock env))) 64 = Some (TN_SUCCESS, loc)"

lemma connection_accepted:
  assumes "read_inv es s" and "fresh_handle (ce_handle env) s" and "chan_free (sv_channel_list s) = fs @ [c]"
    and "ev_free (sv_events s) = e # gs" and "conn_accepts env ep loc rem"
  obtains s' where "on_connection_cb 0 env s = Some s'" "read_inv es s'" "read_side s s'"
    "uv_data (sv_uv s') = (uv_data (sv_uv s))(ce_handle env \<mapsto> c)" "ev_ready (sv_events s') = ev_ready (sv_events s) @ [e]"
    "sv_evts s' ! e = open_event (of_nat c) loc rem (sv_evts s ! e)"
    "sv_chans s' ! c = (init_channel (ce_handle env) (sv_chans s ! c))\<lparr>ch_endpoint := ep\<rparr>"
    "ev_free (sv_events s') = gs" "sv_pool_read s' = sv_pool_read s" "uv_closing (sv_uv s') = uv_closing (sv_uv s)"
proof -
  let ?h = "ce_handle env"
  obtain l s1 where o: "tcp_channel_list_open (sv_channel_list s) = Some (TN_SUCCESS, Some c, l)"
      "s1 = s\<lparr>sv_channel_list := l, sv_uv := (sv_uv s)\<lparr>uv_data := (uv_data (sv_uv s))(?h \<mapsto> c)\<rparr>\<rparr>"
      "read_inv es s1" "read_side s s1" "ch_read_buffer (sv_chans s1 ! c) = None" "sv_events s1 = sv_events s"
      "uv_data (sv_uv s1) ?h = Some c" "uv_data (sv_uv s1) = (uv_data (sv_uv s))(?h \<mapsto> c)" "cl_client_map l = sv_chans s"
    by (rule open_channel_ok [OF assms(1-3)]) (metis channel_open_ok [OF handles_invD(1) [OF read_invD(7) [OF assms(1)]] assms(3)]
        option.inject prod.inject)
  have c: "c < length (sv_chans s1)" by (rule handle_channel [OF read_invD(7) [OF o(3)] o(7)])
  have id: "ch_id (sv_chans s ! c) = of_nat c"
    using chan_invD(1,2) [OF handles_invD(1) [OF read_invD(7) [OF o(3)]]] c o(2,9) by simp
  let ?ch = "(init_channel ?h (sv_chans s1 ! c))\<lparr>ch_endpoint := ep\<rparr>"
  let ?s2 = "put_channel c ?ch s1"
  have s2: "read_inv es ?s2" "read_side s1 ?s2"
    using read_inv_put_channel [OF o(3,7), of ?ch] o(5) by (simp_all add: init_channel_def)
  obtain hl where hl: "tn_endpoint_convert_from (ce_sock env) = (TN_SUCCESS, hl)"
    using assms(5) by (cases "tn_endpoint_convert_from (ce_sock env)") (simp add: conn_accepts_def)
  have str: "tn_endpoint_get_string (ce_ip4_name env) (ce_ip6_name env) (ce_big_endian env) hl 64 = Some (TN_SUCCESS, loc)"
    "tn_endpoint_get_string (ce_ip4_name env) (ce_ip6_name env) (ce_big_endian env) (ch_endpoint ?ch) 64 = Some (TN_SUCCESS, rem)"
    using assms(5) hl by (simp_all add: conn_accepts_def)
  obtain s3 where s3: "conn_post ?h c env ?ch hl ?s2 =
      (if ce_read_start env \<noteq> 0 then connection_cleanup (Some ?h) True (Some c) s3 else Some s3)"
    "read_inv es s3" "read_side ?s2 s3" "sv_uv s3 = sv_uv ?s2" "ev_ready (sv_events s3) = ev_ready (sv_events ?s2) @ [e]"
    "sv_evts s3 ! e = open_event (ch_id ?ch) loc rem (sv_evts ?s2 ! e)" "sv_chans s3 = sv_chans ?s2"
    "ev_free (sv_events s3) = gs" "sv_pool_read s3 = sv_pool_read ?s2"
    by (rule conn_post_event [OF s2(1), of ?h c e gs env hl loc ?ch rem]) (use o(6,7) assms(4) str in simp_all)
  have "on_connection_cb 0 env s = conn_channel ?h c env s1"
    using on_connection_channel [OF _ _ _ _ o(1), of 0 env] assms(5) o(2) by (simp add: conn_accepts_def)
  also have "\<dots> = conn_post ?h c env ?ch hl ?s2"
    using assms(5) hl c by (simp add: conn_channel_def conn_accepts_def get_channel_eq set_channel_eq put_channel_def Let_def)
  also have "\<dots> = Some s3" using s3(1) assms(5) by (simp add: conn_accepts_def)
  finally show thesis
    using s3 o(2,6,8,9) c id read_side_trans [OF o(4) read_side_trans [OF s2(2) s3(3)]]
    by (intro that [of s3]) (simp_all add: init_channel_def)
qed

section \<open>Acquiring and releasing events\<close>

text \<open>
  \<open>held\<close> are the events the application has acquired and not yet released; None when it has
  released them.
\<close>

definition in_hand :: "nat list option \<Rightarrow> nat list" where
  "in_hand held = (case held of None \<Rightarrow> [] | Some es \<Rightarrow> es)"

definition upd_inv :: "nat list option \<Rightarrow> tcp_service \<Rightarrow> bool" where
  "upd_inv held s \<longleftrightarrow> req_total s = 40000 \<and> length (sv_event_updates s) = req_total s \<and>
     (case held of None \<Rightarrow> True
      | Some es \<Rightarrow> unat (sv_event_updates_count s) \<le> length (sv_event_updates s) \<and>
          es = take (unat (sv_event_updates_count s)) (sv_event_updates s))"

lemma in_hand_simps [simp]: "in_hand None = []" "in_hand (Some es) = es"
  by (simp_all add: in_hand_def)

lemma event_bufs_mset: "mset (event_bufs evts xs) = (\<Sum>e\<in>#mset xs. mset (event_buf (evts ! e)))"
  by (induction xs) simp_all

lemma acquire_ok:
  assumes "read_inv [] s" and "upd_inv None s"
  obtains rc n es s' where "tcp_service_events_acquire s = Some (rc, n, s')" "read_inv es s'" "upd_inv (Some es) s'"
    "req_inv hs s' = req_inv hs s" "es = take (req_total s) (ev_ready (sv_events s))" "unat n = length es"
    "ev_ready (sv_events s') = drop (req_total s) (ev_ready (sv_events s))"
    "rc = TN_SUCCESS \<longleftrightarrow> es \<noteq> []" "sv_evts s' = sv_evts s" "uv_inflight (sv_uv s') = uv_inflight (sv_uv s)"
    "sv_uv s' = sv_uv s"
proof -
  note D = read_invD [OF assms(1)]
  have "0 < req_total s" and n2: "req_total s \<le> length (sv_event_updates s)" using assms(2) by (simp_all add: upd_inv_def)
  then have n: "0 < sv_buffer_count s" "req_total s \<le> length (sv_event_updates s)"
    by (simp_all only: word_gt_0 unat_gt_0)
  let ?s0 = "s\<lparr>sv_event_updates_count := 0\<rparr>"
  show thesis
  proof (cases "ev_ready (sv_events s)")
    case Nil
    have "tcp_service_events_acquire s = Some (TN_ERROR, 0, ?s0)"
      using ready_pop_all_empty [OF n(1) Nil] by (simp add: tcp_service_events_acquire_def)
    moreover have "read_inv [] ?s0" using assms(1) by (simp add: read_inv_def ev_busy_def handles_inv_def)
    moreover have "upd_inv (Some []) ?s0" using assms(2) by (simp add: upd_inv_def)
    ultimately show thesis using Nil by (intro that [of TN_ERROR 0 ?s0 "[]"]) simp_all
  next
    case (Cons e r)
    then have ne: "ev_ready (sv_events s) \<noteq> []" by simp
    let ?m = "min (req_total s) (length (ev_ready (sv_events s)))"
    let ?es = "take ?m (ev_ready (sv_events s))"
    obtain l where l: "tn_event_list_ready_pop_all (sv_events s) (sv_event_updates s) (sv_buffer_count s) =
          Some (TN_SUCCESS, ?es @ drop ?m (sv_event_updates s), of_nat ?m, l)" "event_inv l"
        "ev_ready l = drop ?m (ev_ready (sv_events s))" "ev_free l = ev_free (sv_events s)"
        "el_tn_events l = sv_evts s" "el_capacity l = el_capacity (sv_events s)"
      by (rule ready_pop_all_ok [OF D(1) ne n])
    have m: "unat (of_nat ?m :: u64) = ?m" by (rule unat_of_nat64) (use unat_lt64 [of "sv_buffer_count s"] in simp)
    let ?s = "s\<lparr>sv_event_updates_count := of_nat ?m, sv_events := l, sv_event_updates := ?es @ drop ?m (sv_event_updates s)\<rparr>"
    have e: "tcp_service_events_acquire s = Some (TN_SUCCESS, of_nat ?m, ?s)"
      using l(1) by (simp add: tcp_service_events_acquire_def)
    have split: "mset (drop ?m (ev_ready (sv_events s))) + mset ?es = mset (ev_ready (sv_events s))"
      by (metis append_take_drop_id mset_append add.commute)
    have busy: "mset (ev_busy ?es ?s) = mset (ev_busy [] s)" using l(3) split by (simp add: ev_busy_def)
    have "set (ev_busy ?es ?s) = set (ev_busy [] s)" using busy by (metis set_mset_mset)
    then have d3: "ev_tn_buffer (sv_evts ?s ! x) \<noteq> None"
      if "x \<in> set (ev_busy ?es ?s)" "ev_type (sv_evts ?s ! x) = TN_EVENT_CLIENT_READ" for x
      using that l(5) D(3) [of x] by simp
    have bufs: "mset (event_bufs (sv_evts s) (ev_busy ?es ?s)) = mset (event_bufs (sv_evts s) (ev_busy [] s))"
      unfolding event_bufs_mset busy ..
    have "read_inv ?es ?s"
    proof (rule read_invI [OF assms(1)])
      show "handles_inv ?s" by (rule handles_inv_same [OF D(7)]) simp_all
    qed (use l busy bufs d3 D(4) in simp_all)
    moreover have "upd_inv (Some ?es) ?s"
      using assms(2) m by (auto simp: upd_inv_def simp del: of_nat_min)
    moreover have "?es = take (req_total s) (ev_ready (sv_events s))"
      "drop ?m (ev_ready (sv_events s)) = drop (req_total s) (ev_ready (sv_events s))" by (simp_all add: min_def)
    ultimately show thesis using e l(3,5) ne n m
      by (intro that [of TN_SUCCESS "of_nat ?m" ?s ?es]) (simp_all add: min_def unat_gt_0 word_gt_0)
  qed
qed

text \<open>Releasing one event gives a read event's buffer back to the pool and the event to the free queue.\<close>

lemma release_event_ok:
  assumes "read_inv (e # es) s"
  obtains s' where "release_event e s = Some s'" "read_inv es s'" "read_side s s'" "sv_uv s' = sv_uv s"
    "ev_ready (sv_events s') = ev_ready (sv_events s)" "ev_free (sv_events s') = ev_free (sv_events s) @ [e]"
    "pool_free (sv_pool_read s') = pool_free (sv_pool_read s) @ event_buf (sv_evts s ! e)"
    "sv_evts s' = sv_evts s" "sv_channel_list s' = sv_channel_list s"
proof -
  note D = read_invD [OF assms] and result = that
  have busy: "e \<in> set (ev_busy (e # es) s)" by (simp add: ev_busy_def)
  have e: "e < ev_total (sv_events s)" "e \<notin> set (ev_free (sv_events s))" "e \<notin> set (ev_ready (sv_events s))"
    using conserved_disjoint(1,3,5) [OF D(2)] busy by (auto simp: ev_busy_def)
  have len: "e < length (sv_evts s)" using e(1) event_invD(1) [OF D(1)] by simp
  obtain l where l: "tn_event_list_free_push (sv_events s) e = Some (TN_SUCCESS, l)" "event_inv l"
      "ev_free l = ev_free (sv_events s) @ [e]" "ev_ready l = ev_ready (sv_events s)" "el_tn_events l = sv_evts s"
      "el_capacity l = el_capacity (sv_events s)"
    by (rule free_push_ok [OF D(1) e])
  have keep: thesis if p: "pool_inv 0 p" "pool_total p = pool_total (sv_pool_read s)"
      "pool_free p = pool_free (sv_pool_read s) @ event_buf (sv_evts s ! e)"
      "release_event e s = Some (s\<lparr>sv_pool_read := p, sv_events := l\<rparr>)" for p
  proof -
    let ?s = "s\<lparr>sv_pool_read := p, sv_events := l\<rparr>"
    have "read_inv es ?s"
    proof (rule read_invI [OF assms])
      show "handles_inv ?s" by (rule handles_inv_same [OF D(7)]) simp_all
      show "ev_tn_buffer (sv_evts ?s ! x) \<noteq> None"
        if "x \<in> set (ev_busy es ?s)" "ev_type (sv_evts ?s ! x) = TN_EVENT_CLIENT_READ" for x
        using that l(4,5) D(3) [of x] by (auto simp: ev_busy_def)
    qed (use l p in \<open>simp_all add: ev_busy_def\<close>)
    then show thesis using l p by (intro result [of ?s]) (simp_all add: read_side_def)
  qed
  show thesis
  proof (cases "ev_type (sv_evts s ! e) = TN_EVENT_CLIENT_READ")
    case False
    then have "release_event e s = Some (s\<lparr>sv_pool_read := sv_pool_read s, sv_events := l\<rparr>)"
      using len l(1) by (simp add: release_event_def)
    then show thesis using D(4) False by (intro keep [of "sv_pool_read s"]) (simp_all add: event_buf_def)
  next
    case True
    obtain b where b: "ev_tn_buffer (sv_evts s ! e) = Some b" using D(3) [OF busy True] by blast
    have eb: "event_buf (sv_evts s ! e) = [b]" using True b by (simp add: event_buf_def)
    have "b \<in> set (chan_bufs (sv_chans s) @ event_bufs (sv_evts s) (ev_busy (e # es) s))"
      using eb by (simp add: ev_busy_def)
    then have "b < pool_total (sv_pool_read s)" "b \<notin> set (pool_free (sv_pool_read s))"
      using conserved_disjoint(1,3) [OF D(6)] D(5) by simp_all
    then obtain p where p: "tn_buffer_pool_push (sv_pool_read s) b = Some (TN_SUCCESS, p)" "pool_inv 0 p"
        "pool_free p = pool_free (sv_pool_read s) @ [b]" "pool_total p = pool_total (sv_pool_read s)"
      using pool_push_ok [OF D(4)] by metis
    have "release_event e s = Some (s\<lparr>sv_pool_read := p, sv_events := l\<rparr>)"
      using len l(1) True b p(1) by (simp add: release_event_def)
    then show thesis using p eb by (intro keep [of p]) simp_all
  qed
qed

lemma release_loop_ok:
  assumes "read_inv es s"
  shows "\<exists>s'. release_loop es s = Some s' \<and> read_inv [] s' \<and> read_side s s' \<and> sv_uv s' = sv_uv s \<and>
    ev_free (sv_events s') = ev_free (sv_events s) @ es \<and>
    pool_free (sv_pool_read s') = pool_free (sv_pool_read s) @ event_bufs (sv_evts s) es"
  using assms
proof (induction es arbitrary: s)
  case Nil
  then show ?case by (simp add: read_side_def)
next
  case (Cons e es)
  obtain s1 where s1: "release_event e s = Some s1" "read_inv es s1" "read_side s s1" "sv_uv s1 = sv_uv s"
      "ev_free (sv_events s1) = ev_free (sv_events s) @ [e]"
      "pool_free (sv_pool_read s1) = pool_free (sv_pool_read s) @ event_buf (sv_evts s ! e)" "sv_evts s1 = sv_evts s"
    by (rule release_event_ok [OF Cons.prems])
  from Cons.IH [OF s1(2)] s1 show ?case by (auto intro: read_side_trans)
qed

lemma release_ok:
  assumes "read_inv es s" and "upd_inv (Some es) s"
  obtains s' where "tcp_service_events_release s = Some (TN_SUCCESS, s')" "read_inv [] s'" "upd_inv None s'"
    "read_side s s'" "sv_uv s' = sv_uv s" "ev_free (sv_events s') = ev_free (sv_events s) @ es"
    "pool_free (sv_pool_read s') = pool_free (sv_pool_read s) @ event_bufs (sv_evts s) es"
proof -
  have u: "unat (sv_event_updates_count s) \<le> length (sv_event_updates s)"
      "es = take (unat (sv_event_updates_count s)) (sv_event_updates s)"
    using assms(2) by (simp_all add: upd_inv_def)
  obtain s' where s': "release_loop es s = Some s'" "read_inv [] s'" "read_side s s'" "sv_uv s' = sv_uv s"
      "ev_free (sv_events s') = ev_free (sv_events s) @ es"
      "pool_free (sv_pool_read s') = pool_free (sv_pool_read s) @ event_bufs (sv_evts s) es"
    using release_loop_ok [OF assms(1)] by blast
  have "tcp_service_events_release s = Some (TN_SUCCESS, s')"
    using u s'(1) by (simp add: tcp_service_events_release_def)
  moreover have "upd_inv None s'" using assms(2) s'(3) by (simp add: upd_inv_def read_side_def)
  ultimately show thesis using s' that by blast
qed

end
