(* ===== verification/Tn_Service_Run.thy ===== *)
theory Tn_Service_Run
  imports Tn_Service_Sys
begin

text \<open>
  The service as one machine. Its steps are the calls of the application's thread and the callbacks
  of the IO thread; a step is allowed when libuv or the application's protocol allows it:
  a callback only for a handle or request that libuv has, no read after the handle was closed,
  events released only after they were acquired. The invariant holds after setup and after every
  allowed step, and every allowed step runs to its end.
\<close>

section \<open>The steps\<close>

text \<open>
  What the kernel has for a readable handle: an error or end of file as a number that is not
  positive, or bytes. libuv asks for a buffer first; without one it reports \<open>UV_ENOBUFS\<close>, with one
  it stores as many bytes as fit and reports their number.
\<close>

datatype uv_input = UvFail int | UvData "u8 list"

definition UV_ENOBUFS :: int where "UV_ENOBUFS = -105"

definition uv_read_handle :: "nat \<Rightarrow> uv_input \<Rightarrow> tcp_service \<Rightarrow> tcp_service option" where
  "uv_read_handle h inp s = do {
     ((base, len), s) \<leftarrow> on_recv_alloc_cb h s;
     if len = 0 then on_recv_cb h UV_ENOBUFS True s
     else (case inp of UvFail n \<Rightarrow> on_recv_cb h n True s
       | UvData bytes \<Rightarrow> (let got = take (unat len) bytes in
           on_recv_cb h (int (length got)) True (s\<lparr>sv_mem := mem_write (sv_mem s) base got\<rparr>)))
   }"

datatype svc_op =
  OpSend nat "u8 list" | OpAcquire | OpRelease
| OpPrep "nat \<Rightarrow> int" | OpSendDone nat int | OpRead nat uv_input | OpCloseChannel nat | OpCloseHandle nat
| OpConnect int conn_env

type_synonym svc_sys = "tcp_service \<times> nat list option"

definition uv_take_request :: "nat \<Rightarrow> tcp_service \<Rightarrow> tcp_service" where
  "uv_take_request r s = s\<lparr>sv_uv := (sv_uv s)\<lparr>uv_inflight := remove1 r (uv_inflight (sv_uv s))\<rparr>\<rparr>"

fun svc_exec :: "svc_op \<Rightarrow> svc_sys \<Rightarrow> svc_sys option" where
  "svc_exec (OpSend c data) (s, held) =
     do { (rc, s) \<leftarrow> tcp_service_send c data (of_nat (length data)) s; Some (s, held) }"
| "svc_exec OpAcquire (s, held) =
     do { (rc, n, s) \<leftarrow> tcp_service_events_acquire s; Some (s, Some (take (unat n) (sv_event_updates s))) }"
| "svc_exec OpRelease (s, held) = do { (rc, s) \<leftarrow> tcp_service_events_release s; Some (s, None) }"
| "svc_exec (OpPrep uvw) (s, held) = do { s \<leftarrow> on_prep_cb uvw s; Some (s, held) }"
| "svc_exec (OpSendDone r status) (s, held) = do { s \<leftarrow> on_send_cb r status (uv_take_request r s); Some (s, held) }"
| "svc_exec (OpRead h inp) (s, held) = do { s \<leftarrow> uv_read_handle h inp s; Some (s, held) }"
| "svc_exec (OpCloseChannel h) (s, held) = do { s \<leftarrow> on_close_channel_cb h s; Some (s, held) }"
| "svc_exec (OpCloseHandle h) (s, held) = Some (on_close_handle_cb h s, held)"
| "svc_exec (OpConnect status env) (s, held) = do { s \<leftarrow> on_connection_cb status env s; Some (s, held) }"

fun svc_allowed :: "svc_op \<Rightarrow> svc_sys \<Rightarrow> bool" where
  "svc_allowed (OpSend c data) (s, held) \<longleftrightarrow> c < chan_total (sv_channel_list s) \<and> data \<noteq> [] \<and> length data < 2 ^ 64"
| "svc_allowed OpAcquire (s, held) \<longleftrightarrow> held = None"
| "svc_allowed OpRelease (s, held) \<longleftrightarrow> held \<noteq> None"
| "svc_allowed (OpPrep uvw) (s, held) \<longleftrightarrow> True"
| "svc_allowed (OpSendDone r status) (s, held) \<longleftrightarrow> r \<in> set (uv_inflight (sv_uv s))"
| "svc_allowed (OpRead h inp) (s, held) \<longleftrightarrow> uv_data (sv_uv s) h \<noteq> None \<and> \<not> uv_closing (sv_uv s) h \<and>
     (case inp of UvFail n \<Rightarrow> n \<le> 0 | UvData _ \<Rightarrow> True)"
| "svc_allowed (OpCloseChannel h) (s, held) \<longleftrightarrow> uv_data (sv_uv s) h \<noteq> None \<and> uv_closing (sv_uv s) h"
| "svc_allowed (OpCloseHandle h) (s, held) \<longleftrightarrow> uv_data (sv_uv s) h = None \<and> uv_closing (sv_uv s) h"
| "svc_allowed (OpConnect status env) (s, held) \<longleftrightarrow> names_fit env \<and> fresh_handle (ce_handle env) s"

section \<open>The invariant\<close>

definition svc_inv :: "svc_sys \<Rightarrow> bool" where
  "svc_inv st \<longleftrightarrow> (case st of (s, held) \<Rightarrow>
     req_inv [] s \<and> read_inv (in_hand held) s \<and> upd_inv held s)"

lemma svc_inv_pair: "svc_inv (s, held) \<longleftrightarrow> req_inv [] s \<and> read_inv (in_hand held) s \<and> upd_inv held s"
  by (simp add: svc_inv_def)

lemma svc_inv_read_side:
  assumes "svc_inv (s, held)" and "read_inv (in_hand held) s'" and "read_side s s'"
  shows "svc_inv (s', held)"
  using assms req_inv_read_side [OF assms(3), of "[]"]
  by (auto simp: svc_inv_pair upd_inv_def read_side_def split: option.splits)

lemma svc_inv_write_side:
  assumes "svc_inv (s, held)" and "req_inv [] s'" and "write_side s s'"
  shows "svc_inv (s', held)"
  using assms read_inv_write_side [OF assms(3), of "in_hand held"]
  by (auto simp: svc_inv_pair upd_inv_def write_side_def split: option.splits)

lemma send_any_ok:
  assumes "req_inv hs s" and "c < chan_total (sv_channel_list s)" and "data \<noteq> []" and "length data < 2 ^ 64"
  shows "\<exists>rc s'. tcp_service_send c data (of_nat (length data)) s = Some (rc, s') \<and> req_inv hs s' \<and> write_side s s' \<and>
    (rc = TN_SUCCESS \<longleftrightarrow> req_free s \<noteq> [] \<and> length data \<le> unat (bp_block_size (sv_pool_write s)))"
proof -
  have n: "unat (of_nat (length data) :: u64) = length data" using assms(4) by (rule unat_of_nat64)
  then have n0: "of_nat (length data) \<noteq> (0 :: u64)" using assms(3) by (metis length_0_conv unat_0)
  show ?thesis
  proof (cases "req_free s")
    case Nil
    then show ?thesis using send_noreq [OF Nil n0, of c data] assms(1) by (simp add: write_side_def)
  next
    case (Cons r rs)
    show ?thesis
    proof (cases "length data \<le> unat (bp_block_size (sv_pool_write s))")
      case True
      show ?thesis
        by (rule send_ok [OF assms(1) Cons n0, of data c]) (use True n assms(2) Cons in \<open>auto simp: write_side_def\<close>)
    next
      case False
      then show ?thesis using send_too_long [OF assms(1) Cons n0, of c data] n
        by (auto simp: write_side_def)
    qed
  qed
qed

lemma uv_read_ok:
  assumes "read_inv es s" and "uv_data (sv_uv s) h = Some c" and "\<And>n. inp = UvFail n \<Longrightarrow> n \<le> 0"
  shows "\<exists>s'. uv_read_handle h inp s = Some s' \<and> read_inv es s' \<and> read_side s s'"
proof -
  obtain base len s1 where s1: "on_recv_alloc_cb h s = Some ((base, len), s1)" "read_inv es s1" "read_side s s1"
      "sv_uv s1 = sv_uv s" "ch_read_buffer (sv_chans s1 ! c) = None \<Longrightarrow> len = 0"
    using recv_alloc_ok [OF assms(1,2)] by (auto split: option.splits)
  have u1: "uv_data (sv_uv s1) h = Some c" using s1(4) assms(2) by simp
  let ?m = "\<lambda>bytes. s1\<lparr>sv_mem := mem_write (sv_mem s1) base (take (unat len) bytes)\<rparr>"
  have m: "read_inv es (?m bytes)" "read_side s1 (?m bytes)" "uv_data (sv_uv (?m bytes)) h = Some c" for bytes
    using s1(2) u1 by (simp_all add: read_side_def)
  have buf: "ch_read_buffer (sv_chans s1 ! c) \<noteq> None" if "len \<noteq> 0" using s1(5) that by blast
  consider "len = 0" | n where "len \<noteq> 0" "inp = UvFail n" | bytes where "len \<noteq> 0" "inp = UvData bytes"
    by (cases inp) auto
  then show ?thesis
  proof cases
    case 1
    then show ?thesis using s1(1) on_recv_ok [OF s1(2) u1, of UV_ENOBUFS True] read_side_trans [OF s1(3)]
      by (auto simp: uv_read_handle_def UV_ENOBUFS_def)
  next
    case 2
    then show ?thesis using s1(1) on_recv_ok [OF s1(2) u1, of n True] buf read_side_trans [OF s1(3)]
      by (auto simp: uv_read_handle_def)
  next
    case 3
    let ?n = "int (length (take (unat len) bytes))"
    show ?thesis
      using 3 s1(1) on_recv_ok [OF m(1) m(3) [of bytes], of ?n True] buf read_side_trans [OF s1(3)]
        read_side_trans [OF m(2) [of bytes]]
      by (auto simp: uv_read_handle_def Let_def)
  qed
qed

lemma send_done_ok:
  assumes "req_inv [] s" and "r \<in> set (uv_inflight (sv_uv s))"
  shows "\<exists>s'. on_send_cb r status (uv_take_request r s) = Some s' \<and> req_inv [] s' \<and> write_side s s'"
proof -
  obtain as bs where ab: "uv_inflight (sv_uv s) = as @ r # bs" "r \<notin> set as" using split_list_first [OF assms(2)] by blast
  then have "remove1 r (uv_inflight (sv_uv s)) = as @ bs" by (simp add: remove1_append)
  then show ?thesis using send_cb_ok [OF assms(1) ab(1), of status] by (auto simp: uv_take_request_def)
qed

lemma close_channel_any_ok:
  assumes "read_inv es s" and "uv_data (sv_uv s) h = Some c"
  shows "\<exists>s'. on_close_channel_cb h s = Some s' \<and> read_inv es s' \<and> read_side s s'"
proof (cases "ev_free (sv_events s)")
  case Nil
  show ?thesis by (rule close_channel_no_event [OF assms Nil]) blast
next
  case (Cons e fs)
  show ?thesis by (rule close_channel_ok [OF assms Cons]) blast
qed

lemma svc_step_acquire:
  assumes "svc_inv (s, None)"
  shows "\<exists>st'. svc_exec OpAcquire (s, None) = Some st' \<and> svc_inv st'"
proof -
  have r: "read_inv [] s" "upd_inv None s" "req_inv [] s" using assms by (simp_all add: svc_inv_pair)
  obtain rc n es s' where a: "tcp_service_events_acquire s = Some (rc, n, s')" "read_inv es s'" "upd_inv (Some es) s'"
      "req_inv [] s' = req_inv [] s" "unat n = length es"
    by (rule acquire_ok [OF r(1,2), of "[]"])
  have "es = take (unat (sv_event_updates_count s')) (sv_event_updates s')" using a(3) by (simp add: upd_inv_def)
  then have "take (unat n) (sv_event_updates s') = es"
    using a(5) by (metis length_take min.commute take_take take_all_iff order_refl)
  then show ?thesis using a r(3) by (simp add: svc_inv_pair)
qed

lemma svc_step_release:
  assumes "svc_inv (s, Some es)"
  shows "\<exists>st'. svc_exec OpRelease (s, Some es) = Some st' \<and> svc_inv st'"
proof -
  have r: "read_inv es s" "upd_inv (Some es) s" "req_inv [] s" using assms by (simp_all add: svc_inv_pair)
  obtain s' where s': "tcp_service_events_release s = Some (TN_SUCCESS, s')" "read_inv [] s'" "upd_inv None s'"
      "read_side s s'" by (rule release_ok [OF r(1,2)])
  then show ?thesis using r(3) req_inv_read_side [OF s'(4), of "[]"] by (simp add: svc_inv_pair)
qed

lemma close_handle_ok:
  assumes "read_inv es s" and "uv_data (sv_uv s) h = None"
  shows "read_inv es (on_close_handle_cb h s)" and "read_side s (on_close_handle_cb h s)"
proof -
  have "(uv_data (sv_uv s))(h := None) = uv_data (sv_uv s)" using assms(2) by auto
  then show "read_inv es (on_close_handle_cb h s)" "read_side s (on_close_handle_cb h s)" using assms(1)
    by (simp_all add: on_close_handle_cb_def free_handle_def read_inv_def ev_busy_def handles_inv_def read_side_def)
qed

interpretation svc: guarded_machine svc_exec svc_allowed svc_inv
proof (unfold_locales, goal_cases)
  case (1 st op)
  obtain s held where st: "st = (s, held)" by fastforce
  have inv: "svc_inv (s, held)" using 1(1) st by simp
  then have I: "req_inv [] s" "read_inv (in_hand held) s" by (simp_all add: svc_inv_pair)
  have rd: ?case if "\<exists>s'. m = Some s' \<and> read_inv (in_hand held) s' \<and> read_side s s'"
      "svc_exec op st = do { s \<leftarrow> m; Some (s, held) }" for m
    using that svc_inv_read_side [OF inv] by auto
  have wr: ?case if "\<exists>s'. m = Some s' \<and> req_inv [] s' \<and> write_side s s'"
      "svc_exec op st = do { s \<leftarrow> m; Some (s, held) }" for m
    using that svc_inv_write_side [OF inv] by auto
  note ok = 1(2) [unfolded st]
  show ?case
  proof (cases op)
    case (OpSend c data)
    then have "c < chan_total (sv_channel_list s)" "data \<noteq> []" "length data < 2 ^ 64" using ok by simp_all
    from send_any_ok [OF I(1) this] show ?thesis using svc_inv_write_side [OF inv] OpSend st by auto
  next
    case OpAcquire
    then show ?thesis using ok inv st svc_step_acquire by simp
  next
    case OpRelease
    then show ?thesis using ok inv st svc_step_release by auto
  next
    case (OpPrep uvw)
    have "\<exists>s'. on_prep_cb uvw s = Some s' \<and> req_inv [] s' \<and> write_side s s'"
      using prep_loop_ok [OF I(1) handles_invD(1) [OF read_invD(7) [OF I(2)]] lessI, of uvw]
      by (auto simp: on_prep_cb_def)
    then show ?thesis by (rule wr) (simp add: OpPrep st)
  next
    case (OpSendDone r status)
    then have "r \<in> set (uv_inflight (sv_uv s))" using ok by simp
    from send_done_ok [OF I(1) this, of status] show ?thesis by (rule wr) (simp add: OpSendDone st)
  next
    case (OpRead h inp)
    then obtain c where c: "uv_data (sv_uv s) h = Some c" using ok by auto
    have "\<exists>s'. uv_read_handle h inp s = Some s' \<and> read_inv (in_hand held) s' \<and> read_side s s'"
      by (rule uv_read_ok [OF I(2) c]) (use ok OpRead in simp)
    then show ?thesis by (rule rd) (simp add: OpRead st)
  next
    case (OpCloseChannel h)
    then obtain c where "uv_data (sv_uv s) h = Some c" using ok by auto
    from close_channel_any_ok [OF I(2) this] show ?thesis by (rule rd) (simp add: OpCloseChannel st)
  next
    case (OpCloseHandle h)
    then show ?thesis using ok close_handle_ok [OF I(2), of h] svc_inv_read_side [OF inv] st by simp
  next
    case (OpConnect status env)
    then have "names_fit env" "fresh_handle (ce_handle env) s" using ok by simp_all
    from on_connection_ok [OF I(2) this] show ?thesis by (rule rd) (simp add: OpConnect st)
  qed
qed

section \<open>Setting up\<close>

definition req_fill_inv :: "nat \<Rightarrow> tcp_service \<Rightarrow> bool" where
  "req_fill_inv k s \<longleftrightarrow> length (sv_write_reqs s) = req_total s \<and> length (sv_event_updates s) = req_total s \<and>
     q_inv (sv_write_reqs_free s) \<and> req_total s \<le> q_cap (sv_write_reqs_free s) \<and> req_free s = [0..<k]"

definition same_but_reqs :: "tcp_service \<Rightarrow> tcp_service \<Rightarrow> bool" where
  "same_but_reqs s s' \<longleftrightarrow> (\<exists>reqs q updates.
     s' = s\<lparr>sv_write_reqs := reqs, sv_write_reqs_free := q, sv_event_updates := updates\<rparr>)"

lemma req_setup_ok:
  assumes "req_fill_inv k s" and "k + n = req_total s"
  shows "\<exists>s'. req_setup_loop n k s = Some (TN_SUCCESS, s') \<and> req_fill_inv (k + n) s' \<and> same_but_reqs s s'"
  using assms
proof (induction n arbitrary: k s)
  case 0
  have "s = s\<lparr>sv_write_reqs := sv_write_reqs s, sv_write_reqs_free := sv_write_reqs_free s, sv_event_updates := sv_event_updates s\<rparr>"
    by simp
  then have "same_but_reqs s s" unfolding same_but_reqs_def by blast
  then show ?case using 0 by simp
next
  case (Suc n)
  have k: "k < req_total s" using Suc.prems(2) by simp
  then have room: "length (req_free s) < q_cap (sv_write_reqs_free s)" and qi: "q_inv (sv_write_reqs_free s)"
    using Suc.prems(1) by (simp_all add: req_fill_inv_def del: length_q_elems)
  obtain q where q: "tn_queue_spsc_push (sv_write_reqs_free s) k = Some (TN_SUCCESS, q)" "q_inv q"
      "q_elems q = req_free s @ [k]" "q_cap q = q_cap (sv_write_reqs_free s)"
    by (rule q_push_ok [OF qi room, of k])
  let ?s = "s\<lparr>sv_write_reqs := (sv_write_reqs s)[k := (sv_write_reqs s ! k)\<lparr>wr_id := of_nat k, wr_buffer := None\<rparr>],
    sv_write_reqs_free := q, sv_event_updates := (sv_event_updates s)[k := 0]\<rparr>"
  have inv: "req_fill_inv (Suc k) ?s"
    using Suc.prems(1) q by (simp add: req_fill_inv_def del: length_q_elems)
  have step: "req_setup_loop (Suc n) k s = req_setup_loop n (Suc k) ?s"
    using k q(1) Suc.prems(1) by (simp add: req_fill_inv_def)
  obtain s' where s': "req_setup_loop n (Suc k) ?s = Some (TN_SUCCESS, s')" "req_fill_inv (Suc k + n) s'" "same_but_reqs ?s s'"
    using Suc.IH [OF inv] Suc.prems(2) by auto
  have "same_but_reqs s s'" using s'(3) unfolding same_but_reqs_def by auto
  then show ?case using step s'(1,2) by simp
qed

text \<open>Every allocation succeeds, and the two blocks of memory lie below the end of the address space.\<close>

definition alloc_ok :: "svc_alloc \<Rightarrow> bool" where
  "alloc_ok a \<longleftrightarrow> sa_priv a \<and> sa_chan_map a \<and> sa_chan_free a \<and> sa_read_bufs a \<and> sa_read_queue a \<and>
     sa_write_bufs a \<and> sa_write_queue a \<and> sa_ev_free a \<and> sa_ev_ready a \<and> sa_events a \<and> sa_updates a \<and>
     sa_reqs a \<and> sa_reqs_free a \<and> sa_reqs_ready a \<and> setup_pre (sa_read_blocks a) 40000 65535 \<and>
     setup_pre (sa_write_blocks a) 40000 65535"

lemma service_consts: "TN_SERVICE_MAX_CLIENTS = 10000" "TN_SERVICE_MAX_CLIENTS * 4 = 40000" "TN_SERVICE_MAX_READ = 65535"
  by (simp_all add: TN_SERVICE_MAX_CLIENTS_def TN_SERVICE_MAX_READ_def)

text \<open>Everything is free in a service that has just been set up.\<close>

definition svc_idle :: "tcp_service \<Rightarrow> bool" where
  "svc_idle s \<longleftrightarrow> req_free s = [0..<40000] \<and> pool_free (sv_pool_write s) = [0..<40000] \<and>
     pool_free (sv_pool_read s) = [0..<40000] \<and> ev_free (sv_events s) = [0..<ev_total (sv_events s)] \<and>
     chan_free (sv_channel_list s) = [0..<10000] \<and> (\<forall>h. uv_data (sv_uv s) h = None) \<and> uv_inflight (sv_uv s) = [] \<and>
     req_ready s = [] \<and> ev_ready (sv_events s) = []"

lemma no_chan_bufs: "\<forall>ch \<in> set chans. ch_read_buffer ch = None \<Longrightarrow> chan_bufs chans = []"
  by (auto simp: chan_bufs_def)

lemma conserved_all_free: "conserved n [] [0..<n]"
  by (auto simp: conserved_def)

lemma service_setup_ok:
  assumes "alloc_ok a"
  obtains s where "tcp_service_setup a s0 = Some (TN_SUCCESS, s)" "svc_inv (s, None)" "svc_idle s"
    "sv_state s = TCP_SERVICE_NEW" "bp_block_size (sv_pool_write s) = 65535" "sv_buffer_count s = 40000"
    "chan_total (sv_channel_list s) = 10000" "\<forall>h. \<not> uv_closing (sv_uv s) h"
    "bp_block_size (sv_pool_read s) = 65535" "40000 \<le> ev_total (sv_events s)"
proof -
  have A: "sa_priv a" "sa_chan_map a" "sa_chan_free a" "sa_read_bufs a" "sa_read_queue a" "sa_write_bufs a"
      "sa_write_queue a" "sa_ev_free a" "sa_ev_ready a" "sa_events a" "sa_updates a" "sa_reqs a" "sa_reqs_free a"
      "sa_reqs_ready a" and pre: "setup_pre (sa_read_blocks a) 40000 65535" "setup_pre (sa_write_blocks a) 40000 65535"
    using assms unfolding alloc_ok_def by blast+
  obtain cl where cl: "tcp_channel_list_setup True True (sa_junk_ptr a) 10000 = Some (TN_SUCCESS, cl)" "chan_inv cl"
      "chan_free cl = [0..<10000]" "cl_clients_max cl = 10000"
    using channel_list_setup_ok [of 10000 "sa_junk_ptr a"] by auto
  have nb: "\<forall>ch \<in> set (cl_client_map cl). ch_read_buffer ch = None" by (rule channel_list_setup_no_buffers [OF cl(1)])
  obtain pr where pr: "tn_buffer_pool_setup 0 (sa_read_blocks a) True (sa_junk_buf a) True (sa_junk_ptr a) pool_zero 40000 65535 =
        Some (TN_SUCCESS, pr)" "pool_inv 0 pr" "pool_free pr = [0..<40000]" "pool_total pr = 40000"
        "bp_block_size pr = 65535"
    by (rule pool_setup_ok [OF pre(1)]) simp
  obtain pw where pw: "tn_buffer_pool_setup 1 (sa_write_blocks a) True (sa_junk_buf a) True (sa_junk_ptr a) pool_zero 40000 65535 =
        Some (TN_SUCCESS, pw)" "pool_inv 1 pw" "pool_free pw = [0..<40000]" "pool_total pw = 40000"
        "bp_block_size pw = 65535"
    by (rule pool_setup_ok [OF pre(2)]) simp
  obtain ev where ev: "tn_event_list_setup True (sa_junk_ptr a) True (sa_junk_ptr a) True (sa_junk_event a) events_zero 40000 =
        Some (TN_SUCCESS, ev)" "event_inv ev" "ev_free ev = [0..<ev_total ev]" "ev_ready ev = []"
        "40000 \<le> ev_total ev"
    using event_list_setup_ok [of 40000 "sa_junk_ptr a" "sa_junk_ptr a" "sa_junk_event a" events_zero] by auto
  have c: "0 < (40000 :: u64)" "unat (40000 :: u64) \<le> 2 ^ 60" by simp_all
  obtain qf where qf: "tn_queue_spsc_setup True (sa_junk_ptr a) queue_zero 40000 = Some (TN_SUCCESS, qf)" "q_inv qf"
      "q_elems qf = []" "unat (40000 :: u64) \<le> q_cap qf" by (rule q_setup_ok [OF c])
  let ?s = "(service_zero s0)\<lparr>sv_priv := PTR_VALID, sv_channel_list := cl, sv_buffer_count := 40000, sv_pool_read := pr,
    sv_pool_write := pw, sv_events := ev, sv_event_updates := map (sa_junk_ptr a) [0..<40000],
    sv_write_reqs := map (sa_junk_req a) [0..<40000], sv_write_reqs_free := qf, sv_write_reqs_ready := qf\<rparr>"
  have "req_fill_inv 0 ?s" using qf by (simp add: req_fill_inv_def del: length_q_elems)
  then obtain s where s: "req_setup_loop 40000 0 ?s = Some (TN_SUCCESS, s)" "req_fill_inv 40000 s" "same_but_reqs ?s s"
    using req_setup_ok [of 0 ?s 40000] by auto
  have e: "tcp_service_setup a s0 = Some (TN_SUCCESS, s)"
    using A cl(1) pr(1) pw(1) ev(1) qf(1) s(1)
    by (simp add: tcp_service_setup_def service_consts service_zero_def Let_def)
  obtain reqs q updates where s': "s = ?s\<lparr>sv_write_reqs := reqs, sv_write_reqs_free := q, sv_event_updates := updates\<rparr>"
    using s(3) unfolding same_but_reqs_def by blast
  have hi: "handles_inv s" using cl nb chan_invD(1) [OF cl(2)] by (simp add: s' handles_inv_def service_zero_def)
  have rd: "read_inv [] s"
    using pr ev hi no_chan_bufs [OF nb] conserved_all_free
    by (simp add: s' read_inv_def ev_busy_def service_zero_def del: length_q_elems)
  have rq: "req_inv [] s"
    using s(2) pw qf conserved_all_free
    by (simp add: s' req_inv_def req_busy_def service_zero_def req_fill_inv_def del: length_q_elems)
  have "svc_inv (s, None)" using rd rq s(2) by (simp add: svc_inv_pair upd_inv_def req_fill_inv_def s' del: length_q_elems)
  then show thesis using e s(2) cl pr pw ev qf
    by (intro that [of s]) (simp_all add: s' svc_idle_def req_fill_inv_def service_zero_def del: length_q_elems)
qed

end
