(* ===== verification/Tn_Service_Props.thy ===== *)
theory Tn_Service_Props
  imports Tn_Service_Run
begin

text \<open>The properties of the service, and a concrete set of allocation results for their witnesses.\<close>

definition alloc_sample :: svc_alloc where
  "alloc_sample = \<lparr>sa_priv = True, sa_chan_map = True, sa_chan_free = True, sa_read_blocks = 0x100000,
     sa_read_bufs = True, sa_read_queue = True, sa_write_blocks = 0x200000000, sa_write_bufs = True, sa_write_queue = True,
     sa_ev_free = True, sa_ev_ready = True, sa_events = True, sa_updates = True, sa_reqs = True, sa_reqs_free = True,
     sa_reqs_ready = True,
     sa_junk_buf = (\<lambda>_. \<lparr>tb_pool = None, tb_buf = \<lparr>bb_len = 0, bb_buffer = 0, bb_capacity = 0, bb_allocator = 0\<rparr>,
       tb_pos = \<lparr>cur_len = 0, cur_ptr = 0\<rparr>, tb_capacity = 0\<rparr>),
     sa_junk_event = (\<lambda>_. \<lparr>ev_id = 0, ev_type = 0, ev_client_id = 0, ev_tn_buffer = None, ev_error_code = 0,
       ev_host_local = [], ev_host_remote = [], ev_buffer = 0, ev_len = 0\<rparr>),
     sa_junk_req = (\<lambda>_. \<lparr>wr_uv_base = 0, wr_uv_len = 0, wr_channel = 0, wr_buffer = None, wr_id = 0\<rparr>),
     sa_junk_ptr = (\<lambda>_. 0)\<rparr>"

lemma alloc_sample_ok: "alloc_ok alloc_sample"
  by (simp add: alloc_ok_def alloc_sample_def setup_pre_def word_less_nat_alt unat_SIZE_HALF)

definition svc_blank :: tcp_service where
  "svc_blank = \<lparr>sv_priv = PTR_NULL, sv_host_listen = endpoint_zero, sv_channel_list = list_zero,
     sv_pool_read = pool_zero, sv_pool_write = pool_zero, sv_events = events_zero, sv_event_updates = [],
     sv_event_updates_count = 0, sv_buffer_count = 0, sv_write_reqs = [], sv_write_reqs_free = queue_zero,
     sv_write_reqs_ready = queue_zero, sv_state = TCP_SERVICE_NEW,
     sv_uv = \<lparr>uv_data = (\<lambda>_. None), uv_closing = (\<lambda>_. False), uv_inflight = []\<rparr>, sv_mem = (\<lambda>_. 0),
     g_send_msgs = 0, g_send_bytes = 0, g_recv_msgs = 0, g_recv_bytes = 0\<rparr>"

lemma sample_service:
  obtains s where "tcp_service_setup alloc_sample svc_blank = Some (TN_SUCCESS, s)" "svc_inv (s, None)" "svc_idle s"
    "bp_block_size (sv_pool_write s) = 65535" "chan_total (sv_channel_list s) = 10000" "\<forall>h. \<not> uv_closing (sv_uv s) h"
    "bp_block_size (sv_pool_read s) = 65535" "40000 \<le> ev_total (sv_events s)"
  by (rule service_setup_ok [OF alloc_sample_ok, of svc_blank])

text \<open>A connection from and to IPv4 addresses that libuv accepts without an error.\<close>

definition conn_sample :: "nat \<Rightarrow> conn_env" where
  "conn_sample h = \<lparr>ce_alloc = True, ce_handle = h, ce_tcp_init = 0, ce_accept = 0, ce_getpeername = 0,
     ce_peer = \<lparr>sa_family = AF_INET, sa_port = 80, sa_rest = []\<rparr>, ce_getsockname = 0,
     ce_sock = \<lparr>sa_family = AF_INET, sa_port = 80, sa_rest = []\<rparr>, ce_read_start = 0, ce_big_endian = True,
     ce_ip4_name = (\<lambda>_. ''10.0.0.1''), ce_ip6_name = (\<lambda>_. ''::1'')\<rparr>"

lemma conn_sample_handle [simp]: "ce_handle (conn_sample h) = h"
  by (simp add: conn_sample_def)

lemma conn_sample_fits: "names_fit (conn_sample h)"
  by (simp add: names_fit_def conn_sample_def)

lemma conn_sample_accepts: "\<exists>ep loc rem. conn_accepts (conn_sample h) ep loc rem"
proof -
  obtain ep where ep: "tn_endpoint_convert_from \<lparr>sa_family = AF_INET, sa_port = 80, sa_rest = []\<rparr> = (TN_SUCCESS, ep)"
    by (simp add: tn_endpoint_convert_from_def Let_def AF_INET_def AF_INET6_def)
  have "sa_family (ep_sockaddr ep) \<in> {AF_INET, AF_INET6}" using convert_from_family ep by simp
  from get_string_fits [OF conn_sample_fits this, of h] ep show ?thesis
    by (fastforce simp: conn_accepts_def conn_sample_def)
qed

text \<open>The sample service before and after one client has connected, on handle 1 and channel 9999.\<close>

lemma sample_idle:
  obtains s where "tcp_service_setup alloc_sample svc_blank = Some (TN_SUCCESS, s)" "svc_inv (s, None)"
    "\<forall>h. fresh_handle h s" "\<exists>es. ev_free (sv_events s) = 0 # 1 # 2 # es"
    "chan_free (sv_channel_list s) = [0..<9999] @ [9999]" "pool_free (sv_pool_read s) = [0..<40000]"
    "bp_block_size (sv_pool_read s) = 65535" "req_free s \<noteq> []" "bp_block_size (sv_pool_write s) = 65535"
    "ev_ready (sv_events s) = []"
proof -
  obtain s where s: "tcp_service_setup alloc_sample svc_blank = Some (TN_SUCCESS, s)" "svc_inv (s, None)" "svc_idle s"
      "\<forall>h. \<not> uv_closing (sv_uv s) h" "bp_block_size (sv_pool_read s) = 65535" "40000 \<le> ev_total (sv_events s)"
      "bp_block_size (sv_pool_write s) = 65535"
    by (rule sample_service)
  have fresh: "\<forall>h. fresh_handle h s" using s(3,4) by (simp add: fresh_handle_def svc_idle_def)
  have "chan_free (sv_channel_list s) = [0..<10000]" using s(3) unfolding svc_idle_def by blast
  also have "(10000 :: nat) = Suc 9999" by simp
  also have "[0..<Suc 9999] = [0..<9999] @ [9999]" by (rule upt_Suc_append) simp
  finally have ch: "chan_free (sv_channel_list s) = [0..<9999] @ [9999]" .
  define n where "n = ev_total (sv_events s) - 3"
  have n: "ev_total (sv_events s) = Suc (Suc (Suc n))" unfolding n_def using s(6) by linarith
  have "ev_free (sv_events s) = [0..<ev_total (sv_events s)]" using s(3) unfolding svc_idle_def by blast
  also have "\<dots> = 0 # 1 # 2 # [3..<Suc (Suc (Suc n))]" unfolding n by (simp add: upt_conv_Cons numeral_eq_Suc del: upt_Suc)
  finally have "ev_free (sv_events s) = 0 # 1 # 2 # [3..<Suc (Suc (Suc n))]" .
  moreover have "pool_free (sv_pool_read s) = [0..<40000]" using s(3) unfolding svc_idle_def by blast
  moreover have "req_free s = [0..<40000]" using s(3) unfolding svc_idle_def by blast
  then have "req_free s \<noteq> []" by (simp del: length_q_elems)
  moreover have "ev_ready (sv_events s) = []" using s(3) unfolding svc_idle_def by blast
  ultimately show thesis using s(1,2,5,7) fresh ch by (intro that [of s]) blast+
qed

lemma sample_connected:
  obtains s0 s where "tcp_service_setup alloc_sample svc_blank = Some (TN_SUCCESS, s0)"
    "on_connection_cb 0 (conn_sample 1) s0 = Some s" "svc_inv (s, None)" "uv_data (sv_uv s) 1 = Some 9999"
    "ch_read_buffer (sv_chans s ! 9999) = None" "pool_free (sv_pool_read s) = [0..<40000]" "\<exists>es. ev_free (sv_events s) = 1 # 2 # es"
    "bp_block_size (sv_pool_read s) = 65535" "read_side s0 s" "req_inv [] s" "uv_data (sv_uv s) 2 = None"
    "\<not> uv_closing (sv_uv s) 2" "req_free s \<noteq> []" "bp_block_size (sv_pool_write s) = 65535"
    "ev_ready (sv_events s) = [0]" "ev_type (sv_evts s ! 0) = TN_EVENT_CLIENT_OPEN"
proof -
  obtain s0 where s0: "tcp_service_setup alloc_sample svc_blank = Some (TN_SUCCESS, s0)" "svc_inv (s0, None)"
      "\<forall>h. fresh_handle h s0" "\<exists>es. ev_free (sv_events s0) = 0 # 1 # 2 # es"
      "chan_free (sv_channel_list s0) = [0..<9999] @ [9999]" "pool_free (sv_pool_read s0) = [0..<40000]"
      "bp_block_size (sv_pool_read s0) = 65535" "req_free s0 \<noteq> []" "bp_block_size (sv_pool_write s0) = 65535"
      "ev_ready (sv_events s0) = []"
    by (rule sample_idle)
  have rd: "read_inv [] s0" using s0(2) by (simp add: svc_inv_pair)
  have fresh: "fresh_handle (ce_handle (conn_sample 1)) s0" using s0(3) by simp
  obtain es where es: "ev_free (sv_events s0) = 0 # 1 # 2 # es" using s0(4) by blast
  obtain ep loc rem where acc: "conn_accepts (conn_sample 1) ep loc rem" using conn_sample_accepts by blast
  obtain s where s: "on_connection_cb 0 (conn_sample 1) s0 = Some s" "read_inv [] s" "read_side s0 s"
      "uv_data (sv_uv s) = (uv_data (sv_uv s0))(ce_handle (conn_sample 1) \<mapsto> 9999)"
      "sv_chans s ! 9999 = (init_channel (ce_handle (conn_sample 1)) (sv_chans s0 ! 9999))\<lparr>ch_endpoint := ep\<rparr>"
      "ev_free (sv_events s) = 1 # 2 # es" "sv_pool_read s = sv_pool_read s0" "uv_closing (sv_uv s) = uv_closing (sv_uv s0)"
      "ev_ready (sv_events s) = ev_ready (sv_events s0) @ [0]" "sv_evts s ! 0 = open_event (of_nat 9999) loc rem (sv_evts s0 ! 0)"
    by (rule connection_accepted [OF rd fresh s0(5) es acc])
  have inv: "svc_inv (s, None)" by (rule svc_inv_read_side [OF s0(2)]) (use s(2,3) in simp_all)
  show thesis
    by (rule that [OF s0(1) s(1) inv])
      (use s(3-10) s0(3,6-10) inv in \<open>simp_all add: init_channel_def open_event_def svc_inv_pair fresh_handle_def read_side_def del: length_q_elems\<close>)
qed

section \<open>Nothing is lost\<close>



section \<open>Sending\<close>

text \<open>Property C7. Sending to a channel: without a free write request the code is \<open>TN_SEND_NOREQ\<close> and nothing changes; with one, a
  message that does not fit into a buffer is refused with \<open>TN_SEND_NOBUF\<close> and nothing is queued; any other
  message is queued behind the earlier ones, for that channel, and the memory the request gives to libuv
  holds exactly the bytes of the message. The error for a full ready queue never happens.\<close>

theorem send_queues_exact_bytes:
  assumes "svc_inv (s, held)" and "c < chan_total (sv_channel_list s)" and "data \<noteq> []" and "length data < 2 ^ 64"
  shows "\<exists>rc s'. tcp_service_send c data (of_nat (length data)) s = Some (rc, s') \<and> svc_inv (s', held) \<and>
    (if req_free s = [] then rc = TN_SEND_NOREQ \<and> s' = s
     else if unat (bp_block_size (sv_pool_write s)) < length data then rc = TN_SEND_NOBUF \<and> req_ready s' = req_ready s
     else rc = TN_SUCCESS \<and> (\<exists>r. req_ready s' = req_ready s @ [r] \<and> wr_channel (sv_write_reqs s' ! r) = c \<and>
       mem_read (sv_mem s') (wr_uv_base (sv_write_reqs s' ! r)) (unat (wr_uv_len (sv_write_reqs s' ! r))) = data))"
proof -
  have i: "req_inv [] s" using assms(1) by (simp add: svc_inv_pair)
  have n: "unat (of_nat (length data) :: u64) = length data" using assms(4) by (rule unat_of_nat64)
  then have n0: "of_nat (length data) \<noteq> (0 :: u64)" using assms(3) by (metis length_0_conv unat_0)
  show ?thesis
  proof (cases "req_free s")
    case Nil
    then show ?thesis using send_noreq [OF Nil n0, of c data] assms(1) by simp
  next
    case (Cons r rs)
    show ?thesis
    proof (cases "length data \<le> unat (bp_block_size (sv_pool_write s))")
      case True
      show ?thesis
        by (rule send_ok [OF i Cons n0, of data c])
          (use True n assms(2) Cons svc_inv_write_side [OF assms(1)] in \<open>auto simp: write_side_def\<close>)
    next
      case False
      then show ?thesis using send_too_long [OF i Cons n0, of c data] n Cons svc_inv_write_side [OF assms(1)]
        by (auto simp: write_side_def)
    qed
  qed
qed

theorem send_queues_exact_bytes_witness:
  "\<exists>s rc s' r. tcp_service_setup alloc_sample svc_blank = Some (TN_SUCCESS, s) \<and>
    tcp_service_send 7 [1, 2, 3] (of_nat (length [1, 2, 3 :: u8])) s = Some (TN_SUCCESS, s') \<and>
    wr_channel (sv_write_reqs s' ! r) = 7 \<and> req_ready s' = [r] \<and>
    mem_read (sv_mem s') (wr_uv_base (sv_write_reqs s' ! r)) (unat (wr_uv_len (sv_write_reqs s' ! r))) = [1, 2, 3]"
proof -
  obtain s where s: "tcp_service_setup alloc_sample svc_blank = Some (TN_SUCCESS, s)" "svc_inv (s, None)" "svc_idle s"
      "bp_block_size (sv_pool_write s) = 65535" "chan_total (sv_channel_list s) = 10000" by (rule sample_service)
  have "7 < chan_total (sv_channel_list s)" "[1, 2, 3 :: u8] \<noteq> []" "length [1, 2, 3 :: u8] < 2 ^ 64" using s(5) by simp_all
  from send_queues_exact_bytes [OF s(2) this] s show ?thesis by (auto simp: svc_idle_def simp del: length_q_elems)
qed

lemma mset_cancel_part: "a + f' = (a + b) + f \<Longrightarrow> f' = f + (b :: 'a multiset)"
  by (simp add: add.assoc add.commute)

text \<open>Property C9. The prepare callback ends, leaves no request queued, and hands libuv the queued requests whose channel is
  open and that \<open>uv_write\<close> accepts, in the order in which they were queued (the list of requests with
  libuv grows at the front). All others are free again, with their buffers.\<close>

theorem prep_drains_in_order:
  assumes "svc_inv (s, held)"
  shows "\<exists>s'. on_prep_cb uvw s = Some s' \<and> svc_inv (s', held) \<and> req_ready s' = [] \<and>
    uv_inflight (sv_uv s') = rev (filter (sendable uvw s) (req_ready s)) @ uv_inflight (sv_uv s) \<and>
    mset (req_free s') = mset (req_free s) + mset (filter (\<lambda>r. \<not> sendable uvw s r) (req_ready s))"
proof -
  have i: "req_inv [] s" "read_inv (in_hand held) s" using assms by (simp_all add: svc_inv_pair)
  obtain s' where s': "prep_loop (Suc (length (req_ready s))) uvw s = Some s'" "req_inv [] s'" "write_side s s'"
      "req_ready s' = []"
      "uv_inflight (sv_uv s') = rev (filter (sendable uvw s) (req_ready s)) @ uv_inflight (sv_uv s)"
    using prep_loop_ok [OF i(1) handles_invD(1) [OF read_invD(7) [OF i(2)]] lessI, of uvw] by blast
  have "sv_buffer_count s' = sv_buffer_count s" using s'(3) by (simp add: write_side_def)
  then have "mset (req_busy [] s') + mset (req_free s') = mset (req_busy [] s) + mset (req_free s)"
    using req_invD(6) [OF i(1)] req_invD(6) [OF s'(2)] by (simp add: conserved_mset)
  then have "mset (filter (sendable uvw s) (req_ready s)) + mset (req_free s') = mset (req_ready s) + mset (req_free s)"
    unfolding req_busy_def s'(4,5) by simp
  also have "mset (req_ready s) =
      mset (filter (sendable uvw s) (req_ready s)) + mset (filter (\<lambda>r. \<not> sendable uvw s r) (req_ready s))"
    unfolding mset_filter by (rule multiset_partition)
  finally have "mset (req_free s') = mset (req_free s) + mset (filter (\<lambda>r. \<not> sendable uvw s r) (req_ready s))"
    by (rule mset_cancel_part)
  moreover have "on_prep_cb uvw s = Some s'" unfolding on_prep_cb_def by (rule s'(1))
  ultimately show ?thesis using s'(4,5) svc_inv_write_side [OF assms s'(2,3)] by blast
qed

theorem prep_drains_in_order_witness:
  "\<exists>s s'. tcp_service_setup alloc_sample svc_blank = Some (TN_SUCCESS, s) \<and>
    on_prep_cb (\<lambda>_. 0) s = Some s' \<and> uv_inflight (sv_uv s') = [] \<and> req_ready s' = []"
proof -
  obtain s where s: "tcp_service_setup alloc_sample svc_blank = Some (TN_SUCCESS, s)" "svc_inv (s, None)" "svc_idle s"
    by (rule sample_service)
  from prep_drains_in_order [OF s(2), of "\<lambda>_. 0"] s show ?thesis by (auto simp: svc_idle_def simp del: length_q_elems)
qed

section \<open>Receiving\<close>

text \<open>The arrival of bytes: the event, its buffer and what the buffer holds.\<close>

lemma bytes_delivered:
  assumes "svc_inv (s, held)" and "uv_data (sv_uv s) h = Some c" and "ch_read_buffer (sv_chans s ! c) = None"
    and "pool_free (sv_pool_read s) \<noteq> []" and "ev_free (sv_events s) \<noteq> []" and "bytes \<noteq> []"
    and "0 < bp_block_size (sv_pool_read s)"
  obtains s' e i where "uv_read_handle h (UvData bytes) s = Some s'" "svc_inv (s', held)" "read_side s s'"
    "ev_ready (sv_events s') = ev_ready (sv_events s) @ [e]" "ev_type (sv_evts s' ! e) = TN_EVENT_CLIENT_READ"
    "ev_client_id (sv_evts s' ! e) = of_nat c" "ev_tn_buffer (sv_evts s' ! e) = Some i"
    "mem_read (sv_mem s') (ev_buffer (sv_evts s' ! e)) (unat (ev_len (sv_evts s' ! e))) =
      take (unat (bp_block_size (sv_pool_read s))) bytes"
    "buf_content (sv_mem s') (bp_tn_buffers (sv_pool_read s') ! i) = take (unat (bp_block_size (sv_pool_read s))) bytes"
    "\<forall>x \<in> set (ev_ready (sv_events s)). sv_evts s' ! x = sv_evts s ! x"
proof -
  have rd: "read_inv (in_hand held) s" using assms(1) by (simp add: svc_inv_pair)
  obtain i "is" where i: "pool_free (sv_pool_read s) = i # is" using assms(4) by (cases "pool_free (sv_pool_read s)") auto
  obtain e fs where e: "ev_free (sv_events s) = e # fs" using assms(5) by (cases "ev_free (sv_events s)") auto
  obtain s1 b where s1: "on_recv_alloc_cb h s = Some ((tn_buffer_write_ptr b, tn_buffer_remaining b), s1)"
      "b = bp_tn_buffers (sv_pool_read s1) ! i" "read_inv (in_hand held) s1" "read_side s s1" "sv_uv s1 = sv_uv s"
      "sv_events s1 = sv_events s" "ch_read_buffer (sv_chans s1 ! c) = Some i" "ch_id (sv_chans s1 ! c) = ch_id (sv_chans s ! c)"
      "buf_inv b" "buf_fill b = 0" "buf_cap b = unat (bp_block_size (sv_pool_read s))" "\<forall>m. buf_unread m b = []"
    by (rule recv_alloc_fresh [OF rd assms(2,3) i])
  let ?got = "take (unat (bp_block_size (sv_pool_read s))) bytes"
  have rem: "tn_buffer_remaining b = bp_block_size (sv_pool_read s)"
  proof -
    have "bb_len (tb_buf b) = 0" using s1(10) by (simp only: unat_eq_zero)
    moreover have "bb_capacity (tb_buf b) = bp_block_size (sv_pool_read s)" using s1(11) by (simp only: word_unat_eq_iff)
    ultimately show ?thesis by (simp add: tn_buffer_remaining_def)
  qed
  let ?s2 = "s1\<lparr>sv_mem := mem_write (sv_mem s1) (tn_buffer_write_ptr b) ?got\<rparr>"
  have s2: "read_inv (in_hand held) ?s2" using s1(3) by simp
  let ?n = "int (length ?got)"
  have len: "length ?got \<le> unat (bp_block_size (sv_pool_read s))" by simp
  then have "length ?got < 2 ^ 64" using unat_lt64 le_less_trans by blast
  then have n: "unat (word_of_int ?n :: u64) = length ?got" by (simp add: unat_of_nat64 del: length_take)
  have pos: "0 < ?n" using assms(6,7) unat_gt_0 [of "bp_block_size (sv_pool_read s)"] by (auto simp: word_gt_0)
  obtain s' where s': "on_recv_cb h ?n True ?s2 = Some s'" "read_inv (in_hand held) s'" "read_side ?s2 s'"
      "ev_ready (sv_events s') = ev_ready (sv_events ?s2) @ [e]"
      "sv_evts s' ! e = read_event (sv_chans ?s2 ! c) i (buf_extend (bp_tn_buffers (sv_pool_read ?s2) ! i) (word_of_int ?n))
         (sv_evts ?s2 ! e)" "sv_mem s' = sv_mem ?s2"
      "bp_tn_buffers (sv_pool_read s') ! i = buf_extend (bp_tn_buffers (sv_pool_read ?s2) ! i) (word_of_int ?n)"
      "\<forall>x. x \<noteq> e \<longrightarrow> sv_evts s' ! x = sv_evts ?s2 ! x"
    by (rule recv_deliver [OF s2, of h c i e fs ?n]) (use assms(2) s1(2,5-7,10,11) e pos n in simp_all)
  have "uv_read_handle h (UvData bytes) s = Some s'"
    using s1(1) rem assms(7) s'(1) by (simp add: uv_read_handle_def word_gt_0 Let_def)
  moreover have "read_side s s'" using read_side_trans [OF s1(4), of s'] s'(3) by (simp add: read_side_def)
  moreover have "ch_id (sv_chans s ! c) = of_nat c"
    using handles_invD(1,2) [OF read_invD(7) [OF rd]] assms(2) chan_invD(2) by blast
  moreover have "mem_read (sv_mem s') (ev_buffer (sv_evts s' ! e)) (unat (ev_len (sv_evts s' ! e))) = ?got"
  proof -
    have "buf_unread (sv_mem ?s2) (buf_extend b (word_of_int ?n)) = buf_unread (sv_mem s1) b @ ?got"
      using buf_unread_extend [OF s1(9), of "word_of_int ?n" ?got] s1(10,11) n len by simp
    then show ?thesis using s'(5,6) s1(2,12)
      by (simp add: read_event_def buf_unread_def tn_buffer_read_ptr_def tn_buffer_read_length_def)
  qed
  moreover have "buf_content (sv_mem s') (bp_tn_buffers (sv_pool_read s') ! i) = ?got"
    using buf_content_extend [OF s1(9), of "word_of_int ?n" ?got "sv_mem s1"] s'(6,7) s1(2,10,11) n len
    by (simp add: buf_content_def)
  moreover have "\<forall>x \<in> set (ev_ready (sv_events s)). sv_evts s' ! x = sv_evts s ! x"
    using s'(8) s1(6) free_event(1) [OF rd e] by auto
  ultimately show thesis using svc_inv_read_side [OF assms(1) s'(2)] s'(4,5) s1(6,8)
    by (intro that [of s' e i]) (simp_all add: read_event_def)
qed

text \<open>Property C8. When bytes arrive on an open handle, and a read buffer and an event are free, exactly one read event is
  posted; it carries the number of the channel and points at memory that holds the bytes, cut to the size of a
  buffer. libuv offers the rest again.\<close>

theorem received_bytes_delivered:
  assumes "svc_inv (s, held)" and "uv_data (sv_uv s) h = Some c" and "ch_read_buffer (sv_chans s ! c) = None"
    and "pool_free (sv_pool_read s) \<noteq> []" and "ev_free (sv_events s) \<noteq> []" and "bytes \<noteq> []"
    and "0 < bp_block_size (sv_pool_read s)"
  shows "\<exists>s' e. uv_read_handle h (UvData bytes) s = Some s' \<and> svc_inv (s', held) \<and>
    ev_ready (sv_events s') = ev_ready (sv_events s) @ [e] \<and> ev_type (sv_evts s' ! e) = TN_EVENT_CLIENT_READ \<and>
    ev_client_id (sv_evts s' ! e) = of_nat c \<and>
    mem_read (sv_mem s') (ev_buffer (sv_evts s' ! e)) (unat (ev_len (sv_evts s' ! e))) =
      take (unat (bp_block_size (sv_pool_read s))) bytes"
  by (rule bytes_delivered [OF assms]) blast

theorem received_bytes_delivered_witness:
  "\<exists>s0 s s' e. tcp_service_setup alloc_sample svc_blank = Some (TN_SUCCESS, s0) \<and>
    on_connection_cb 0 (conn_sample 1) s0 = Some s \<and> uv_read_handle 1 (UvData [5, 6]) s = Some s' \<and>
    mem_read (sv_mem s') (ev_buffer (sv_evts s' ! e)) (unat (ev_len (sv_evts s' ! e))) = [5, 6]"
proof -
  obtain s0 s where s: "tcp_service_setup alloc_sample svc_blank = Some (TN_SUCCESS, s0)"
      "on_connection_cb 0 (conn_sample 1) s0 = Some s" "svc_inv (s, None)" "uv_data (sv_uv s) 1 = Some 9999"
      "ch_read_buffer (sv_chans s ! 9999) = None" "pool_free (sv_pool_read s) = [0..<40000]" "\<exists>es. ev_free (sv_events s) = 1 # 2 # es"
      "bp_block_size (sv_pool_read s) = 65535" by (rule sample_connected)
  have "pool_free (sv_pool_read s) \<noteq> []" unfolding s(6) by simp
  moreover have "ev_free (sv_events s) \<noteq> []" using s(7) by (metis list.distinct(1))
  ultimately show ?thesis using received_bytes_delivered [OF s(3-5), of "[5, 6]"] s by fastforce
qed

section \<open>Connections\<close>

text \<open>A connection that libuv accepts, with a free channel and a free event, gets the channel that was freed last;
  the channel is open and belongs to the new handle, and exactly one open event is posted, with the
  number of the channel and the texts of both addresses.\<close>

theorem connection_posts_open_event:
  assumes "svc_inv (s, held)" and "fresh_handle (ce_handle env) s" and "chan_free (sv_channel_list s) = fs @ [c]"
    and "ev_free (sv_events s) = e # es" and "conn_accepts env ep loc rem"
  shows "\<exists>s'. on_connection_cb 0 env s = Some s' \<and> svc_inv (s', held) \<and> uv_data (sv_uv s') (ce_handle env) = Some c \<and>
    ch_state (sv_chans s' ! c) = TCP_CHANNEL_OPEN \<and> ch_priv (sv_chans s' ! c) = Some (ce_handle env) \<and>
    ev_ready (sv_events s') = ev_ready (sv_events s) @ [e] \<and> ev_type (sv_evts s' ! e) = TN_EVENT_CLIENT_OPEN \<and>
    ev_client_id (sv_evts s' ! e) = of_nat c \<and> ev_host_local (sv_evts s' ! e) = loc \<and> ev_host_remote (sv_evts s' ! e) = rem"
proof -
  have rd: "read_inv (in_hand held) s" using assms(1) by (simp add: svc_inv_pair)
  obtain s' where s': "on_connection_cb 0 env s = Some s'" "read_inv (in_hand held) s'" "read_side s s'"
      "uv_data (sv_uv s') = (uv_data (sv_uv s))(ce_handle env \<mapsto> c)" "ev_ready (sv_events s') = ev_ready (sv_events s) @ [e]"
      "sv_evts s' ! e = open_event (of_nat c) loc rem (sv_evts s ! e)"
      "sv_chans s' ! c = (init_channel (ce_handle env) (sv_chans s ! c))\<lparr>ch_endpoint := ep\<rparr>"
    by (rule connection_accepted [OF rd assms(2-5)])
  then show ?thesis using svc_inv_read_side [OF assms(1) s'(2,3)] by (simp add: open_event_def init_channel_def)
qed

theorem connection_posts_open_event_witness:
  "\<exists>s s' e. tcp_service_setup alloc_sample svc_blank = Some (TN_SUCCESS, s) \<and>
    on_connection_cb 0 (conn_sample 1) s = Some s' \<and> ch_priv (sv_chans s' ! 9999) = Some 1 \<and>
    ev_ready (sv_events s') = ev_ready (sv_events s) @ [e] \<and> ev_client_id (sv_evts s' ! e) = of_nat 9999"
proof -
  obtain s where s: "tcp_service_setup alloc_sample svc_blank = Some (TN_SUCCESS, s)" "svc_inv (s, None)"
      "\<forall>h. fresh_handle h s" "\<exists>es. ev_free (sv_events s) = 0 # 1 # 2 # es"
      "chan_free (sv_channel_list s) = [0..<9999] @ [9999]" by (rule sample_idle)
  obtain es where es: "ev_free (sv_events s) = 0 # 1 # 2 # es" using s(4) by blast
  have fresh: "fresh_handle (ce_handle (conn_sample 1)) s" using s(3) by simp
  obtain ep loc rem where acc: "conn_accepts (conn_sample 1) ep loc rem" using conn_sample_accepts by blast
  from connection_posts_open_event [OF s(2) fresh s(5) es acc] s(1) show ?thesis by (auto simp del: of_nat_numeral)
qed

text \<open>Property C30. Closing a channel posts one close event and makes the channel available again, if an event is free. If all
  events are in use, no event is posted and the channel is not put back: the number of channels that can be
  opened shrinks by one for good.\<close>

theorem close_without_event_leaks_channel:
  assumes "svc_inv (s, held)" and "uv_data (sv_uv s) h = Some c"
  shows "\<exists>s'. on_close_channel_cb h s = Some s' \<and> svc_inv (s', held) \<and> uv_data (sv_uv s') h = None \<and>
    (if ev_free (sv_events s) = []
     then ev_ready (sv_events s') = ev_ready (sv_events s) \<and> chan_free (sv_channel_list s') = chan_free (sv_channel_list s)
     else \<exists>e. ev_ready (sv_events s') = ev_ready (sv_events s) @ [e] \<and> ev_type (sv_evts s' ! e) = TN_EVENT_CLIENT_CLOSE \<and>
       ev_client_id (sv_evts s' ! e) = of_nat c \<and> chan_free (sv_channel_list s') = chan_free (sv_channel_list s) @ [c])"
proof -
  have rd: "read_inv (in_hand held) s" using assms(1) by (simp add: svc_inv_pair)
  show ?thesis
  proof (cases "ev_free (sv_events s)")
    case Nil
    show ?thesis
      by (rule close_channel_no_event [OF rd assms(2) Nil])
        (use Nil svc_inv_read_side [OF assms(1)] in \<open>auto simp del: length_q_elems\<close>)
  next
    case (Cons e fs)
    show ?thesis
      by (rule close_channel_ok [OF rd assms(2) Cons])
        (use Cons svc_inv_read_side [OF assms(1)] in \<open>auto simp del: length_q_elems\<close>)
  qed
qed

theorem close_without_event_leaks_channel_witness:
  "\<exists>s0 s s'. tcp_service_setup alloc_sample svc_blank = Some (TN_SUCCESS, s0) \<and>
    on_connection_cb 0 (conn_sample 1) s0 = Some s \<and> on_close_channel_cb 1 s = Some s' \<and>
    9999 \<in> set (chan_free (sv_channel_list s'))"
proof -
  obtain s0 s where s: "tcp_service_setup alloc_sample svc_blank = Some (TN_SUCCESS, s0)"
      "on_connection_cb 0 (conn_sample 1) s0 = Some s" "svc_inv (s, None)" "uv_data (sv_uv s) 1 = Some 9999"
      "\<exists>es. ev_free (sv_events s) = 1 # 2 # es" by (rule sample_connected)
  have "ev_free (sv_events s) \<noteq> []" using s(5) by (metis list.distinct(1))
  with close_without_event_leaks_channel [OF s(3,4)] s show ?thesis by (auto simp del: length_q_elems)
qed

text \<open>Property C31. A write request names its channel, not its client. If the client disconnects after a message was queued for it
  and the next client connects before the prepare callback runs, the message is written to the new client.\<close>

theorem queued_message_reaches_next_client:
  assumes "svc_inv (s, held)" and "r \<in> set (req_ready s)" and "uv_data (sv_uv s) h = Some (wr_channel (sv_write_reqs s ! r))"
    and "ev_free (sv_events s) = e # e' # es" and "fresh_handle (ce_handle env) s" and "conn_accepts env ep loc rem"
  shows "\<exists>s1 s2 s3. on_close_channel_cb h s = Some s1 \<and> on_connection_cb 0 env s1 = Some s2 \<and>
    on_prep_cb (\<lambda>_. 0) s2 = Some s3 \<and> r \<in> set (uv_inflight (sv_uv s3)) \<and>
    ch_priv (sv_chans s3 ! wr_channel (sv_write_reqs s3 ! r)) = Some (ce_handle env)"
proof -
  let ?c = "wr_channel (sv_write_reqs s ! r)"
  have rd: "read_inv (in_hand held) s" using assms(1) by (simp add: svc_inv_pair)
  obtain s1 where s1: "on_close_channel_cb h s = Some s1" "read_inv (in_hand held) s1" "read_side s s1"
      "uv_data (sv_uv s1) = (uv_data (sv_uv s))(h := None)"
      "chan_free (sv_channel_list s1) = chan_free (sv_channel_list s) @ [?c]" "ev_free (sv_events s1) = e' # es"
      "uv_closing (sv_uv s1) = (uv_closing (sv_uv s))(h := False)"
    by (rule close_channel_ok [OF rd assms(3,4)])
  have fresh: "fresh_handle (ce_handle env) s1" using assms(5) s1(4,7) by (simp add: fresh_handle_def)
  obtain s2 where s2: "on_connection_cb 0 env s1 = Some s2" "read_inv (in_hand held) s2" "read_side s1 s2"
      "sv_chans s2 ! ?c = (init_channel (ce_handle env) (sv_chans s1 ! ?c))\<lparr>ch_endpoint := ep\<rparr>"
    by (rule connection_accepted [OF s1(2) fresh s1(5,6) assms(6)])
  have side: "read_side s s2" by (rule read_side_trans [OF s1(3) s2(3)])
  have rq: "req_inv [] s2" using assms(1) req_inv_read_side [OF side] by (simp add: svc_inv_pair)
  obtain s3 where s3: "prep_loop (Suc (length (req_ready s2))) (\<lambda>_. 0) s2 = Some s3" "write_side s2 s3" "same_targets s2 s3"
      "uv_inflight (sv_uv s3) = rev (filter (sendable (\<lambda>_. 0) s2) (req_ready s2)) @ uv_inflight (sv_uv s2)"
    using prep_loop_ok [OF rq handles_invD(1) [OF read_invD(7) [OF s2(2)]] lessI, of "\<lambda>_. 0"] by blast
  have eq: "req_ready s2 = req_ready s" "sv_write_reqs s2 = sv_write_reqs s" using side by (simp_all add: read_side_def)
  have "sendable (\<lambda>_. 0) s2 r" using s2(4) eq(2) by (simp add: sendable_def init_channel_def)
  then have "r \<in> set (uv_inflight (sv_uv s3))" using s3(4) assms(2) eq(1) by simp
  moreover have "ch_priv (sv_chans s3 ! wr_channel (sv_write_reqs s3 ! r)) = Some (ce_handle env)"
    using s3(2,3) s2(4) eq(2) by (simp add: write_side_def same_targets_def init_channel_def)
  moreover have "on_prep_cb (\<lambda>_. 0) s2 = Some s3" unfolding on_prep_cb_def by (rule s3(1))
  ultimately show ?thesis using s1(1) s2(1) by blast
qed

theorem queued_message_reaches_next_client_witness:
  "\<exists>s0 s r s' s1 s2 s3. tcp_service_setup alloc_sample svc_blank = Some (TN_SUCCESS, s0) \<and>
    on_connection_cb 0 (conn_sample 1) s0 = Some s \<and> tcp_service_send 9999 [42] 1 s = Some (TN_SUCCESS, s') \<and>
    on_close_channel_cb 1 s' = Some s1 \<and> on_connection_cb 0 (conn_sample 2) s1 = Some s2 \<and>
    on_prep_cb (\<lambda>_. 0) s2 = Some s3 \<and> ch_priv (sv_chans s3 ! wr_channel (sv_write_reqs s3 ! r)) = Some 2"
proof -
  obtain s0 s where s: "tcp_service_setup alloc_sample svc_blank = Some (TN_SUCCESS, s0)"
      "on_connection_cb 0 (conn_sample 1) s0 = Some s" "svc_inv (s, None)" "uv_data (sv_uv s) 1 = Some 9999"
      "\<exists>es. ev_free (sv_events s) = 1 # 2 # es" "req_inv [] s" "uv_data (sv_uv s) 2 = None" "\<not> uv_closing (sv_uv s) 2"
      "req_free s \<noteq> []" "bp_block_size (sv_pool_write s) = 65535"
    by (rule sample_connected)
  obtain es where es: "ev_free (sv_events s) = 1 # 2 # es" using s(5) by blast
  obtain r rs where r: "req_free s = r # rs" using s(9) by (cases "req_free s") auto
  have c: "9999 < chan_total (sv_channel_list s)"
    using s(3) handles_invD(2) [OF read_invD(7), OF _ s(4)] by (auto simp: svc_inv_pair)
  obtain reqs free ready pool m where m: "tcp_service_send 9999 [42] 1 s = Some (TN_SUCCESS, s\<lparr>sv_write_reqs := reqs,
        sv_write_reqs_free := free, sv_write_reqs_ready := ready, sv_pool_write := pool, sv_mem := m\<rparr>)"
      "req_inv [] (s\<lparr>sv_write_reqs := reqs, sv_write_reqs_free := free, sv_write_reqs_ready := ready,
        sv_pool_write := pool, sv_mem := m\<rparr>)" "q_elems ready = req_ready s @ [r]" "wr_channel (reqs ! r) = 9999"
      "bp_block_size pool = bp_block_size (sv_pool_write s)"
    by (rule send_ok [OF s(6) r, of 1 "[42]" 9999]) (use c s(10) in simp_all)
  let ?s = "s\<lparr>sv_write_reqs := reqs, sv_write_reqs_free := free, sv_write_reqs_ready := ready, sv_pool_write := pool,
    sv_mem := m\<rparr>"
  have inv: "svc_inv (?s, None)" by (rule svc_inv_write_side [OF s(3) m(2)]) (use m(5) in \<open>simp add: write_side_def\<close>)
  obtain ep loc rem where acc: "conn_accepts (conn_sample 2) ep loc rem" using conn_sample_accepts by blast
  have "r \<in> set (req_ready ?s)" "uv_data (sv_uv ?s) 1 = Some (wr_channel (sv_write_reqs ?s ! r))"
      "ev_free (sv_events ?s) = 1 # 2 # es" "fresh_handle (ce_handle (conn_sample 2)) ?s"
    using m(3,4) s(4,7,8) es by (simp_all add: fresh_handle_def)
  from queued_message_reaches_next_client [OF inv this acc] s(1,2) m(1) show ?thesis by auto
qed

section \<open>Starting and stopping\<close>

text \<open>A start that fails (the address is not valid, its text does not fit, the thread does not start) leaves the
  service in the state \<open>TCP_SERVICE_STARTING\<close>: every further start fails, whatever its address, until the
  service is stopped; stopping works once, and after it a start can succeed again.\<close>

theorem failed_start_blocks_restart:
  assumes "sv_state s \<in> {TCP_SERVICE_NEW, TCP_SERVICE_STOPPED}" and "tcp_service_start ep rc_string rc_launch s = (rc, s')"
    and "rc \<noteq> TN_SUCCESS"
  shows "rc = TN_ERROR \<and> sv_state s' = TCP_SERVICE_STARTING \<and>
    (\<forall>ep' rs rl. tcp_service_start ep' rs rl s' = (TN_ERROR, s')) \<and>
    (\<exists>s''. tcp_service_stop s' = (TN_SUCCESS, s'') \<and> tcp_service_stop s'' = (TN_ERROR, s'') \<and>
      (\<forall>e. fst (tcp_service_start (0, e) 0 0 s'') = TN_SUCCESS))"
  using assms by (auto simp: tcp_service_start_def tcp_service_stop_def tcp_service_set_state_def Let_def
      split: if_splits prod.splits)

theorem failed_start_blocks_restart_witness:
  "\<exists>s'. tcp_service_start (TN_ERROR, endpoint_zero) 0 0 svc_blank = (TN_ERROR, s') \<and>
    tcp_service_start (0, endpoint_zero) 0 0 s' = (TN_ERROR, s')"
proof -
  obtain s' where s': "tcp_service_start (TN_ERROR, endpoint_zero) 0 0 svc_blank = (TN_ERROR, s')"
    by (simp add: tcp_service_start_def tcp_service_set_state_def svc_blank_def Let_def)
  have "sv_state svc_blank \<in> {TCP_SERVICE_NEW, TCP_SERVICE_STOPPED}" "TN_ERROR \<noteq> TN_SUCCESS" by (simp_all add: svc_blank_def)
  from failed_start_blocks_restart [OF this(1) s' this(2)] s' show ?thesis by blast
qed

end
