(* ===== verification/Tn_Unity.thy ===== *)
theory Tn_Unity
  imports Tn_Service_Props
begin

text \<open>
  The two users of the service: the plugin functions of \<open>src/unity/tcpeen_unity.c\<close>, which guard the
  operations of one global service, and the echo server of \<open>src/tcpserv/tcpserv_unity.c\<close>, whose main
  thread polls the events and sends back what it reads.
\<close>

section \<open>The echo server\<close>

text \<open>An event is given by its index. The bytes handed to \<open>tcp_service_send\<close> are those at the read pointer at the time of the call.\<close>

definition handle_client_read :: "nat \<Rightarrow> tcp_service \<Rightarrow> (int \<times> tcp_service) option" where
  "handle_client_read e s = do {
     evt_read \<leftarrow> arr_get (el_tn_events (sv_events s)) e;
     let (rc, out) = tcp_channel_list_get (sv_channel_list s) (ev_client_id evt_read);
     if rc \<noteq> 0 then Some (TN_EVENT_NOCHAN, s) else do {
     channel \<leftarrow> out;
     i \<leftarrow> ev_tn_buffer evt_read;
     b \<leftarrow> arr_get (bp_tn_buffers (sv_pool_read s)) i;
     let b = tn_buffer_read_reset b;
     bufs \<leftarrow> arr_set (bp_tn_buffers (sv_pool_read s)) i b;
     let s = s\<lparr>sv_pool_read := (sv_pool_read s)\<lparr>bp_tn_buffers := bufs\<rparr>\<rparr>;
     (rc, s) \<leftarrow> tcp_service_send channel (mem_read (sv_mem s) (tn_buffer_read_ptr b) (unat (tn_buffer_read_length b)))
       (tn_buffer_read_length b) s;
     Some (if rc \<noteq> 0 then rc else TN_SUCCESS, s)
   }}"

text \<open>The loop over the events; the result of handling one is ignored.\<close>

fun handle_events :: "nat list \<Rightarrow> tcp_service \<Rightarrow> tcp_service option" where
  "handle_events [] s = Some s"
| "handle_events (e # es) s = do {
     evt \<leftarrow> arr_get (el_tn_events (sv_events s)) e;
     s \<leftarrow> (if ev_type evt = TN_EVENT_CLIENT_READ then map_option snd (handle_client_read e s) else Some s);
     handle_events es s
   }"

text \<open>One iteration of the main loop, after the sleep. \<open>evt_count\<close> is 0 when acquiring fails.\<close>

definition main_tick :: "tcp_service \<Rightarrow> tcp_service option" where
  "main_tick s = do {
     (rc, evt_count, s) \<leftarrow> tcp_service_events_acquire s;
     tn_assert (unat evt_count \<le> length (sv_event_updates s));
     s \<leftarrow> handle_events (take (unat evt_count) (sv_event_updates s)) s;
     (rc, s) \<leftarrow> tcp_service_events_release s;
     Some s
   }"

definition main_running :: "tcp_service \<Rightarrow> bool" where
  "main_running s \<longleftrightarrow> sv_state s \<noteq> TCP_SERVICE_STOPPING"

text \<open>What follows the loop: the exit code and the service.\<close>

definition main_finish :: "tcp_service \<Rightarrow> (int \<times> tcp_service) option" where
  "main_finish s =
     (case tcp_service_stop s of (rc, s) \<Rightarrow>
        if rc \<noteq> 0 then Some (TN_ERROR, s) else map_option (Pair 0) (tcp_service_cleanup s))"

section \<open>The plugin\<close>

text \<open>Loading and unloading the plugin do nothing.\<close>

definition UnityPluginLoad :: "tcp_service \<Rightarrow> tcp_service" where
  "UnityPluginLoad s = s"

definition UnityPluginUnload :: "tcp_service \<Rightarrow> tcp_service" where
  "UnityPluginUnload s = s"

definition tcpeen_service_setup :: "svc_alloc \<Rightarrow> u64 \<Rightarrow> tcp_service \<Rightarrow> (int \<times> tcp_service) option" where
  "tcpeen_service_setup a max_clients s = do {
     (rc, s) \<leftarrow> tcp_service_setup a s;
     Some (if rc \<noteq> 0 then TN_ERROR else TN_SUCCESS, s)
   }"

definition tcpeen_service_cleanup :: "tcp_service \<Rightarrow> (int \<times> tcp_service) option" where
  "tcpeen_service_cleanup s = (if sv_priv s = PTR_NULL then Some (TN_ERROR, s) else map_option (Pair TN_SUCCESS) (tcp_service_cleanup s))"

definition tcpeen_service_start :: "int \<times> tn_endpoint \<Rightarrow> int \<Rightarrow> int \<Rightarrow> tcp_service \<Rightarrow> int \<times> tcp_service" where
  "tcpeen_service_start set_result rc_string rc_launch s =
     (if sv_priv s = PTR_NULL then (TN_ERROR, s)
      else case tcp_service_start set_result rc_string rc_launch s of (rc, s) \<Rightarrow> (if rc \<noteq> 0 then TN_ERROR else TN_SUCCESS, s))"

definition tcpeen_service_stop :: "tcp_service \<Rightarrow> int \<times> tcp_service" where
  "tcpeen_service_stop s =
     (if sv_priv s = PTR_NULL then (TN_ERROR, s)
      else case tcp_service_stop s of (rc, s) \<Rightarrow> (if rc \<noteq> 0 then TN_ERROR else TN_SUCCESS, s))"

text \<open>The two flags say whether the pointers for the results are given. The result is None when nothing is written through them.\<close>

definition tcpeen_service_events_acquire :: "bool \<Rightarrow> bool \<Rightarrow> tcp_service \<Rightarrow> (int \<times> u64 option \<times> tcp_service) option" where
  "tcpeen_service_events_acquire out_evt_ptr_arr out_evt_count s =
     (if sv_priv s = PTR_NULL then Some (TN_ERROR, None, s)
      else if \<not> out_evt_ptr_arr then Some (TN_ERROR, None, s)
      else if \<not> out_evt_count then Some (TN_ERROR, None, s)
      else do {
        (rc, n, s) \<leftarrow> tcp_service_events_acquire s;
        Some (if rc \<noteq> 0 then TN_ERROR else TN_SUCCESS, Some n, s)
      })"

definition tcpeen_service_events_release :: "tcp_service \<Rightarrow> (int \<times> tcp_service) option" where
  "tcpeen_service_events_release s =
     (if sv_priv s = PTR_NULL then Some (TN_ERROR, s)
      else do { (rc, s) \<leftarrow> tcp_service_events_release s; Some (if rc \<noteq> 0 then TN_ERROR else TN_SUCCESS, s) })"

definition tcpeen_service_send :: "u64 \<Rightarrow> u8 list option \<Rightarrow> u64 \<Rightarrow> tcp_service \<Rightarrow> (int \<times> tcp_service) option" where
  "tcpeen_service_send client_id buffer len s =
     (if sv_priv s = PTR_NULL then Some (TN_ERROR, s)
      else case buffer of None \<Rightarrow> Some (TN_ERROR, s)
      | Some data \<Rightarrow>
        if len = 0 then Some (TN_ERROR, s)
        else case tcp_channel_list_get (sv_channel_list s) client_id of (rc, channel) \<Rightarrow>
          if rc \<noteq> 0 then Some (TN_ERROR, s)
          else do {
            c \<leftarrow> channel;
            (rc, s) \<leftarrow> tcp_service_send c data len s;
            Some (if rc \<noteq> 0 then TN_ERROR else TN_SUCCESS, s)
          })"

section \<open>Handling a read event\<close>

lemma event_buffer:
  assumes "read_inv es s" and "e \<in> set es" and "ev_type (sv_evts s ! e) = TN_EVENT_CLIENT_READ"
  obtains i where "ev_tn_buffer (sv_evts s ! e) = Some i" "i < pool_total (sv_pool_read s)" "e < length (sv_evts s)"
    "pool_buffer_ok 0 (sv_pool_read s) i (bp_tn_buffers (sv_pool_read s) ! i)"
proof -
  note D = read_invD [OF assms(1)]
  have busy: "e \<in> set (ev_busy es s)" using assms(2) by (simp add: ev_busy_def)
  obtain i where i: "ev_tn_buffer (sv_evts s ! e) = Some i" using D(3) busy assms(3) by blast
  have e: "e < length (sv_evts s)" using conserved_disjoint(3) [OF D(2)] busy event_invD(1) [OF D(1)] by simp
  have "event_buf (sv_evts s ! e) = [i]" using i assms(3) by (simp add: event_buf_def)
  then have "i \<in> set (event_bufs (sv_evts s) (ev_busy es s))" using busy by (force simp: event_bufs_def)
  then have "i < pool_total (sv_pool_read s)" using conserved_disjoint(3) [OF D(6)] D(5) by simp
  then show thesis using i e pool_invD(3) [OF D(4)] by (intro that)
qed

lemma read_inv_buffer:
  assumes "read_inv es s" and "pool_buffer_ok 0 (sv_pool_read s) i b"
  shows "read_inv es (s\<lparr>sv_pool_read := (sv_pool_read s)\<lparr>bp_tn_buffers := (bp_tn_buffers (sv_pool_read s))[i := b]\<rparr>\<rparr>)" (is "read_inv es ?s")
  by (rule read_invI [OF assms(1)])
    (use read_invD(1,3) [OF assms(1)] pool_inv_buffer [OF read_invD(4) [OF assms(1)] assms(2)]
      handles_inv_same [OF read_invD(7) [OF assms(1)], of ?s] in \<open>simp_all add: ev_busy_def\<close>)

lemma channel_get: "c < chan_total l \<Longrightarrow> tcp_channel_list_get l (of_nat c) = (TN_SUCCESS, Some c)"
  using unat_of_nat64 [of c] unat_lt64 [of "cl_clients_max l"] by (simp add: tcp_channel_list_get_def word_le_nat_alt)

text \<open>The bytes of a read event go into a write request for the same client.\<close>

lemma handle_read_ok:
  assumes "svc_inv (s, Some es)" and "e \<in> set es" and "ev_type (sv_evts s ! e) = TN_EVENT_CLIENT_READ"
    and "ev_client_id (sv_evts s ! e) = of_nat c" and "c < chan_total (sv_channel_list s)"
    and "ev_tn_buffer (sv_evts s ! e) = Some i" and "buf_content (sv_mem s) (bp_tn_buffers (sv_pool_read s) ! i) = data" and "data \<noteq> []"
    and "req_free s = r # rs" and "length data \<le> unat (bp_block_size (sv_pool_write s))"
  obtains s' where "handle_client_read e s = Some (TN_SUCCESS, s')" "svc_inv (s', Some es)" "req_ready s' = req_ready s @ [r]"
    "wr_channel (sv_write_reqs s' ! r) = c"
    "mem_read (sv_mem s') (wr_uv_base (sv_write_reqs s' ! r)) (unat (wr_uv_len (sv_write_reqs s' ! r))) = data"
    "sv_evts s' = sv_evts s" "sv_events s' = sv_events s"
proof -
  have rd: "read_inv es s" using assms(1) by (simp add: svc_inv_pair)
  obtain j where j: "ev_tn_buffer (sv_evts s ! e) = Some j" "j < pool_total (sv_pool_read s)" "e < length (sv_evts s)"
      "pool_buffer_ok 0 (sv_pool_read s) j (bp_tn_buffers (sv_pool_read s) ! j)"
    by (rule event_buffer [OF rd assms(2,3)])
  let ?b = "tn_buffer_read_reset (bp_tn_buffers (sv_pool_read s) ! i)"
  let ?s1 = "s\<lparr>sv_pool_read := (sv_pool_read s)\<lparr>bp_tn_buffers := (bp_tn_buffers (sv_pool_read s))[i := ?b]\<rparr>\<rparr>"
  have ij: "j = i" using j(1) assms(6) by simp
  have inv: "buf_inv (bp_tn_buffers (sv_pool_read s) ! i)" using j(4) ij by (simp add: pool_buffer_ok_def)
  have "pool_buffer_ok 0 (sv_pool_read s) i ?b"
    using j(4) ij buf_read_reset_inv(1) [OF inv] by (simp add: pool_buffer_ok_def tn_buffer_read_reset_def)
  then have "read_inv es ?s1" by (rule read_inv_buffer [OF rd])
  then have s1: "svc_inv (?s1, Some es)" using svc_inv_read_side [OF assms(1)] by (simp add: read_side_def)
  have un: "mem_read (sv_mem s) (tn_buffer_read_ptr ?b) (unat (tn_buffer_read_length ?b)) = data"
    using buf_read_reset_inv(2) [OF inv, of "sv_mem s"] assms(7) by (simp add: buf_unread_def tn_buffer_read_ptr_def tn_buffer_read_length_def)
  then have len: "unat (tn_buffer_read_length ?b) = length data" by (metis length_mem_read)
  then have n0: "tn_buffer_read_length ?b \<noteq> 0" using assms(8) by (metis length_0_conv unat_0)
  have rq: "req_inv [] ?s1" using s1 by (simp add: svc_inv_pair)
  obtain reqs free ready pool m' where m: "tcp_service_send c data (tn_buffer_read_length ?b) ?s1 =
       Some (TN_SUCCESS, ?s1\<lparr>sv_write_reqs := reqs, sv_write_reqs_free := free, sv_write_reqs_ready := ready, sv_pool_write := pool, sv_mem := m'\<rparr>)"
      "req_inv [] (?s1\<lparr>sv_write_reqs := reqs, sv_write_reqs_free := free, sv_write_reqs_ready := ready, sv_pool_write := pool, sv_mem := m'\<rparr>)"
      "q_elems free = rs" "q_elems ready = req_ready ?s1 @ [r]" "wr_channel (reqs ! r) = c"
      "mem_read m' (wr_uv_base (reqs ! r)) (unat (wr_uv_len (reqs ! r))) = take (unat (tn_buffer_read_length ?b)) data"
      "bp_block_size pool = bp_block_size (sv_pool_write ?s1)"
    by (rule send_ok [OF rq, of r rs "tn_buffer_read_length ?b" data c]) (use assms(5,9,10) len n0 in simp_all)
  let ?s = "?s1\<lparr>sv_write_reqs := reqs, sv_write_reqs_free := free, sv_write_reqs_ready := ready, sv_pool_write := pool, sv_mem := m'\<rparr>"
  have "svc_inv (?s, Some es)" by (rule svc_inv_write_side [OF s1 m(2)]) (use m(7) in \<open>simp add: write_side_def\<close>)
  moreover have "handle_client_read e s = Some (TN_SUCCESS, ?s)"
    using j ij assms(4,6) channel_get [OF assms(5)] m(1) un pool_invD(2) [OF read_invD(4) [OF rd]]
    by (simp add: handle_client_read_def Let_def)
  ultimately show thesis using m(4-6) len by (intro that [of ?s]) simp_all
qed

lemma acquire_keeps:
  assumes "tcp_service_events_acquire s = Some (rc, n, s')"
  shows "sv_pool_read s' = sv_pool_read s" "sv_mem s' = sv_mem s" "sv_channel_list s' = sv_channel_list s"
    "sv_pool_write s' = sv_pool_write s" "sv_write_reqs_ready s' = sv_write_reqs_ready s" "sv_write_reqs_free s' = sv_write_reqs_free s"
  using assms by (auto simp: tcp_service_events_acquire_def Let_def bind_eq_Some_conv split: if_splits)

lemma release_event_mem: "release_event e s = Some s' \<Longrightarrow> sv_mem s' = sv_mem s"
  by (auto simp: release_event_def bind_eq_Some_conv split: if_splits)

lemma release_loop_mem: "release_loop es s = Some s' \<Longrightarrow> sv_mem s' = sv_mem s"
  by (induction es arbitrary: s) (auto simp: bind_eq_Some_conv dest!: release_event_mem)

lemma release_mem: "tcp_service_events_release s = Some (rc, s') \<Longrightarrow> sv_mem s' = sv_mem s"
  by (auto simp: tcp_service_events_release_def tn_assert_def bind_eq_Some_conv dest!: release_loop_mem split: if_splits)

lemma handle_events_skip:
  "\<forall>x \<in> set es. x < length (sv_evts s) \<Longrightarrow> \<forall>x \<in> set es. ev_type (sv_evts s ! x) \<noteq> TN_EVENT_CLIENT_READ \<Longrightarrow>
    handle_events (es @ fs) s = handle_events fs s"
  by (induction es) simp_all

section \<open>Properties\<close>

text \<open>
  Property C0. The echo server sends back what it receives: when bytes arrive for a client while no
  other read event is pending, and a read buffer, an event and a write request are free, one
  iteration of the main loop handles all pending events, queues exactly one write request, for the
  same client and with memory that holds exactly the bytes, and gives the events and the buffer back.
\<close>

theorem echo_end_to_end:
  assumes "svc_inv (s, None)" and "uv_data (sv_uv s) h = Some c" and "ch_read_buffer (sv_chans s ! c) = None"
    and "pool_free (sv_pool_read s) \<noteq> []" and "ev_free (sv_events s) \<noteq> []" and "length (ev_ready (sv_events s)) < 40000"
    and "\<forall>e \<in> set (ev_ready (sv_events s)). ev_type (sv_evts s ! e) \<noteq> TN_EVENT_CLIENT_READ"
    and "req_free s \<noteq> []" and "bytes \<noteq> []" and "length bytes \<le> unat (bp_block_size (sv_pool_read s))"
    and "bp_block_size (sv_pool_write s) = bp_block_size (sv_pool_read s)"
  shows "\<exists>s1 s2 r. uv_read_handle h (UvData bytes) s = Some s1 \<and> main_tick s1 = Some s2 \<and> svc_inv (s2, None) \<and>
    req_ready s2 = req_ready s @ [r] \<and> wr_channel (sv_write_reqs s2 ! r) = c \<and>
    mem_read (sv_mem s2) (wr_uv_base (sv_write_reqs s2 ! r)) (unat (wr_uv_len (sv_write_reqs s2 ! r))) = bytes"
proof -
  have "unat (bp_block_size (sv_pool_read s)) \<noteq> 0" using assms(9,10) by (metis le_zero_eq length_0_conv)
  then have bs: "0 < bp_block_size (sv_pool_read s)" by (simp only: word_gt_0 unat_eq_zero not_False_eq_True)
  obtain s1 e i where s1: "uv_read_handle h (UvData bytes) s = Some s1" "svc_inv (s1, None)" "read_side s s1"
      "ev_ready (sv_events s1) = ev_ready (sv_events s) @ [e]" "ev_type (sv_evts s1 ! e) = TN_EVENT_CLIENT_READ"
      "ev_client_id (sv_evts s1 ! e) = of_nat c" "ev_tn_buffer (sv_evts s1 ! e) = Some i"
      "buf_content (sv_mem s1) (bp_tn_buffers (sv_pool_read s1) ! i) = take (unat (bp_block_size (sv_pool_read s))) bytes"
      "\<forall>x \<in> set (ev_ready (sv_events s)). sv_evts s1 ! x = sv_evts s ! x"
    by (rule bytes_delivered [OF assms(1-5,9) bs])
  have rd1: "read_inv [] s1" "upd_inv None s1" using s1(2) by (simp_all add: svc_inv_pair)
  obtain rc n es s2 where s2: "tcp_service_events_acquire s1 = Some (rc, n, s2)" "read_inv es s2" "upd_inv (Some es) s2"
      "req_inv [] s2 = req_inv [] s1" "es = take (req_total s1) (ev_ready (sv_events s1))" "unat n = length es" "sv_evts s2 = sv_evts s1"
    by (rule acquire_ok [OF rd1, of "[]"])
  note k = acquire_keeps [OF s2(1)]
  let ?es0 = "ev_ready (sv_events s)"
  have es: "es = ?es0 @ [e]" using s2(5) s1(4) assms(6) rd1(2) by (simp add: upd_inv_def del: length_q_elems)
  have inv2: "svc_inv (s2, Some es)" using s2(2-4) s1(2) by (simp add: svc_inv_pair)
  have len: "unat n \<le> length (sv_event_updates s2)" and all: "es = take (unat (sv_event_updates_count s2)) (sv_event_updates s2)"
    using s2(3,6) by (auto simp: upd_inv_def)
  have upd: "take (unat n) (sv_event_updates s2) = es"
    using all s2(6) by (metis length_take min.commute take_take take_all_iff order_refl)
  obtain r rs where r: "req_free s2 = r # rs" using assms(8) s1(3) k(6) by (cases "req_free s2") (auto simp: read_side_def)
  have c: "c < chan_total (sv_channel_list s2)"
    using assms(1,2) s1(3) k(3) handles_invD(2) [OF read_invD(7), of _ s] by (auto simp: svc_inv_pair read_side_def)
  obtain s3 where s3: "handle_client_read e s2 = Some (TN_SUCCESS, s3)" "svc_inv (s3, Some es)" "req_ready s3 = req_ready s2 @ [r]"
      "wr_channel (sv_write_reqs s3 ! r) = c"
      "mem_read (sv_mem s3) (wr_uv_base (sv_write_reqs s3 ! r)) (unat (wr_uv_len (sv_write_reqs s3 ! r))) = bytes"
    by (rule handle_read_ok [OF inv2 _ _ _ c _ _ assms(9) r])
      (use s1(3,5-8) s2(7) k(1,2,4) assms(10,11) es in \<open>auto simp: read_side_def\<close>)
  have rd3: "read_inv es s3" "upd_inv (Some es) s3" "req_inv [] s3" using s3(2) by (simp_all add: svc_inv_pair)
  obtain s4 where s4: "tcp_service_events_release s3 = Some (TN_SUCCESS, s4)" "read_inv [] s4" "upd_inv None s4" "read_side s3 s4"
    by (rule release_ok [OF rd3(1,2)])
  have range: "\<forall>x \<in> set es. x < length (sv_evts s2)"
    using conserved_disjoint(3) [OF read_invD(2) [OF s2(2)]] event_invD(1) [OF read_invD(1) [OF s2(2)]] by (simp add: ev_busy_def)
  moreover have "\<forall>x \<in> set ?es0. ev_type (sv_evts s2 ! x) \<noteq> TN_EVENT_CLIENT_READ"
    using assms(7) s1(9) s2(7) by simp
  ultimately have "handle_events es s2 = Some s3"
    using s3(1) s1(5) s2(7) es by (simp add: handle_events_skip)
  then have "main_tick s1 = Some s4"
    using s2(1) upd len s4(1) by (simp add: main_tick_def)
  moreover have "svc_inv (s4, None)" using s4(2-4) rd3(3) req_inv_read_side [OF s4(4), of "[]"] by (simp add: svc_inv_pair)
  moreover have "req_ready s4 = req_ready s @ [r]" "sv_write_reqs s4 = sv_write_reqs s3"
    using s4(4) s3(3) s1(3) k(5) by (simp_all add: read_side_def)
  ultimately show ?thesis using s1(1) s3(4,5) release_mem [OF s4(1)] by metis
qed

theorem echo_end_to_end_witness:
  "\<exists>s0 s s1 s2 r. tcp_service_setup alloc_sample svc_blank = Some (TN_SUCCESS, s0) \<and> on_connection_cb 0 (conn_sample 1) s0 = Some s \<and>
    uv_read_handle 1 (UvData [5, 6]) s = Some s1 \<and> main_tick s1 = Some s2 \<and> wr_channel (sv_write_reqs s2 ! r) = 9999 \<and>
    mem_read (sv_mem s2) (wr_uv_base (sv_write_reqs s2 ! r)) (unat (wr_uv_len (sv_write_reqs s2 ! r))) = [5, 6]"
proof -
  obtain s0 s where s: "tcp_service_setup alloc_sample svc_blank = Some (TN_SUCCESS, s0)"
      "on_connection_cb 0 (conn_sample 1) s0 = Some s" "svc_inv (s, None)" "uv_data (sv_uv s) 1 = Some 9999"
      "ch_read_buffer (sv_chans s ! 9999) = None" "pool_free (sv_pool_read s) = [0..<40000]" "\<exists>es. ev_free (sv_events s) = 1 # 2 # es"
      "bp_block_size (sv_pool_read s) = 65535" "req_free s \<noteq> []" "bp_block_size (sv_pool_write s) = 65535"
      "ev_ready (sv_events s) = [0]" "ev_type (sv_evts s ! 0) = TN_EVENT_CLIENT_OPEN"
    by (rule sample_connected)
  have "pool_free (sv_pool_read s) \<noteq> []" unfolding s(6) by simp
  moreover have "ev_free (sv_events s) \<noteq> []" using s(7) by (metis list.distinct(1))
  moreover have "length (ev_ready (sv_events s)) < 40000" unfolding s(11) by simp
  moreover have "\<forall>e \<in> set (ev_ready (sv_events s)). ev_type (sv_evts s ! e) \<noteq> TN_EVENT_CLIENT_READ" unfolding s(11) using s(12) by simp
  ultimately show ?thesis using echo_end_to_end [OF s(3-5) _ _ _ _ s(9), of "[5, 6]"] s(1,2,8,10) by fastforce
qed

text \<open>
  Property C0. The main loop of the echo server ends only when the service is stopping, and then
  \<open>tcp_service_stop\<close> refuses: \<open>main\<close> returns an error, the IO thread is not joined and nothing is cleaned up.
\<close>

theorem main_never_cleans_up:
  "\<not> main_running s \<Longrightarrow> main_finish s = Some (TN_ERROR, s)"
  by (simp add: main_running_def main_finish_def tcp_service_stop_def)

theorem main_never_cleans_up_witness:
  "main_finish (svc_blank\<lparr>sv_state := TCP_SERVICE_STOPPING\<rparr>) = Some (TN_ERROR, svc_blank\<lparr>sv_state := TCP_SERVICE_STOPPING\<rparr>)"
  by (rule main_never_cleans_up) (simp add: main_running_def)



end
