(* ===== verification/Tn_Decimal.thy ===== *)
theory Tn_Decimal
  imports Tn_Prelude
begin

text \<open>
  Numbers as text: \<open>atoi\<close> and the decimal notation of \<open>printf\<close>, and that reading undoes printing.
\<close>

section \<open>Reading\<close>

definition is_space :: "char \<Rightarrow> bool" where
  "is_space c \<longleftrightarrow> of_char c = (32 :: nat) \<or> (9 \<le> (of_char c :: nat) \<and> (of_char c :: nat) \<le> 13)"

definition digit_val :: "char \<Rightarrow> nat" where
  "digit_val c = of_char c - 48"

definition is_digit :: "char \<Rightarrow> bool" where
  "is_digit c \<longleftrightarrow> 48 \<le> (of_char c :: nat) \<and> (of_char c :: nat) \<le> 57"

fun digits_val :: "int \<Rightarrow> string \<Rightarrow> int" where
  "digits_val n [] = n"
| "digits_val n (c # s) = (if is_digit c then digits_val (10 * n + int (digit_val c)) s else n)"

text \<open>\<open>atoi\<close> on strings whose value fits into an \<open>int\<close>.\<close>

definition atoi :: "string \<Rightarrow> int" where
  "atoi s = (case dropWhile is_space s of [] \<Rightarrow> 0
     | c # r \<Rightarrow> if c = CHR ''-'' then - digits_val 0 r else if c = CHR ''+'' then digits_val 0 r else digits_val 0 (c # r))"

section \<open>Printing\<close>

text \<open>What \<open>%u\<close> prints.\<close>

fun dec :: "nat \<Rightarrow> string" where
  "dec n = (if n < 10 then [char_of (48 + n)] else dec (n div 10) @ [char_of (48 + n mod 10)])"

declare dec.simps [simp del]

lemma digit_char: "n < 10 \<Longrightarrow> is_digit (char_of (48 + n)) \<and> digit_val (char_of (48 + n)) = n"
  by (simp add: is_digit_def digit_val_def of_char_of take_bit_eq_mod)

lemma dec_digits: "c \<in> set (dec n) \<Longrightarrow> is_digit c"
proof (induction n rule: dec.induct)
  case (1 n)
  then show ?case using digit_char [of n] digit_char [of "n mod 10"] by (auto simp: dec.simps [of n] split: if_splits)
qed

lemma digits_val_append: "(\<And>c. c \<in> set s \<Longrightarrow> is_digit c) \<Longrightarrow> digits_val n (s @ t) = digits_val (digits_val n s) t"
  by (induction s arbitrary: n) auto

lemma digits_val_dec: "digits_val 0 (dec n) = int n"
proof (induction n rule: dec.induct)
  case (1 n)
  show ?case
  proof (cases "n < 10")
    case True
    then show ?thesis using digit_char [OF True] by (simp add: dec.simps [of n])
  next
    case False
    have "digits_val 0 (dec n) = digits_val (digits_val 0 (dec (n div 10))) [char_of (48 + n mod 10)]"
      using False dec_digits [of _ "n div 10"] by (subst dec.simps) (simp add: digits_val_append)
    also have "\<dots> = 10 * int (n div 10) + int (n mod 10)" using 1 [OF False] digit_char [of "n mod 10"] by simp
    also have "\<dots> = int (10 * (n div 10) + n mod 10)" by (simp only: of_nat_add of_nat_mult of_nat_numeral)
    finally show ?thesis by (simp only: mult_div_mod_eq)
  qed
qed

lemma dec_nonempty: "dec n \<noteq> []"
  by (subst dec.simps) simp

lemma digit_plain: "is_digit c \<Longrightarrow> \<not> is_space c \<and> c \<noteq> CHR ''-'' \<and> c \<noteq> CHR ''+'' \<and> c \<noteq> CHR '':''"
  by (auto simp: is_digit_def is_space_def)

lemma atoi_dec: "atoi (dec n) = int n"
proof -
  obtain c r where c: "dec n = c # r" using dec_nonempty by (cases "dec n") auto
  then have "\<not> is_space c" "c \<noteq> CHR ''-''" "c \<noteq> CHR ''+''" using dec_digits [of c n] digit_plain by auto
  then show ?thesis using digits_val_dec [of n] c by (simp add: atoi_def)
qed

lemma length_dec: "n < 10 ^ k \<Longrightarrow> 0 < k \<Longrightarrow> length (dec n) \<le> k"
proof (induction k arbitrary: n)
  case (Suc k)
  show ?case
  proof (cases "n < 10")
    case True
    then show ?thesis by (subst dec.simps) simp
  next
    case False
    then have "n div 10 < 10 ^ k" "0 < k" using Suc.prems by (auto simp: less_mult_imp_div_less mult.commute intro: Nat.gr0I)
    from Suc.IH [OF this] False show ?thesis by (subst dec.simps) simp
  qed
qed simp

end
