(* ===== verification/Tn_Runtime.thy ===== *)
theory Tn_Runtime
  imports Tn_Machine Tn_Time Tn_Decimal
begin

text \<open>
  The small modules that wrap the platform: the allocator (\<open>src/allocator.c\<close>), uuids (\<open>src/uuid.c\<close>), threads (\<open>src/thread.c\<close> on
  \<open>posix/thread.c\<close> of aws-c-common) with the number of workers kept in the environment, and the CPU count (\<open>src/system.c\<close>).
  Results of pthread calls and allocations are inputs.
\<close>

section \<open>Allocators\<close>

text \<open>A function pointer: NULL, not initialised, the default function or one of the client.\<close>

datatype fn_ptr = FN_NULL | FN_UNSET | FN_DEFAULT | FN_CLIENT

record tn_allocator =
  ac_acquire_fn :: fn_ptr
  ac_release_fn :: fn_ptr
  ac_release_ptr_fn :: fn_ptr

definition tn_default_allocator :: tn_allocator where
  "tn_default_allocator = \<lparr>ac_acquire_fn = FN_DEFAULT, ac_release_fn = FN_DEFAULT, ac_release_ptr_fn = FN_DEFAULT\<rparr>"

definition tn_aws_default_acquire :: "bool \<Rightarrow> heap_ptr" where
  "tn_aws_default_acquire ok = block ok"

definition tn_aws_default_release :: "heap_ptr \<Rightarrow> heap_ptr option" where
  "tn_aws_default_release p = (if p = PTR_NULL then Some p else release_block p)"

definition tn_allocator_default_acquire :: "bool \<Rightarrow> heap_ptr" where
  "tn_allocator_default_acquire ok = (let mem = tn_aws_default_acquire ok in if mem = PTR_NULL then PTR_NULL else mem)"

definition tn_allocator_default_release :: "heap_ptr \<Rightarrow> heap_ptr option" where
  "tn_allocator_default_release p = (if p = PTR_NULL then Some p else tn_aws_default_release p)"

text \<open>The argument is a pointer to the pointer, None when that is NULL; the pointer is reset.\<close>

definition tn_allocator_default_release_ptr :: "heap_ptr option \<Rightarrow> (heap_ptr option) option" where
  "tn_allocator_default_release_ptr p =
     (case p of None \<Rightarrow> Some None
      | Some q \<Rightarrow> if q = PTR_NULL then Some (Some q) else do { _ \<leftarrow> tn_aws_default_release q; Some (Some PTR_NULL) })"

text \<open>A new allocator has the content of fresh memory.\<close>

definition tn_allocator_new :: "bool \<Rightarrow> tn_allocator option" where
  "tn_allocator_new ok = (if ok then Some \<lparr>ac_acquire_fn = FN_UNSET, ac_release_fn = FN_UNSET, ac_release_ptr_fn = FN_UNSET\<rparr> else None)"

definition tn_allocator_delete :: "heap_ptr option \<Rightarrow> (heap_ptr option) option" where
  "tn_allocator_delete p =
     (case p of None \<Rightarrow> Some None
      | Some q \<Rightarrow> if q = PTR_NULL then Some (Some q) else do { _ \<leftarrow> tn_aws_default_release q; Some (Some PTR_NULL) })"

definition tn_allocator_setup :: "tn_allocator option \<Rightarrow> bool \<Rightarrow> bool \<Rightarrow> int \<times> tn_allocator option" where
  "tn_allocator_setup allocator acquire_fn release_fn =
     (case allocator of None \<Rightarrow> (TN_ERROR, None)
      | Some a \<Rightarrow>
        let a = a\<lparr>ac_acquire_fn := (if acquire_fn then FN_CLIENT else FN_DEFAULT)\<rparr>;
            a = a\<lparr>ac_release_fn := (if release_fn then FN_CLIENT else FN_DEFAULT)\<rparr>
        in (TN_SUCCESS, Some a))"

definition tn_allocator_cleanup :: "tn_allocator \<Rightarrow> int" where
  "tn_allocator_cleanup a = TN_SUCCESS"

text \<open>Calls through a function pointer; what the client's functions do is a parameter.\<close>

definition tn_allocator_acquire :: "(unit \<Rightarrow> heap_ptr option) \<Rightarrow> bool \<Rightarrow> tn_allocator option \<Rightarrow> heap_ptr option" where
  "tn_allocator_acquire client ok allocator =
     (case allocator of None \<Rightarrow> Some PTR_NULL
      | Some a \<Rightarrow> (case ac_acquire_fn a of FN_NULL \<Rightarrow> Some PTR_NULL | FN_UNSET \<Rightarrow> None
          | FN_DEFAULT \<Rightarrow> Some (tn_allocator_default_acquire ok) | FN_CLIENT \<Rightarrow> client ()))"

definition tn_allocator_release :: "(heap_ptr \<Rightarrow> heap_ptr option) \<Rightarrow> tn_allocator option \<Rightarrow> heap_ptr \<Rightarrow> heap_ptr option" where
  "tn_allocator_release client allocator p =
     (case allocator of None \<Rightarrow> Some p
      | Some a \<Rightarrow> (case ac_release_fn a of FN_NULL \<Rightarrow> Some p | FN_UNSET \<Rightarrow> None
          | FN_DEFAULT \<Rightarrow> tn_allocator_default_release p | FN_CLIENT \<Rightarrow> client p))"

definition tn_allocator_release_ptr ::
  "(heap_ptr option \<Rightarrow> (heap_ptr option) option) \<Rightarrow> tn_allocator option \<Rightarrow> heap_ptr option \<Rightarrow> (heap_ptr option) option" where
  "tn_allocator_release_ptr client allocator p =
     (case allocator of None \<Rightarrow> Some p
      | Some a \<Rightarrow> if ac_release_fn a = FN_NULL then Some p
        else (case ac_release_ptr_fn a of FN_NULL \<Rightarrow> None | FN_UNSET \<Rightarrow> None
          | FN_DEFAULT \<Rightarrow> tn_allocator_default_release_ptr p | FN_CLIENT \<Rightarrow> client p))"

section \<open>Uuids\<close>

text \<open>A uuid is its 16 bytes, None a NULL pointer. The result of filling it with random bytes and the bytes it holds then are inputs.\<close>

definition tn_uuid_new :: "bool \<Rightarrow> heap_ptr" where
  "tn_uuid_new ok = tn_allocator_default_acquire ok"

definition tn_uuid_delete :: "heap_ptr option \<Rightarrow> (heap_ptr option) option" where
  "tn_uuid_delete p = tn_allocator_release_ptr (\<lambda>_. None) (Some tn_default_allocator) p"

definition tn_uuid_generate :: "int \<Rightarrow> u8 list \<Rightarrow> u8 list option \<Rightarrow> int \<times> u8 list option" where
  "tn_uuid_generate rc random uuid = (case uuid of None \<Rightarrow> (TN_ERROR, None) | Some u \<Rightarrow> (rc, Some random))"

definition tn_uuid_clear :: "u8 list option \<Rightarrow> int \<times> u8 list option" where
  "tn_uuid_clear uuid = (case uuid of None \<Rightarrow> (TN_ERROR, None) | Some u \<Rightarrow> (TN_SUCCESS, Some (replicate 16 0)))"

definition aws_uuid_equals :: "u8 list \<Rightarrow> u8 list \<Rightarrow> bool" where
  "aws_uuid_equals a b \<longleftrightarrow> a = b"

definition tn_uuid_compare :: "u8 list option \<Rightarrow> u8 list option \<Rightarrow> int" where
  "tn_uuid_compare uuid1 uuid2 =
     (if uuid1 = None \<and> uuid2 = None then TN_SUCCESS
      else case (uuid1, uuid2) of (Some a, Some b) \<Rightarrow> (if aws_uuid_equals a b then 1 else 0) | _ \<Rightarrow> TN_ERROR)"

section \<open>Threads\<close>

definition AWS_THREAD_NOT_CREATED :: int where [simp]: "AWS_THREAD_NOT_CREATED = 1"
definition AWS_THREAD_JOINABLE :: int where [simp]: "AWS_THREAD_JOINABLE = 2"
definition AWS_THREAD_JOIN_COMPLETED :: int where [simp]: "AWS_THREAD_JOIN_COMPLETED = 3"

definition EINVAL_errno :: int where [simp]: "EINVAL_errno = 22"
definition EAGAIN_errno :: int where [simp]: "EAGAIN_errno = 11"
definition EPERM_errno :: int where [simp]: "EPERM_errno = 1"
definition ENOMEM_errno :: int where [simp]: "ENOMEM_errno = 12"
definition ESRCH_errno :: int where [simp]: "ESRCH_errno = 3"
definition EDEADLK_errno :: int where [simp]: "EDEADLK_errno = 35"

datatype tn_thread_state = TN_THREAD_NEW | TN_THREAD_READY | TN_THREAD_JOINABLE | TN_THREAD_JOINED

text \<open>\<open>th_running\<close> says whether a thread was created that is neither joined nor detached.\<close>

record tn_thread =
  th_detach_state :: int
  th_thread_id :: u64
  th_running :: bool

record launch_env =
  le_attr_init :: int
  le_wrapper :: bool
  le_create :: int
  le_id :: u64

definition aws_thread_init :: "tn_thread \<Rightarrow> int \<times> tn_thread" where
  "aws_thread_init thread = (AWS_OP_SUCCESS, thread\<lparr>th_thread_id := 0, th_detach_state := AWS_THREAD_NOT_CREATED\<rparr>)"

text \<open>The code for a failure of the pthread calls; other numbers are not failures for it.\<close>

definition launch_code :: "bool \<Rightarrow> int \<Rightarrow> int" where
  "launch_code allocation_failed attr_return =
     (if attr_return = EINVAL_errno then AWS_OP_ERR
      else if attr_return = EAGAIN_errno then AWS_OP_ERR
      else if attr_return = EPERM_errno then AWS_OP_ERR
      else if allocation_failed \<or> attr_return = ENOMEM_errno then AWS_OP_ERR
      else AWS_OP_SUCCESS)"

text \<open>The options are the default ones, whose stack size 0 is not set. The last result says whether the wrapper block is lost.\<close>

definition aws_thread_launch :: "launch_env \<Rightarrow> tn_thread \<Rightarrow> int \<times> tn_thread \<times> bool" where
  "aws_thread_launch env thread =
     (if le_attr_init env \<noteq> 0 then (launch_code False (le_attr_init env), thread, False)
      else if \<not> le_wrapper env then (launch_code True 0, thread, False)
      else if le_create env \<noteq> 0 then (launch_code False (le_create env), thread, True)
      else (launch_code False 0, thread\<lparr>th_thread_id := le_id env, th_detach_state := AWS_THREAD_JOINABLE, th_running := True\<rparr>, False))"

text \<open>The result of \<open>pthread_join\<close> is an input, None when the thread does not end.\<close>

definition aws_thread_join :: "int option \<Rightarrow> tn_thread \<Rightarrow> (int \<times> tn_thread) option" where
  "aws_thread_join join thread =
     (if th_detach_state thread = AWS_THREAD_JOINABLE then do {
        err_no \<leftarrow> join;
        if err_no = EINVAL_errno \<or> err_no = ESRCH_errno \<or> err_no = EDEADLK_errno then Some (AWS_OP_ERR, thread)
        else Some (AWS_OP_SUCCESS, thread\<lparr>th_detach_state := AWS_THREAD_JOIN_COMPLETED, th_running := False\<rparr>)
      } else Some (AWS_OP_SUCCESS, thread))"

definition aws_thread_clean_up :: "tn_thread \<Rightarrow> tn_thread" where
  "aws_thread_clean_up thread = (if th_detach_state thread = AWS_THREAD_JOINABLE then thread\<lparr>th_running := False\<rparr> else thread)"

definition tn_thread_setup :: "tn_thread \<Rightarrow> int \<times> tn_thread" where
  "tn_thread_setup thread = aws_thread_init thread"

definition tn_thread_launch :: "launch_env \<Rightarrow> tn_thread \<Rightarrow> int \<times> tn_thread \<times> bool" where
  "tn_thread_launch env thread = aws_thread_launch env (snd (tn_thread_setup thread))"

definition tn_thread_get_id :: "tn_thread \<Rightarrow> u64" where
  "tn_thread_get_id thread = th_thread_id thread"

text \<open>The id of the calling thread is the one the system gives it.\<close>

definition tn_thread_id :: "u64 \<Rightarrow> u64" where
  "tn_thread_id self = self"

text \<open>The enum of aws-c-common read as the one of \<open>thread.h\<close>; other numbers are no value of it.\<close>

definition tn_thread_get_state :: "tn_thread \<Rightarrow> tn_thread_state option" where
  "tn_thread_get_state thread =
     (if th_detach_state thread = 0 then Some TN_THREAD_NEW
      else if th_detach_state thread = 1 then Some TN_THREAD_READY
      else if th_detach_state thread = 2 then Some TN_THREAD_JOINABLE
      else if th_detach_state thread = 3 then Some TN_THREAD_JOINED
      else None)"

definition tn_thread_join :: "int option \<Rightarrow> tn_thread \<Rightarrow> (int \<times> tn_thread) option" where
  "tn_thread_join join thread = aws_thread_join join thread"

definition tn_thread_cleanup :: "tn_thread \<Rightarrow> tn_thread" where
  "tn_thread_cleanup thread = aws_thread_clean_up thread"

text \<open>Sleeping: seconds and nanoseconds given to \<open>nanosleep\<close>.\<close>

definition tn_thread_sleep :: "u64 \<Rightarrow> u64 \<times> u64" where
  "tn_thread_sleep ns = (case aws_timestamp_convert ns AWS_TIMESTAMP_NANOS AWS_TIMESTAMP_SECS True of
     (seconds, nano) \<Rightarrow> (seconds, case nano of None \<Rightarrow> 0 | Some n \<Rightarrow> n))"

section \<open>The number of workers\<close>

text \<open>The environment of the process; \<open>setenv\<close> may fail.\<close>

type_synonym environment = "string \<Rightarrow> string option"

definition UV_ENOENT :: int where [simp]: "UV_ENOENT = -2"
definition UV_ENOBUFS :: int where [simp]: "UV_ENOBUFS = -105"
definition TN_WORKERS_MAX :: u32 where [simp]: "TN_WORKERS_MAX = 128"

definition uv_os_getenv :: "environment \<Rightarrow> string \<Rightarrow> nat \<Rightarrow> int \<times> string option" where
  "uv_os_getenv env name sz =
     (case env name of None \<Rightarrow> (UV_ENOENT, None)
      | Some var \<Rightarrow> if length var \<ge> sz then (UV_ENOBUFS, None) else (0, Some var))"

definition uv_os_setenv :: "int \<Rightarrow> environment \<Rightarrow> string \<Rightarrow> string \<Rightarrow> int \<times> environment" where
  "uv_os_setenv rc env name v = (if rc \<noteq> 0 then (rc, env) else (0, env(name \<mapsto> v)))"

text \<open>A number in the variable that is not an \<open>int\<close> has no defined value for \<open>atoi\<close>.\<close>

definition tn_thread_workers :: "environment \<Rightarrow> u32 option" where
  "tn_thread_workers env =
     (case uv_os_getenv env ''UV_THREADPOOL_SIZE'' 255 of (rc, buf) \<Rightarrow>
        if rc \<noteq> 0 then Some 4
        else do {
          buf \<leftarrow> buf;
          let rv = atoi buf;
          tn_assert (- (2 ^ 31) \<le> rv \<and> rv < 2 ^ 31);
          if rv \<le> 0 then Some 4 else Some (word_of_int rv)
        })"

definition tn_thread_set_workers :: "int \<Rightarrow> environment \<Rightarrow> u32 \<Rightarrow> int \<times> environment" where
  "tn_thread_set_workers rc env n_workers =
     (if n_workers = 0 then (TN_ERROR, env)
      else if n_workers > TN_WORKERS_MAX then (TN_ERROR, env)
      else case uv_os_setenv rc env ''UV_THREADPOOL_SIZE'' (take 254 (dec (unat n_workers))) of (ret, env) \<Rightarrow>
        if ret \<noteq> 0 then (TN_ERROR, env) else (TN_SUCCESS, env))"

section \<open>The system\<close>

record tn_system =
  sy_priv :: heap_ptr
  sy_cpu_info :: heap_ptr
  sy_cpu_count :: u32

text \<open>The two fields of the private struct are those behind \<open>sy_priv\<close>. The results of \<open>uv_cpu_info\<close> are inputs; it allocates the information when it succeeds.\<close>

definition tn_system_setup :: "bool \<Rightarrow> int \<Rightarrow> int \<Rightarrow> tn_system \<Rightarrow> int \<times> tn_system" where
  "tn_system_setup ok rc cpu_count system =
     (if \<not> ok then (TN_ERROR, system)
      else let system = \<lparr>sy_priv = PTR_VALID, sy_cpu_info = PTR_NULL, sy_cpu_count = 0\<rparr> in
      if rc \<noteq> 0 then (TN_ERROR, system)
      else (TN_SUCCESS, system\<lparr>sy_cpu_info := PTR_VALID, sy_cpu_count := word_of_int cpu_count\<rparr>))"

definition tn_system_cleanup :: "tn_system \<Rightarrow> tn_system option" where
  "tn_system_cleanup system = do {
     tn_assert (sy_priv system = PTR_VALID);
     info \<leftarrow> (if sy_cpu_info system \<noteq> PTR_NULL then release_block (sy_cpu_info system) else Some PTR_NULL);
     priv \<leftarrow> release_block (sy_priv system);
     Some (system\<lparr>sy_priv := priv, sy_cpu_info := info\<rparr>)
   }"

definition tn_system_cpu_count :: "tn_system \<Rightarrow> u32 option" where
  "tn_system_cpu_count system = do {
     tn_assert (sy_priv system = PTR_VALID);
     Some (sy_cpu_count system)
   }"

section \<open>Properties\<close>

lemma set_workers:
  "tn_thread_set_workers 0 env n =
     (if 1 \<le> unat n \<and> unat n \<le> 128 then (TN_SUCCESS, env(''UV_THREADPOOL_SIZE'' \<mapsto> dec (unat n))) else (TN_ERROR, env))"
proof -
  have "n = 0 \<longleftrightarrow> \<not> 1 \<le> unat n" by (auto simp: unsigned_eq_0_iff not_le)
  moreover have "n > TN_WORKERS_MAX \<longleftrightarrow> \<not> unat n \<le> 128" by (auto simp: word_less_nat_alt)
  moreover have "length (dec (unat n)) \<le> 3" if "unat n \<le> 128" using that by (intro length_dec) simp_all
  ultimately show ?thesis by (auto simp: tn_thread_set_workers_def uv_os_setenv_def)
qed

lemma workers_read:
  assumes "1 \<le> unat n" and "unat n \<le> 128"
  shows "tn_thread_workers (env(''UV_THREADPOOL_SIZE'' \<mapsto> dec (unat n))) = Some n"
proof -
  have "length (dec (unat n)) \<le> 3" using assms(2) by (intro length_dec) simp_all
  moreover have "int (unat n) < 2147483648" "0 < int (unat n)" using assms by linarith+
  moreover have "word_of_int (int (unat n)) = n" by simp
  ultimately show ?thesis by (simp add: tn_thread_workers_def uv_os_getenv_def atoi_dec Let_def)
qed

text \<open>The number of workers can be set to 1 to 128; it is read back as it was set, any other number is refused and the
environment stays as it is, and without a setting there are four.\<close>

theorem workers_round_trip:
  "tn_thread_set_workers 0 env n =
     (if 1 \<le> unat n \<and> unat n \<le> 128
      then (TN_SUCCESS, env(''UV_THREADPOOL_SIZE'' \<mapsto> dec (unat n))) else (TN_ERROR, env)) \<and>
   (1 \<le> unat n \<and> unat n \<le> 128 \<longrightarrow> tn_thread_workers (snd (tn_thread_set_workers 0 env n)) = Some n) \<and>
   tn_thread_workers (\<lambda>_. None) = Some 4"
  using set_workers [of env n] workers_read [of n env] by (simp add: tn_thread_workers_def uv_os_getenv_def)

theorem workers_round_trip_witness:
  "1 \<le> unat (16 :: u32) \<and> unat (16 :: u32) \<le> 128 \<and> tn_thread_workers (snd (tn_thread_set_workers 0 (\<lambda>_. None) 16)) = Some 16"
proof -
  have "1 \<le> unat (16 :: u32)" and "unat (16 :: u32) \<le> 128" by simp_all
  then show ?thesis using workers_round_trip [of "\<lambda>_. None" 16] by blast
qed

inductive thread_reach :: "tn_thread \<Rightarrow> bool" where
  reach_setup: "\<not> th_running t \<Longrightarrow> thread_reach (snd (tn_thread_setup t))"
| reach_launch: "thread_reach t \<Longrightarrow> \<not> th_running t \<Longrightarrow> thread_reach (fst (snd (tn_thread_launch env t)))"
| reach_join: "thread_reach t \<Longrightarrow> tn_thread_join join t = Some (rc, t') \<Longrightarrow> thread_reach t'"
| reach_cleanup: "thread_reach t \<Longrightarrow> thread_reach (tn_thread_cleanup t)"



text \<open>Launching reports success without a thread when \<open>pthread_create\<close> fails with a code that aws-c-common does not list, and a failed
\<open>pthread_create\<close> loses the block with the function and its argument.\<close>

lemma launch_success_without_thread:
  assumes "le_attr_init env = 0" and "le_wrapper env" and "le_create env \<notin> {0, 1, 11, 12, 22}" and "\<not> th_running thread"
  shows "\<exists>t. tn_thread_launch env thread = (AWS_OP_SUCCESS, t, True) \<and> \<not> th_running t"
  using assms by (auto simp: tn_thread_launch_def tn_thread_setup_def aws_thread_init_def aws_thread_launch_def launch_code_def)

text \<open>Comparing uuids gives 0, the success code, exactly when they differ.\<close>

lemma uuid_compare_inverted:
  "tn_uuid_compare (Some a) (Some b) = TN_SUCCESS \<longleftrightarrow> a \<noteq> b"
  by (simp add: tn_uuid_compare_def aws_uuid_equals_def)

text \<open>An allocator that was set up has no function to release through a pointer, so calling it has no defined effect; the default
allocator releases once and resets the pointer.\<close>

lemma set_up_allocator_cannot_release_ptr:
  "tn_allocator_new True = Some a \<Longrightarrow> tn_allocator_setup (Some a) f g = (TN_SUCCESS, Some b) \<Longrightarrow>
   tn_allocator_release_ptr client (Some b) p = None \<and>
   tn_allocator_release_ptr client (Some tn_default_allocator) (Some PTR_VALID) = Some (Some PTR_NULL)"
  by (auto simp: tn_allocator_new_def tn_allocator_setup_def tn_allocator_release_ptr_def tn_default_allocator_def
      tn_allocator_default_release_ptr_def tn_aws_default_release_def release_block_def split: if_splits)

text \<open>Cleaning up releases everything that a setup allocated, also one that failed halfway; a second cleanup follows a dangling pointer.\<close>

lemma system_cleanup_once:
  assumes "tn_system_setup True rc n system = (ret, s)"
  shows "\<exists>info. tn_system_cleanup s = Some (s\<lparr>sy_priv := PTR_DANGLING, sy_cpu_info := info\<rparr>) \<and> info \<noteq> PTR_VALID \<and>
    tn_system_cleanup (s\<lparr>sy_priv := PTR_DANGLING, sy_cpu_info := info\<rparr>) = None"
  using assms by (auto simp: tn_system_setup_def tn_system_cleanup_def release_block_def Let_def split: if_splits)

end
