(* ===== verification/Tn_Serv_Main.thy ===== *)
theory Tn_Serv_Main
  imports Tn_Unity Tn_Runtime
begin

text \<open>
  How \<open>main\<close> of the echo server (\<open>src/tcpserv/tcpserv_unity.c\<close>) starts: the system information, the number of workers taken from the
  number of CPUs, the service and its IO thread. The result is the code with which \<open>main\<close> returns, or none when it enters its loop.
\<close>

record serv_env =
  ve_priv :: bool
  ve_cpu_info :: int
  ve_cpu_count :: int
  ve_setenv :: int
  ve_alloc :: svc_alloc
  ve_endpoint :: "int \<times> tn_endpoint"
  ve_string :: int
  ve_launch :: int

definition serv_main_start ::
  "serv_env \<Rightarrow> tn_system \<Rightarrow> environment \<Rightarrow> tcp_service \<Rightarrow> (int option \<times> tn_system \<times> environment \<times> tcp_service) option" where
  "serv_main_start env system vars s = do {
     let (rc, system) = tn_system_setup (ve_priv env) (ve_cpu_info env) (ve_cpu_count env) system;
     if rc \<noteq> 0 then Some (Some TN_ERROR, system, vars, s)
     else do {
       cores \<leftarrow> tn_system_cpu_count system;
       let vars = snd (tn_thread_set_workers (ve_setenv env) vars cores);
       (rc, s) \<leftarrow> tcp_service_setup (ve_alloc env) s;
       if rc \<noteq> 0 then Some (Some TN_ERROR, system, vars, s)
       else case tcp_service_start (ve_endpoint env) (ve_string env) (ve_launch env) s of
         (rc, s) \<Rightarrow> Some (if rc \<noteq> 0 then Some TN_ERROR else None, system, vars, s)
     }
   }"

text \<open>
  A service that can be set up and started on a machine with 1 to 128 CPUs runs with as many workers; on a larger machine the number of
  workers stays what it was, and the failure is not noticed. When the start fails, the service and the information about the system are
  left allocated.
\<close>

lemma serv_start_workers:
  assumes "ve_priv env" and "ve_cpu_info env = 0" and "0 < ve_cpu_count env" and "ve_cpu_count env < 2 ^ 31" and "ve_setenv env = 0"
    and "alloc_ok (ve_alloc env)"
  shows "\<exists>system vars' s'.
    serv_main_start env system0 vars s =
      Some (if fst (ve_endpoint env) = 0 \<and> ve_string env = 0 \<and> ve_launch env = 0 then None else Some TN_ERROR, system, vars', s') \<and>
    tn_system_cpu_count system = Some (word_of_int (ve_cpu_count env)) \<and> sv_state s' = TCP_SERVICE_STARTING \<and>
    (if ve_cpu_count env \<le> 128 then tn_thread_workers vars' = Some (word_of_int (ve_cpu_count env)) else vars' = vars)"
proof -
  let ?n = "word_of_int (ve_cpu_count env) :: u32"
  have "uint ?n = ve_cpu_count env" using assms(3,4) by (simp add: unsigned_of_int take_bit_int_eq_self)
  then have n: "unat ?n = nat (ve_cpu_count env)" by (metis nat_uint_eq)
  obtain s1 where s1: "tcp_service_setup (ve_alloc env) s = Some (TN_SUCCESS, s1)" "sv_state s1 = TCP_SERVICE_NEW"
    by (rule service_setup_ok [OF assms(6)]) blast
  let ?vars = "snd (tn_thread_set_workers 0 vars ?n)"
  have w: "if ve_cpu_count env \<le> 128 then tn_thread_workers ?vars = Some ?n else ?vars = vars"
  proof -
    have "1 \<le> nat (ve_cpu_count env)" using assms(3) by linarith
    then show ?thesis using workers_read [of ?n vars] by (simp add: set_workers n nat_le_iff)
  qed
  show ?thesis
    using assms(1,2,5) s1 w by (cases "ve_endpoint env")
      (simp add: serv_main_start_def tn_system_setup_def tn_system_cpu_count_def tcp_service_start_def tcp_service_set_state_def Let_def)
qed

end
