(* ===== verification/Tn_Io_Thread.thy ===== *)
theory Tn_Io_Thread
  imports Tn_Service_Props
begin

text \<open>
  The IO thread of the service, \<open>tcp_service_io_thread\<close> of \<open>src/tcp_service.c\<close>, and the callbacks of
  \<open>src/tcp_service_internal.c\<close> that control its loop. The blocks the thread allocates are kept as heap
  pointers; for the four handles of the loop it is recorded whether \<open>uv_close\<close> was called. The
  results of allocations and libuv calls are inputs, and so are what \<open>uv_run\<close> does to the service and
  the client handles \<open>uv_walk\<close> finds.
\<close>

record tcp_service_priv =
  pv_uv_loop :: heap_ptr
  pv_tcp_handle :: heap_ptr
  pv_uv_accept_timer :: heap_ptr
  pv_uv_prep :: heap_ptr
  pv_uv_check :: heap_ptr
  pv_uv_signal :: heap_ptr

record io_env =
  io_alloc_loop :: bool
  io_alloc_tcp :: bool
  io_alloc_timer :: bool
  io_alloc_prep :: bool
  io_alloc_check :: bool
  io_alloc_signal :: bool
  io_loop_init :: int
  io_timer_init :: int
  io_timer_start :: int
  io_prepare_init :: int
  io_prepare_start :: int
  io_check_init :: int
  io_check_start :: int
  io_tcp_init :: int
  io_tcp_nodelay :: int
  io_tcp_bind :: int
  io_listen :: int
  io_loop_close :: int
  io_walk :: "nat list"
  io_loop_close_again :: int

definition acquire_blocks :: "io_env \<Rightarrow> tcp_service_priv \<Rightarrow> bool \<times> tcp_service_priv" where
  "acquire_blocks env p =
     (let p = p\<lparr>pv_uv_loop := block (io_alloc_loop env)\<rparr> in
      if pv_uv_loop p = PTR_NULL then (False, p) else
      let p = p\<lparr>pv_tcp_handle := block (io_alloc_tcp env)\<rparr> in
      if pv_tcp_handle p = PTR_NULL then (False, p) else
      let p = p\<lparr>pv_uv_accept_timer := block (io_alloc_timer env)\<rparr> in
      if pv_uv_accept_timer p = PTR_NULL then (False, p) else
      let p = p\<lparr>pv_uv_prep := block (io_alloc_prep env)\<rparr> in
      if pv_uv_prep p = PTR_NULL then (False, p) else
      let p = p\<lparr>pv_uv_check := block (io_alloc_check env)\<rparr> in
      if pv_uv_check p = PTR_NULL then (False, p) else
      let p = p\<lparr>pv_uv_signal := block (io_alloc_signal env)\<rparr> in
      if pv_uv_signal p = PTR_NULL then (False, p) else (True, p))"

text \<open>The calls that prepare the loop and the listener; the first code that is not 0 ends them.\<close>

definition start_listener :: "io_env \<Rightarrow> int" where
  "start_listener env =
     (if io_loop_init env \<noteq> 0 then io_loop_init env
      else if io_timer_init env \<noteq> 0 then io_timer_init env
      else if io_timer_start env \<noteq> 0 then io_timer_start env
      else if io_prepare_init env \<noteq> 0 then io_prepare_init env
      else if io_prepare_start env \<noteq> 0 then io_prepare_start env
      else if io_check_init env \<noteq> 0 then io_check_init env
      else if io_check_start env \<noteq> 0 then io_check_start env
      else if io_tcp_init env \<noteq> 0 then io_tcp_init env
      else if io_tcp_nodelay env \<noteq> 0 then io_tcp_nodelay env
      else if io_tcp_bind env \<noteq> 0 then io_tcp_bind env
      else io_listen env)"

definition release_blocks :: "tcp_service_priv \<Rightarrow> tcp_service_priv option" where
  "release_blocks p = do {
     b \<leftarrow> release_block (pv_uv_check p); let p = p\<lparr>pv_uv_check := b\<rparr>;
     b \<leftarrow> release_block (pv_uv_prep p); let p = p\<lparr>pv_uv_prep := b\<rparr>;
     b \<leftarrow> release_block (pv_uv_accept_timer p); let p = p\<lparr>pv_uv_accept_timer := b\<rparr>;
     b \<leftarrow> release_block (pv_tcp_handle p); let p = p\<lparr>pv_tcp_handle := b\<rparr>;
     b \<leftarrow> release_block (pv_uv_loop p);
     Some (p\<lparr>pv_uv_loop := b\<rparr>)
   }"

text \<open>The outcome: the code that is logged, the service and the blocks afterwards, and whether the loop was closed.\<close>

record io_outcome =
  oc_ret :: int
  oc_service :: tcp_service
  oc_priv :: tcp_service_priv
  oc_loop_closed :: bool

definition io_finish :: "int \<Rightarrow> tcp_service \<Rightarrow> bool \<Rightarrow> tcp_service_priv \<Rightarrow> io_outcome option" where
  "io_finish ret s closed p = do {
     p \<leftarrow> release_blocks p;
     Some \<lparr>oc_ret = ret, oc_service = s, oc_priv = p, oc_loop_closed = closed\<rparr>
   }"

text \<open>\<open>on_walk_cb\<close> on a client handle.\<close>

definition on_walk_cb :: "nat \<Rightarrow> tcp_service \<Rightarrow> tcp_service" where
  "on_walk_cb h s = (if \<not> uv_closing (sv_uv s) h then uv_close_handle h s else s)"

definition tcp_service_state_get :: "tcp_service \<Rightarrow> tcp_service_state" where
  "tcp_service_state_get s = sv_state s"

definition tcp_service_io_thread ::
  "io_env \<Rightarrow> (tcp_service \<Rightarrow> tcp_service) \<Rightarrow> tcp_service \<Rightarrow> tcp_service_priv \<Rightarrow> io_outcome option" where
  "tcp_service_io_thread env uv_run s p =
     (let p = p\<lparr>pv_uv_loop := PTR_NULL, pv_tcp_handle := PTR_NULL, pv_uv_accept_timer := PTR_NULL, pv_uv_prep := PTR_NULL,
            pv_uv_check := PTR_NULL\<rparr>
      in case acquire_blocks env p of (ok, p) \<Rightarrow>
      if \<not> ok then io_finish UV_ENOMEM s False p
      else if start_listener env \<noteq> 0 then io_finish (start_listener env) s False p
      else let s = (if tcp_service_state_get s = TCP_SERVICE_STARTING then uv_run (tcp_service_set_state s TCP_SERVICE_STARTED) else s)
      in if io_loop_close env \<noteq> 0 then
           let s = fold on_walk_cb (io_walk env) s in
           if io_loop_close_again env \<noteq> 0 then io_finish (io_loop_close_again env) s False p
           else io_finish TN_SUCCESS s True p
         else io_finish TN_SUCCESS s True p)"

section \<open>Callbacks of the loop\<close>

text \<open>The handles of the loop besides those of the clients; True when \<open>uv_close\<close> was called.\<close>

record io_handles =
  cl_tcp_handle :: bool
  cl_accept_timer :: bool
  cl_prep :: bool
  cl_check :: bool

text \<open>\<open>own_timer\<close> says whether the handle is \<open>uv_accept_timer\<close>.\<close>

definition on_timer_cb :: "bool \<Rightarrow> tcp_service \<Rightarrow> io_handles \<Rightarrow> io_handles" where
  "on_timer_cb own_timer s hs =
     (if \<not> own_timer then hs
      else if tcp_service_state_get s \<noteq> TCP_SERVICE_STARTED then
        let hs = (if \<not> cl_tcp_handle hs then hs\<lparr>cl_tcp_handle := True\<rparr> else hs);
            hs = (if \<not> cl_accept_timer hs then hs\<lparr>cl_accept_timer := True\<rparr> else hs);
            hs = (if \<not> cl_prep hs then hs\<lparr>cl_prep := True\<rparr> else hs)
        in (if \<not> cl_check hs then hs\<lparr>cl_check := True\<rparr> else hs)
      else hs)"

definition on_check_cb :: "tcp_service \<Rightarrow> tcp_service" where
  "on_check_cb s = s"

definition on_async_cb :: "tcp_service \<Rightarrow> tcp_service" where
  "on_async_cb s = s"

text \<open>\<open>uv_run\<close> returns when no handle is active: neither one of the loop nor one of a client that was not closed.\<close>

definition loop_alive :: "tcp_service \<Rightarrow> io_handles \<Rightarrow> bool" where
  "loop_alive s hs \<longleftrightarrow> \<not> cl_tcp_handle hs \<or> \<not> cl_accept_timer hs \<or> \<not> cl_prep hs \<or> \<not> cl_check hs \<or>
     (\<exists>h c. uv_data (sv_uv s) h = Some c)"

section \<open>Properties\<close>

text \<open>
  Property C0. Whatever fails, the IO thread ends with each of its blocks released at most once, and
  with none left but the one for the signal handle, which is never released. The service becomes
  started only when everything up to the listener worked; otherwise its state is not touched, so
  nobody learns that no listener is running.
\<close>

theorem io_thread_outcome:
  shows "\<exists>oc. tcp_service_io_thread env uv_run s p = Some oc \<and>
    pv_uv_loop (oc_priv oc) \<noteq> PTR_VALID \<and> pv_tcp_handle (oc_priv oc) \<noteq> PTR_VALID \<and> pv_uv_accept_timer (oc_priv oc) \<noteq> PTR_VALID \<and>
    pv_uv_prep (oc_priv oc) \<noteq> PTR_VALID \<and> pv_uv_check (oc_priv oc) \<noteq> PTR_VALID \<and>
    (if fst (acquire_blocks env p) \<and> start_listener env = 0
     then pv_uv_signal (oc_priv oc) = PTR_VALID \<and>
       oc_service oc = fold on_walk_cb (if io_loop_close env = 0 then [] else io_walk env)
         (if sv_state s = TCP_SERVICE_STARTING then uv_run (s\<lparr>sv_state := TCP_SERVICE_STARTED\<rparr>) else s)
     else oc_ret oc \<noteq> TN_SUCCESS \<and> oc_service oc = s \<and> \<not> oc_loop_closed oc)"
  by (auto simp: tcp_service_io_thread_def acquire_blocks_def io_finish_def release_blocks_def release_block_def block_def
      tcp_service_state_get_def tcp_service_set_state_def UV_ENOMEM_def Let_def)



end
