(* ===== verification/Tn_Cmdargs.thy ===== *)
theory Tn_Cmdargs
  imports Tn_Decimal
begin

text \<open>
  The command line of the load generator, \<open>include/tcplg/cmdargs.h\<close>, and the splitting of aws-c-common it
  uses for the server's address. What the option parser stores is an input. A byte cursor into the
  input is an offset and a length, None when its pointer is NULL; C strings are lists of characters.
\<close>

section \<open>Splitting a cursor\<close>

text \<open>The offset of the first occurrence of a character among the first \<open>n\<close>.\<close>

definition memchr :: "string \<Rightarrow> char \<Rightarrow> nat \<Rightarrow> nat option" where
  "memchr s c n = (let k = length (takeWhile (\<lambda>x. x \<noteq> c) (take n s)) in if k < length (take n s) then Some k else None)"

definition aws_byte_cursor_next_split :: "string \<Rightarrow> char \<Rightarrow> (nat \<times> nat) option \<Rightarrow> bool \<times> (nat \<times> nat) option" where
  "aws_byte_cursor_next_split input_str split_on substr =
     (let first_run = (substr = None); (ptr, len) = (case substr of None \<Rightarrow> (0, 0) | Some c \<Rightarrow> c) in
      if ptr > length input_str then (False, None)
      else let ptr = ptr + len; len = length input_str - ptr in
      if \<not> first_run \<and> len = 0 then (False, None)
      else let skip = (\<not> first_run \<and> input_str ! ptr = split_on);
               ptr = (if skip then ptr + 1 else ptr);
               len = (if skip then len - 1 else len) in
      if skip \<and> len = 0 then (True, Some (ptr, 0))
      else (case memchr (drop ptr input_str) split_on len of
          Some new_location \<Rightarrow> (True, Some (ptr, new_location))
        | None \<Rightarrow> (True, Some (ptr, len))))"

text \<open>
  \<open>aws_byte_cursor_split_on_char\<close> into a static list with room for \<open>room\<close> cursors. The number of
  splits is not limited (\<open>SIZE_MAX\<close>); pushing into a full static list fails and ends the loop.
\<close>

fun split_push :: "string \<Rightarrow> char \<Rightarrow> nat \<Rightarrow> (nat \<times> nat) option \<Rightarrow> int \<times> (nat \<times> nat) list" where
  "split_push input_str split_on room substr =
     (case aws_byte_cursor_next_split input_str split_on substr of
        (False, _) \<Rightarrow> (AWS_OP_SUCCESS, [])
      | (True, None) \<Rightarrow> (AWS_OP_SUCCESS, [])
      | (True, Some c) \<Rightarrow> (case room of 0 \<Rightarrow> (AWS_OP_ERR, [])
          | Suc room \<Rightarrow> (case split_push input_str split_on room (Some c) of (rc, cs) \<Rightarrow> (rc, c # cs))))"

definition aws_byte_cursor_split_on_char :: "string \<Rightarrow> char \<Rightarrow> nat \<Rightarrow> int \<times> (nat \<times> nat) list" where
  "aws_byte_cursor_split_on_char input_str split_on room = split_push input_str split_on room None"

definition cursor_text :: "string \<Rightarrow> nat \<times> nat \<Rightarrow> string" where
  "cursor_text s c = (case c of (ptr, len) \<Rightarrow> take len (drop ptr s))"

section \<open>The arguments\<close>

record cmdline_args =
  ca_clients :: int
  ca_rate :: int
  ca_prefix :: int
  ca_time :: int
  ca_msglen :: int
  ca_message :: "string option"
  ca_server :: "string option"
  ca_host :: string
  ca_port :: int

text \<open>
  The arguments are those after \<open>argparse_parse\<close>. A server without a colon leaves the second element of
  the array uninitialised, and the code reads it: no defined behaviour.
\<close>

definition parse_tcploadgen_args :: "cmdline_args \<Rightarrow> (int \<times> cmdline_args) option" where
  "parse_tcploadgen_args a =
     (let a = (if ca_clients a \<le> 0 then a\<lparr>ca_clients := 1\<rparr> else a);
          a = (if ca_rate a < 0 then a\<lparr>ca_rate := 1\<rparr> else a);
          a = (if ca_time a \<le> 0 then a\<lparr>ca_time := 10\<rparr> else a)
      in case ca_message a of None \<Rightarrow> Some (-1, a)
      | Some message \<Rightarrow>
        let a = a\<lparr>ca_msglen := sint (word_of_int (int (length message)) :: 32 word)\<rparr> in
        if ca_msglen a \<le> 0 then Some (-1, a)
        else (case ca_server a of None \<Rightarrow> Some (-1, a)
        | Some server \<Rightarrow>
          (case aws_byte_cursor_split_on_char server (CHR '':'') 2 of (rc, bc_array) \<Rightarrow>
            if rc \<noteq> AWS_OP_SUCCESS then Some (-1, a)
            else (case bc_array of
                [c0, c1] \<Rightarrow>
                  if snd c0 > 16 \<or> snd c0 \<le> 0 \<or> snd c1 > 5 \<or> snd c0 \<le> 0 then Some (-1, a)
                  else let port = atoi (cursor_text server c1) in
                  if port \<le> 0 \<or> port > 65535 then Some (-1, a)
                  else let a = a\<lparr>ca_host := cursor_text server c0, ca_port := port\<rparr> in
                  if ca_prefix a \<noteq> 0 \<and> (ca_prefix a mod 8 \<noteq> 0 \<or> ca_prefix a > 64 \<or> ca_prefix a < 0) then Some (-1, a)
                  else Some (0, a)
              | _ \<Rightarrow> None))))"

section \<open>Lemmas\<close>

text \<open>A host, a colon and a port without a further colon split into the two.\<close>

lemma memchr_found: "c \<notin> set a \<Longrightarrow> length a < n \<Longrightarrow> memchr (a @ c # b) c n = Some (length a)"
  by (simp add: memchr_def Let_def take_Cons' takeWhile_append)

lemma memchr_none: "c \<notin> set a \<Longrightarrow> memchr a c n = None"
proof -
  assume c: "c \<notin> set a"
  then have all: "takeWhile (\<lambda>x. x \<noteq> c) (take n a) = take n a" by (auto simp: takeWhile_eq_all_conv dest: in_set_takeD)
  show ?thesis unfolding memchr_def Let_def all by simp
qed

lemma split_two:
  assumes "c \<notin> set a" and "c \<notin> set b"
  shows "aws_byte_cursor_split_on_char (a @ c # b) c 2 = (AWS_OP_SUCCESS, [(0, length a), (Suc (length a), length b)])"
proof -
  let ?s = "a @ c # b"
  have s1: "aws_byte_cursor_next_split ?s c None = (True, Some (0, length a))"
    using memchr_found [OF assms(1), of "length ?s" b] by (simp add: aws_byte_cursor_next_split_def)
  have s2: "aws_byte_cursor_next_split ?s c (Some (0, length a)) = (True, Some (Suc (length a), length b))"
    using memchr_none [OF assms(2), of "length b"] by (simp add: aws_byte_cursor_next_split_def Let_def nth_append)
  have s3: "aws_byte_cursor_next_split ?s c (Some (Suc (length a), length b)) = (False, None)"
    by (simp add: aws_byte_cursor_next_split_def)
  show ?thesis unfolding aws_byte_cursor_split_on_char_def
    by (subst split_push.simps, simp add: s1 numeral_2_eq_2 del: split_push.simps,
        subst split_push.simps, simp add: s2 del: split_push.simps, subst split_push.simps, simp add: s3 del: split_push.simps)
qed

section \<open>Properties\<close>

text \<open>
  Property C0. Arguments that are accepted are in their ranges: at least one client, a rate that is not
  negative, a positive time, a message that is not empty and its length, a host of 1 to 16
  characters, a port, and a prefix of 0, 8, 16, 24 up to 64 bits.
\<close>

theorem accepted_args_valid:
  assumes "parse_tcploadgen_args a = Some (0, b)"
  shows "1 \<le> ca_clients b \<and> 0 \<le> ca_rate b \<and> 1 \<le> ca_time b \<and> (\<exists>m. ca_message b = Some m \<and> 0 < length m) \<and> 0 < ca_msglen b \<and>
    length (ca_host b) \<le> 16 \<and> 1 \<le> ca_port b \<and> ca_port b \<le> 65535 \<and> 0 \<le> ca_prefix b \<and> ca_prefix b \<le> 64 \<and> 8 dvd ca_prefix b"
proof -
  have "1 \<le> ca_clients b \<and> 0 \<le> ca_rate b \<and> 1 \<le> ca_time b \<and> (\<exists>m. ca_message b = Some m \<and> m \<noteq> []) \<and> 0 < ca_msglen b \<and>
      1 \<le> ca_port b \<and> ca_port b \<le> 65535 \<and> 0 \<le> ca_prefix b \<and> ca_prefix b \<le> 64 \<and> ca_prefix b mod 8 = 0 \<and> length (ca_host b) \<le> 16"
    using assms by (auto simp: parse_tcploadgen_args_def Let_def cursor_text_def split: if_splits option.splits list.splits prod.splits)
  then show ?thesis by (auto simp: dvd_eq_mod_eq_0)
qed

definition args_of :: "string \<Rightarrow> string \<Rightarrow> cmdline_args" where
  "args_of message server = \<lparr>ca_clients = 0, ca_rate = 0, ca_prefix = 0, ca_time = 0, ca_msglen = 0, ca_message = Some message,
     ca_server = Some server, ca_host = [], ca_port = 0\<rparr>"

text \<open>
  Property C0. A server written as a host, a colon and a port in decimal notation is read back as that
  host and port, for every host of 1 to 16 characters without a colon and every valid port.
\<close>

theorem server_round_trip:
  assumes "CHR '':'' \<notin> set host" and "0 < length host" and "length host \<le> 16" and "0 < port" and "port \<le> 65535"
    and "0 < length message" and "length message < 2 ^ 31"
  shows "\<exists>b. parse_tcploadgen_args (args_of message (host @ CHR '':'' # dec port)) = Some (0, b) \<and> ca_host b = host \<and> ca_port b = int port"
proof -
  let ?s = "host @ CHR '':'' # dec port"
  have p: "CHR '':'' \<notin> set (dec port)" using dec_digits digit_plain by blast
  have "length (dec port) \<le> 5" using length_dec [of port 5] assms(5) by simp
  moreover have "sint (word_of_int (int (length message)) :: 32 word) = int (length message)"
    unfolding sint_sbintrunc' using assms(7) by (intro signed_take_bit_int_eq_self) simp_all
  moreover have "cursor_text ?s (0, length host) = host" "cursor_text ?s (Suc (length host), length (dec port)) = dec port"
    by (simp_all add: cursor_text_def)
  ultimately show ?thesis using assms split_two [OF assms(1) p]
    by (simp add: parse_tcploadgen_args_def args_of_def atoi_dec Let_def)
qed

theorem server_round_trip_witness:
  "\<exists>b. parse_tcploadgen_args (args_of ''hi'' (''10.0.0.1'' @ CHR '':'' # dec 7777)) = Some (0, b) \<and> ca_host b = ''10.0.0.1'' \<and> ca_port b = 7777"
  using server_round_trip [of "''10.0.0.1''" 7777 "''hi''"] by simp

theorem accepted_args_valid_witness:
  "\<exists>b. parse_tcploadgen_args (args_of ''hi'' (''10.0.0.1'' @ CHR '':'' # dec 7777)) = Some (0, b) \<and> length (ca_host b) \<le> 16"
proof -
  have c: "CHR '':'' \<notin> set ''10.0.0.1''" "CHR '':'' \<notin> set (dec 7777)" using dec_digits digit_plain by auto
  have "length (dec 7777) \<le> 5" using length_dec [of 7777 5] by simp
  then obtain b where b: "parse_tcploadgen_args (args_of ''hi'' (''10.0.0.1'' @ CHR '':'' # dec 7777)) = Some (0, b)"
    using split_two [OF c] by (auto simp: parse_tcploadgen_args_def args_of_def Let_def cursor_text_def atoi_dec)
  from accepted_args_valid [OF b] b show ?thesis by blast
qed

end
