(* ===== verification/Tn_Loadgen.thy ===== *)
theory Tn_Loadgen
  imports Tn_Conn_Props Tn_Cmdargs
begin

text \<open>
  The load generator of \<open>src/tcplg/tcplg.c\<close>: the timer callback that drives its phases (connecting,
  transmitting, the final statistics, closing) over an array of client connections, and the part of
  \<open>main\<close> that prepares it. The context, the memory and what libuv knows of the handles are shared by the
  connections; an operation on one connection sees them as its \<open>conn_world\<close>. Terminal output is left
  out. Clock readings and the results that connecting and writing depend on are inputs.
\<close>

record loadgen =
  g_appstate :: size_t
  g_failed :: size_t
  g_max_connections_per_timer :: int
  g_num_conns :: int
  g_tcp_conns :: "tcp_conn list"
  g_tcp_ctx :: tcp_ctx
  lg_mem :: mem
  lg_closing :: "nat \<Rightarrow> bool"
  lg_writes :: "(addr \<times> size_t) list"
  start_ticks :: u64
  current_ticks :: u64
  transmit_ticks :: u64
  elapsed_ms :: u64
  elapsed_since_io :: u64
  last_recv_msgs :: u64
  transmit_time_ms :: u64
  lg_tty_closed :: bool
  lg_timer_closed :: bool

section \<open>Operations on one connection\<close>

definition conn_at :: "loadgen \<Rightarrow> nat \<Rightarrow> conn_world option" where
  "conn_at s i = do {
     conn \<leftarrow> arr_get (g_tcp_conns s) i;
     Some \<lparr>cw_conn = conn, cw_ctx = g_tcp_ctx s, cw_mem = lg_mem s, cw_closing = lg_closing s, cw_writes = lg_writes s\<rparr>
   }"

definition put_conn :: "loadgen \<Rightarrow> nat \<Rightarrow> conn_world \<Rightarrow> loadgen" where
  "put_conn s i w = s\<lparr>g_tcp_conns := (g_tcp_conns s)[i := cw_conn w], g_tcp_ctx := cw_ctx w, lg_mem := cw_mem w,
     lg_closing := cw_closing w, lg_writes := cw_writes w\<rparr>"

section \<open>Phase 1: connecting\<close>

record phase_counts =
  pc_connected :: size_t
  pc_connecting :: size_t
  pc_failed :: size_t
  pc_conns_made :: int

definition conns_max :: "loadgen \<Rightarrow> int" where
  "conns_max s = (if g_num_conns s > g_max_connections_per_timer s then g_max_connections_per_timer s else g_num_conns s)"

text \<open>One iteration; the result of connecting is ignored.\<close>

definition connect_one :: "(nat \<Rightarrow> connect_env) \<Rightarrow> int \<Rightarrow> nat \<Rightarrow> phase_counts \<times> loadgen \<Rightarrow> (phase_counts \<times> loadgen) option" where
  "connect_one env cmax i ps = (case ps of (p, s) \<Rightarrow> do {
     w \<leftarrow> conn_at s i;
     let st = cn_state (cw_conn w);
     if st = CS_CONNECTING then Some (p\<lparr>pc_connecting := pc_connecting p + 1\<rparr>, s)
     else if st = CS_CONNECTED then Some (p\<lparr>pc_connected := pc_connected p + 1\<rparr>, s)
     else let p = (if st = CS_DISCONNECTED then p\<lparr>pc_failed := pc_failed p + 1\<rparr> else p) in
     if st = CS_DISCONNECTING then Some (p\<lparr>pc_failed := pc_failed p + 1\<rparr>, s)
     else if pc_conns_made p \<ge> cmax then Some (p, s)
     else Some (p\<lparr>pc_conns_made := pc_conns_made p + 1\<rparr>, put_conn s i (snd (tcp_connect_begin (env i) w)))
   })"

fun phase_loop :: "(nat \<Rightarrow> 'a \<Rightarrow> 'a option) \<Rightarrow> nat \<Rightarrow> nat \<Rightarrow> 'a \<Rightarrow> 'a option" where
  "phase_loop f 0 i x = Some x"
| "phase_loop f (Suc n) i x = do { x \<leftarrow> f i x; phase_loop f n (Suc i) x }"

definition counts_zero :: phase_counts where
  "counts_zero = \<lparr>pc_connected = 0, pc_connecting = 0, pc_failed = 0, pc_conns_made = 0\<rparr>"

definition tick_connect :: "(nat \<Rightarrow> connect_env) \<Rightarrow> loadgen \<Rightarrow> loadgen option" where
  "tick_connect env s = do {
     (p, s) \<leftarrow> phase_loop (connect_one env (conns_max s)) (nat (g_num_conns s)) 0 (counts_zero, s);
     Some (if pc_connected p \<ge> word_of_int (g_num_conns s) then s\<lparr>elapsed_ms := 0, g_appstate := g_appstate s + 1\<rparr> else s)
   }"

section \<open>Phase 2: transmitting\<close>

text \<open>What a write depends on: the clock, the memory for the frame (0 when there is none), the request and the code of \<open>uv_write\<close>.\<close>

record write_env =
  we_ticks :: u64
  we_buffer :: addr
  we_req :: bool
  we_write :: int

text \<open>One iteration. Reconnecting is commented out in the code, so a connection that is not connected is only counted.\<close>

definition send_one ::
  "bool \<Rightarrow> (nat \<Rightarrow> write_env) \<Rightarrow> u8 list \<Rightarrow> int \<Rightarrow> bool \<Rightarrow> nat \<Rightarrow> phase_counts \<times> loadgen \<Rightarrow> (phase_counts \<times> loadgen) option" where
  "send_one be env message msglen done_send i ps = (case ps of (p, s) \<Rightarrow> do {
     w \<leftarrow> conn_at s i;
     let st = cn_state (cw_conn w);
     let do_send = (st = CS_CONNECTED);
     let p = (if st = CS_CONNECTED then p\<lparr>pc_connected := pc_connected p + 1\<rparr> else p\<lparr>pc_failed := pc_failed p + 1\<rparr>);
     if done_send then Some (p, s)
     else if do_send then do {
       w \<leftarrow> tcp_write_begin be (we_ticks (env i)) (we_buffer (env i)) (we_req (env i)) (we_write (env i))
         (cn_tcp_handle (cw_conn w)) (Some message) msglen w;
       Some (p, put_conn s i w)
     }
     else Some (p, s)
   })"

definition tick_transmit :: "bool \<Rightarrow> (nat \<Rightarrow> write_env) \<Rightarrow> u8 list \<Rightarrow> int \<Rightarrow> loadgen \<Rightarrow> loadgen option" where
  "tick_transmit be env message msglen s = do {
     let done_send = elapsed_ms s > transmit_time_ms s;
     (p, s) \<leftarrow> phase_loop (send_one be env message msglen done_send) (nat (g_num_conns s)) 0 (counts_zero, s);
     let s = (if last_recv_msgs s \<noteq> tx_recv_msgs (g_tcp_ctx s)
              then s\<lparr>elapsed_since_io := 0, last_recv_msgs := tx_recv_msgs (g_tcp_ctx s)\<rparr> else s);
     Some (if done_send \<and> elapsed_since_io s > 6000
           then s\<lparr>elapsed_ms := 0, g_appstate := g_appstate s + 1, g_failed := 0\<rparr> else s)
   }"

section \<open>Phase 3: the final statistics\<close>

definition disconnect_one :: "nat \<Rightarrow> loadgen \<Rightarrow> loadgen option" where
  "disconnect_one i s = do { w \<leftarrow> conn_at s i; Some (put_conn s i (tcp_conn_disconnect w)) }"

definition stats_one :: "loadgen \<Rightarrow> nat \<Rightarrow> u64 \<times> u64 \<times> u64 \<Rightarrow> (u64 \<times> u64 \<times> u64) option" where
  "stats_one s i acc = (case acc of (latency_max, latency_total, msgs_total) \<Rightarrow> do {
     conn \<leftarrow> arr_get (g_tcp_conns s) i;
     Some (if cn_latency_max conn > latency_max then cn_latency_max conn else latency_max,
           latency_total + cn_latency_total conn, msgs_total + cn_recv_msgs conn)
   })"

text \<open>The worst and the average latency that are printed; a division by zero has no defined result.\<close>

definition final_stats :: "loadgen \<Rightarrow> (u64 \<times> u64) option" where
  "final_stats s = do {
     (latency_max, latency_total, msgs_total) \<leftarrow> phase_loop (stats_one s) (nat (g_num_conns s)) 0 (0, 0, 0);
     if msgs_total = 0 then None else Some (latency_max, latency_total div msgs_total)
   }"

definition tick_finish :: "loadgen \<Rightarrow> loadgen option" where
  "tick_finish s = do {
     s \<leftarrow> phase_loop disconnect_one (nat (g_num_conns s)) 0 s;
     let s = s\<lparr>elapsed_ms := 0, g_appstate := g_appstate s + 1\<rparr>;
     _ \<leftarrow> final_stats s;
     Some s
   }"

section \<open>The timer callback\<close>

text \<open>\<open>now1\<close> is the clock when the first tick sets \<open>start_ticks\<close>, \<open>now\<close> the clock of this tick.\<close>

definition tick_time :: "u64 \<Rightarrow> u64 \<Rightarrow> loadgen \<Rightarrow> bool \<times> loadgen" where
  "tick_time now1 now s =
     (let s = (if start_ticks s = 0 then s\<lparr>start_ticks := now1\<rparr> else s);
          s = s\<lparr>current_ticks := now\<rparr>;
          tick_diff = current_ticks s - start_ticks s
      in if tick_diff < transmit_ticks s then (False, s)
         else let tick_diff_ms = tn_tstamp_convert tick_diff 1000000000 1000
              in (True, s\<lparr>start_ticks := current_ticks s, elapsed_ms := elapsed_ms s + tick_diff_ms,
                    elapsed_since_io := elapsed_since_io s + tick_diff_ms\<rparr>))"

definition on_tick_cb ::
  "u64 \<Rightarrow> u64 \<Rightarrow> (nat \<Rightarrow> connect_env) \<Rightarrow> bool \<Rightarrow> (nat \<Rightarrow> write_env) \<Rightarrow> u8 list \<Rightarrow> int \<Rightarrow> loadgen \<Rightarrow> loadgen option" where
  "on_tick_cb now1 now cenv be wenv message msglen s =
     (case tick_time now1 now s of (due, s) \<Rightarrow>
        if \<not> due then Some s
        else if g_appstate s = 0 then Some (s\<lparr>g_appstate := g_appstate s + 1\<rparr>)
        else if g_appstate s = 1 then tick_connect cenv s
        else if g_appstate s = 2 then tick_transmit be wenv message msglen s
        else if g_appstate s = 3 then tick_finish s
        else if g_appstate s = 4 then Some (s\<lparr>g_appstate := g_appstate s + 1, lg_tty_closed := True\<rparr>)
        else if g_appstate s = 5 then Some (s\<lparr>g_appstate := g_appstate s + 1, lg_timer_closed := True\<rparr>)
        else Some s)"

section \<open>Preparation in \<open>main\<close>\<close>

text \<open>
  From the parsed arguments to the start of the timer: the rate becomes the time between two
  ticks, and the connections are initialised one after the other; the first failure ends the program.
  The rate of accepted arguments is not negative, so the division is one of unsigned values.
\<close>

fun init_conns :: "(addr \<times> bool \<times> tn_buffer) list \<Rightarrow> (int \<times> tcp_conn list) option" where
  "init_conns [] = Some (TN_SUCCESS, [])"
| "init_conns ((next_buf, ok, junk) # rest) = do {
     (rc, conn) \<leftarrow> tcp_conn_init next_buf ok junk;
     if rc \<noteq> 0 then Some (TN_ERROR, [])
     else do { (rc, conns) \<leftarrow> init_conns rest; Some (rc, conn # conns) }
   }"

definition lg_prepare :: "cmdline_args \<Rightarrow> bool \<Rightarrow> (addr \<times> bool \<times> tn_buffer) list \<Rightarrow> loadgen \<Rightarrow> (int \<times> loadgen) option" where
  "lg_prepare a ok_conns bufs s =
     (let s = s\<lparr>transmit_ticks := (if ca_rate a = 0 then 0 else 1000000000 div word_of_int (ca_rate a)),
                transmit_time_ms := tn_tstamp_convert (word_of_int (ca_time a)) 1 1000, g_num_conns := ca_clients a\<rparr>
      in if \<not> ok_conns then Some (TN_ERROR, s)
         else do {
           (rc, conns) \<leftarrow> init_conns bufs;
           if rc \<noteq> 0 then Some (TN_ERROR, s)
           else Some (TN_SUCCESS, s\<lparr>g_tcp_conns := conns, g_appstate := 0, g_failed := 0\<rparr>)
         })"

text \<open>The walk at shutdown; \<open>on_tcp_close_cb\<close> runs when the handle is closed.\<close>

definition lg_shutdown_walk_cb :: "nat \<Rightarrow> loadgen \<Rightarrow> loadgen" where
  "lg_shutdown_walk_cb h s = (if \<not> lg_closing s h then s\<lparr>lg_closing := (lg_closing s)(h := True)\<rparr> else s)"

section \<open>Lemmas\<close>

lemma phase_loop_inv:
  assumes "\<And>j x. i \<le> j \<Longrightarrow> j < i + n \<Longrightarrow> P j x \<Longrightarrow> \<exists>y. f j x = Some y \<and> P (Suc j) y" and "P i x"
  shows "\<exists>y. phase_loop f n i x = Some y \<and> P (i + n) y"
  using assms
proof (induction n arbitrary: i x)
  case (Suc n)
  obtain y where y: "f i x = Some y" "P (Suc i) y" using Suc.prems(1) [of i x] Suc.prems(2) by auto
  obtain z where "phase_loop f n (Suc i) y = Some z" "P (Suc i + n) z"
    using Suc.IH [of "Suc i" y] Suc.prems(1) y(2) by (metis Suc_leD add_Suc add_Suc_right)
  then show ?case using y(1) by simp
qed simp

lemma conn_at_ok: "i < length (g_tcp_conns s) \<Longrightarrow> \<exists>w. conn_at s i = Some w \<and> cw_conn w = g_tcp_conns s ! i"
  by (simp add: conn_at_def)

lemma disconnect_recv_msgs [simp]: "cn_recv_msgs (cw_conn (tcp_conn_disconnect w)) = cn_recv_msgs (cw_conn w)"
  by (auto simp: tcp_conn_disconnect_def Let_def split: option.splits)

lemma disconnect_all:
  assumes "length (g_tcp_conns s) = n"
  shows "\<exists>s'. phase_loop disconnect_one n 0 s = Some s' \<and> length (g_tcp_conns s') = n \<and> g_num_conns s' = g_num_conns s \<and>
    map cn_recv_msgs (g_tcp_conns s') = map cn_recv_msgs (g_tcp_conns s)"
proof -
  let ?P = "\<lambda>(_ :: nat) (s' :: loadgen). length (g_tcp_conns s') = n \<and> g_num_conns s' = g_num_conns s \<and> map cn_recv_msgs (g_tcp_conns s') = map cn_recv_msgs (g_tcp_conns s)"
  have "\<exists>y. phase_loop disconnect_one n 0 s = Some y \<and> ?P (0 + n) y"
  proof (rule phase_loop_inv)
    fix j and x :: loadgen
    assume j: "j < 0 + n" and P: "?P j x"
    obtain w where w: "conn_at x j = Some w" "cw_conn w = g_tcp_conns x ! j" using conn_at_ok [of j x] j P by auto
    have "map cn_recv_msgs ((g_tcp_conns x)[j := cw_conn (tcp_conn_disconnect w)]) = map cn_recv_msgs (g_tcp_conns x)"
    proof (rule nth_equalityI)
      fix k
      assume "k < length (map cn_recv_msgs ((g_tcp_conns x)[j := cw_conn (tcp_conn_disconnect w)]))"
      then show "map cn_recv_msgs ((g_tcp_conns x)[j := cw_conn (tcp_conn_disconnect w)]) ! k = map cn_recv_msgs (g_tcp_conns x) ! k"
        using w(2) by (cases "k = j") simp_all
    qed simp
    then show "\<exists>y. disconnect_one j x = Some y \<and> ?P (Suc j) y" using w P by (simp add: disconnect_one_def put_conn_def)
  qed (use assms in simp)
  then show ?thesis by simp
qed

lemma stats_loop:
  assumes "i + n \<le> length (g_tcp_conns s)"
  shows "\<exists>a b. phase_loop (stats_one s) n i (x, y, z) = Some (a, b, z + sum_list (map cn_recv_msgs (take n (drop i (g_tcp_conns s)))))"
  using assms
proof (induction n arbitrary: i x y z)
  case (Suc n)
  let ?c = "g_tcp_conns s ! i"
  let ?x = "if cn_latency_max ?c > x then cn_latency_max ?c else x" and ?y = "y + cn_latency_total ?c"
  have "take (Suc n) (drop i (g_tcp_conns s)) = ?c # take n (drop (Suc i) (g_tcp_conns s))"
    using Suc.prems by (simp add: Cons_nth_drop_Suc flip: take_Suc_Cons)
  moreover have "stats_one s i (x, y, z) = Some (?x, ?y, z + cn_recv_msgs ?c)" using Suc.prems by (simp add: stats_one_def)
  moreover obtain a b where "phase_loop (stats_one s) n (Suc i) (?x, ?y, z + cn_recv_msgs ?c) =
      Some (a, b, z + cn_recv_msgs ?c + sum_list (map cn_recv_msgs (take n (drop (Suc i) (g_tcp_conns s)))))"
    using Suc.IH [of "Suc i" ?x ?y "z + cn_recv_msgs ?c"] Suc.prems by auto
  ultimately show ?case by (simp add: add.assoc)
qed simp

lemma finish_crash:
  assumes "length (g_tcp_conns s) = nat (g_num_conns s)"
  shows "tick_finish s = None \<longleftrightarrow> sum_list (map cn_recv_msgs (g_tcp_conns s)) = 0"
proof -
  let ?n = "nat (g_num_conns s)"
  obtain s' where s': "phase_loop disconnect_one ?n 0 s = Some s'" "length (g_tcp_conns s') = ?n" "g_num_conns s' = g_num_conns s"
      "map cn_recv_msgs (g_tcp_conns s') = map cn_recv_msgs (g_tcp_conns s)"
    using disconnect_all [OF assms] by blast
  let ?s = "s'\<lparr>elapsed_ms := 0, g_appstate := g_appstate s' + 1\<rparr>"
  obtain a b where "phase_loop (stats_one ?s) ?n 0 (0, 0, 0) = Some (a, b, sum_list (map cn_recv_msgs (g_tcp_conns s)))"
    using stats_loop [of 0 ?n ?s 0 0 0] s'(2,4) by auto
  then show ?thesis using s' by (simp add: tick_finish_def final_stats_def)
qed

definition changed :: "tcp_conn list \<Rightarrow> tcp_conn list \<Rightarrow> nat set" where
  "changed xs ys = {i. i < length xs \<and> xs ! i \<noteq> ys ! i}"

lemma changed_update: "changed xs (ys[i := y]) \<subseteq> insert i (changed xs ys)"
  by (auto simp: changed_def nth_list_update)

lemma finite_changed [simp]: "finite (changed xs ys)"
  by (simp add: changed_def)

lemma connect_loop_bound:
  assumes "length (g_tcp_conns s) = n" and "0 \<le> cmax"
  shows "\<exists>p s'. phase_loop (connect_one env cmax) n 0 (counts_zero, s) = Some (p, s') \<and>
    int (card (changed (g_tcp_conns s) (g_tcp_conns s'))) \<le> pc_conns_made p \<and> pc_conns_made p \<le> cmax \<and> length (g_tcp_conns s') = n"
proof -
  let ?P = "\<lambda>(_ :: nat) (p :: phase_counts, s' :: loadgen). length (g_tcp_conns s') = n \<and> int (card (changed (g_tcp_conns s) (g_tcp_conns s'))) \<le> pc_conns_made p \<and> pc_conns_made p \<le> cmax"
  have "\<exists>y. phase_loop (connect_one env cmax) n 0 (counts_zero, s) = Some y \<and> ?P (0 + n) y"
  proof (rule phase_loop_inv)
    fix j and x :: "phase_counts \<times> loadgen"
    assume j: "j < 0 + n" and P: "?P j x"
    obtain p s' where x: "x = (p, s')" by fastforce
    obtain w where w: "conn_at s' j = Some w" using conn_at_ok [of j s'] j P x by auto
    have one: "card (changed (g_tcp_conns s) ((g_tcp_conns s')[j := y])) \<le> Suc (card (changed (g_tcp_conns s) (g_tcp_conns s')))" for y
    proof -
      have "card (changed (g_tcp_conns s) ((g_tcp_conns s')[j := y])) \<le> card (insert j (changed (g_tcp_conns s) (g_tcp_conns s')))"
        by (rule card_mono) (simp_all add: changed_update)
      then show ?thesis by (simp add: card_insert_if split: if_splits)
    qed
    have made: "int (card (changed (g_tcp_conns s) (g_tcp_conns s'))) \<le> pc_conns_made p" "pc_conns_made p \<le> cmax" "length (g_tcp_conns s') = n"
      using P x by simp_all
    have "int (card (changed (g_tcp_conns s) ((g_tcp_conns s')[j := y]))) \<le> pc_conns_made p + 1" for y
      using one [of y] made(1) by linarith
    then show "\<exists>y. connect_one env cmax j x = Some y \<and> ?P (Suc j) y"
      using w made x by (simp add: connect_one_def put_conn_def Let_def)
  qed (use assms in \<open>simp add: changed_def counts_zero_def\<close>)
  then show ?thesis by auto
qed

section \<open>Properties\<close>

text \<open>
  Property C0. The load generator crashes in its third phase exactly when no connection has received
  anything (modulo \<open>2 ^ 64\<close> chunks): the average latency is a division by the number of chunks. A server that
  accepts connections and never answers is enough.
\<close>

theorem stats_crash_without_replies:
  assumes "length (g_tcp_conns s) = nat (g_num_conns s)" and "g_appstate s = 3" and "tick_time now1 now s = (True, s')"
  shows "on_tick_cb now1 now cenv be wenv message msglen s = None \<longleftrightarrow> sum_list (map cn_recv_msgs (g_tcp_conns s)) = 0"
proof -
  have "g_tcp_conns s' = g_tcp_conns s" "g_num_conns s' = g_num_conns s" "g_appstate s' = 3"
    using assms(2,3) by (auto simp: tick_time_def Let_def split: if_splits)
  then show ?thesis using assms finish_crash [of s'] by (simp add: on_tick_cb_def)
qed

definition lg_sample :: loadgen where
  "lg_sample = \<lparr>g_appstate = 3, g_failed = 0, g_max_connections_per_timer = 1000, g_num_conns = 1, g_tcp_conns = [conn_zero],
     g_tcp_ctx = ctx_zero, lg_mem = (\<lambda>_. 0), lg_closing = (\<lambda>_. False), lg_writes = [], start_ticks = 1, current_ticks = 0,
     transmit_ticks = 5, elapsed_ms = 0, elapsed_since_io = 0, last_recv_msgs = 0, transmit_time_ms = 0, lg_tty_closed = False,
     lg_timer_closed = False\<rparr>"

theorem stats_crash_without_replies_witness:
  "on_tick_cb 0 100 (\<lambda>_. env_sample) True (\<lambda>_. \<lparr>we_ticks = 0, we_buffer = 0, we_req = True, we_write = 0\<rparr>) [1] 1 lg_sample = None"
proof -
  obtain s' where "tick_time 0 100 lg_sample = (True, s')" by (simp add: tick_time_def lg_sample_def Let_def)
  from stats_crash_without_replies [OF _ _ this] show ?thesis by (simp add: lg_sample_def conn_zero_def)
qed

text \<open>
  Property C0. One tick of the first phase always ends and starts at most as many connections as the limit
  per timer (1000) and the number of clients allow: no other connection changes.
\<close>

theorem connects_per_tick_bounded:
  assumes "length (g_tcp_conns s) = nat (g_num_conns s)" and "0 \<le> g_num_conns s" and "0 \<le> g_max_connections_per_timer s"
  shows "\<exists>s'. tick_connect env s = Some s' \<and>
    int (card (changed (g_tcp_conns s) (g_tcp_conns s'))) \<le> min (g_num_conns s) (g_max_connections_per_timer s) \<and>
    length (g_tcp_conns s') = length (g_tcp_conns s)"
proof -
  have m: "0 \<le> conns_max s" "conns_max s = min (g_num_conns s) (g_max_connections_per_timer s)"
    using assms(2,3) by (simp_all add: conns_max_def)
  obtain p s' where "phase_loop (connect_one env (conns_max s)) (nat (g_num_conns s)) 0 (counts_zero, s) = Some (p, s')"
      "int (card (changed (g_tcp_conns s) (g_tcp_conns s'))) \<le> pc_conns_made p" "pc_conns_made p \<le> conns_max s"
      "length (g_tcp_conns s') = nat (g_num_conns s)"
    using connect_loop_bound [OF assms(1) m(1), of env] by blast
  then show ?thesis using m(2) assms(1) by (simp add: tick_connect_def)
qed

theorem connects_per_tick_bounded_witness:
  "\<exists>s'. tick_connect (\<lambda>_. env_sample) lg_sample = Some s' \<and> int (card (changed (g_tcp_conns lg_sample) (g_tcp_conns s'))) \<le> 1"
  using connects_per_tick_bounded [of lg_sample "\<lambda>_. env_sample"] by (auto simp: lg_sample_def)



end
