(* ===== verification/Tn_Lg_Main.thy ===== *)
theory Tn_Lg_Main
  imports Tn_Loadgen Tn_Machine
begin

text \<open>
  \<open>main\<close> of the load generator (\<open>src/tcplg/tcplg.c\<close>): from the event loop to the end of the program. Results of allocations and libuv
  calls are inputs, and so is what the loop does with the load generator while it runs (the ticks and the callbacks of the connections).
\<close>

text \<open>The blocks \<open>main\<close> is responsible for.\<close>

record lg_heap =
  lh_loop :: heap_ptr
  lh_ctx :: "tcp_ctx option"
  lh_ctx_mem :: heap_ptr
  lh_config_mem :: heap_ptr
  lh_conns :: heap_ptr
  lh_tty_mode :: bool

record lg_main_env =
  lm_loop :: bool
  lm_loop_init :: int
  lm_ctx :: bool
  lm_config :: bool
  lm_config_junk :: tcp_ctx_config
  lm_conns :: bool
  lm_bufs :: "(addr \<times> bool \<times> tn_buffer) list"
  lm_timer_init :: int
  lm_timer_start :: int
  lm_run :: "loadgen \<Rightarrow> loadgen option"
  lm_close :: int
  lm_handles :: "nat list"

text \<open>The end of \<open>main\<close>: the terminal is reset if its mode was set, the blocks are released, and the exit code is always 0.\<close>

definition lg_finish :: "lg_heap \<Rightarrow> loadgen \<Rightarrow> (int \<times> lg_heap \<times> loadgen) option" where
  "lg_finish h s = do {
     conns \<leftarrow> release_block (lh_conns h);
     let (config, ctx, _) = tcp_context_delete (Some (lh_ctx h));
     config_mem \<leftarrow> (if config then release_block (lh_config_mem h) else Some (lh_config_mem h));
     ctx_mem \<leftarrow> (if ctx then release_block (lh_ctx_mem h) else Some (lh_ctx_mem h));
     loop \<leftarrow> release_block (lh_loop h);
     Some (0, h\<lparr>lh_conns := conns, lh_config_mem := config_mem, lh_ctx_mem := ctx_mem, lh_loop := loop, lh_tty_mode := False\<rparr>, s)
   }"

text \<open>Running and closing the loop. When closing fails its handles are closed; whether it can be closed then makes no difference.\<close>

definition lg_run :: "lg_main_env \<Rightarrow> lg_heap \<Rightarrow> loadgen \<Rightarrow> (int \<times> lg_heap \<times> loadgen) option" where
  "lg_run env h s =
     (if lm_timer_init env \<noteq> 0 then lg_finish h s
      else if lm_timer_start env \<noteq> 0 then lg_finish h s
      else do {
        s \<leftarrow> lm_run env s;
        if lm_close env \<noteq> 0 then lg_finish h (foldl (\<lambda>s handle. lg_shutdown_walk_cb handle s) s (lm_handles env))
        else lg_finish h s
      })"

text \<open>A loop that was not allocated is passed to \<open>uv_loop_init\<close> all the same. The mode of the terminal counts as set even if setting it fails.\<close>

definition lg_main :: "lg_main_env \<Rightarrow> cmdline_args \<Rightarrow> lg_heap \<Rightarrow> loadgen \<Rightarrow> (int \<times> lg_heap \<times> loadgen) option" where
  "lg_main env a h s = do {
     let h = h\<lparr>lh_loop := block (lm_loop env)\<rparr>;
     tn_assert (lm_loop env);
     if lm_loop_init env \<noteq> 0 then lg_finish h s
     else do {
       let ctx = tcp_context_new (lm_ctx env) (lm_config env) (lm_config_junk env);
       let h = h\<lparr>lh_ctx := ctx, lh_ctx_mem := block (ctx \<noteq> None), lh_config_mem := block (ctx \<noteq> None)\<rparr>;
       if ctx = None then lg_finish h s
       else do {
         let (rc, ctx) = tcp_context_set_config ctx (Some \<lparr>cfg_uv_loop = Some 0\<rparr>);
         let h = h\<lparr>lh_ctx := ctx\<rparr>;
         if rc \<noteq> 0 then lg_finish h s
         else do {
           let h = h\<lparr>lh_tty_mode := True\<rparr>;
           (rc, a) \<leftarrow> parse_tcploadgen_args a;
           if rc < 0 then lg_finish h s
           else do {
             (rc, s) \<leftarrow> lg_prepare a (lm_conns env) (lm_bufs env) s;
             let h = h\<lparr>lh_conns := block (lm_conns env)\<rparr>;
             if rc \<noteq> 0 then lg_finish h s else lg_run env h s
           }
         }
       }
     }
   }"

text \<open>The globals when the program starts.\<close>

definition heap_fresh :: lg_heap where
  "heap_fresh = \<lparr>lh_loop = PTR_NULL, lh_ctx = None, lh_ctx_mem = PTR_NULL, lh_config_mem = PTR_NULL, lh_conns = PTR_NULL, lh_tty_mode = False\<rparr>"

definition heap_sound :: "lg_heap \<Rightarrow> bool" where
  "heap_sound h \<longleftrightarrow> lh_loop h = PTR_VALID \<and> lh_conns h \<noteq> PTR_DANGLING \<and>
     (case lh_ctx h of None \<Rightarrow> lh_ctx_mem h = PTR_NULL \<and> lh_config_mem h = PTR_NULL
      | Some c \<Rightarrow> tx_config c \<noteq> None \<and> lh_ctx_mem h = PTR_VALID \<and> lh_config_mem h = PTR_VALID)"

definition heap_released :: "lg_heap \<Rightarrow> bool" where
  "heap_released h \<longleftrightarrow> lh_loop h = PTR_DANGLING \<and> lh_conns h \<noteq> PTR_VALID \<and> lh_ctx_mem h \<noteq> PTR_VALID \<and> lh_config_mem h \<noteq> PTR_VALID \<and> \<not> lh_tty_mode h"

lemma lg_finish_sound:
  assumes "heap_sound h"
  shows "\<exists>h'. lg_finish h s = Some (0, h', s) \<and> heap_released h'"
  using assms by (cases "lh_ctx h"; cases "lh_conns h")
    (auto simp: heap_sound_def heap_released_def lg_finish_def release_block_def tcp_context_delete_def Let_def)

lemma lg_run_sound:
  assumes "heap_sound h" and "lm_run env s \<noteq> None"
  shows "\<exists>h' s'. lg_run env h s = Some (0, h', s') \<and> heap_released h'"
  using assms(2) lg_finish_sound [OF assms(1)] by (fastforce simp: lg_run_def)

text \<open>
  Property C0. Unless the event loop cannot be allocated, \<open>main\<close> of the load generator releases its loop, its context and its connections
  once on every path, resets the terminal, and returns 0: also when the command line is rejected or a call of libuv fails.
\<close>

theorem lg_main_always_succeeds:
  assumes "lm_loop env" and "parse_tcploadgen_args a = Some (rc, b)" and "lg_prepare b (lm_conns env) (lm_bufs env) s = Some (rc', s')"
    and "lm_run env s' \<noteq> None"
  shows "\<exists>h t. lg_main env a heap_fresh s = Some (0, h, t) \<and> heap_released h"
proof -
  let ?ctx = "tcp_context_new (lm_ctx env) (lm_config env) (lm_config_junk env)"
  let ?h = "heap_fresh\<lparr>lh_loop := PTR_VALID\<rparr>"
  have h0: "heap_sound ?h" by (simp add: heap_sound_def heap_fresh_def)
  show ?thesis
  proof (cases ?ctx)
    case None
    then show ?thesis using assms(1) lg_finish_sound [OF h0, of s] by (auto simp: lg_main_def block_def heap_fresh_def Let_def)
  next
    case (Some c)
    then have c: "tx_config c \<noteq> None" by (auto simp: tcp_context_new_def split: if_splits)
    let ?cfg = "Some \<lparr>cfg_uv_loop = Some 0\<rparr>"
    have cfg: "tcp_context_set_config (Some c) ?cfg = (0, Some (c\<lparr>tx_config := ?cfg\<rparr>))"
      using c by (simp add: tcp_context_set_config_def SAFE_TCP_CTX_def)
    let ?h2 = "heap_fresh\<lparr>lh_loop := PTR_VALID, lh_ctx := Some (c\<lparr>tx_config := ?cfg\<rparr>), lh_ctx_mem := PTR_VALID, lh_config_mem := PTR_VALID, lh_tty_mode := True\<rparr>"
    have h2: "heap_sound ?h2" "heap_sound (?h2\<lparr>lh_conns := block (lm_conns env)\<rparr>)"
      by (simp_all add: heap_sound_def heap_fresh_def block_def)
    have "lg_main env a heap_fresh s =
        (if lm_loop_init env \<noteq> 0 then lg_finish ?h s
         else if rc < 0 then lg_finish ?h2 s
         else if rc' \<noteq> 0 then lg_finish (?h2\<lparr>lh_conns := block (lm_conns env)\<rparr>) s'
         else lg_run env (?h2\<lparr>lh_conns := block (lm_conns env)\<rparr>) s')"
      using assms(1-3) Some cfg by (simp add: lg_main_def block_def heap_fresh_def Let_def)
    then show ?thesis
      using lg_finish_sound [OF h0, of s] lg_finish_sound [OF h2(1), of s] lg_finish_sound [OF h2(2), of s'] lg_run_sound [OF h2(2) assms(4)]
      by auto
  qed
qed

text \<open>A run of the program whose command line has no message.\<close>

definition lg_env0 :: lg_main_env where
  "lg_env0 = \<lparr>lm_loop = True, lm_loop_init = 0, lm_ctx = True, lm_config = True, lm_config_junk = \<lparr>cfg_uv_loop = None\<rparr>, lm_conns = True, lm_bufs = [],
     lm_timer_init = 0, lm_timer_start = 0, lm_run = Some, lm_close = 0, lm_handles = []\<rparr>"

theorem lg_main_always_succeeds_witness:
  "\<exists>b h t. parse_tcploadgen_args ((args_of [] ''h:1'')\<lparr>ca_message := None\<rparr>) = Some (-1, b) \<and>
     lg_main lg_env0 ((args_of [] ''h:1'')\<lparr>ca_message := None\<rparr>) heap_fresh lg_sample = Some (0, h, t) \<and> heap_released h"
proof -
  obtain b where b: "parse_tcploadgen_args ((args_of [] ''h:1'')\<lparr>ca_message := None\<rparr>) = Some (-1, b)"
    by (simp add: parse_tcploadgen_args_def args_of_def Let_def)
  obtain s' where p: "lg_prepare b (lm_conns lg_env0) (lm_bufs lg_env0) lg_sample = Some (0, s')"
    by (simp add: lg_prepare_def lg_env0_def Let_def)
  from lg_main_always_succeeds [OF _ b p] b show ?thesis by (auto simp: lg_env0_def)
qed

end
