(* ===== verification/Tn_Hash_Table.thy ===== *)
theory Tn_Hash_Table
  imports Tn_Prelude
begin

text \<open>
  The hash table of aws-c-common (\<open>source/hash_table.c\<close>) that \<open>src/map.c\<close> wraps: open addressing with Robin
  Hood insertion and backward-shift deletion. Keys and values are pointers. A slot is empty when its hash code is
  0; a position in the table is an index. The table is the state behind \<open>p_impl\<close>, None when that is
  NULL. Calls of the two destroy functions are recorded in \<open>hs_calls\<close>.

  The loops have no bound of their own in the code; they are partial functions here, and that they end is proved
  in \<open>Tn_Robin_Hood\<close>.
\<close>

definition AWS_ERROR_SUCCESS :: int where [simp]: "AWS_ERROR_SUCCESS = 0"
definition AWS_ERROR_HASHTBL_ITEM_NOT_FOUND :: int where [simp]: "AWS_ERROR_HASHTBL_ITEM_NOT_FOUND = 31"

record hash_table_entry =
  he_key :: addr
  he_value :: addr
  he_code :: u64

definition entry_zero :: hash_table_entry where
  "entry_zero = \<lparr>he_key = 0, he_value = 0, he_code = 0\<rparr>"

datatype destroy_call = DestroyKey addr | DestroyValue addr

record hash_table_state =
  hs_hash_fn :: "addr \<Rightarrow> u64"
  hs_equals_fn :: "addr \<Rightarrow> addr \<Rightarrow> bool"
  hs_destroy_key_fn :: bool
  hs_destroy_value_fn :: bool
  hs_size :: size_t
  hs_entry_count :: size_t
  hs_max_load :: size_t
  hs_mask :: size_t
  hs_slots :: "hash_table_entry list"
  hs_calls :: "destroy_call list"

definition s_hash_for :: "hash_table_state \<Rightarrow> addr \<Rightarrow> u64" where
  "s_hash_for state key = (let hash_code = hs_hash_fn state key in if hash_code = 0 then 1 else hash_code)"

definition aws_hash_table_get_entry_count :: "hash_table_state \<Rightarrow> size_t" where
  "aws_hash_table_get_entry_count state = hs_entry_count state"

section \<open>Sizes\<close>

text \<open>The overflow-checked product of \<open>math.h\<close>; the operands are cut to 32 bits first.\<close>

definition aws_mul_size_checked :: "size_t \<Rightarrow> size_t \<Rightarrow> (bool \<times> size_t)" where
  "aws_mul_size_checked a b =
     (let a = ucast (ucast a :: u32) :: u64; b = ucast (ucast b :: u32) :: u64
      in (unat a * unat b < 2 ^ 64, a * b))"

definition aws_mul_size_saturating :: "size_t \<Rightarrow> size_t \<Rightarrow> size_t" where
  "aws_mul_size_saturating a b = (if unat a * unat b < 2 ^ 64 then a * b else -1)"

text \<open>
  The block has room for \<open>elemsize div 24 + 1\<close> slots, all zero: a slot has 24 bytes and the first one
  is part of the header.
\<close>

definition s_alloc_state :: "bool \<Rightarrow> hash_table_state \<Rightarrow> hash_table_state option" where
  "s_alloc_state ok template =
     (case aws_mul_size_checked (hs_size template - 1) 24 of (fits, elemsize) \<Rightarrow>
        if \<not> fits then None
        else let sz = elemsize + 104 in
        if sz < elemsize then None
        else if \<not> ok then None
        else Some (template\<lparr>hs_slots := replicate (unat elemsize div 24 + 1) entry_zero\<rparr>))"

text \<open>The loop that doubles \<open>size\<close> and shifts \<open>mask\<close>; after 64 steps the size is 0. None stands for the overflow.\<close>

fun size_loop :: "nat \<Rightarrow> size_t \<Rightarrow> size_t \<Rightarrow> size_t \<Rightarrow> (size_t \<times> size_t) option" where
  "size_loop 0 min_size sz msk = None"
| "size_loop (Suc fuel) min_size sz msk =
     (if sz < min_size then
        let sz = push_bit 1 sz; msk = push_bit 1 msk
        in if sz = 0 then None else size_loop fuel min_size sz msk
      else Some (sz, msk))"

text \<open>
  \<open>max_load_factor\<close> is the double nearest to 0.95, which is 8556839292993126 divided by \<open>2 ^ 53\<close>; its product with a power
  of two is exact.
\<close>

definition load_of :: "size_t \<Rightarrow> size_t" where
  "load_of sz = of_nat (8556839292993126 * unat sz div 2 ^ 53)"

definition s_update_template_size :: "hash_table_state \<Rightarrow> size_t \<Rightarrow> int \<times> hash_table_state" where
  "s_update_template_size template expected_elements =
     (let min_size = (if expected_elements < 2 then 2 else expected_elements) in
      case size_loop 65 min_size 1 (NOT 0) of None \<Rightarrow> (AWS_OP_ERR, template)
      | Some (sz, msk) \<Rightarrow>
        let msk = NOT msk in
        if sz < expected_elements then (AWS_OP_ERR, template)
        else let template = template\<lparr>hs_size := sz, hs_max_load := load_of sz\<rparr>;
                 template = (if hs_max_load template \<ge> sz then template\<lparr>hs_max_load := sz - 1\<rparr> else template);
                 required_mem = aws_mul_size_saturating (hs_size template) 24
        in if required_mem = -1 \<or> required_mem + 104 < required_mem then (AWS_OP_ERR, template)
           else (AWS_OP_SUCCESS, template\<lparr>hs_size := sz, hs_mask := msk\<rparr>))"

text \<open>The fields that are not set yet come from the stack. The result of computing the size is ignored.\<close>

definition aws_hash_table_init ::
  "bool \<Rightarrow> hash_table_state \<Rightarrow> size_t \<Rightarrow> (addr \<Rightarrow> u64) \<Rightarrow> (addr \<Rightarrow> addr \<Rightarrow> bool) \<Rightarrow> bool \<Rightarrow> bool \<Rightarrow> int \<times> hash_table_state option" where
  "aws_hash_table_init ok junk sz hash_fn equals_fn destroy_key destroy_value =
     (let template = junk\<lparr>hs_hash_fn := hash_fn, hs_equals_fn := equals_fn, hs_destroy_key_fn := destroy_key,
            hs_destroy_value_fn := destroy_value, hs_entry_count := 0, hs_calls := []\<rparr>;
          template = snd (s_update_template_size template sz)
      in case s_alloc_state ok template of None \<Rightarrow> (AWS_OP_ERR, None) | Some state \<Rightarrow> (AWS_OP_SUCCESS, Some state))"

section \<open>Finding\<close>

partial_function (option) s_find_entry1 :: "hash_table_state \<Rightarrow> u64 \<Rightarrow> addr \<Rightarrow> size_t \<Rightarrow> (int \<times> nat \<times> size_t) option" where
  "s_find_entry1 state hash_code key probe_idx =
     (let index = (hash_code + probe_idx) AND hs_mask state in do {
        entry \<leftarrow> arr_get (hs_slots state) (unat index);
        if he_code entry = 0 then Some (AWS_ERROR_HASHTBL_ITEM_NOT_FOUND, unat index, probe_idx)
        else if he_code entry = hash_code \<and> hs_equals_fn state key (he_key entry) then Some (AWS_ERROR_SUCCESS, unat index, probe_idx)
        else if (index - he_code entry) AND hs_mask state < probe_idx
        then Some (AWS_ERROR_HASHTBL_ITEM_NOT_FOUND, unat index, probe_idx)
        else s_find_entry1 state hash_code key (probe_idx + 1)
      })"

definition s_find_entry :: "hash_table_state \<Rightarrow> u64 \<Rightarrow> addr \<Rightarrow> (int \<times> nat \<times> size_t) option" where
  "s_find_entry state hash_code key =
     (let index = hash_code AND hs_mask state in do {
        entry \<leftarrow> arr_get (hs_slots state) (unat index);
        if he_code entry = 0 then Some (AWS_ERROR_HASHTBL_ITEM_NOT_FOUND, unat index, 0)
        else if he_code entry = hash_code \<and> hs_equals_fn state key (he_key entry) then Some (AWS_OP_SUCCESS, unat index, 0)
        else s_find_entry1 state hash_code key 1
      })"

text \<open>The element that was found, None when the pointer is NULL.\<close>

definition aws_hash_table_find :: "hash_table_state \<Rightarrow> addr \<Rightarrow> (int \<times> (addr \<times> addr) option) option" where
  "aws_hash_table_find state key = do {
     let hash_code = s_hash_for state key;
     (rv, entry, _) \<leftarrow> s_find_entry state hash_code key;
     e \<leftarrow> arr_get (hs_slots state) entry;
     Some (AWS_OP_SUCCESS, if rv = AWS_ERROR_SUCCESS then Some (he_key e, he_value e) else None)
   }"

section \<open>Inserting\<close>

partial_function (option) emplace_loop ::
  "size_t \<Rightarrow> nat option \<Rightarrow> hash_table_entry list \<Rightarrow> hash_table_entry \<Rightarrow> size_t \<Rightarrow> (nat option \<times> hash_table_entry list) option" where
  "emplace_loop msk initial_placement slots entry probe_idx =
     (if he_code entry = 0 then Some (initial_placement, slots)
      else let index = (he_code entry + probe_idx) AND msk in do {
        victim \<leftarrow> arr_get slots (unat index);
        let victim_probe_idx = (index - he_code victim) AND msk;
        if he_code victim = 0 \<or> victim_probe_idx < probe_idx then do {
          slots \<leftarrow> arr_set slots (unat index) entry;
          emplace_loop msk (if initial_placement = None then Some (unat index) else initial_placement) slots victim (victim_probe_idx + 1)
        }
        else emplace_loop msk initial_placement slots entry (probe_idx + 1)
      })"

definition s_emplace_item :: "hash_table_state \<Rightarrow> hash_table_entry \<Rightarrow> size_t \<Rightarrow> (nat option \<times> hash_table_state) option" where
  "s_emplace_item state entry probe_idx = do {
     (placed, slots) \<leftarrow> emplace_loop (hs_mask state) None (hs_slots state) entry probe_idx;
     Some (placed, state\<lparr>hs_slots := slots\<rparr>)
   }"

fun expand_loop :: "nat \<Rightarrow> nat \<Rightarrow> hash_table_state \<Rightarrow> hash_table_state \<Rightarrow> hash_table_state option" where
  "expand_loop 0 i old_state new_state = Some new_state"
| "expand_loop (Suc n) i old_state new_state = do {
     entry \<leftarrow> arr_get (hs_slots old_state) i;
     new_state \<leftarrow> (if he_code entry \<noteq> 0 then map_option snd (s_emplace_item new_state entry 0) else Some new_state);
     expand_loop n (Suc i) old_state new_state
   }"

definition s_expand_table :: "bool \<Rightarrow> hash_table_state \<Rightarrow> (int \<times> hash_table_state) option" where
  "s_expand_table ok old_state =
     (let template = snd (s_update_template_size old_state (hs_size old_state * 2)) in
      case s_alloc_state ok template of None \<Rightarrow> Some (AWS_OP_ERR, old_state)
      | Some new_state \<Rightarrow> map_option (Pair AWS_OP_SUCCESS) (expand_loop (unat (hs_size old_state)) 0 old_state new_state))"

text \<open>The code, the element and whether it was created (both None when nothing is written through the pointers).\<close>

definition aws_hash_table_create ::
  "bool \<Rightarrow> hash_table_state \<Rightarrow> addr \<Rightarrow> (int \<times> nat option \<times> bool option \<times> hash_table_state) option" where
  "aws_hash_table_create ok state key = do {
     let hash_code = s_hash_for state key;
     (rv, entry, probe_idx) \<leftarrow> s_find_entry state hash_code key;
     if rv = AWS_ERROR_SUCCESS then Some (AWS_OP_SUCCESS, Some entry, Some False, state)
     else do {
       (rv, state, probe_idx) \<leftarrow> (if hs_entry_count state + 1 > hs_max_load state then do {
           (rv, state) \<leftarrow> s_expand_table ok state;
           Some (rv, state, 0)
         } else Some (AWS_OP_SUCCESS, state, probe_idx));
       if rv \<noteq> AWS_OP_SUCCESS then Some (rv, None, None, state)
       else do {
         let state = state\<lparr>hs_entry_count := hs_entry_count state + 1\<rparr>;
         (placed, state) \<leftarrow> s_emplace_item state \<lparr>he_key = key, he_value = 0, he_code = hash_code\<rparr> probe_idx;
         Some (AWS_OP_SUCCESS, placed, Some True, state)
       }
     }
   }"

definition destroy_old :: "hash_table_state \<Rightarrow> bool \<Rightarrow> addr \<Rightarrow> addr \<Rightarrow> destroy_call list" where
  "destroy_old state other_key key value =
     (if other_key \<and> hs_destroy_key_fn state then [DestroyKey key] else []) @
     (if hs_destroy_value_fn state then [DestroyValue value] else [])"

definition aws_hash_table_put :: "bool \<Rightarrow> hash_table_state \<Rightarrow> addr \<Rightarrow> addr \<Rightarrow> (int \<times> bool option \<times> hash_table_state) option" where
  "aws_hash_table_put ok state key value = do {
     (rv, p_elem, was_created, state) \<leftarrow> aws_hash_table_create ok state key;
     if rv \<noteq> 0 then Some (AWS_OP_ERR, was_created, state)
     else do {
       i \<leftarrow> p_elem;
       created \<leftarrow> was_created;
       e \<leftarrow> arr_get (hs_slots state) i;
       let calls = (if \<not> created then destroy_old state (he_key e \<noteq> key) (he_key e) (he_value e) else []);
       slots \<leftarrow> arr_set (hs_slots state) i (e\<lparr>he_key := key, he_value := value\<rparr>);
       Some (AWS_OP_SUCCESS, was_created, state\<lparr>hs_slots := slots, hs_calls := hs_calls state @ calls\<rparr>)
     }
   }"

section \<open>Removing\<close>

text \<open>The index of the slot that is cleared in the end, and the slots.\<close>

partial_function (option) remove_loop :: "size_t \<Rightarrow> size_t \<Rightarrow> hash_table_entry list \<Rightarrow> (size_t \<times> hash_table_entry list) option" where
  "remove_loop msk index slots =
     (let next_index = (index + 1) AND msk in do {
        e \<leftarrow> arr_get slots (unat next_index);
        if he_code e = 0 then Some (index, slots)
        else if he_code e AND msk = next_index then Some (index, slots)
        else do {
          slots \<leftarrow> arr_set slots (unat index) e;
          remove_loop msk next_index slots
        }
      })"

definition s_remove_entry :: "hash_table_state \<Rightarrow> nat \<Rightarrow> (size_t \<times> hash_table_state) option" where
  "s_remove_entry state entry = do {
     let state = state\<lparr>hs_entry_count := hs_entry_count state - 1\<rparr>;
     (index, slots) \<leftarrow> remove_loop (hs_mask state) (of_nat entry) (hs_slots state);
     slots \<leftarrow> arr_set slots (unat index) entry_zero;
     Some (index, state\<lparr>hs_slots := slots\<rparr>)
   }"

text \<open>\<open>p_value\<close> says whether the caller takes the element. The result has the element when it was present.\<close>

definition aws_hash_table_remove :: "bool \<Rightarrow> hash_table_state \<Rightarrow> addr \<Rightarrow> (int \<times> bool \<times> (addr \<times> addr) option \<times> hash_table_state) option" where
  "aws_hash_table_remove p_value state key = do {
     let hash_code = s_hash_for state key;
     (rv, entry, _) \<leftarrow> s_find_entry state hash_code key;
     if rv \<noteq> AWS_ERROR_SUCCESS then Some (AWS_OP_SUCCESS, False, None, state)
     else do {
       e \<leftarrow> arr_get (hs_slots state) entry;
       let state = (if p_value then state else state\<lparr>hs_calls := hs_calls state @ destroy_old state True (he_key e) (he_value e)\<rparr>);
       (_, state) \<leftarrow> s_remove_entry state entry;
       Some (AWS_OP_SUCCESS, True, if p_value then Some (he_key e, he_value e) else None, state)
     }
   }"

section \<open>Clearing\<close>

definition clear_calls :: "hash_table_state \<Rightarrow> destroy_call list" where
  "clear_calls state = concat (map (\<lambda>e. if he_code e \<noteq> 0 then destroy_old state True (he_key e) (he_value e) else [])
     (take (unat (hs_size state)) (hs_slots state)))"

definition aws_hash_table_clear :: "hash_table_state \<Rightarrow> hash_table_state option" where
  "aws_hash_table_clear state = do {
     tn_assert (unat (hs_size state) \<le> length (hs_slots state));
     Some (state\<lparr>hs_calls := hs_calls state @ clear_calls state,
       hs_slots := replicate (unat (hs_size state)) entry_zero @ drop (unat (hs_size state)) (hs_slots state),
       hs_entry_count := 0\<rparr>)
   }"

text \<open>What the destroy functions are called for, and the pointer afterwards.\<close>

definition aws_hash_table_clean_up :: "hash_table_state option \<Rightarrow> (destroy_call list \<times> hash_table_state option) option" where
  "aws_hash_table_clean_up p_impl =
     (case p_impl of None \<Rightarrow> Some ([], None)
      | Some state \<Rightarrow> do { state \<leftarrow> aws_hash_table_clear state; Some (hs_calls state, None) })"

definition aws_hash_table_swap :: "hash_table_state option \<times> hash_table_state option \<Rightarrow> hash_table_state option \<times> hash_table_state option" where
  "aws_hash_table_swap ab = (snd ab, fst ab)"

definition aws_hash_table_move :: "hash_table_state option \<Rightarrow> hash_table_state option \<times> hash_table_state option" where
  "aws_hash_table_move from = (from, None)"

section \<open>Iterating\<close>

record aws_hash_iter =
  it_element :: "addr \<times> addr"
  it_slot :: size_t
  it_limit :: size_t

fun next_slot :: "hash_table_entry list \<Rightarrow> nat \<Rightarrow> nat \<Rightarrow> (nat option) option" where
  "next_slot slots 0 i = Some None"
| "next_slot slots (Suc n) i = do {
     entry \<leftarrow> arr_get slots i;
     if he_code entry \<noteq> 0 then Some (Some i) else next_slot slots n (Suc i)
   }"

definition s_get_next_element :: "hash_table_state \<Rightarrow> aws_hash_iter \<Rightarrow> size_t \<Rightarrow> aws_hash_iter option" where
  "s_get_next_element state iter start_slot = do {
     found \<leftarrow> next_slot (hs_slots state) (unat (it_limit iter) - unat start_slot) (unat start_slot);
     case found of None \<Rightarrow> Some (iter\<lparr>it_element := (0, 0), it_slot := it_limit iter\<rparr>)
     | Some i \<Rightarrow> do { e \<leftarrow> arr_get (hs_slots state) i; Some (iter\<lparr>it_element := (he_key e, he_value e), it_slot := of_nat i\<rparr>) }
   }"

definition aws_hash_iter_begin :: "hash_table_state \<Rightarrow> aws_hash_iter option" where
  "aws_hash_iter_begin state = s_get_next_element state \<lparr>it_element = (0, 0), it_slot = 0, it_limit = hs_size state\<rparr> 0"

definition aws_hash_iter_done :: "aws_hash_iter \<Rightarrow> bool" where
  "aws_hash_iter_done iter \<longleftrightarrow> it_slot iter = it_limit iter"

definition aws_hash_iter_next :: "hash_table_state \<Rightarrow> aws_hash_iter \<Rightarrow> aws_hash_iter option" where
  "aws_hash_iter_next state iter = s_get_next_element state iter (it_slot iter + 1)"

definition aws_hash_iter_delete :: "bool \<Rightarrow> hash_table_state \<Rightarrow> aws_hash_iter \<Rightarrow> (hash_table_state \<times> aws_hash_iter) option" where
  "aws_hash_iter_delete destroy_contents state iter = do {
     tn_assert (destroy_contents \<longrightarrow> hs_destroy_key_fn state \<and> hs_destroy_value_fn state);
     let state = (if destroy_contents then state\<lparr>hs_calls := hs_calls state @
       [DestroyKey (fst (it_element iter)), DestroyValue (snd (it_element iter))]\<rparr> else state);
     (last_index, state) \<leftarrow> s_remove_entry state (unat (it_slot iter));
     let iter = (if last_index < it_slot iter \<or> last_index \<ge> it_limit iter then iter\<lparr>it_limit := it_limit iter - 1\<rparr> else iter);
     Some (state, iter\<lparr>it_slot := it_slot iter - 1\<rparr>)
   }"

text \<open>The callback maps its context and the element to a new context and the two flags (continue, delete).\<close>

partial_function (option) foreach_loop ::
  "('c \<Rightarrow> addr \<times> addr \<Rightarrow> 'c \<times> bool \<times> bool) \<Rightarrow> 'c \<Rightarrow> hash_table_state \<Rightarrow> aws_hash_iter \<Rightarrow> ('c \<times> hash_table_state) option" where
  "foreach_loop callback context state iter =
     (if aws_hash_iter_done iter then Some (context, state)
      else case callback context (it_element iter) of (context, go_on, delete) \<Rightarrow> do {
        (state, iter) \<leftarrow> (if delete then aws_hash_iter_delete False state iter else Some (state, iter));
        if \<not> go_on then Some (context, state)
        else do { iter \<leftarrow> aws_hash_iter_next state iter; foreach_loop callback context state iter }
      })"

definition aws_hash_table_foreach ::
  "('c \<Rightarrow> addr \<times> addr \<Rightarrow> 'c \<times> bool \<times> bool) \<Rightarrow> 'c \<Rightarrow> hash_table_state \<Rightarrow> (int \<times> 'c \<times> hash_table_state) option" where
  "aws_hash_table_foreach callback context state = do {
     iter \<leftarrow> aws_hash_iter_begin state;
     (context, state) \<leftarrow> foreach_loop callback context state iter;
     Some (AWS_OP_SUCCESS, context, state)
   }"

partial_function (option) eq_loop :: "(addr \<Rightarrow> addr \<Rightarrow> bool) \<Rightarrow> hash_table_state \<Rightarrow> hash_table_state \<Rightarrow> aws_hash_iter \<Rightarrow> bool option" where
  "eq_loop value_eq a b iter =
     (if aws_hash_iter_done iter then Some True
      else do {
        (_, b_element) \<leftarrow> aws_hash_table_find b (fst (it_element iter));
        case b_element of None \<Rightarrow> Some False
        | Some (_, v) \<Rightarrow> if \<not> value_eq (snd (it_element iter)) v then Some False
            else do { iter \<leftarrow> aws_hash_iter_next a iter; eq_loop value_eq a b iter }
      })"

definition aws_hash_table_eq :: "(addr \<Rightarrow> addr \<Rightarrow> bool) \<Rightarrow> hash_table_state \<Rightarrow> hash_table_state \<Rightarrow> bool option" where
  "aws_hash_table_eq value_eq a b =
     (if aws_hash_table_get_entry_count a \<noteq> aws_hash_table_get_entry_count b then Some False
      else do { iter \<leftarrow> aws_hash_iter_begin a; eq_loop value_eq a b iter })"

end
