(* ===== verification/Tn_Robin_Hood.thy ===== *)
theory Tn_Robin_Hood
  imports Tn_Hash_Table
begin

text \<open>
  The layout of the hash table's slots. The slots form a ring; \<open>probe\<close> is how far an entry is from the home
  slot of its hash code. \<open>rh_ok\<close> is the Robin Hood invariant: an entry that is not at home follows an entry
  that is at most one closer to its own home. From it: the loops of \<open>hash_table.c\<close> end, a search that gives up
  early misses nothing, and inserting and deleting keep the invariant and change the multiset of entries
  by one.
\<close>

section \<open>Distances on the ring\<close>

definition home :: "nat \<Rightarrow> u64 \<Rightarrow> nat" where
  "home n c = unat c mod n"

definition gap :: "nat \<Rightarrow> nat \<Rightarrow> u64 \<Rightarrow> nat" where
  "gap n i c = (i + (n - home n c)) mod n"

lemma home_lt: "0 < n \<Longrightarrow> home n c < n"
  by (simp add: home_def)

lemma gap_lt: "0 < n \<Longrightarrow> gap n i c < n"
  by (simp add: gap_def)

lemma gap_int: "0 < n \<Longrightarrow> int (gap n i c) = (int i - int (home n c)) mod int n"
proof -
  assume "0 < n"
  then have "home n c \<le> n" by (simp add: home_lt less_imp_le)
  then have "int (gap n i c) = (int i - int (home n c) + int n) mod int n"
    by (simp add: gap_def zmod_int of_nat_diff algebra_simps)
  then show ?thesis by (simp only: mod_add_self2)
qed

lemma gap_at: "p < n \<Longrightarrow> gap n ((home n c + p) mod n) c = p"
proof -
  assume p: "p < n"
  then have "int (gap n ((home n c + p) mod n) c) = int p mod int n"
    by (simp add: gap_int zmod_int mod_diff_left_eq)
  then show ?thesis using p by simp
qed

lemma at_gap: "i < n \<Longrightarrow> (home n c + gap n i c) mod n = i"
proof -
  assume i: "i < n"
  then have "int ((home n c + gap n i c) mod n) = int i mod int n"
    by (simp add: gap_int zmod_int mod_add_right_eq)
  then show ?thesis using i by simp
qed

lemma gap_Suc: "gap n (Suc i mod n) c = Suc (gap n i c) mod n"
proof -
  have "gap n (Suc i mod n) c = (Suc i + (n - home n c)) mod n"
    unfolding gap_def by (rule mod_add_left_eq)
  also have "\<dots> = Suc (gap n i c) mod n"
    unfolding gap_def add_Suc by (rule mod_Suc_eq [symmetric])
  finally show ?thesis .
qed

lemma gap_next:
  assumes "0 < n" and "0 < gap n (Suc i mod n) c"
  shows "gap n (Suc i mod n) c = Suc (gap n i c)"
proof -
  have "gap n i c < n" using assms(1) by (rule gap_lt)
  then show ?thesis using assms(2) unfolding gap_Suc by (cases "Suc (gap n i c) = n") simp_all
qed

lemma unat_probe_index:
  assumes "k \<le> 64"
  shows "unat ((c + of_nat p :: u64) AND (2 ^ k - 1)) = (home (2 ^ k) c + p) mod 2 ^ k"
  by (simp add: unat_and_pow2_mask unat_add_mod_pow2 [OF assms] home_def mod_add_left_eq)

lemma unat_gap:
  assumes "k \<le> 64"
  shows "unat ((of_nat i - c :: u64) AND (2 ^ k - 1)) = gap (2 ^ k) i c"
proof -
  have d: "(2 :: int) ^ k dvd 2 ^ 64" using assms by (rule le_imp_power_dvd)
  have "uint (of_nat i - c :: u64) = (int i - uint c) mod 2 ^ 64"
  proof -
    have "uint (of_nat i :: u64) = int i mod 2 ^ 64"
      by (simp only: uint_nat unat_of_nat zmod_int of_nat_power of_nat_numeral len_num1 len_bit0) simp
    then have "uint (of_nat i - c :: u64) = (int i mod 2 ^ 64 - uint c) mod 2 ^ 64"
      by (simp only: uint_word_ariths) simp
    then show ?thesis by (simp only: mod_diff_left_eq)
  qed
  then have "uint (of_nat i - c :: u64) mod 2 ^ k = (int i - uint c) mod 2 ^ k"
    by (simp only: mod_mod_cancel [OF d])
  also have "\<dots> = (int i - int (home (2 ^ k) c)) mod int (2 ^ k)"
    by (simp add: home_def zmod_int mod_diff_right_eq)
  also have "\<dots> = int (gap (2 ^ k) i c)"
    by (rule gap_int [symmetric]) simp
  finally have "int (unat (of_nat i - c :: u64) mod 2 ^ k) = int (gap (2 ^ k) i c)"
    by (simp add: zmod_int)
  then show ?thesis by (simp only: unat_and_pow2_mask of_nat_eq_iff)
qed

section \<open>The Robin Hood invariant\<close>

definition occ :: "hash_table_entry list \<Rightarrow> nat \<Rightarrow> bool" where
  "occ sl i \<longleftrightarrow> he_code (sl ! i) \<noteq> 0"

definition probe :: "hash_table_entry list \<Rightarrow> nat \<Rightarrow> nat" where
  "probe sl i = gap (length sl) i (he_code (sl ! i))"

text \<open>What an entry at distance p from its home needs of the slot before it.\<close>

definition supported :: "hash_table_entry list \<Rightarrow> nat \<Rightarrow> nat \<Rightarrow> bool" where
  "supported sl i p \<longleftrightarrow> (0 < p \<longrightarrow> occ sl i \<and> p \<le> Suc (probe sl i))"

definition rh_ok :: "hash_table_entry list \<Rightarrow> bool" where
  "rh_ok sl \<longleftrightarrow> (\<forall>i < length sl. let j = Suc i mod length sl in occ sl j \<longrightarrow> supported sl i (probe sl j))"

definition has_room :: "hash_table_entry list \<Rightarrow> bool" where
  "has_room sl \<longleftrightarrow> (\<exists>i < length sl. \<not> occ sl i)"

lemma rh_okD:
  assumes "rh_ok sl" and "i < length sl" and "occ sl (Suc i mod length sl)" and "0 < probe sl (Suc i mod length sl)"
  shows "occ sl i" and "probe sl (Suc i mod length sl) \<le> Suc (probe sl i)"
  using assms by (auto simp: rh_ok_def supported_def Let_def)

lemma length_pos: "i < length sl \<Longrightarrow> 0 < length sl"
  by (rule le_less_trans [OF le0])

lemma slot_lt: "i < length sl \<Longrightarrow> k mod length sl < length sl"
  by (rule mod_less_divisor) (rule length_pos)

lemma probe_lt: "i < length sl \<Longrightarrow> probe sl i < length sl"
  unfolding probe_def by (rule gap_lt) (rule length_pos)

text \<open>Everything between the home of an entry and its slot is occupied, by entries at least that far from their homes.\<close>

lemma chain_back:
  assumes ok: "rh_ok sl" and h: "h < length sl"
    and o: "occ sl ((h + p) mod length sl)" and d: "p \<le> probe sl ((h + p) mod length sl)" and j: "j \<le> p"
  shows "occ sl ((h + j) mod length sl) \<and> j \<le> probe sl ((h + j) mod length sl)"
  using j
proof (induction j rule: inc_induct)
  case base
  then show ?case using o d by simp
next
  case (step j)
  let ?n = "length sl"
  have n: "Suc ((h + j) mod ?n) mod ?n = (h + Suc j) mod ?n" by (simp add: mod_Suc_eq)
  have i: "(h + j) mod ?n < ?n" using h by (rule slot_lt)
  have "occ sl ((h + j) mod ?n)" and "probe sl ((h + Suc j) mod ?n) \<le> Suc (probe sl ((h + j) mod ?n))"
    using rh_okD [OF ok i] step.IH by (auto simp: n)
  then show ?case using step.IH by simp
qed

lemma chain_from_home:
  assumes "rh_ok sl" and i: "i < length sl" and "occ sl i" and "j \<le> probe sl i"
  shows "occ sl ((home (length sl) (he_code (sl ! i)) + j) mod length sl)"
    and "j \<le> probe sl ((home (length sl) (he_code (sl ! i)) + j) mod length sl)"
  using chain_back [of sl "home (length sl) (he_code (sl ! i))" "probe sl i" j] assms
    at_gap [OF i] home_lt [OF length_pos [OF i]] by (simp_all add: probe_def)

lemma ring_cover:
  assumes "h < n" and "i < (n :: nat)"
  obtains q where "q < n" and "(h + q) mod n = i"
proof (cases "h \<le> i")
  case True
  then show thesis using assms by (intro that [of "i - h"]) simp_all
next
  case False
  then have "(h + (n - h + i)) mod n = i" using assms by simp
  then show thesis using False by (intro that [of "n - h + i"]) (use assms in linarith)
qed

text \<open>With an empty slot, no entry is a full round away from its home.\<close>

lemma probe_room:
  assumes ok: "rh_ok sl" and room: "has_room sl" and i: "i < length sl" "occ sl i"
  shows "Suc (probe sl i) < length sl"
proof (rule ccontr)
  let ?h = "home (length sl) (he_code (sl ! i))"
  assume "\<not> Suc (probe sl i) < length sl"
  then have full: "probe sl i = length sl - 1" using probe_lt [OF i(1)] by linarith
  obtain e where e: "e < length sl" "\<not> occ sl e" using room by (auto simp: has_room_def)
  obtain q where q: "q < length sl" "(?h + q) mod length sl = e"
    using ring_cover [OF home_lt [OF length_pos [OF i(1)]] e(1)] .
  have "occ sl ((?h + q) mod length sl)"
    by (rule chain_from_home [OF ok i]) (use q(1) full in linarith)
  then show False using e q by simp
qed

section \<open>Searching\<close>

text \<open>The table has \<open>2 ^ k\<close> slots and the mask for them.\<close>

definition ring :: "nat \<Rightarrow> size_t \<Rightarrow> hash_table_entry list \<Rightarrow> bool" where
  "ring k msk sl \<longleftrightarrow> 1 \<le> k \<and> k < 64 \<and> msk = 2 ^ k - 1 \<and> length sl = 2 ^ k"

abbreviation seat :: "hash_table_entry list \<Rightarrow> u64 \<Rightarrow> nat \<Rightarrow> nat" where
  "seat sl c p \<equiv> (home (length sl) c + p) mod length sl"

definition matches :: "(addr \<Rightarrow> addr \<Rightarrow> bool) \<Rightarrow> u64 \<Rightarrow> addr \<Rightarrow> hash_table_entry \<Rightarrow> bool" where
  "matches eq c key e \<longleftrightarrow> he_code e = c \<and> eq key (he_key e)"

definition stops :: "(addr \<Rightarrow> addr \<Rightarrow> bool) \<Rightarrow> hash_table_entry list \<Rightarrow> u64 \<Rightarrow> addr \<Rightarrow> nat \<Rightarrow> bool" where
  "stops eq sl c key p \<longleftrightarrow> \<not> occ sl (seat sl c p) \<or> matches eq c key (sl ! seat sl c p) \<or> probe sl (seat sl c p) < p"

lemma ring_length: "ring k msk sl \<Longrightarrow> length sl = 2 ^ k"
  by (simp add: ring_def)

lemma ring_ge2: "ring k msk sl \<Longrightarrow> 2 \<le> length sl"
  using power_increasing [of 1 k "2 :: nat"] by (simp add: ring_def)

lemma ring_lt64: "ring k msk sl \<Longrightarrow> length sl < 2 ^ 64"
  using power_strict_increasing [of k 64 "2 :: nat"] by (simp add: ring_def)

lemma seat_lt: "ring k msk sl \<Longrightarrow> seat sl c p < length sl"
  by (rule mod_less_divisor) (simp add: ring_def)

lemma ring_index: "ring k msk sl \<Longrightarrow> unat ((c + of_nat p) AND msk) = seat sl c p"
  by (simp add: ring_def unat_probe_index)

lemma ring_index0: "ring k msk sl \<Longrightarrow> unat (c AND msk) = seat sl c 0"
  using ring_index [of k msk sl c 0] by simp

lemma ring_gap: "ring k msk sl \<Longrightarrow> unat ((of_nat i - c) AND msk) = gap (length sl) i c"
  by (simp add: ring_def unat_gap)

lemma ring_victim:
  assumes r: "ring k msk sl"
  shows "unat ((((c + of_nat p) AND msk) - he_code (sl ! seat sl c p)) AND msk) = probe sl (seat sl c p)"
proof -
  have "(c + of_nat p) AND msk = of_nat (seat sl c p)"
    by (simp add: ring_index [OF r, symmetric])
  then show ?thesis by (simp only: ring_gap [OF r] probe_def)
qed

lemma gap_seat: "ring k msk sl \<Longrightarrow> p < length sl \<Longrightarrow> gap (length sl) (seat sl c p) c = p"
  by (rule gap_at)

lemma less_of_nat64: "p < 2 ^ 64 \<Longrightarrow> x < of_nat p \<longleftrightarrow> unat (x :: u64) < p"
  by (simp add: word_less_nat_alt unat_of_nat64 del: of_nat_less_iff)

definition find_code :: "bool \<Rightarrow> int" where
  "find_code b = (if b then AWS_ERROR_SUCCESS else AWS_ERROR_HASHTBL_ITEM_NOT_FOUND)"

lemma find1_walk:
  assumes r: "ring k (hs_mask state) (hs_slots state)" and c: "c \<noteq> 0" and q: "q < length (hs_slots state)"
    and s: "stops (hs_equals_fn state) (hs_slots state) c key q" and pq: "p \<le> q"
    and w: "\<And>r. p \<le> r \<Longrightarrow> r < q \<Longrightarrow> \<not> stops (hs_equals_fn state) (hs_slots state) c key r"
  shows "s_find_entry1 state c key (of_nat p) =
    Some (find_code (matches (hs_equals_fn state) c key (hs_slots state ! seat (hs_slots state) c q)), seat (hs_slots state) c q, of_nat q)"
  using pq w
proof (induction p rule: inc_induct)
  case base
  have "q < 2 ^ 64" using q ring_lt64 [OF r] by simp
  then show ?case using s c
    by (subst s_find_entry1.simps)
      (auto simp: Let_def ring_index [OF r] ring_victim [OF r] seat_lt [OF r] less_of_nat64 stops_def occ_def matches_def find_code_def)
next
  case (step p)
  let ?sl = "hs_slots state"
  have "p < 2 ^ 64" using step.hyps q ring_lt64 [OF r] by simp
  moreover have "\<not> stops (hs_equals_fn state) ?sl c key p" using step by auto
  ultimately have "s_find_entry1 state c key (of_nat p) = s_find_entry1 state c key (of_nat p + 1)"
    by (subst s_find_entry1.simps)
      (auto simp: Let_def ring_index [OF r] ring_victim [OF r] seat_lt [OF r] less_of_nat64 stops_def occ_def matches_def)
  moreover have "s_find_entry1 state c key (of_nat (Suc p)) =
    Some (find_code (matches (hs_equals_fn state) c key (?sl ! seat ?sl c q)), seat ?sl c q, of_nat q)"
    by (rule step.IH) (use step.prems in auto)
  ultimately show ?case by (simp only: of_nat_Suc add.commute [of 1])
qed

lemma find_walk:
  assumes r: "ring k (hs_mask state) (hs_slots state)" and c: "c \<noteq> 0" and q: "q < length (hs_slots state)"
    and s: "stops (hs_equals_fn state) (hs_slots state) c key q"
    and w: "\<And>r. r < q \<Longrightarrow> \<not> stops (hs_equals_fn state) (hs_slots state) c key r"
  shows "s_find_entry state c key =
    Some (find_code (matches (hs_equals_fn state) c key (hs_slots state ! seat (hs_slots state) c q)), seat (hs_slots state) c q, of_nat q)"
proof (cases q)
  case 0
  have "seat (hs_slots state) c 0 < length (hs_slots state)" by (rule seat_lt [OF r])
  then show ?thesis using s c 0
    by (auto simp: s_find_entry_def Let_def ring_index0 [OF r] stops_def occ_def matches_def find_code_def)
next
  case (Suc q')
  have "seat (hs_slots state) c 0 < length (hs_slots state)" by (rule seat_lt [OF r])
  moreover have "\<not> stops (hs_equals_fn state) (hs_slots state) c key 0" using w Suc by simp
  moreover have "s_find_entry1 state c key (of_nat 1) =
    Some (find_code (matches (hs_equals_fn state) c key (hs_slots state ! seat (hs_slots state) c q)), seat (hs_slots state) c q, of_nat q)"
    by (rule find1_walk [OF r c q s]) (use w Suc in auto)
  ultimately show ?thesis
    by (auto simp: s_find_entry_def Let_def ring_index0 [OF r] stops_def occ_def matches_def)
qed

text \<open>An entry in the table is found: the search passes only entries at least as far from home as itself.\<close>

lemma find_present:
  assumes r: "ring k (hs_mask state) (hs_slots state)" and ok: "rh_ok (hs_slots state)" and c: "c \<noteq> 0"
    and i: "i < length (hs_slots state)" and m: "matches (hs_equals_fn state) c key (hs_slots state ! i)"
    and u: "\<And>j. j < length (hs_slots state) \<Longrightarrow> matches (hs_equals_fn state) c key (hs_slots state ! j) \<Longrightarrow> j = i"
  shows "s_find_entry state c key = Some (AWS_ERROR_SUCCESS, i, of_nat (probe (hs_slots state) i))"
proof -
  let ?sl = "hs_slots state"
  have code: "he_code (?sl ! i) = c" using m by (simp add: matches_def)
  have at: "seat ?sl c (probe ?sl i) = i" using at_gap [OF i, of c] by (simp add: probe_def code)
  have o: "occ ?sl i" using c code by (simp add: occ_def)
  have "\<not> stops (hs_equals_fn state) ?sl c key q" if q: "q < probe ?sl i" for q
  proof -
    have "occ ?sl (seat ?sl c q)" and "q \<le> probe ?sl (seat ?sl c q)"
      using chain_from_home [OF ok i o less_imp_le [OF q]] by (simp_all add: code)
    moreover have "\<not> matches (hs_equals_fn state) c key (?sl ! seat ?sl c q)"
    proof
      assume "matches (hs_equals_fn state) c key (?sl ! seat ?sl c q)"
      then have "seat ?sl c q = i" by (rule u [OF seat_lt [OF r]])
      moreover have "q < length ?sl" using q probe_lt [OF i] by simp
      ultimately have "q = gap (length ?sl) i c" using gap_seat [OF r, of q c] by simp
      then show False using q by (simp add: probe_def code)
    qed
    ultimately show ?thesis by (simp add: stops_def)
  qed
  moreover have "stops (hs_equals_fn state) ?sl c key (probe ?sl i)" using m at by (simp add: stops_def)
  ultimately show ?thesis using find_walk [OF r c probe_lt [OF i]] m at by (simp add: find_code_def)
qed

text \<open>A key that is not in the table is not found, and the slot returned is the one where it may be inserted.\<close>

lemma find_absent:
  assumes r: "ring k (hs_mask state) (hs_slots state)" and c: "c \<noteq> 0" and room: "has_room (hs_slots state)"
    and a: "\<And>j. j < length (hs_slots state) \<Longrightarrow> \<not> matches (hs_equals_fn state) c key (hs_slots state ! j)"
  obtains q where "q < length (hs_slots state)"
    and "s_find_entry state c key = Some (AWS_ERROR_HASHTBL_ITEM_NOT_FOUND, seat (hs_slots state) c q, of_nat q)"
    and "supported (hs_slots state) (seat (hs_slots state) c (q - 1)) q"
proof -
  let ?sl = "hs_slots state" and ?st = "stops (hs_equals_fn state) (hs_slots state) c key"
  obtain e where e: "e < length ?sl" "\<not> occ ?sl e" using room by (auto simp: has_room_def)
  obtain q0 where q0: "q0 < length ?sl" "seat ?sl c q0 = e"
    using ring_cover [OF home_lt [OF length_pos [OF e(1)]] e(1)] .
  define q where "q = (LEAST q. ?st q)"
  have st: "?st q0" using q0 e by (simp add: stops_def)
  then have q: "?st q" unfolding q_def by (rule LeastI)
  have "q \<le> q0" unfolding q_def using st by (rule Least_le)
  then have lt: "q < length ?sl" using q0 by simp
  have min: "\<not> ?st p" if "p < q" for p using that unfolding q_def by (rule not_less_Least)
  have "supported ?sl (seat ?sl c (q - 1)) q"
    using min [of "q - 1"] by (cases q) (auto simp: supported_def stops_def)
  then show thesis
    using that [OF lt] find_walk [OF r c lt q min] a [OF seat_lt [OF r]] by (simp add: find_code_def)
qed

section \<open>Changing a slot\<close>

lemma occ_update: "i < length sl \<Longrightarrow> occ (sl[i := e]) j \<longleftrightarrow> (if j = i then he_code e \<noteq> 0 else occ sl j)"
  by (simp add: occ_def)

lemma probe_update: "i < length sl \<Longrightarrow> probe (sl[i := e]) j = (if j = i then gap (length sl) i (he_code e) else probe sl j)"
  by (simp add: probe_def)

lemma next_inj: "a < n \<Longrightarrow> b < n \<Longrightarrow> Suc a mod n = Suc b mod n \<Longrightarrow> a = b"
  using ring_slot_inj [of 1 a n b] by simp

lemma next_neq: "2 \<le> n \<Longrightarrow> i < n \<Longrightarrow> Suc i mod n \<noteq> i"
  by (simp add: mod_Suc)

lemma rh_update:
  assumes ok: "rh_ok sl" and n: "2 \<le> length sl" and i: "i < length sl"
    and before: "\<And>h. h < length sl \<Longrightarrow> Suc h mod length sl = i \<Longrightarrow> he_code e \<noteq> 0 \<Longrightarrow> supported sl h (gap (length sl) i (he_code e))"
    and after: "occ sl (Suc i mod length sl) \<Longrightarrow> 0 < probe sl (Suc i mod length sl) \<Longrightarrow>
      he_code e \<noteq> 0 \<and> probe sl (Suc i mod length sl) \<le> Suc (gap (length sl) i (he_code e))"
  shows "rh_ok (sl[i := e])"
  unfolding rh_ok_def Let_def
proof (intro allI impI)
  fix a
  assume "a < length (sl[i := e])" and o: "occ (sl[i := e]) (Suc a mod length (sl[i := e]))"
  then have a: "a < length sl" and o: "occ (sl[i := e]) (Suc a mod length sl)" by simp_all
  have ne: "Suc i mod length sl \<noteq> i" using n i by (rule next_neq)
  consider "a = i" | "Suc a mod length sl = i" "a \<noteq> i" | "a \<noteq> i" "Suc a mod length sl \<noteq> i" by blast
  then have "supported (sl[i := e]) a (probe (sl[i := e]) (Suc a mod length sl))"
  proof cases
    case 1
    then show ?thesis using after o ne by (auto simp: supported_def occ_update [OF i] probe_update [OF i])
  next
    case 2
    then show ?thesis using before [OF a] o by (auto simp: supported_def occ_update [OF i] probe_update [OF i])
  next
    case 3
    then show ?thesis using ok a o by (auto simp: rh_ok_def Let_def supported_def occ_update [OF i] probe_update [OF i])
  qed
  then show "supported (sl[i := e]) a (probe (sl[i := e]) (Suc a mod length (sl[i := e])))" by simp
qed

text \<open>The entries of a table, as a multiset.\<close>

definition content :: "hash_table_entry list \<Rightarrow> hash_table_entry multiset" where
  "content sl = {#e \<in># mset sl. he_code e \<noteq> 0#}"

lemma content_update_add: "i < length sl \<Longrightarrow> \<not> occ sl i \<Longrightarrow> he_code e \<noteq> 0 \<Longrightarrow> content (sl[i := e]) = add_mset e (content sl)"
  by (simp add: content_def mset_update occ_def)

lemma content_swap:
  "i < length sl \<Longrightarrow> occ sl i \<Longrightarrow> he_code e \<noteq> 0 \<Longrightarrow> add_mset (sl ! i) (content (sl[i := e])) = add_mset e (content sl)"
  by (simp add: content_def mset_update occ_def insert_DiffM flip: add_mset_commute)

lemma content_remove: "i < length sl \<Longrightarrow> content (sl[i := entry_zero]) = content sl - {#sl ! i#}"
  by (simp add: content_def mset_update entry_zero_def)

section \<open>Inserting\<close>

lemma seat_pred: "0 < p \<Longrightarrow> Suc (seat sl c (p - 1)) mod length sl = seat sl c p"
  by (cases p) (simp_all add: mod_Suc_eq)

lemma rh_place:
  assumes ok: "rh_ok sl" and n: "2 \<le> length sl" and p: "p < length sl" and e: "he_code e \<noteq> 0"
    and s: "supported sl (seat sl (he_code e) (p - 1)) p"
    and v: "\<not> occ sl (seat sl (he_code e) p) \<or> probe sl (seat sl (he_code e) p) < p"
  shows "rh_ok (sl[seat sl (he_code e) p := e])"
proof (rule rh_update [OF ok n])
  let ?i = "seat sl (he_code e) p"
  show i: "?i < length sl" using p by (rule slot_lt)
  have g: "gap (length sl) ?i (he_code e) = p" using p by (rule gap_at)
  show "supported sl h (gap (length sl) ?i (he_code e))" if h: "h < length sl" "Suc h mod length sl = ?i" for h
  proof (cases "p = 0")
    case True
    then show ?thesis unfolding g supported_def by simp
  next
    case False
    then have "Suc (seat sl (he_code e) (p - 1)) mod length sl = Suc h mod length sl" using seat_pred h(2) by simp
    then have "seat sl (he_code e) (p - 1) = h" by (rule next_inj [OF slot_lt [OF p] h(1)])
    then show ?thesis using s g by simp
  qed
  show "he_code e \<noteq> 0 \<and> probe sl (Suc ?i mod length sl) \<le> Suc (gap (length sl) ?i (he_code e))"
    if "occ sl (Suc ?i mod length sl)" "0 < probe sl (Suc ?i mod length sl)"
    using rh_okD [OF ok i that] v e g by auto
qed

lemma unat_eqD: "unat (x :: u64) = m \<Longrightarrow> x = of_nat m"
  by auto

lemma emplace_empty: "he_code e = 0 \<Longrightarrow> emplace_loop msk ip sl e p = Some (ip, sl)"
  by (subst emplace_loop.simps) simp

text \<open>The two ways of one round.\<close>

lemma emplace_put:
  assumes r: "ring k msk sl" and p: "p < length sl" and e: "he_code e \<noteq> 0"
    and v: "\<not> occ sl (seat sl (he_code e) p) \<or> probe sl (seat sl (he_code e) p) < p"
  shows "emplace_loop msk ip sl e (of_nat p) =
    emplace_loop msk (if ip = None then Some (seat sl (he_code e) p) else ip) (sl[seat sl (he_code e) p := e])
      (sl ! seat sl (he_code e) p) (of_nat (Suc (probe sl (seat sl (he_code e) p))))"
proof -
  let ?i = "seat sl (he_code e) p" and ?v = "((((he_code e + of_nat p) AND msk) - he_code (sl ! seat sl (he_code e) p)) AND msk)"
  have "?v = of_nat (probe sl ?i)" by (rule unat_eqD [OF ring_victim [OF r]])
  then have w: "?v + 1 = of_nat (Suc (probe sl ?i))" by (simp only: of_nat_Suc add.commute)
  have "p < 2 ^ 64" using p ring_lt64 [OF r] by simp
  then have "he_code (sl ! ?i) = 0 \<or> ?v < of_nat p" using v by (auto simp: less_of_nat64 ring_victim [OF r] occ_def)
  then show ?thesis using e w seat_lt [OF r, of "he_code e" p]
    by (subst emplace_loop.simps) (simp add: Let_def ring_index [OF r] del: of_nat_Suc)
qed

lemma emplace_skip:
  assumes r: "ring k msk sl" and p: "p < length sl" and e: "he_code e \<noteq> 0"
    and v: "occ sl (seat sl (he_code e) p)" "p \<le> probe sl (seat sl (he_code e) p)"
  shows "emplace_loop msk ip sl e (of_nat p) = emplace_loop msk ip sl e (of_nat (Suc p))"
proof -
  have "p < 2 ^ 64" using p ring_lt64 [OF r] by simp
  then have "emplace_loop msk ip sl e (of_nat p) = emplace_loop msk ip sl e (of_nat p + 1)"
    using e v seat_lt [OF r, of "he_code e" p]
    by (subst emplace_loop.simps) (auto simp: Let_def ring_index [OF r] less_of_nat64 ring_victim [OF r] occ_def)
  then show ?thesis by (simp only: of_nat_Suc add.commute [of 1])
qed

definition emplaced :: "hash_table_entry list \<Rightarrow> hash_table_entry \<Rightarrow> nat \<Rightarrow> nat \<Rightarrow> hash_table_entry list \<Rightarrow> bool" where
  "emplaced sl e i d sl' \<longleftrightarrow> length sl' = length sl \<and> rh_ok sl' \<and> content sl' = add_mset e (content sl) \<and>
     (\<forall>j < length sl. (\<forall>q \<le> d. j \<noteq> (i + q) mod length sl) \<longrightarrow> sl' ! j = sl ! j)"

lemma has_room_at: "i < length sl \<Longrightarrow> \<not> occ sl i \<Longrightarrow> has_room sl"
  by (auto simp: has_room_def)

lemma seat_Suc: "i = seat sl c p \<Longrightarrow> (i + Suc q) mod length sl = (seat sl c (Suc p) + q) mod length sl"
  by (simp only: mod_add_left_eq) simp

lemma ring_update: "ring k msk (sl[i := e]) \<longleftrightarrow> ring k msk sl"
  by (simp add: ring_def)

lemma seat_probe: "i < length sl \<Longrightarrow> seat sl (he_code (sl ! i)) (probe sl i) = i"
  unfolding probe_def by (rule at_gap)

lemma seat_after: "i < length sl \<Longrightarrow> (i + Suc q) mod length sl = (seat sl (he_code (sl ! i)) (Suc (probe sl i)) + q) mod length sl"
  using seat_Suc [OF seat_probe [symmetric]] .

lemma ring_shift_neq: "i < n \<Longrightarrow> 0 < d \<Longrightarrow> d < n \<Longrightarrow> (i + d) mod n \<noteq> (i :: nat)"
  using ring_slot_inj [of i d n 0] by auto

lemma emplaced_swap:
  assumes i: "i < length sl" and o: "occ sl i" and e: "he_code e \<noteq> 0" and d: "Suc d < length sl"
    and x: "emplaced (sl[i := e]) (sl ! i) (seat sl (he_code (sl ! i)) (Suc (probe sl i))) d sl'"
  shows "emplaced sl e i (Suc d) sl'" and "sl' ! i = e"
proof -
  have *: "(\<forall>q \<le> d. j \<noteq> (seat sl (he_code (sl ! i)) (Suc (probe sl i)) + q) mod length sl) \<longleftrightarrow>
    (\<forall>q \<le> d. j \<noteq> (i + Suc q) mod length sl)" for j
    by (simp only: seat_after [OF i])
  have "i \<noteq> (i + Suc q) mod length sl" if "q \<le> d" for q
    using ring_shift_neq [OF i, of "Suc q"] that d by simp
  then show "sl' ! i = e" using x i by (simp add: emplaced_def * del: add_Suc_right)
  show "emplaced sl e i (Suc d) sl'"
    unfolding emplaced_def
  proof (intro conjI allI impI)
    show "length sl' = length sl" and "rh_ok sl'" using x by (simp_all add: emplaced_def)
    show "content sl' = add_mset e (content sl)" using x content_swap [OF i o e] by (simp add: emplaced_def)
    fix j
    assume j: "j < length sl" and n: "\<forall>q \<le> Suc d. j \<noteq> (i + q) mod length sl"
    then have "j \<noteq> i" using i by (metis add_0_right le0 mod_less)
    then show "sl' ! j = sl ! j" using x j n by (simp add: emplaced_def * del: add_Suc_right)
  qed
qed

lemma emplaced_skip: "emplaced sl e (seat sl c (Suc p)) d sl' \<Longrightarrow> emplaced sl e (seat sl c p) (Suc d) sl'"
  by (auto simp: emplaced_def seat_Suc [OF refl, symmetric] simp del: add_Suc_right)

lemma emplaced_empty:
  assumes "rh_ok (sl[i := e])" and i: "i < length sl" and "\<not> occ sl i" and "he_code e \<noteq> 0"
  shows "emplaced sl e i d (sl[i := e])"
  using assms content_update_add [OF i] by (auto simp: emplaced_def nth_list_update)

definition placed :: "nat option \<Rightarrow> nat option \<Rightarrow> hash_table_entry \<Rightarrow> hash_table_entry list \<Rightarrow> bool" where
  "placed ip ip' e sl \<longleftrightarrow> (case ip of Some x \<Rightarrow> ip' = Some x | None \<Rightarrow> \<exists>i < length sl. ip' = Some i \<and> sl ! i = e)"

lemma emplace_here:
  assumes r: "ring k msk sl" and ok: "rh_ok sl" and e: "he_code e \<noteq> 0" and p: "p < length sl"
    and s: "supported sl (seat sl (he_code e) (p - 1)) p" and o: "\<not> occ sl (seat sl (he_code e) p)"
  shows "\<exists>ip' sl'. emplace_loop msk ip sl e (of_nat p) = Some (ip', sl') \<and>
    emplaced sl e (seat sl (he_code e) p) d sl' \<and> placed ip ip' e sl'"
proof -
  let ?i = "seat sl (he_code e) p"
  have i: "?i < length sl" using r by (rule seat_lt)
  have "rh_ok (sl[?i := e])" using ok ring_ge2 [OF r] p e s o by (intro rh_place) simp_all
  then have "emplaced sl e ?i d (sl[?i := e])" using i o e by (rule emplaced_empty)
  moreover have "emplace_loop msk ip sl e (of_nat p) = Some (if ip = None then Some ?i else ip, sl[?i := e])"
    using emplace_put [OF r p e] o by (simp add: emplace_empty occ_def)
  ultimately show ?thesis using i by (auto simp: placed_def split: option.splits)
qed

lemma emplace_ok:
  assumes "ring k msk sl" and "rh_ok sl" and "he_code e \<noteq> 0" and "p < length sl"
    and "supported sl (seat sl (he_code e) (p - 1)) p"
    and "d < length sl" and "\<not> occ sl ((seat sl (he_code e) p + d) mod length sl)"
  shows "\<exists>ip' sl'. emplace_loop msk ip sl e (of_nat p) = Some (ip', sl') \<and>
    emplaced sl e (seat sl (he_code e) p) d sl' \<and> placed ip ip' e sl'"
  using assms
proof (induction d arbitrary: ip sl e p)
  case (0 ip sl e p)
  then show ?case by (intro emplace_here) simp_all
next
  case (Suc d ip sl e p)
  let ?i = "seat sl (he_code e) p"
  have i: "?i < length sl" using Suc.prems(1) by (rule seat_lt)
  have room: "has_room sl" by (rule has_room_at [OF slot_lt [OF i] Suc.prems(7)])
  consider "\<not> occ sl ?i" | "occ sl ?i" "probe sl ?i < p" | "occ sl ?i" "p \<le> probe sl ?i" by linarith
  then show ?case
  proof cases
    case 1
    with Suc.prems show ?thesis by (intro emplace_here) simp_all
  next
    case 2
    let ?v = "sl ! ?i" and ?p = "Suc (probe sl ?i)" and ?sl = "sl[?i := e]" and ?ip = "if ip = None then Some ?i else ip"
    have ok: "rh_ok ?sl" using Suc.prems 2 ring_ge2 by (intro rh_place) auto
    have n: "seat ?sl (he_code ?v) q = seat sl (he_code ?v) q" for q by simp
    have far: "(?i + Suc d) mod length sl \<noteq> ?i" using ring_shift_neq [OF i, of "Suc d"] Suc.prems(6) by simp
    have "\<exists>ip' sl'. emplace_loop msk ?ip ?sl ?v (of_nat ?p) = Some (ip', sl') \<and>
      emplaced ?sl ?v (seat ?sl (he_code ?v) ?p) d sl' \<and> placed ?ip ip' ?v sl'"
    proof (rule Suc.IH [OF _ ok])
      show "ring k msk ?sl" using Suc.prems(1) by (simp only: ring_update)
      show "he_code ?v \<noteq> 0" using 2(1) by (simp add: occ_def)
      show "?p < length ?sl" using probe_room [OF Suc.prems(2) room i 2(1)] by simp
      show "supported ?sl (seat ?sl (he_code ?v) (?p - 1)) ?p"
        using 2 Suc.prems(3) gap_seat [OF Suc.prems(1,4)] seat_probe [OF i]
        by (simp add: supported_def occ_update [OF i] probe_update [OF i])
      show "d < length ?sl" using Suc.prems(6) by simp
      show "\<not> occ ?sl ((seat ?sl (he_code ?v) ?p + d) mod length ?sl)"
        using Suc.prems(7) far by (simp only: length_list_update occ_update [OF i] seat_after [OF i, symmetric]) simp
    qed
    then obtain ip' sl' where run: "emplace_loop msk ?ip ?sl ?v (of_nat ?p) = Some (ip', sl')"
      and em: "emplaced ?sl ?v (seat sl (he_code ?v) ?p) d sl'" and pl: "placed ?ip ip' ?v sl'" by (auto simp only: n)
    have "emplaced sl e ?i (Suc d) sl'" and "sl' ! ?i = e"
      using emplaced_swap [OF i 2(1) Suc.prems(3,6) em] by auto
    moreover have "length sl' = length sl" using em by (simp add: emplaced_def)
    ultimately show ?thesis
      using emplace_put [OF Suc.prems(1,4,3)] 2 run pl i
      by (auto simp: placed_def simp del: of_nat_Suc split: option.splits if_splits)
  next
    case 3
    have "\<exists>ip' sl'. emplace_loop msk ip sl e (of_nat (Suc p)) = Some (ip', sl') \<and>
      emplaced sl e (seat sl (he_code e) (Suc p)) d sl' \<and> placed ip ip' e sl'"
    proof (rule Suc.IH [OF Suc.prems(1,2,3)])
      show "Suc p < length sl" using probe_room [OF Suc.prems(2) room i 3(1)] 3(2) by simp
      show "supported sl (seat sl (he_code e) (Suc p - 1)) (Suc p)" using 3 by (simp add: supported_def)
      show "\<not> occ sl ((seat sl (he_code e) (Suc p) + d) mod length sl)"
        using Suc.prems(7) by (simp only: seat_Suc [OF refl] not_False_eq_True)
    qed (use Suc.prems(6) in simp)
    then show ?thesis using emplace_skip [OF Suc.prems(1,4,3) 3] emplaced_skip by (auto simp del: of_nat_Suc)
  qed
qed

text \<open>Inserting at a supported distance ends, keeps the invariant, adds the entry, and returns its slot.\<close>

lemma emplace_item:
  assumes r: "ring k msk sl" and ok: "rh_ok sl" and e: "he_code e \<noteq> 0" and p: "p < length sl"
    and s: "supported sl (seat sl (he_code e) (p - 1)) p" and room: "has_room sl"
  obtains i sl' where "emplace_loop msk None sl e (of_nat p) = Some (Some i, sl')" and "i < length sl'" and "sl' ! i = e"
    and "ring k msk sl'" and "rh_ok sl'" and "content sl' = add_mset e (content sl)"
proof -
  obtain f where f: "f < length sl" "\<not> occ sl f" using room by (auto simp: has_room_def)
  obtain d where d: "d < length sl" "(seat sl (he_code e) p + d) mod length sl = f"
    using ring_cover [OF seat_lt [OF r] f(1)] .
  have "\<exists>ip' sl'. emplace_loop msk None sl e (of_nat p) = Some (ip', sl') \<and>
    emplaced sl e (seat sl (he_code e) p) d sl' \<and> placed None ip' e sl'"
    using r ok e p s d f by (intro emplace_ok) simp_all
  then obtain ip' sl' where run: "emplace_loop msk None sl e (of_nat p) = Some (ip', sl')"
    and em: "emplaced sl e (seat sl (he_code e) p) d sl'" and pl: "placed None ip' e sl'" by blast
  from pl obtain i where "ip' = Some i" and "i < length sl'" and "sl' ! i = e" by (auto simp: placed_def)
  moreover have "ring k msk sl'" and "rh_ok sl'" and "content sl' = add_mset e (content sl)"
    using em r by (simp_all add: emplaced_def ring_def)
  ultimately show thesis using that run by simp
qed

section \<open>Removing\<close>

lemma gap_0_iff: "i < n \<Longrightarrow> gap n i c = 0 \<longleftrightarrow> home n c = i"
  using at_gap [of i n c] gap_at [of 0 n c] home_lt [of n c] by auto

lemma home_of_nat: "i < n \<Longrightarrow> n < 2 ^ 64 \<Longrightarrow> home n (of_nat i) = i"
  by (simp add: home_def unat_of_nat64)

lemma ring_next:
  assumes r: "ring k msk sl" and i: "i < length sl"
  shows "(of_nat i + 1) AND msk = of_nat (Suc i mod length sl)"
proof (rule unat_eqD)
  show "unat ((of_nat i + 1) AND msk) = Suc i mod length sl"
    using ring_index [OF r, of "of_nat i" 1] by (simp add: home_of_nat [OF i ring_lt64 [OF r]])
qed

lemma ring_at_home:
  assumes r: "ring k msk sl" and j: "j < length sl"
  shows "he_code (sl ! j) AND msk = of_nat j \<longleftrightarrow> probe sl j = 0"
proof -
  have "he_code (sl ! j) AND msk = of_nat j \<longleftrightarrow> unat (he_code (sl ! j) AND msk) = j"
    using unat_of_nat64 [OF less_trans [OF j ring_lt64 [OF r]]] by (metis unat_eqD)
  also have "\<dots> \<longleftrightarrow> home (length sl) (he_code (sl ! j)) = j"
    using home_lt [OF length_pos [OF j]] by (simp add: ring_index0 [OF r])
  finally show ?thesis using j by (simp add: probe_def gap_0_iff)
qed

lemma rh_shift:
  assumes ok: "rh_ok sl" and n: "2 \<le> length sl" and i: "i < length sl"
    and o: "occ sl (Suc i mod length sl)" and pos: "0 < probe sl (Suc i mod length sl)"
  shows "rh_ok (sl[i := sl ! (Suc i mod length sl)])"
proof (rule rh_update [OF ok n i])
  let ?j = "Suc i mod length sl"
  have g: "probe sl ?j = Suc (gap (length sl) i (he_code (sl ! ?j)))"
    using pos gap_next [OF length_pos [OF i]] by (simp add: probe_def)
  have oi: "occ sl i" and le: "probe sl ?j \<le> Suc (probe sl i)" using rh_okD [OF ok i o pos] .
  show "supported sl h (gap (length sl) i (he_code (sl ! ?j)))" if "h < length sl" "Suc h mod length sl = i" for h
    using rh_okD [OF ok that(1)] that(2) oi le g by (auto simp: supported_def)
  show "he_code (sl ! ?j) \<noteq> 0 \<and> probe sl ?j \<le> Suc (gap (length sl) i (he_code (sl ! ?j)))"
    using o g by (simp add: occ_def)
qed

lemma rh_clear:
  assumes ok: "rh_ok sl" and n: "2 \<le> length sl" and i: "i < length sl"
    and "occ sl (Suc i mod length sl) \<Longrightarrow> probe sl (Suc i mod length sl) = 0"
  shows "rh_ok (sl[i := entry_zero])"
  using assms by (intro rh_update) (auto simp: entry_zero_def)

lemma content_shift:
  assumes i: "i < length sl" "occ sl i" and j: "j < length sl" "occ sl j"
  shows "content (sl[i := sl ! j]) - {#sl ! j#} = content sl - {#sl ! i#}"
proof -
  have e: "sl ! i \<in># content sl" using i by (simp add: content_def occ_def)
  have "sl ! j \<in># content (sl[i := sl ! j])" using i j by (simp add: content_def occ_def set_update_memI)
  then obtain X where X: "content (sl[i := sl ! j]) = add_mset (sl ! j) X" by (rule mset_add)
  from e obtain Y where Y: "content sl = add_mset (sl ! i) Y" by (rule mset_add)
  have "add_mset (sl ! i) (content (sl[i := sl ! j])) = add_mset (sl ! j) (content sl)"
    using content_swap [OF i, of "sl ! j"] j by (simp add: occ_def)
  then have "X = Y" by (simp add: X Y add_mset_commute)
  then show ?thesis by (simp add: X Y)
qed

definition cleared :: "hash_table_entry list \<Rightarrow> nat \<Rightarrow> nat \<Rightarrow> hash_table_entry list \<Rightarrow> bool" where
  "cleared sl i j sl' \<longleftrightarrow> j < length sl \<and> length sl' = length sl \<and> rh_ok (sl'[j := entry_zero]) \<and>
     content (sl'[j := entry_zero]) = content sl - {#sl ! i#}"

lemma cleared_here:
  assumes "rh_ok sl" and "2 \<le> length sl" and "i < length sl" and "occ sl (Suc i mod length sl) \<Longrightarrow> probe sl (Suc i mod length sl) = 0"
  shows "cleared sl i i sl"
  using rh_clear [OF assms] content_remove [OF assms(3)] assms(3) by (simp add: cleared_def)

lemma remove_loop_ok:
  assumes "ring k msk sl" and "rh_ok sl" and "i < length sl" and "occ sl i"
    and "Suc d < length sl" and "\<not> occ sl ((i + Suc d) mod length sl)"
  shows "\<exists>j sl'. remove_loop msk (of_nat i) sl = Some (of_nat j, sl') \<and> cleared sl i j sl'"
  using assms
proof (induction d arbitrary: i sl)
  case (0 i sl)
  let ?j = "Suc i mod length sl"
  have j: "?j < length sl" using "0.prems"(3) by (rule slot_lt)
  have "\<not> occ sl ?j" using "0.prems"(6) by simp
  then have "remove_loop msk (of_nat i) sl = Some (of_nat i, sl)"
    using j unat_of_nat64 [of ?j] ring_lt64 [OF "0.prems"(1)]
    by (subst remove_loop.simps) (simp add: Let_def ring_next [OF "0.prems"(1,3)] occ_def)
  moreover have "cleared sl i i sl"
    by (rule cleared_here [OF "0.prems"(2) ring_ge2 [OF "0.prems"(1)] "0.prems"(3)]) (use \<open>\<not> occ sl ?j\<close> in simp)
  ultimately show ?case by blast
next
  case (Suc d i sl)
  note r = Suc.prems(1) and i = Suc.prems(3)
  let ?j = "Suc i mod length sl"
  have j: "?j < length sl" using i by (rule slot_lt)
  have u: "unat (of_nat ?j :: u64) = ?j" using j ring_lt64 [OF r] by (intro unat_of_nat64) simp
  show ?case
  proof (cases "occ sl ?j \<and> 0 < probe sl ?j")
    case False
    then have "remove_loop msk (of_nat i) sl = Some (of_nat i, sl)"
      using j u by (subst remove_loop.simps) (auto simp: Let_def ring_next [OF r i] ring_at_home [OF r j] occ_def)
    moreover have "cleared sl i i sl"
      by (rule cleared_here [OF Suc.prems(2) ring_ge2 [OF r] i]) (use False in simp)
    ultimately show ?thesis by blast
  next
    case True
    let ?sl = "sl[i := sl ! ?j]"
    have ne: "?j \<noteq> i" using next_neq ring_ge2 [OF r] i .
    have step: "remove_loop msk (of_nat i) sl = remove_loop msk (of_nat ?j) ?sl"
      using True j u i unat_of_nat64 [of i] ring_lt64 [OF r]
      by (subst remove_loop.simps) (simp add: Let_def ring_next [OF r i] ring_at_home [OF r j] occ_def)
    have far: "(i + Suc (Suc d)) mod length sl = (?j + Suc d) mod length sl"
      unfolding mod_add_left_eq by simp
    have "\<exists>j' sl'. remove_loop msk (of_nat ?j) ?sl = Some (of_nat j', sl') \<and> cleared ?sl ?j j' sl'"
    proof (rule Suc.IH)
      show "\<not> occ ?sl ((?j + Suc d) mod length ?sl)"
        using Suc.prems(6) ring_shift_neq [OF i, of "Suc (Suc d)"] Suc.prems(5)
        unfolding length_list_update far by (simp add: occ_update [OF i])
    qed (use Suc.prems True j ne ring_ge2 [OF r] rh_shift in \<open>simp_all add: ring_update occ_update\<close>)
    moreover have "content ?sl - {#?sl ! ?j#} = content sl - {#sl ! i#}"
      using content_shift [OF i Suc.prems(4) j] True ne by simp
    ultimately show ?thesis by (auto simp: step cleared_def)
  qed
qed

end
