(* ===== verification/Tn_Hash_Map.thy ===== *)
theory Tn_Hash_Map
  imports Tn_Robin_Hood
begin

text \<open>
  The hash table as a map. \<open>table_ok k m state\<close> says that a table of \<open>2 ^ k\<close> slots holds exactly the pairs of
  the map \<open>m\<close>, once each, laid out as the Robin Hood invariant demands. Finding, putting, removing and clearing
  implement the operations on the map; growing keeps it; the iterator visits every pair once.
\<close>

section \<open>Sizes\<close>

definition max_load :: "nat \<Rightarrow> nat" where
  "max_load k = 8556839292993126 * 2 ^ k div 2 ^ 53"

lemma max_load_lt: "max_load k < 2 ^ k"
proof -
  have "(8556839292993126 :: nat) * 2 ^ k < 2 ^ 53 * 2 ^ k" by (intro mult_strict_right_mono) simp_all
  then show ?thesis by (simp add: max_load_def less_mult_imp_div_less mult.commute)
qed

lemma max_load_double: "2 * max_load k \<le> max_load (Suc k)"
proof -
  have "2 * (a div b) \<le> 2 * a div b" for a b :: nat
    by (simp add: div_mult1_eq [of 2 a b])
  from this [of "8556839292993126 * 2 ^ k" "2 ^ 53"] show ?thesis by (simp add: max_load_def)
qed

lemma max_load_pos: "1 \<le> k \<Longrightarrow> 1 \<le> max_load k"
proof (induction k rule: dec_induct)
  case base
  show ?case by (simp add: max_load_def)
next
  case (step k)
  then show ?case using max_load_double [of k] by simp
qed

lemma load_of_pow2: "k < 64 \<Longrightarrow> load_of (2 ^ k) = of_nat (max_load k)"
  by (simp add: load_of_def max_load_def unat_pow2_64)

lemma unat_max_load: "k < 64 \<Longrightarrow> unat (of_nat (max_load k) :: u64) = max_load k"
proof -
  assume "k < 64"
  then have "(2 :: nat) ^ k < 2 ^ 64" by (intro power_strict_increasing) simp_all
  then show ?thesis using max_load_lt [of k] by (intro unat_of_nat64) simp
qed

text \<open>The loop finds the least power of two that is large enough; the mask is its negation.\<close>

lemma size_loop_pow2:
  assumes "j \<le> k" and "k < 64" and "unat min_size \<le> 2 ^ k" and "\<And>i. i < k \<Longrightarrow> 2 ^ i < unat min_size" and "k - j < fuel"
  shows "size_loop fuel min_size (2 ^ j) (- (2 ^ j)) = Some (2 ^ k, - (2 ^ k))"
  using assms
proof (induction fuel arbitrary: j)
  case (Suc fuel)
  show ?case
  proof (cases "j = k")
    case True
    then have "\<not> (2 ^ j < min_size)" using Suc.prems by (simp add: word_less_nat_alt unat_pow2_64)
    then show ?thesis using True by simp
  next
    case False
    then have j: "j < k" using Suc.prems by simp
    then have lt: "(2 :: u64) ^ j < min_size" using Suc.prems by (simp add: word_less_nat_alt unat_pow2_64)
    have p: "push_bit 1 ((2 :: u64) ^ j) = 2 ^ Suc j" and q: "push_bit 1 (- ((2 :: u64) ^ j)) = - (2 ^ Suc j)"
      by (simp_all add: push_bit_eq_mult)
    have "unat ((2 :: u64) ^ Suc j) = 2 ^ Suc j" using j Suc.prems by (intro unat_pow2_64) simp
    then have nz: "(2 :: u64) ^ Suc j \<noteq> 0" by (metis power_not_zero unat_0 zero_neq_numeral)
    have "size_loop fuel min_size (2 ^ Suc j) (- (2 ^ Suc j)) = Some (2 ^ k, - (2 ^ k))"
      using j Suc.prems by (intro Suc.IH) simp_all
    then show ?thesis using lt nz by (simp only: size_loop.simps if_True p q Let_def if_False)
  qed
qed simp

text \<open>The number of slots for an expected number of elements.\<close>

definition slots_for :: "size_t \<Rightarrow> nat \<Rightarrow> bool" where
  "slots_for expected k \<longleftrightarrow> 1 \<le> k \<and> unat expected \<le> 2 ^ k \<and> (\<forall>i < k. 1 \<le> i \<longrightarrow> 2 ^ i < unat expected)"

lemma slots_for_pow2: "1 \<le> k \<Longrightarrow> k < 64 \<Longrightarrow> slots_for (2 ^ k) k"
  by (simp add: slots_for_def unat_pow2_64)

lemma pow2_le32: "k \<le> 32 \<Longrightarrow> (2 :: nat) ^ k \<le> 4294967296"
  using power_increasing [of k 32 "2 :: nat"] by simp

lemma pow2_le40: "k \<le> 40 \<Longrightarrow> (2 :: nat) ^ k \<le> 1099511627776"
  using power_increasing [of k 40 "2 :: nat"] by simp

lemma update_template:
  assumes k: "k \<le> 40" and e: "slots_for expected k"
  shows "s_update_template_size template expected =
    (AWS_OP_SUCCESS, template\<lparr>hs_size := 2 ^ k, hs_max_load := of_nat (max_load k), hs_mask := 2 ^ k - 1\<rparr>)"
proof -
  let ?min = "if expected < 2 then 2 else expected"
  have u: "unat (2 ^ k :: u64) = 2 ^ k" using k by (intro unat_pow2_64) simp
  have two: "unat (2 :: u64) = 2" by simp
  have "unat ?min \<le> 2 ^ k" using e power_increasing [of 1 k "2 :: nat"] by (auto simp: slots_for_def)
  moreover have "2 ^ i < unat ?min" if "i < k" for i
    using that e by (cases "i = 0") (auto simp: slots_for_def word_less_nat_alt)
  ultimately have "size_loop 65 ?min (2 ^ 0) (- (2 ^ 0)) = Some (2 ^ k, - (2 ^ k))"
    using k by (intro size_loop_pow2) simp_all
  then have l: "size_loop 65 ?min 1 (NOT 0) = Some (2 ^ k, - (2 ^ k))" by simp
  have m: "NOT (- (2 ^ k)) = (2 ^ k - 1 :: u64)" by (simp add: not_eq_complement)
  have "\<not> (2 ^ k < expected)" using e u by (simp add: slots_for_def word_less_nat_alt)
  moreover have "\<not> (load_of (2 ^ k) \<ge> 2 ^ k)"
    using k u max_load_lt [of k] by (simp add: load_of_pow2 word_le_nat_alt unat_max_load)
  moreover have mul: "unat ((2 ^ k) * 24 :: u64) = 2 ^ k * 24"
    using pow2_le40 [OF k] u by (subst unat_mult64) simp_all
  moreover have "(2 ^ k) * 24 \<noteq> (-1 :: u64)"
  proof
    assume "(2 ^ k) * 24 = (-1 :: u64)"
    then have "unat ((2 ^ k) * 24 :: u64) = unat (-1 :: u64)" by (rule arg_cong)
    moreover have "unat (-1 :: u64) = 2 ^ 64 - 1" by (simp add: unsigned_minus_1_eq_mask mask_eq_exp_minus_1)
    ultimately show False using mul pow2_le40 [OF k] by simp
  qed
  moreover have "\<not> ((2 ^ k) * 24 + 104 < ((2 ^ k) * 24 :: u64))"
    using mul pow2_le40 [OF k] unat_add64 [of "(2 ^ k) * 24" 104] by (simp add: word_less_nat_alt)
  moreover have "aws_mul_size_saturating (2 ^ k) 24 = (2 ^ k) * 24"
    using pow2_le40 [OF k] u by (simp add: aws_mul_size_saturating_def)
  ultimately show ?thesis
    using k unfolding s_update_template_size_def Let_def l by (simp add: m load_of_pow2)
qed

lemma alloc_state:
  assumes k: "k \<le> 32" and s: "hs_size template = 2 ^ k"
  shows "s_alloc_state ok template = (if ok then Some (template\<lparr>hs_slots := replicate (2 ^ k) entry_zero\<rparr>) else None)"
proof -
  have u: "unat (2 ^ k :: u64) = 2 ^ k" using k by (intro unat_pow2_64) simp
  then have u1: "unat (2 ^ k - 1 :: u64) = 2 ^ k - 1" by (subst unat_sub64) simp_all
  have "unat (2 ^ k - 1 :: u64) < 2 ^ 32" using u1 pow2_le32 [OF k] by simp
  then have c: "ucast (ucast (2 ^ k - 1 :: u64) :: u32) = (2 ^ k - 1 :: u64)"
    by (intro unsigned_word_eqI [where 'a = nat]) (simp add: unat_ucast_32_64 unsigned_ucast_eq unsigned_take_bit_eq take_bit_nat_eq_self)
  have "unat (2 ^ k - 1 :: u64) * 24 < 2 ^ 64" using u1 pow2_le32 [OF k] by simp
  then have mul: "unat ((2 ^ k - 1) * 24 :: u64) = (2 ^ k - 1) * 24" using u1 by (subst unat_mult64) simp_all
  have "\<not> ((2 ^ k - 1) * 24 + 104 < ((2 ^ k - 1) * 24 :: u64))"
    using mul pow2_le32 [OF k] unat_add64 [of "(2 ^ k - 1) * 24" 104] by (simp add: word_less_nat_alt)
  moreover have "3 * (2 ^ k - Suc 0) < 2305843009213693952" using pow2_le32 [OF k] by linarith
  ultimately show ?thesis
    using s c mul u1 pow2_le32 [OF k] by (simp add: s_alloc_state_def aws_mul_size_checked_def Let_def)
qed

section \<open>The table as a map\<close>

text \<open>The entries that represent a map, each with the hash code of its key.\<close>

definition entries :: "(addr \<Rightarrow> u64) \<Rightarrow> (addr \<rightharpoonup> addr) \<Rightarrow> hash_table_entry set" where
  "entries H m = {e. m (he_key e) = Some (he_value e) \<and> he_code e = H (he_key e)}"

lemma entries_image: "entries H m = (\<lambda>key. \<lparr>he_key = key, he_value = the (m key), he_code = H key\<rparr>) ` dom m"
  by (force simp: entries_def image_iff)

lemma finite_entries: "finite (dom m) \<Longrightarrow> finite (entries H m)"
  by (simp add: entries_image)

lemma card_entries: "card (entries H m) = card (dom m)"
  unfolding entries_image by (rule card_image) (simp add: inj_on_def)

lemma entries_empty [simp]: "entries H Map.empty = {}"
  by (simp add: entries_def)

lemma entries_new:
  "m key = None \<Longrightarrow> entries H (m(key \<mapsto> v)) = insert \<lparr>he_key = key, he_value = v, he_code = H key\<rparr> (entries H m)"
  by (auto simp: entries_def split: if_splits)

lemma entries_remove:
  "m key = Some v \<Longrightarrow> entries H (m(key := None)) = entries H m - {\<lparr>he_key = key, he_value = v, he_code = H key\<rparr>}"
  by (auto simp: entries_def split: if_splits)

lemma entries_absent: "m key = None \<Longrightarrow> \<lparr>he_key = key, he_value = v, he_code = c\<rparr> \<notin> entries H m"
  by (simp add: entries_def)

definition table_ok :: "nat \<Rightarrow> (addr \<rightharpoonup> addr) \<Rightarrow> hash_table_state \<Rightarrow> bool" where
  "table_ok k m state \<longleftrightarrow> ring k (hs_mask state) (hs_slots state) \<and> k \<le> 32 \<and> hs_size state = 2 ^ k \<and>
     hs_max_load state = of_nat (max_load k) \<and> hs_equals_fn state = (=) \<and> rh_ok (hs_slots state) \<and>
     finite (dom m) \<and> content (hs_slots state) = mset_set (entries (s_hash_for state) m) \<and>
     hs_entry_count state = of_nat (card (dom m)) \<and> card (dom m) \<le> max_load k"

lemma hash_code_nonzero: "s_hash_for state key \<noteq> 0"
  by (simp add: s_hash_for_def Let_def)

lemma hash_for_cong: "hs_hash_fn state' = hs_hash_fn state \<Longrightarrow> s_hash_for state' = s_hash_for state"
  by (simp add: s_hash_for_def fun_eq_iff Let_def)

lemma room_if_few:
  assumes "size (content sl) < length sl"
  shows "has_room sl"
proof (rule ccontr)
  assume "\<not> has_room sl"
  then have "\<forall>e \<in> set sl. he_code e \<noteq> 0" by (auto simp: has_room_def occ_def in_set_conv_nth)
  then have "content sl = mset sl" unfolding content_def by (intro filter_mset_eq_conv [THEN iffD2]) simp
  then show False using assms by simp
qed

lemma table_room: "table_ok k m state \<Longrightarrow> has_room (hs_slots state)"
proof (rule room_if_few)
  assume t: "table_ok k m state"
  then have "size (content (hs_slots state)) = card (dom m)" by (simp add: table_ok_def card_entries)
  then show "size (content (hs_slots state)) < length (hs_slots state)"
    using t max_load_lt [of k] by (simp add: table_ok_def ring_def)
qed

lemma table_slot:
  assumes t: "table_ok k m state" and i: "i < length (hs_slots state)" and o: "he_code (hs_slots state ! i) \<noteq> 0"
  shows "hs_slots state ! i \<in> entries (s_hash_for state) m"
proof -
  have "hs_slots state ! i \<in># content (hs_slots state)" using i o by (simp add: content_def)
  then show ?thesis using t by (simp add: table_ok_def finite_entries)
qed

lemma table_slot_unique:
  assumes t: "table_ok k m state" and i: "i < length (hs_slots state)" and j: "j < length (hs_slots state)"
    and e: "hs_slots state ! i = hs_slots state ! j" "he_code (hs_slots state ! i) \<noteq> 0"
  shows "i = j"
proof -
  let ?sl = "hs_slots state" and ?A = "{q. q < length (hs_slots state) \<and> hs_slots state ! i = hs_slots state ! q}"
  have "count (content ?sl) (?sl ! i) = count (mset ?sl) (?sl ! i)" using e by (simp add: content_def)
  also have "\<dots> = card ?A" by (simp add: count_mset count_list_eq_length_filter length_filter_conv_card)
  finally have c: "card ?A = count (content ?sl) (?sl ! i)" ..
  have "content ?sl = mset_set (entries (s_hash_for state) m)" using t by (simp add: table_ok_def)
  then have "card ?A \<le> Suc 0" unfolding c by (simp add: count_mset_set')
  moreover have "finite ?A" by simp
  ultimately have "\<forall>a \<in> ?A. \<forall>b \<in> ?A. a = b" by (simp only: card_le_Suc0_iff_eq)
  then show ?thesis using i j e by blast
qed

lemma table_find_present:
  assumes t: "table_ok k m state" and v: "m key = Some v"
  obtains i where "i < length (hs_slots state)" and "hs_slots state ! i = \<lparr>he_key = key, he_value = v, he_code = s_hash_for state key\<rparr>"
    and "s_find_entry state (s_hash_for state key) key = Some (AWS_ERROR_SUCCESS, i, of_nat (probe (hs_slots state) i))"
proof -
  let ?sl = "hs_slots state" and ?e = "\<lparr>he_key = key, he_value = v, he_code = s_hash_for state key\<rparr>"
  have eq: "hs_equals_fn state = (=)" using t by (simp add: table_ok_def)
  have "?e \<in> entries (s_hash_for state) m" using v by (simp add: entries_def)
  then have "?e \<in># content ?sl" using t by (simp add: table_ok_def finite_entries)
  then obtain i where i: "i < length ?sl" "?sl ! i = ?e" by (auto simp: content_def in_set_conv_nth)
  have u: "j = i" if j: "j < length ?sl" "matches (hs_equals_fn state) (s_hash_for state key) key (?sl ! j)" for j
  proof -
    have "?sl ! j \<in> entries (s_hash_for state) m"
      using table_slot [OF t j(1)] j(2) hash_code_nonzero by (simp add: matches_def)
    moreover have "he_key (?sl ! j) = key" using j(2) by (simp add: matches_def eq)
    ultimately have "?sl ! j = ?e" using v by (simp add: entries_def)
    then show ?thesis using table_slot_unique [OF t j(1) i(1)] i(2) hash_code_nonzero by simp
  qed
  have m: "matches (hs_equals_fn state) (s_hash_for state key) key (?sl ! i)" using i eq by (simp add: matches_def)
  have r: "ring k (hs_mask state) ?sl" and ok: "rh_ok ?sl" using t by (simp_all add: table_ok_def)
  have "s_find_entry state (s_hash_for state key) key = Some (AWS_ERROR_SUCCESS, i, of_nat (probe ?sl i))"
    by (rule find_present [OF r ok hash_code_nonzero i(1) m u])
  then show thesis using that i by blast
qed

lemma table_find_absent:
  assumes t: "table_ok k m state" and v: "m key = None"
  obtains q where "q < length (hs_slots state)"
    and "s_find_entry state (s_hash_for state key) key =
      Some (AWS_ERROR_HASHTBL_ITEM_NOT_FOUND, seat (hs_slots state) (s_hash_for state key) q, of_nat q)"
    and "supported (hs_slots state) (seat (hs_slots state) (s_hash_for state key) (q - 1)) q"
proof -
  have r: "ring k (hs_mask state) (hs_slots state)" and eq: "hs_equals_fn state = (=)" using t by (simp_all add: table_ok_def)
  have "\<not> matches (hs_equals_fn state) (s_hash_for state key) key (hs_slots state ! j)" if "j < length (hs_slots state)" for j
    using table_slot [OF t that] v eq hash_code_nonzero by (auto simp: matches_def entries_def)
  then show thesis using find_absent [OF r hash_code_nonzero table_room [OF t]] that by blast
qed

text \<open>Finding returns what the map has.\<close>

lemma find_ok:
  assumes t: "table_ok k m state"
  shows "aws_hash_table_find state key = Some (AWS_OP_SUCCESS, map_option (Pair key) (m key))"
proof (cases "m key")
  case None
  have "ring k (hs_mask state) (hs_slots state)" using t by (simp add: table_ok_def)
  from seat_lt [OF this] show ?thesis
    using None by (rule_tac table_find_absent [OF t None]) (simp add: aws_hash_table_find_def Let_def)
next
  case (Some v)
  then show ?thesis by (rule_tac table_find_present [OF t Some]) (simp add: aws_hash_table_find_def Let_def)
qed

section \<open>Growing\<close>

lemma rh_ok_empty: "rh_ok (replicate n entry_zero)"
proof -
  have "\<not> occ (replicate n entry_zero) (Suc i mod n)" if "i < n" for i
    using that by (simp add: occ_def entry_zero_def)
  then show ?thesis by (simp add: rh_ok_def Let_def)
qed

lemma content_empty [simp]: "content (replicate n entry_zero) = {#}"
  by (auto simp: content_def entry_zero_def filter_mset_eq_conv multiset_eq_iff)

lemma content_take_Suc:
  "i < length sl \<Longrightarrow> content (take (Suc i) sl) = (if occ sl i then add_mset (sl ! i) (content (take i sl)) else content (take i sl))"
  by (simp add: take_Suc_conv_app_nth content_def occ_def)

lemma content_take_size: "size (content (take i sl)) \<le> size (content sl)"
proof -
  have "content sl = content (take i sl) + content (drop i sl)"
    by (metis append_take_drop_id content_def filter_union_mset mset_append)
  then show ?thesis by simp
qed

lemma expand_ok:
  assumes "ring k (hs_mask new) (hs_slots new)" and "rh_ok (hs_slots new)" and "content (hs_slots new) = content (take i (hs_slots old))"
    and "i + n \<le> length (hs_slots old)" and "size (content (hs_slots old)) < 2 ^ k"
  shows "\<exists>sl'. expand_loop n i old new = Some (new\<lparr>hs_slots := sl'\<rparr>) \<and> ring k (hs_mask new) sl' \<and> rh_ok sl' \<and>
    content sl' = content (take (i + n) (hs_slots old))"
  using assms
proof (induction n arbitrary: i new)
  case 0
  then show ?case by (intro exI [of _ "hs_slots new"]) simp
next
  case (Suc n)
  let ?sl = "hs_slots old" and ?e = "hs_slots old ! i"
  note r = Suc.prems(1)
  have i: "i < length ?sl" using Suc.prems(4) by simp
  show ?case
  proof (cases "occ ?sl i")
    case False
    then have "expand_loop (Suc n) i old new = expand_loop n (Suc i) old new" using i by (simp add: occ_def)
    moreover have "content (hs_slots new) = content (take (Suc i) ?sl)"
      using Suc.prems(3) content_take_Suc [OF i] False by simp
    ultimately show ?thesis using Suc.IH [of new "Suc i"] Suc.prems by simp
  next
    case True
    then have e: "he_code ?e \<noteq> 0" by (simp add: occ_def)
    have "size (content (hs_slots new)) < length (hs_slots new)"
      using Suc.prems(3,5) content_take_size [of i ?sl] ring_length [OF r] by simp
    then have room: "has_room (hs_slots new)" by (rule room_if_few)
    have p: "0 < length (hs_slots new)" using ring_length [OF r] by simp
    obtain j sl1 where run: "emplace_loop (hs_mask new) None (hs_slots new) ?e (of_nat 0) = Some (Some j, sl1)"
      and new: "ring k (hs_mask new) sl1" "rh_ok sl1" "content sl1 = add_mset ?e (content (hs_slots new))"
      using emplace_item [OF r Suc.prems(2) e p _ room] unfolding supported_def by blast
    have "expand_loop (Suc n) i old new = expand_loop n (Suc i) old (new\<lparr>hs_slots := sl1\<rparr>)"
      using i e run by (simp add: s_emplace_item_def)
    moreover have "content sl1 = content (take (Suc i) ?sl)"
      using new(3) Suc.prems(3) content_take_Suc [OF i] True by simp
    ultimately show ?thesis using Suc.IH [of "new\<lparr>hs_slots := sl1\<rparr>" "Suc i"] Suc.prems new by simp
  qed
qed

text \<open>A table that cannot grow is unchanged; one that grows holds the same map in twice the slots.\<close>

definition grown :: "nat \<Rightarrow> hash_table_state \<Rightarrow> hash_table_state" where
  "grown k state = state\<lparr>hs_size := 2 ^ Suc k, hs_max_load := of_nat (max_load (Suc k)), hs_mask := 2 ^ Suc k - 1\<rparr>"

lemma expand_template:
  assumes "table_ok k m state" and "k < 32"
  shows "s_update_template_size state (hs_size state * 2) = (AWS_OP_SUCCESS, grown k state)"
    and "s_alloc_state ok (grown k state) = (if ok then Some ((grown k state)\<lparr>hs_slots := replicate (2 ^ Suc k) entry_zero\<rparr>) else None)"
proof -
  have sz: "hs_size state * 2 = 2 ^ Suc k" using assms by (simp add: table_ok_def)
  show "s_update_template_size state (hs_size state * 2) = (AWS_OP_SUCCESS, grown k state)"
    unfolding sz grown_def using assms by (intro update_template slots_for_pow2) simp_all
  show "s_alloc_state ok (grown k state) = (if ok then Some ((grown k state)\<lparr>hs_slots := replicate (2 ^ Suc k) entry_zero\<rparr>) else None)"
    using assms by (intro alloc_state) (simp_all add: grown_def)
qed

lemma expand_fails: "table_ok k m state \<Longrightarrow> k < 32 \<Longrightarrow> s_expand_table False state = Some (AWS_OP_ERR, state)"
  by (simp add: s_expand_table_def Let_def expand_template)

lemma grow_ok:
  assumes t: "table_ok k m state" and k: "k < 32"
  obtains state' where "s_expand_table True state = Some (AWS_OP_SUCCESS, state')" and "table_ok (Suc k) m state'"
    and "s_hash_for state' = s_hash_for state" and "hs_calls state' = hs_calls state"
    and "hs_destroy_key_fn state' = hs_destroy_key_fn state" and "hs_destroy_value_fn state' = hs_destroy_value_fn state"
proof -
  let ?new = "(grown k state)\<lparr>hs_slots := replicate (2 ^ Suc k) entry_zero\<rparr>"
  have l: "length (hs_slots state) = 2 ^ k" and u: "unat (hs_size state) = 2 ^ k"
    using t k by (simp_all add: table_ok_def ring_def unat_pow2_64)
  have c: "size (content (hs_slots state)) = card (dom m)" using t by (simp add: table_ok_def card_entries)
  have r: "ring (Suc k) (hs_mask ?new) (hs_slots ?new)" using k by (simp add: ring_def grown_def)
  have "card (dom m) < 2 ^ Suc k" using t max_load_lt [of k] by (simp add: table_ok_def)
  moreover have "content (take 0 (hs_slots state)) = {#}" by (simp add: content_def)
  ultimately have "\<exists>sl'. expand_loop (2 ^ k) 0 state ?new = Some (?new\<lparr>hs_slots := sl'\<rparr>) \<and> ring (Suc k) (hs_mask ?new) sl' \<and> rh_ok sl' \<and>
    content sl' = content (take (0 + 2 ^ k) (hs_slots state))"
    using r rh_ok_empty l c by (intro expand_ok) simp_all
  then obtain sl' where run: "expand_loop (2 ^ k) 0 state ?new = Some (?new\<lparr>hs_slots := sl'\<rparr>)"
    and sl': "ring (Suc k) (hs_mask ?new) sl'" "rh_ok sl'" "content sl' = content (hs_slots state)" using l by auto
  let ?s = "?new\<lparr>hs_slots := sl'\<rparr>"
  have "s_expand_table True state = Some (AWS_OP_SUCCESS, ?s)"
    by (simp only: s_expand_table_def Let_def expand_template [OF t k] u run snd_conv option.case option.map if_True)
  moreover have h: "s_hash_for ?s = s_hash_for state" by (rule hash_for_cong) (simp add: grown_def)
  moreover have "table_ok (Suc k) m ?s"
    using t k sl' max_load_double [of k] h by (simp add: table_ok_def grown_def)
  ultimately show thesis using that by (simp add: grown_def)
qed

section \<open>Putting and removing\<close>

lemma dom_card_new: "m key = None \<Longrightarrow> finite (dom m) \<Longrightarrow> card (dom (m(key \<mapsto> v))) = Suc (card (dom m))"
  by (simp add: domIff)

lemma content_new:
  assumes "m key = None" and "finite (dom m)"
  shows "mset_set (entries H (m(key \<mapsto> v))) = add_mset \<lparr>he_key = key, he_value = v, he_code = H key\<rparr> (mset_set (entries H m))"
  using assms by (simp add: entries_new entries_absent finite_entries)

lemma content_del:
  assumes "m key = Some v" and "finite (dom m)"
  shows "mset_set (entries H (m(key := None))) = mset_set (entries H m) - {#\<lparr>he_key = key, he_value = v, he_code = H key\<rparr>#}"
proof -
  have "\<lparr>he_key = key, he_value = v, he_code = H key\<rparr> \<in> entries H m" using assms(1) by (simp add: entries_def)
  then show ?thesis using assms by (simp add: entries_remove mset_set_Diff finite_entries)
qed

text \<open>A new entry goes into a table that may still take one.\<close>

lemma insert_ok:
  assumes t: "table_ok k m state" and new: "m key = None" and room: "card (dom m) < max_load k"
    and q: "q < length (hs_slots state)" and s: "supported (hs_slots state) (seat (hs_slots state) (s_hash_for state key) (q - 1)) q"
  obtains i state' where
    "s_emplace_item (state\<lparr>hs_entry_count := hs_entry_count state + 1\<rparr>) \<lparr>he_key = key, he_value = 0, he_code = s_hash_for state key\<rparr> (of_nat q) =
      Some (Some i, state')"
    and "i < length (hs_slots state')" and "hs_slots state' ! i = \<lparr>he_key = key, he_value = 0, he_code = s_hash_for state key\<rparr>"
    and "table_ok k (m(key \<mapsto> 0)) state'" and "hs_calls state' = hs_calls state" and "s_hash_for state' = s_hash_for state"
proof -
  let ?e = "\<lparr>he_key = key, he_value = 0, he_code = s_hash_for state key\<rparr>"
  have r: "ring k (hs_mask state) (hs_slots state)" and ok: "rh_ok (hs_slots state)" using t by (simp_all add: table_ok_def)
  have e: "he_code ?e \<noteq> 0" using hash_code_nonzero by simp
  have s': "supported (hs_slots state) (seat (hs_slots state) (he_code ?e) (q - 1)) q" using s by simp
  obtain i sl' where run: "emplace_loop (hs_mask state) None (hs_slots state) ?e (of_nat q) = Some (Some i, sl')"
    and i: "i < length sl'" "sl' ! i = ?e"
    and sl': "ring k (hs_mask state) sl'" "rh_ok sl'" "content sl' = add_mset ?e (content (hs_slots state))"
    using emplace_item [OF r ok e q s' table_room [OF t]] by blast
  let ?s = "state\<lparr>hs_entry_count := hs_entry_count state + 1, hs_slots := sl'\<rparr>"
  have h: "s_hash_for ?s = s_hash_for state" by (rule hash_for_cong) simp
  have "s_emplace_item (state\<lparr>hs_entry_count := hs_entry_count state + 1\<rparr>) ?e (of_nat q) = Some (Some i, ?s)"
    using run by (simp add: s_emplace_item_def)
  moreover have "table_ok k (m(key \<mapsto> 0)) ?s"
    using t sl' room new h dom_card_new [of m key 0] content_new [of m key _ 0] by (simp add: table_ok_def)
  ultimately show thesis using that i h by simp
qed

text \<open>Writing the value of an entry.\<close>

lemma rh_same_code: "rh_ok sl \<Longrightarrow> i < length sl \<Longrightarrow> he_code e = he_code (sl ! i) \<Longrightarrow> rh_ok (sl[i := e])"
proof -
  assume "rh_ok sl" and i: "i < length sl" and "he_code e = he_code (sl ! i)"
  moreover from this have "occ (sl[i := e]) = occ sl" and "probe (sl[i := e]) = probe sl"
    by (auto simp: fun_eq_iff occ_update [OF i] probe_update [OF i]) (auto simp: occ_def probe_def)
  ultimately show ?thesis by (simp add: rh_ok_def supported_def Let_def)
qed

lemma write_value:
  assumes t: "table_ok k m state" and v: "m key = Some v"
    and i: "i < length (hs_slots state)" "hs_slots state ! i = \<lparr>he_key = key, he_value = v, he_code = s_hash_for state key\<rparr>"
  shows "table_ok k (m(key \<mapsto> v'))
    (state\<lparr>hs_slots := (hs_slots state)[i := \<lparr>he_key = key, he_value = v', he_code = s_hash_for state key\<rparr>], hs_calls := calls\<rparr>)"
proof -
  let ?sl = "(hs_slots state)[i := \<lparr>he_key = key, he_value = v', he_code = s_hash_for state key\<rparr>]"
  let ?s = "state\<lparr>hs_slots := ?sl, hs_calls := calls\<rparr>" and ?H = "s_hash_for state" and ?e = "hs_slots state ! i"
  have f: "finite (dom m)" and c: "content (hs_slots state) = mset_set (entries ?H m)" using t by (simp_all add: table_ok_def)
  have h: "s_hash_for ?s = ?H" by (rule hash_for_cong) simp
  have "mset_set (entries ?H (m(key \<mapsto> v'))) = mset_set (entries ?H ((m(key := None))(key \<mapsto> v')))" by simp
  also have "\<dots> = add_mset \<lparr>he_key = key, he_value = v', he_code = ?H key\<rparr> (mset_set (entries ?H m) - {#?e#})"
    unfolding i(2) content_del [OF v f, symmetric] by (rule content_new) (use f in simp_all)
  also have "\<dots> = content ?sl"
    using i hash_code_nonzero by (simp add: c [symmetric] content_def mset_update)
  finally have "content ?sl = mset_set (entries ?H (m(key \<mapsto> v')))" ..
  moreover have "rh_ok ?sl" using t i by (intro rh_same_code) (simp_all add: table_ok_def)
  moreover have "dom (m(key \<mapsto> v')) = dom m" using v by auto
  ultimately show ?thesis using t h by (simp add: table_ok_def ring_def)
qed

text \<open>Putting: a key that is present gets a new value, a new key a new entry, in a table twice the size when there is no room.\<close>

lemma put_present:
  assumes t: "table_ok k m state" and v: "m key = Some v"
  obtains state' where "aws_hash_table_put ok state key val = Some (AWS_OP_SUCCESS, Some False, state')"
    and "table_ok k (m(key \<mapsto> val)) state'"
    and "hs_calls state' = hs_calls state @ destroy_old state False key v"
proof -
  obtain i where i: "i < length (hs_slots state)" "hs_slots state ! i = \<lparr>he_key = key, he_value = v, he_code = s_hash_for state key\<rparr>"
    and f: "s_find_entry state (s_hash_for state key) key = Some (AWS_ERROR_SUCCESS, i, of_nat (probe (hs_slots state) i))"
    using table_find_present [OF t v] by blast
  have "aws_hash_table_create ok state key = Some (AWS_OP_SUCCESS, Some i, Some False, state)"
    using f by (simp add: aws_hash_table_create_def Let_def)
  then show thesis
    using that write_value [OF t v i] i by (simp add: aws_hash_table_put_def Let_def)
qed

lemma put_created:
  assumes t: "table_ok k (m(key \<mapsto> 0)) state" and i: "i < length (hs_slots state)"
    "hs_slots state ! i = \<lparr>he_key = key, he_value = 0, he_code = s_hash_for state key\<rparr>"
    and c: "aws_hash_table_create ok state0 key = Some (AWS_OP_SUCCESS, Some i, Some True, state)"
  obtains state' where "aws_hash_table_put ok state0 key val = Some (AWS_OP_SUCCESS, Some True, state')"
    and "table_ok k (m(key \<mapsto> val)) state'" and "hs_calls state' = hs_calls state"
  using that write_value [OF t _ i, of val "hs_calls state"] c i by (simp add: aws_hash_table_put_def Let_def)

lemma table_few: "table_ok k m state \<Longrightarrow> Suc (card (dom m)) < 2 ^ 64"
proof -
  assume t: "table_ok k m state"
  then have "(2 :: nat) ^ k \<le> 2 ^ 32" by (intro power_increasing) (simp_all add: table_ok_def)
  then show ?thesis using t max_load_lt [of k] by (simp add: table_ok_def)
qed

lemma table_count: "table_ok k m state \<Longrightarrow> unat (hs_entry_count state) = card (dom m)"
  using table_few [of k m state] by (simp add: table_ok_def unat_of_nat64)

lemma entry_count_full:
  assumes t: "table_ok k m state"
  shows "hs_entry_count state + 1 > hs_max_load state \<longleftrightarrow> card (dom m) = max_load k"
proof -
  have k: "k < 64" and c: "card (dom m) \<le> max_load k" using t by (auto simp: table_ok_def)
  have "unat (of_nat (Suc (card (dom m))) :: u64) = Suc (card (dom m))" using table_few [OF t] by (rule unat_of_nat64)
  moreover have "hs_entry_count state + 1 = of_nat (Suc (card (dom m)))" using t by (simp add: table_ok_def)
  ultimately show ?thesis using t k c by (auto simp: table_ok_def word_less_nat_alt unat_max_load simp del: of_nat_Suc)
qed

lemma put_new:
  assumes t: "table_ok k m state" and new: "m key = None" and room: "card (dom m) < max_load k"
  obtains state' where "aws_hash_table_put ok state key val = Some (AWS_OP_SUCCESS, Some True, state')"
    and "table_ok k (m(key \<mapsto> val)) state'" and "hs_calls state' = hs_calls state"
proof -
  obtain q where q: "q < length (hs_slots state)" "supported (hs_slots state) (seat (hs_slots state) (s_hash_for state key) (q - 1)) q"
    and f: "s_find_entry state (s_hash_for state key) key =
      Some (AWS_ERROR_HASHTBL_ITEM_NOT_FOUND, seat (hs_slots state) (s_hash_for state key) q, of_nat q)"
    using table_find_absent [OF t new] by blast
  obtain i s1 where run: "s_emplace_item (state\<lparr>hs_entry_count := hs_entry_count state + 1\<rparr>)
      \<lparr>he_key = key, he_value = 0, he_code = s_hash_for state key\<rparr> (of_nat q) = Some (Some i, s1)"
    and i: "i < length (hs_slots s1)" "hs_slots s1 ! i = \<lparr>he_key = key, he_value = 0, he_code = s_hash_for s1 key\<rparr>"
    and t1: "table_ok k (m(key \<mapsto> 0)) s1" and calls: "hs_calls s1 = hs_calls state"
    using insert_ok [OF t new room q] by metis
  have "\<not> (hs_entry_count state + 1 > hs_max_load state)" using entry_count_full [OF t] room by simp
  then have "aws_hash_table_create ok state key = Some (AWS_OP_SUCCESS, Some i, Some True, s1)"
    using f run by (simp add: aws_hash_table_create_def Let_def)
  from put_created [OF t1 i this] that calls show thesis by metis
qed

lemma put_grow:
  assumes t: "table_ok k m state" and new: "m key = None" and full: "card (dom m) = max_load k" and k: "k < 32"
  obtains state' where "aws_hash_table_put True state key val = Some (AWS_OP_SUCCESS, Some True, state')"
    and "table_ok (Suc k) (m(key \<mapsto> val)) state'" and "hs_calls state' = hs_calls state"
proof -
  obtain q where f: "s_find_entry state (s_hash_for state key) key =
      Some (AWS_ERROR_HASHTBL_ITEM_NOT_FOUND, seat (hs_slots state) (s_hash_for state key) q, of_nat q)"
    using table_find_absent [OF t new] by blast
  obtain s0 where ex: "s_expand_table True state = Some (AWS_OP_SUCCESS, s0)" and t0: "table_ok (Suc k) m s0"
    and h: "s_hash_for s0 = s_hash_for state" and c0: "hs_calls s0 = hs_calls state"
    using grow_ok [OF t k] by blast
  have k1: "1 \<le> k" using t by (simp add: table_ok_def ring_def)
  have room: "card (dom m) < max_load (Suc k)" using full max_load_double [of k] max_load_pos [OF k1] by linarith
  have ring: "ring (Suc k) (hs_mask s0) (hs_slots s0)" using t0 by (simp add: table_ok_def)
  have q0: "0 < length (hs_slots s0)" using ring_length [OF ring] by simp
  have sup: "supported (hs_slots s0) (seat (hs_slots s0) (s_hash_for s0 key) (0 - 1)) 0" by (simp add: supported_def)
  obtain i s1 where run: "s_emplace_item (s0\<lparr>hs_entry_count := hs_entry_count s0 + 1\<rparr>)
      \<lparr>he_key = key, he_value = 0, he_code = s_hash_for s0 key\<rparr> (of_nat 0) = Some (Some i, s1)"
    and i: "i < length (hs_slots s1)" "hs_slots s1 ! i = \<lparr>he_key = key, he_value = 0, he_code = s_hash_for s1 key\<rparr>"
    and t1: "table_ok (Suc k) (m(key \<mapsto> 0)) s1" and c1: "hs_calls s1 = hs_calls s0"
    using insert_ok [OF t0 new room q0 sup] by metis
  have "hs_entry_count state + 1 > hs_max_load state" using entry_count_full [OF t] full by simp
  then have "aws_hash_table_create True state key = Some (AWS_OP_SUCCESS, Some i, Some True, s1)"
    using f run ex h by (simp add: aws_hash_table_create_def Let_def)
  from put_created [OF t1 i this] that c0 c1 show thesis by metis
qed

lemma put_fails:
  assumes t: "table_ok k m state" and new: "m key = None" and full: "card (dom m) = max_load k" and k: "k < 32"
  shows "aws_hash_table_put False state key val = Some (AWS_OP_ERR, None, state)"
proof -
  obtain q where f: "s_find_entry state (s_hash_for state key) key =
      Some (AWS_ERROR_HASHTBL_ITEM_NOT_FOUND, seat (hs_slots state) (s_hash_for state key) q, of_nat q)"
    using table_find_absent [OF t new] by blast
  have "hs_entry_count state + 1 > hs_max_load state" using entry_count_full [OF t] full by simp
  then show ?thesis
    using f expand_fails [OF t k] by (simp add: aws_hash_table_put_def aws_hash_table_create_def Let_def)
qed

lemma remove_entry_ok:
  assumes t: "table_ok k m state" and v: "m key = Some v"
    and i: "i < length (hs_slots state)" "hs_slots state ! i = \<lparr>he_key = key, he_value = v, he_code = s_hash_for state key\<rparr>"
  obtains last_index state' where "s_remove_entry state i = Some (last_index, state')"
    and "table_ok k (m(key := None)) state'" and "hs_calls state' = hs_calls state"
proof -
  let ?sl = "hs_slots state"
  have r: "ring k (hs_mask state) ?sl" and ok: "rh_ok ?sl" and fin: "finite (dom m)" using t by (simp_all add: table_ok_def)
  have o: "occ ?sl i" using i hash_code_nonzero by (simp add: occ_def)
  obtain f where f: "f < length ?sl" "\<not> occ ?sl f" using table_room [OF t] by (auto simp: has_room_def)
  obtain d0 where d0: "d0 < length ?sl" "(i + d0) mod length ?sl = f" using ring_cover [OF i(1) f(1)] .
  then obtain d where d: "d0 = Suc d" using o f i(1) by (cases d0) auto
  obtain j sl' where run: "remove_loop (hs_mask state) (of_nat i) ?sl = Some (of_nat j, sl')" and cl: "cleared ?sl i j sl'"
    using remove_loop_ok [OF r ok i(1) o] d0 d f by metis
  have j: "j < length ?sl" "length sl' = length ?sl" using cl by (simp_all add: cleared_def)
  have u: "unat (of_nat j :: u64) = j" using j(1) ring_lt64 [OF r] by (intro unat_of_nat64) simp
  let ?s = "state\<lparr>hs_entry_count := hs_entry_count state - 1, hs_slots := sl'[j := entry_zero]\<rparr>"
  have h: "s_hash_for ?s = s_hash_for state" by (rule hash_for_cong) simp
  have "s_remove_entry state i = Some (of_nat j, ?s)" using run j u by (simp add: s_remove_entry_def Let_def)
  moreover have "table_ok k (m(key := None)) ?s"
  proof -
    have "key \<in> dom m" using v by blast
    then have c: "card (dom (m(key := None))) = card (dom m) - 1" and p: "0 < card (dom m)" using fin by (auto simp: card_gt_0_iff)
    have "hs_entry_count state - 1 = of_nat (card (dom m) - 1)" using t p by (simp add: table_ok_def of_nat_diff)
    moreover have "content (sl'[j := entry_zero]) = mset_set (entries (s_hash_for state) (m(key := None)))"
      using cl t i(2) content_del [of m key v] v fin by (simp add: cleared_def table_ok_def)
    moreover have "card (dom m) - 1 \<le> max_load k" using t unfolding table_ok_def by linarith
    ultimately show ?thesis using t cl c h by (simp add: table_ok_def cleared_def ring_def)
  qed
  ultimately show thesis using that by simp
qed

lemma remove_ok:
  assumes t: "table_ok k m state"
  obtains state' where "aws_hash_table_remove p_value state key =
      Some (AWS_OP_SUCCESS, m key \<noteq> None, if p_value then map_option (Pair key) (m key) else None, state')"
    and "table_ok k (m(key := None)) state'"
    and "hs_calls state' = hs_calls state @ (case m key of None \<Rightarrow> [] | Some v \<Rightarrow> if p_value then [] else destroy_old state True key v)"
proof (cases "m key")
  case None
  then have "m(key := None) = m" by auto
  moreover obtain q where "s_find_entry state (s_hash_for state key) key =
      Some (AWS_ERROR_HASHTBL_ITEM_NOT_FOUND, seat (hs_slots state) (s_hash_for state key) q, of_nat q)"
    using table_find_absent [OF t None] by blast
  ultimately show thesis using that [of state] None t by (simp add: aws_hash_table_remove_def Let_def)
next
  case (Some v)
  define s where "s = (if p_value then state else state\<lparr>hs_calls := hs_calls state @ destroy_old state True key v\<rparr>)"
  obtain i where i: "i < length (hs_slots state)" "hs_slots state ! i = \<lparr>he_key = key, he_value = v, he_code = s_hash_for state key\<rparr>"
    and f: "s_find_entry state (s_hash_for state key) key = Some (AWS_ERROR_SUCCESS, i, of_nat (probe (hs_slots state) i))"
    using table_find_present [OF t Some] by blast
  have h: "s_hash_for s = s_hash_for state" by (rule hash_for_cong) (simp add: s_def)
  then have t': "table_ok k m s" using t by (simp add: table_ok_def s_def)
  have i': "i < length (hs_slots s)" "hs_slots s ! i = \<lparr>he_key = key, he_value = v, he_code = s_hash_for s key\<rparr>"
    using i h by (simp_all add: s_def)
  obtain l s' where "s_remove_entry s i = Some (l, s')" "table_ok k (m(key := None)) s'" "hs_calls s' = hs_calls s"
    using remove_entry_ok [OF t' Some i'] .
  then show thesis using that [of s'] f i Some by (simp add: aws_hash_table_remove_def Let_def s_def split: if_splits)
qed

section \<open>Setting up and clearing\<close>

lemma init_ok:
  assumes "k \<le> 32" and "slots_for capacity k"
  obtains state where "aws_hash_table_init True junk capacity hash_fn (=) dk dv = (AWS_OP_SUCCESS, Some state)"
    and "table_ok k Map.empty state" and "hs_hash_fn state = hash_fn"
proof -
  let ?t = "junk\<lparr>hs_hash_fn := hash_fn, hs_equals_fn := (=), hs_destroy_key_fn := dk, hs_destroy_value_fn := dv, hs_entry_count := 0,
    hs_calls := [], hs_size := 2 ^ k, hs_max_load := of_nat (max_load k), hs_mask := 2 ^ k - 1\<rparr>"
  let ?s = "?t\<lparr>hs_slots := replicate (2 ^ k) entry_zero\<rparr>"
  have "1 \<le> k" using assms(2) by (simp add: slots_for_def)
  then have "table_ok k Map.empty ?s" using assms(1) rh_ok_empty by (simp add: table_ok_def ring_def)
  moreover have "aws_hash_table_init True junk capacity hash_fn (=) dk dv = (AWS_OP_SUCCESS, Some ?s)"
    using alloc_state [OF assms(1), of ?t True] update_template [of k capacity] assms
    by (simp add: aws_hash_table_init_def Let_def)
  ultimately show thesis using that by simp
qed

lemma clear_ok:
  assumes t: "table_ok k m state"
  obtains state' where "aws_hash_table_clear state = Some state'" and "table_ok k Map.empty state'"
    and "hs_calls state' = hs_calls state @ clear_calls state"
proof -
  have "unat (hs_size state) = 2 ^ k" and "length (hs_slots state) = 2 ^ k"
    using t by (simp_all add: table_ok_def ring_def unat_pow2_64)
  then show thesis using t that rh_ok_empty by (simp add: aws_hash_table_clear_def table_ok_def ring_def)
qed

section \<open>Iterating\<close>

definition pair_of :: "hash_table_entry \<Rightarrow> addr \<times> addr" where
  "pair_of e = (he_key e, he_value e)"

definition pairs_from :: "hash_table_entry list \<Rightarrow> nat \<Rightarrow> (addr \<times> addr) list" where
  "pairs_from sl i = map pair_of (filter (\<lambda>e. he_code e \<noteq> 0) (drop i sl))"

lemma pairs_from_end: "length sl \<le> i \<Longrightarrow> pairs_from sl i = []"
  by (simp add: pairs_from_def)

lemma pairs_from_step:
  "i < length sl \<Longrightarrow> pairs_from sl i = (if he_code (sl ! i) \<noteq> 0 then pair_of (sl ! i) # pairs_from sl (Suc i) else pairs_from sl (Suc i))"
  by (simp add: pairs_from_def flip: Cons_nth_drop_Suc)

lemma next_slot_ok:
  assumes "i + n = length sl"
  shows "\<exists>r. next_slot sl n i = Some r \<and>
    (case r of None \<Rightarrow> pairs_from sl i = []
     | Some j \<Rightarrow> i \<le> j \<and> j < length sl \<and> he_code (sl ! j) \<noteq> 0 \<and> pairs_from sl i = pair_of (sl ! j) # pairs_from sl (Suc j))"
  using assms
proof (induction n arbitrary: i)
  case 0
  then show ?case by (simp add: pairs_from_end)
next
  case (Suc n)
  show ?case
  proof (cases "he_code (sl ! i) = 0")
    case True
    then obtain r where "next_slot sl n (Suc i) = Some r" and r: "case r of None \<Rightarrow> pairs_from sl (Suc i) = []
      | Some j \<Rightarrow> Suc i \<le> j \<and> j < length sl \<and> he_code (sl ! j) \<noteq> 0 \<and> pairs_from sl (Suc i) = pair_of (sl ! j) # pairs_from sl (Suc j)"
      using Suc.IH [of "Suc i"] Suc.prems by auto
    then show ?thesis using True Suc.prems by (auto simp: pairs_from_step split: option.splits)
  next
    case False
    then show ?thesis using Suc.prems by (auto simp: pairs_from_step)
  qed
qed

text \<open>The iterator stands at the first pair of the rest, or at its end.\<close>

definition at_rest :: "hash_table_state \<Rightarrow> aws_hash_iter \<Rightarrow> (addr \<times> addr) list \<Rightarrow> bool" where
  "at_rest state iter rest \<longleftrightarrow> it_limit iter = hs_size state \<and>
     (case rest of [] \<Rightarrow> it_slot iter = it_limit iter
      | p # ps \<Rightarrow> unat (it_slot iter) < length (hs_slots state) \<and> it_element iter = p \<and> ps = pairs_from (hs_slots state) (Suc (unat (it_slot iter))))"

lemma next_element_ok:
  assumes t: "table_ok k m state" and l: "it_limit iter = hs_size state" and i: "unat start \<le> length (hs_slots state)"
  obtains iter' where "s_get_next_element state iter start = Some iter'" and "at_rest state iter' (pairs_from (hs_slots state) (unat start))"
proof -
  let ?sl = "hs_slots state"
  have n: "unat (hs_size state) = length ?sl" and lt: "length ?sl < 2 ^ 64"
    using t ring_lt64 by (auto simp: table_ok_def ring_def unat_pow2_64)
  obtain r where run: "next_slot ?sl (length ?sl - unat start) (unat start) = Some r"
    and r: "case r of None \<Rightarrow> pairs_from ?sl (unat start) = []
     | Some j \<Rightarrow> unat start \<le> j \<and> j < length ?sl \<and> he_code (?sl ! j) \<noteq> 0 \<and> pairs_from ?sl (unat start) = pair_of (?sl ! j) # pairs_from ?sl (Suc j)"
    using next_slot_ok [of "unat start" "length ?sl - unat start" ?sl] i by auto
  show thesis
  proof (cases r)
    case None
    then show thesis using that run r l n by (simp add: s_get_next_element_def at_rest_def)
  next
    case (Some j)
    moreover from this r have "unat (of_nat j :: u64) = j" using lt by (intro unat_of_nat64) simp
    ultimately show thesis using that run r l n by (simp add: s_get_next_element_def at_rest_def pair_of_def)
  qed
qed

text \<open>What a callback that never deletes has made of its context after the pairs.\<close>

fun visit :: "('c \<Rightarrow> addr \<times> addr \<Rightarrow> 'c \<times> bool \<times> bool) \<Rightarrow> 'c \<Rightarrow> (addr \<times> addr) list \<Rightarrow> 'c" where
  "visit cb c [] = c"
| "visit cb c (p # ps) = (case cb c p of (c', go_on, delete) \<Rightarrow> if go_on then visit cb c' ps else c')"

lemma iter_next_ok:
  assumes t: "table_ok k m state" and a: "at_rest state iter (p # ps)"
  obtains iter' where "aws_hash_iter_next state iter = Some iter'" and "at_rest state iter' ps"
proof -
  have r: "ring k (hs_mask state) (hs_slots state)" using t by (simp add: table_ok_def)
  have i: "unat (it_slot iter) < length (hs_slots state)" using a by (simp add: at_rest_def)
  then have "unat (it_slot iter) + unat (1 :: u64) < 2 ^ 64" using ring_lt64 [OF r] by simp
  then have u: "unat (it_slot iter + 1) = Suc (unat (it_slot iter))" by (simp add: unat_add64)
  have l: "it_limit iter = hs_size state" and ps: "ps = pairs_from (hs_slots state) (unat (it_slot iter + 1))"
    using a u by (simp_all add: at_rest_def)
  from i have "unat (it_slot iter + 1) \<le> length (hs_slots state)" by (simp add: u)
  from next_element_ok [OF t l this] show thesis using that by (auto simp: aws_hash_iter_next_def ps)
qed

lemma at_rest_done:
  assumes t: "table_ok k m state" and a: "at_rest state iter rest"
  shows "aws_hash_iter_done iter \<longleftrightarrow> rest = []"
proof -
  have "unat (hs_size state) = length (hs_slots state)" using t by (auto simp: table_ok_def ring_def unat_pow2_64)
  then show ?thesis using a by (auto simp: at_rest_def aws_hash_iter_done_def split: list.splits)
qed

lemma foreach_loop_ok:
  assumes t: "table_ok k m state" and cb: "\<And>c p. \<not> snd (snd (cb c p))" and a: "at_rest state iter rest"
  shows "foreach_loop cb c state iter = Some (visit cb c rest, state)"
  using a
proof (induction rest arbitrary: c iter)
  case Nil
  then show ?case using at_rest_done [OF t Nil] by (subst foreach_loop.simps) simp
next
  case (Cons p ps)
  obtain c' go_on where c': "cb c p = (c', go_on, False)" using cb [of c p] by (cases "cb c p") auto
  obtain iter' where n: "aws_hash_iter_next state iter = Some iter'" and r: "at_rest state iter' ps"
    using iter_next_ok [OF t Cons.prems] .
  have "it_element iter = p" using Cons.prems by (simp add: at_rest_def)
  then show ?case
    using at_rest_done [OF t Cons.prems] n Cons.IH [OF r] c' by (subst foreach_loop.simps) simp
qed

lemma iter_begin_ok:
  assumes t: "table_ok k m state"
  obtains iter where "aws_hash_iter_begin state = Some iter" and "at_rest state iter (pairs_from (hs_slots state) 0)"
  using next_element_ok [OF t, of "\<lparr>it_element = (0, 0), it_slot = 0, it_limit = hs_size state\<rparr>" 0]
  by (auto simp: aws_hash_iter_begin_def)

text \<open>The pairs the iterator stands at are those of the map, once each.\<close>

lemma pairs_from_graph:
  assumes t: "table_ok k m state"
  shows "mset (pairs_from (hs_slots state) 0) = mset_set (Map.graph m)"
proof -
  let ?E = "entries (s_hash_for state) m"
  have "mset (pairs_from (hs_slots state) 0) = image_mset pair_of (content (hs_slots state))"
    by (simp add: pairs_from_def content_def)
  also have "\<dots> = image_mset pair_of (mset_set ?E)" using t by (simp add: table_ok_def)
  also have "\<dots> = mset_set (pair_of ` ?E)"
    by (rule image_mset_mset_set) (auto simp: inj_on_def entries_def pair_of_def)
  also have "pair_of ` ?E = Map.graph m"
    by (auto simp: entries_image image_image pair_of_def Map.graph_def dom_def image_iff)
  finally show ?thesis .
qed

lemma eq_loop_ok:
  assumes ta: "table_ok ka ma a" and tb: "table_ok kb mb b" and r: "at_rest a iter rest"
  shows "eq_loop ve a b iter = Some (\<forall>(key, v) \<in> set rest. \<exists>w. mb key = Some w \<and> ve v w)"
  using r
proof (induction rest arbitrary: iter)
  case Nil
  then show ?case using at_rest_done [OF ta Nil] by (subst eq_loop.simps) simp
next
  case (Cons p ps)
  obtain iter' where n: "aws_hash_iter_next a iter = Some iter'" and r: "at_rest a iter' ps"
    using iter_next_ok [OF ta Cons.prems] .
  have "it_element iter = p" using Cons.prems by (simp add: at_rest_def)
  then show ?case
    using at_rest_done [OF ta Cons.prems] n Cons.IH [OF r] find_ok [OF tb, of "fst p"]
    by (subst eq_loop.simps) (auto split: option.splits)
qed

end
