(* ===== verification/Tn_Map.thy ===== *)
theory Tn_Map
  imports Tn_Hash_Map
begin

text \<open>
  The pointer map of \<open>src/map.c\<close>, a wrapper of the hash table. The contract of a map that a client may rely on
  is the locale \<open>keyed_store\<close>, with sequences of calls proved once; the hash table implements it.
\<close>

section \<open>The contract of a map\<close>

datatype map_op = Op_find addr | Op_put bool addr addr | Op_remove addr

datatype map_result = Res_found "addr option" | Res_put bool | Res_removed bool

text \<open>What an operation may do to a map. Putting fails only for a new key and only when there is no memory.\<close>

inductive map_spec :: "map_op \<Rightarrow> (addr \<rightharpoonup> addr) \<Rightarrow> map_result \<Rightarrow> (addr \<rightharpoonup> addr) \<Rightarrow> bool" where
  spec_find: "map_spec (Op_find key) m (Res_found (m key)) m"
| spec_put: "map_spec (Op_put ok key v) m (Res_put True) (m(key \<mapsto> v))"
| spec_put_fails: "m key = None \<Longrightarrow> map_spec (Op_put False key v) m (Res_put False) m"
| spec_remove: "map_spec (Op_remove key) m (Res_removed (m key \<noteq> None)) (m(key := None))"

inductive map_spec_run :: "map_op list \<Rightarrow> (addr \<rightharpoonup> addr) \<Rightarrow> map_result list \<Rightarrow> (addr \<rightharpoonup> addr) \<Rightarrow> bool" where
  run_nil: "map_spec_run [] m [] m"
| run_cons: "map_spec op m r m' \<Longrightarrow> map_spec_run ops m' rs m'' \<Longrightarrow> map_spec_run (op # ops) m (r # rs) m''"

text \<open>Executing a list of operations with given implementations.\<close>

fun store_exec :: "('s \<Rightarrow> addr \<Rightarrow> addr option option) \<Rightarrow> (bool \<Rightarrow> 's \<Rightarrow> addr \<Rightarrow> addr \<Rightarrow> (bool \<times> 's) option) \<Rightarrow>
  ('s \<Rightarrow> addr \<Rightarrow> (bool \<times> 's) option) \<Rightarrow> map_op \<Rightarrow> 's \<Rightarrow> (map_result \<times> 's) option" where
  "store_exec get put remove (Op_find key) s = map_option (\<lambda>r. (Res_found r, s)) (get s key)"
| "store_exec get put remove (Op_put ok key v) s = map_option (\<lambda>(r, s'). (Res_put r, s')) (put ok s key v)"
| "store_exec get put remove (Op_remove key) s = map_option (\<lambda>(r, s'). (Res_removed r, s')) (remove s key)"

fun store_run :: "('s \<Rightarrow> addr \<Rightarrow> addr option option) \<Rightarrow> (bool \<Rightarrow> 's \<Rightarrow> addr \<Rightarrow> addr \<Rightarrow> (bool \<times> 's) option) \<Rightarrow>
  ('s \<Rightarrow> addr \<Rightarrow> (bool \<times> 's) option) \<Rightarrow> map_op list \<Rightarrow> 's \<Rightarrow> (map_result list \<times> 's) option" where
  "store_run get put remove [] s = Some ([], s)"
| "store_run get put remove (op # ops) s = do {
     (r, s) \<leftarrow> store_exec get put remove op s;
     (rs, s) \<leftarrow> store_run get put remove ops s;
     Some (r # rs, s)
   }"

lemma map_spec_card: "map_spec op m r m' \<Longrightarrow> finite (dom m) \<Longrightarrow> card (dom m') \<le> Suc (card (dom m))"
proof (induction rule: map_spec.induct)
  case (spec_remove key m)
  have "dom (m(key := None)) \<subseteq> dom m" by auto
  from card_mono [OF spec_remove this] show ?case by linarith
qed (simp_all add: card_insert_if)

locale keyed_store =
  fixes holds :: "'s \<Rightarrow> (addr \<rightharpoonup> addr) \<Rightarrow> bool"
    and limit :: nat
    and get :: "'s \<Rightarrow> addr \<Rightarrow> addr option option"
    and put :: "bool \<Rightarrow> 's \<Rightarrow> addr \<Rightarrow> addr \<Rightarrow> (bool \<times> 's) option"
    and remove :: "'s \<Rightarrow> addr \<Rightarrow> (bool \<times> 's) option"
  assumes holds_finite: "holds s m \<Longrightarrow> finite (dom m)"
    and get_law: "holds s m \<Longrightarrow> get s key = Some (m key)"
    and put_law: "holds s m \<Longrightarrow> card (dom m) < limit \<Longrightarrow>
      \<exists>stored s' m'. put ok s key v = Some (stored, s') \<and> holds s' m' \<and> map_spec (Op_put ok key v) m (Res_put stored) m'"
    and remove_law: "holds s m \<Longrightarrow> \<exists>s'. remove s key = Some (m key \<noteq> None, s') \<and> holds s' (m(key := None))"
begin

lemma exec_refines:
  assumes h: "holds s m" and "card (dom m) < limit"
  shows "\<exists>r s' m'. store_exec get put remove op s = Some (r, s') \<and> holds s' m' \<and> map_spec op m r m'"
proof (cases op)
  case (Op_find key)
  then show ?thesis using h get_law [OF h] spec_find by auto
next
  case (Op_put ok key v)
  then show ?thesis using put_law [OF assms, of ok key v] by auto
next
  case (Op_remove key)
  then show ?thesis using remove_law [OF h, of key] spec_remove by fastforce
qed

lemma run_refines:
  assumes "holds s m" and "card (dom m) + length ops \<le> limit"
  shows "\<exists>rs s' m'. store_run get put remove ops s = Some (rs, s') \<and> holds s' m' \<and> map_spec_run ops m rs m'"
  using assms
proof (induction ops arbitrary: s m)
  case Nil
  then show ?case using run_nil by auto
next
  case (Cons op ops)
  then obtain r s1 m1 where e: "store_exec get put remove op s = Some (r, s1)" "holds s1 m1" "map_spec op m r m1"
    using exec_refines [of s m op] by auto
  moreover have "card (dom m1) + length ops \<le> limit"
    using map_spec_card [OF e(3) holds_finite [OF Cons.prems(1)]] Cons.prems(2) by simp
  ultimately obtain rs s' m' where "store_run get put remove ops s1 = Some (rs, s')" "holds s' m'" "map_spec_run ops m1 rs m'"
    using Cons.IH [of s1 m1] by blast
  then show ?case using e run_cons by fastforce
qed

lemma get_after_put:
  assumes "holds s m" and "card (dom m) < limit" and "put ok s key v = Some (True, s')"
  shows "get s' key' = Some (if key' = key then Some v else m key')"
  using put_law [OF assms(1,2), of ok key v] assms(3) get_law by (auto elim: map_spec.cases)

end

section \<open>The hash table implements it\<close>

definition ht_get :: "hash_table_state \<Rightarrow> addr \<Rightarrow> addr option option" where
  "ht_get state key = map_option (\<lambda>(rc, p_elem). map_option snd p_elem) (aws_hash_table_find state key)"

definition ht_put :: "bool \<Rightarrow> hash_table_state \<Rightarrow> addr \<Rightarrow> addr \<Rightarrow> (bool \<times> hash_table_state) option" where
  "ht_put ok state key v = map_option (\<lambda>(rc, was_created, state). (rc = AWS_OP_SUCCESS, state)) (aws_hash_table_put ok state key v)"

definition ht_remove :: "hash_table_state \<Rightarrow> addr \<Rightarrow> (bool \<times> hash_table_state) option" where
  "ht_remove state key = map_option (\<lambda>(rc, was_present, p_value, state). (was_present, state)) (aws_hash_table_remove False state key)"

definition ht_holds :: "hash_table_state \<Rightarrow> (addr \<rightharpoonup> addr) \<Rightarrow> bool" where
  "ht_holds state m \<longleftrightarrow> (\<exists>k. table_ok k m state)"

lemma max_load_32: "max_load 32 = 4080218931"
  by (simp add: max_load_def)

lemma ht_put_law:
  assumes h: "ht_holds s m" and c: "card (dom m) < 2 ^ 31"
  shows "\<exists>stored s' m'. ht_put ok s key v = Some (stored, s') \<and> ht_holds s' m' \<and> map_spec (Op_put ok key v) m (Res_put stored) m'"
proof -
  obtain k where t: "table_ok k m s" using h by (auto simp: ht_holds_def)
  have le: "card (dom m) \<le> max_load k" using t by (simp add: table_ok_def)
  consider "m key \<noteq> None" | "m key = None" "card (dom m) < max_load k" | "m key = None" "card (dom m) = max_load k" "k < 32"
  proof -
    have "k = 32 \<or> k < 32" using t by (auto simp: table_ok_def)
    then show thesis using that le c max_load_32 by (cases "m key") (auto simp: le_less)
  qed
  moreover have stored: "\<exists>stored s' m'. ht_put ok s key v = Some (stored, s') \<and> ht_holds s' m' \<and> map_spec (Op_put ok key v) m (Res_put stored) m'"
    if "aws_hash_table_put ok s key v = Some (AWS_OP_SUCCESS, c, s')" "table_ok j (m(key \<mapsto> v)) s'" for s' c j
  proof -
    have "ht_put ok s key v = Some (True, s')" using that(1) by (simp add: ht_put_def)
    moreover have "ht_holds s' (m(key \<mapsto> v))" using that(2) by (auto simp: ht_holds_def)
    ultimately show ?thesis using spec_put by blast
  qed
  ultimately show ?thesis
  proof cases
    case 1
    then obtain w where "m key = Some w" by blast
    then obtain s' where "aws_hash_table_put ok s key v = Some (AWS_OP_SUCCESS, Some False, s')" "table_ok k (m(key \<mapsto> v)) s'"
      using put_present [OF t] by metis
    then show ?thesis by (intro stored)
  next
    case 2
    obtain s' where "aws_hash_table_put ok s key v = Some (AWS_OP_SUCCESS, Some True, s')" "table_ok k (m(key \<mapsto> v)) s'"
      using put_new [OF t 2] by metis
    then show ?thesis by (intro stored)
  next
    case 3
    show ?thesis
    proof (cases ok)
      case True
      then obtain s' where "aws_hash_table_put ok s key v = Some (AWS_OP_SUCCESS, Some True, s')" "table_ok (Suc k) (m(key \<mapsto> v)) s'"
        using put_grow [OF t 3] by metis
      then show ?thesis by (intro stored)
    next
      case False
      then have "ht_put ok s key v = Some (False, s)" using put_fails [OF t 3] by (simp add: ht_put_def)
      moreover have "map_spec (Op_put ok key v) m (Res_put False) m" using spec_put_fails [of m key v] 3(1) False by simp
      ultimately show ?thesis using h by blast
    qed
  qed
qed

lemma put_every_case:
  assumes t: "table_ok k m s" and c: "card (dom m) < 2 ^ 31"
  obtains s' k' where "aws_hash_table_put True s key v = Some (AWS_OP_SUCCESS, Some (m key = None), s')" and "table_ok k' (m(key \<mapsto> v)) s'"
proof (cases "m key")
  case (Some w)
  then show thesis using put_present [OF t Some, of True v] that by auto
next
  case None
  have "card (dom m) < max_load k \<or> card (dom m) = max_load k \<and> k < 32"
  proof -
    have "k = 32 \<or> k < 32" and "card (dom m) \<le> max_load k" using t by (auto simp: table_ok_def)
    then show ?thesis using c max_load_32 by (auto simp: le_less)
  qed
  then show thesis
  proof
    assume "card (dom m) < max_load k"
    from put_new [OF t None this, of True v] show thesis using None that [of _ k] by auto
  next
    assume "card (dom m) = max_load k \<and> k < 32"
    then have f: "card (dom m) = max_load k" "k < 32" by simp_all
    from put_grow [OF t None f, of v] show thesis using None that [of _ "Suc k"] by auto
  qed
qed

interpretation ht: keyed_store ht_holds "2 ^ 31" ht_get ht_put ht_remove
proof
  show "finite (dom m)" if "ht_holds s m" for s m using that by (auto simp: ht_holds_def table_ok_def)
  show "ht_get s key = Some (m key)" if "ht_holds s m" for s m key
  proof -
    obtain k where "table_ok k m s" using \<open>ht_holds s m\<close> by (auto simp: ht_holds_def)
    from find_ok [OF this] show ?thesis by (simp add: ht_get_def option.map_comp comp_def option.map_ident)
  qed
  show "\<exists>s'. ht_remove s key = Some (m key \<noteq> None, s') \<and> ht_holds s' (m(key := None))" if h: "ht_holds s m" for s m key
  proof -
    obtain k where t: "table_ok k m s" using h by (auto simp: ht_holds_def)
    obtain s' where "aws_hash_table_remove False s key = Some (AWS_OP_SUCCESS, m key \<noteq> None, None, s')"
      and "table_ok k (m(key := None)) s'" using remove_ok [OF t, of False key] by auto
    then show ?thesis by (auto simp: ht_remove_def ht_holds_def)
  qed
qed (rule ht_put_law)

section \<open>The operations of \<open>map.c\<close>\<close>

text \<open>The pointer \<open>priv\<close>: NULL, a block with the table (whose state may be NULL), or a block already released.\<close>

datatype map_priv = PRIV_NULL | PRIV_TABLE "hash_table_state option" | PRIV_DANGLING

record tn_map =
  mp_priv :: map_priv
  mp_capacity :: u64

definition tn_map_key_hash_fn :: "addr \<Rightarrow> u64" where
  "tn_map_key_hash_fn key = key"

definition tn_map_key_cmp_fn :: "addr \<Rightarrow> addr \<Rightarrow> bool" where
  "tn_map_key_cmp_fn a b \<longleftrightarrow> a = b"

text \<open>
  The inputs say whether the two allocations succeed. The third result is the state of the table that was allocated
  and that nothing points to any more.
\<close>

definition tn_map_setup :: "bool \<Rightarrow> bool \<Rightarrow> hash_table_state \<Rightarrow> u64 \<Rightarrow> int \<times> tn_map \<times> hash_table_state option" where
  "tn_map_setup ok_priv ok_impl junk capacity =
     (let mp = \<lparr>mp_priv = PRIV_NULL, mp_capacity = capacity\<rparr> in
      if \<not> ok_priv then (TN_ERROR, mp, None)
      else case aws_hash_table_init ok_impl junk capacity tn_map_key_hash_fn tn_map_key_cmp_fn False False of (rc, p_impl) \<Rightarrow>
        if rc = 0 then (TN_ERROR, mp, p_impl)
        else (TN_ERROR, mp\<lparr>mp_priv := PRIV_DANGLING\<rparr>, p_impl))"

definition tn_map_cleanup :: "tn_map \<Rightarrow> tn_map option" where
  "tn_map_cleanup mp =
     (case mp_priv mp of PRIV_TABLE p_impl \<Rightarrow> do {
         _ \<leftarrow> aws_hash_table_clean_up p_impl;
         Some (mp\<lparr>mp_priv := PRIV_DANGLING\<rparr>)
       }
      | _ \<Rightarrow> None)"

text \<open>The state of the table, None when the assertion on \<open>priv\<close> fails or an invalid pointer is followed.\<close>

definition map_table :: "tn_map \<Rightarrow> hash_table_state option" where
  "map_table mp = (case mp_priv mp of PRIV_TABLE p_impl \<Rightarrow> p_impl | _ \<Rightarrow> None)"

definition set_table :: "tn_map \<Rightarrow> hash_table_state \<Rightarrow> tn_map" where
  "set_table mp state = mp\<lparr>mp_priv := PRIV_TABLE (Some state)\<rparr>"

text \<open>The value is 0 where the code leaves NULL.\<close>

definition tn_map_get :: "tn_map \<Rightarrow> addr \<Rightarrow> (int \<times> addr) option" where
  "tn_map_get mp key = do {
     state \<leftarrow> map_table mp;
     (rc, p_elem) \<leftarrow> aws_hash_table_find state key;
     if rc \<noteq> 0 then Some (TN_ERROR, 0)
     else case p_elem of None \<Rightarrow> Some (TN_ERROR, 0)
     | Some (_, v) \<Rightarrow> Some (TN_SUCCESS, v)
   }"

definition tn_map_set :: "bool \<Rightarrow> tn_map \<Rightarrow> addr \<Rightarrow> addr \<Rightarrow> (int \<times> tn_map) option" where
  "tn_map_set ok mp key v = do {
     state \<leftarrow> map_table mp;
     tn_assert (v \<noteq> 0);
     (rc, was_created, state) \<leftarrow> aws_hash_table_put ok state key v;
     let created = (case was_created of None \<Rightarrow> 0 | Some b \<Rightarrow> if b then 1 else (0 :: int));
     if rc \<noteq> 0 then Some (TN_ERROR, set_table mp state)
     else if created = 0 then Some (TN_ERROR, set_table mp state)
     else Some (TN_SUCCESS, set_table mp state)
   }"

definition tn_map_remove :: "tn_map \<Rightarrow> addr \<Rightarrow> (int \<times> tn_map) option" where
  "tn_map_remove mp key = do {
     state \<leftarrow> map_table mp;
     (rc, removed, _, state) \<leftarrow> aws_hash_table_remove False state key;
     if rc \<noteq> 0 then Some (TN_ERROR, set_table mp state)
     else if \<not> removed then Some (TN_ERROR, set_table mp state)
     else Some (TN_SUCCESS, set_table mp state)
   }"

definition tn_map_clear :: "tn_map \<Rightarrow> tn_map option" where
  "tn_map_clear mp = do {
     state \<leftarrow> map_table mp;
     state \<leftarrow> aws_hash_table_clear state;
     Some (set_table mp state)
   }"

definition map_holds :: "tn_map \<Rightarrow> (addr \<rightharpoonup> addr) \<Rightarrow> bool" where
  "map_holds mp m \<longleftrightarrow> (\<exists>state. map_table mp = Some state \<and> ht_holds state m)"

section \<open>Properties\<close>

lemma slots_for_exists:
  assumes "unat capacity \<le> 2 ^ 32"
  obtains k where "k \<le> 32" and "slots_for capacity k"
proof -
  let ?P = "\<lambda>k. 1 \<le> k \<and> unat capacity \<le> 2 ^ k"
  define k where "k = (LEAST k. ?P k)"
  have P32: "?P 32" using assms by simp
  have "?P k" unfolding k_def by (rule LeastI [of ?P, OF P32])
  moreover have "k \<le> 32" unfolding k_def by (rule Least_le [of ?P, OF P32])
  moreover have "2 ^ i < unat capacity" if "i < k" "1 \<le> i" for i
    using not_less_Least [of i ?P] that unfolding k_def by auto
  ultimately show thesis using that by (auto simp: slots_for_def)
qed

lemma init_holds:
  assumes "unat capacity \<le> 2 ^ 32"
  obtains state where "aws_hash_table_init True junk capacity hash_fn (=) dk dv = (AWS_OP_SUCCESS, Some state)"
    and "ht_holds state Map.empty"
proof -
  obtain k where k: "k \<le> 32" "slots_for capacity k" using slots_for_exists [OF assms] .
  then show thesis using init_ok [OF k] that by (metis ht_holds_def)
qed

text \<open>Property C16. A hash table that was set up for at most \<open>2 ^ 32\<close> elements behaves like a finite map
under any sequence of finding, putting and removing: every operation ends without leaving the slots, finding
returns the value put last, and putting fails only for a new key without memory and then changes nothing.\<close>

theorem hash_table_refines_map:
  assumes "unat capacity \<le> 2 ^ 32" and "length ops \<le> 2 ^ 31"
  shows "\<exists>state rs state' m. aws_hash_table_init True junk capacity hash_fn (=) dk dv = (AWS_OP_SUCCESS, Some state) \<and>
    store_run ht_get ht_put ht_remove ops state = Some (rs, state') \<and> map_spec_run ops Map.empty rs m \<and>
    (\<forall>key. ht_get state' key = Some (m key))"
proof -
  obtain state where "aws_hash_table_init True junk capacity hash_fn (=) dk dv = (AWS_OP_SUCCESS, Some state)"
    and "ht_holds state Map.empty" using init_holds [OF assms(1)] .
  moreover from this assms(2) obtain rs state' m where "store_run ht_get ht_put ht_remove ops state = Some (rs, state')"
    and "ht_holds state' m" and "map_spec_run ops Map.empty rs m"
    using ht.run_refines [of state Map.empty ops] by auto
  ultimately show ?thesis using ht.get_law by blast
qed

definition sample_ops :: "map_op list" where
  "sample_ops = [Op_put True 5 7, Op_put True 9 8, Op_find 5, Op_remove 5, Op_find 5]"

theorem hash_table_refines_map_witness:
  "unat (2 :: u64) \<le> 2 ^ 32 \<and> length sample_ops \<le> 2 ^ 31 \<and>
   (\<exists>state rs state' m. aws_hash_table_init True
      \<lparr>hs_hash_fn = id, hs_equals_fn = (=), hs_destroy_key_fn = False, hs_destroy_value_fn = False, hs_size = 0, hs_entry_count = 0,
       hs_max_load = 0, hs_mask = 0, hs_slots = [], hs_calls = []\<rparr> 2 id (=) False False = (AWS_OP_SUCCESS, Some state) \<and>
    store_run ht_get ht_put ht_remove sample_ops state = Some (rs, state') \<and> map_spec_run sample_ops Map.empty rs m \<and>
    (\<forall>key. ht_get state' key = Some (m key)))"
proof -
  have "unat (2 :: u64) \<le> 2 ^ 32" and "length sample_ops \<le> 2 ^ 31" by (simp_all add: sample_ops_def)
  then show ?thesis by (intro conjI hash_table_refines_map) assumption+
qed

text \<open>A table with two pairs, for the witnesses below.\<close>

lemma put_holds:
  assumes "ht_holds s m" and "card (dom m) < 2 ^ 31"
  obtains s' where "ht_holds s' (m(key \<mapsto> v))"
  using ht_put_law [OF assms, of True key v] by (auto elim: map_spec.cases)

lemma sample_table: "\<exists>s. ht_holds s [5 \<mapsto> 7, 9 \<mapsto> 8]"
proof -
  have "unat (2 :: u64) \<le> 2 ^ 32" by simp
  then obtain s0 where "ht_holds s0 Map.empty" using init_holds by metis
  then obtain s1 where "ht_holds s1 [5 \<mapsto> 7]" using put_holds [of s0 Map.empty 5 7] by auto
  then show ?thesis using put_holds [of s1 "[5 \<mapsto> 7]" 9 8] by auto
qed

text \<open>Property C19. Iterating over a hash table with a callback that keeps all elements calls it for every pair of the map exactly once
and leaves the table alone.\<close>

theorem foreach_visits_once:
  assumes "ht_holds state m"
  shows "\<exists>ps. aws_hash_table_foreach (\<lambda>ps p. (ps @ [p], True, False)) [] state = Some (AWS_OP_SUCCESS, ps, state) \<and>
    mset ps = mset_set (Map.graph m)"
proof -
  obtain k where t: "table_ok k m state" using assms by (auto simp: ht_holds_def)
  obtain iter where b: "aws_hash_iter_begin state = Some iter" and r: "at_rest state iter (pairs_from (hs_slots state) 0)"
    using iter_begin_ok [OF t] .
  have "visit (\<lambda>ps p. (ps @ [p], True, False)) qs rest = qs @ rest" for qs rest :: "(addr \<times> addr) list"
    by (induction rest arbitrary: qs) simp_all
  then show ?thesis
    using b foreach_loop_ok [OF t _ r, of "\<lambda>ps p. (ps @ [p], True, False)" "[]"] pairs_from_graph [OF t]
    by (simp add: aws_hash_table_foreach_def)
qed

theorem foreach_visits_once_witness:
  "\<exists>state. ht_holds state [5 \<mapsto> 7, 9 \<mapsto> 8] \<and>
    (\<exists>ps. aws_hash_table_foreach (\<lambda>ps p. (ps @ [p], True, False)) [] state = Some (AWS_OP_SUCCESS, ps, state) \<and>
      mset ps = mset_set (Map.graph [5 \<mapsto> 7, 9 \<mapsto> 8]))"
  using sample_table foreach_visits_once by blast

text \<open>Property C20. Comparing two hash tables decides whether the maps they hold have the same keys with equal values.\<close>

theorem hash_eq_is_map_equality:
  assumes "ht_holds a ma" and "ht_holds b mb"
  shows "aws_hash_table_eq value_eq a b =
    Some (dom ma = dom mb \<and> (\<forall>key \<in> dom ma. value_eq (the (ma key)) (the (mb key))))"
proof -
  obtain ka where ta: "table_ok ka ma a" using assms by (auto simp: ht_holds_def)
  obtain kb where tb: "table_ok kb mb b" using assms by (auto simp: ht_holds_def)
  let ?same = "\<forall>key v. ma key = Some v \<longrightarrow> (\<exists>w. mb key = Some w \<and> value_eq v w)"
  obtain iter where "aws_hash_iter_begin a = Some iter" and r: "at_rest a iter (pairs_from (hs_slots a) 0)"
    using iter_begin_ok [OF ta] .
  moreover have "set (pairs_from (hs_slots a) 0) = Map.graph ma"
  proof -
    have "set_mset (mset (pairs_from (hs_slots a) 0)) = Map.graph ma"
      using pairs_from_graph [OF ta] ta by (simp add: table_ok_def finite_graph_iff_finite_dom)
    then show ?thesis by simp
  qed
  ultimately have loop: "(aws_hash_iter_begin a \<bind> eq_loop value_eq a b) = Some ?same"
    using eq_loop_ok [OF ta tb r] by (auto simp: Map.graph_def)
  have fin: "finite (dom ma)" "finite (dom mb)" using ta tb by (simp_all add: table_ok_def)
  have count: "aws_hash_table_get_entry_count a = aws_hash_table_get_entry_count b \<longleftrightarrow> card (dom ma) = card (dom mb)"
    using table_count [OF ta] table_count [OF tb] by (metis aws_hash_table_get_entry_count_def unat_eqD)
  have "dom ma = dom mb" if "card (dom ma) = card (dom mb)" ?same
    using that fin by (intro card_subset_eq) auto
  then have "card (dom ma) = card (dom mb) \<and> ?same \<longleftrightarrow> dom ma = dom mb \<and> (\<forall>key \<in> dom ma. value_eq (the (ma key)) (the (mb key)))"
    by (auto simp: domIff) force+
  then show ?thesis using loop count by (auto simp: aws_hash_table_eq_def)
qed

theorem hash_eq_is_map_equality_witness:
  "\<exists>a. ht_holds a [5 \<mapsto> 7, 9 \<mapsto> 8] \<and> aws_hash_table_eq (=) a a = Some True"
  using sample_table hash_eq_is_map_equality by fastforce

text \<open>Property C21. \<open>tn_map_setup\<close> never succeeds, because it takes the success code 0 of the table for a failure: when everything
went well the new table is lost and the map has no table, and when allocating the table fails the map keeps a pointer to a released
block. So no operation of the map can be called afterwards.\<close>

theorem map_setup_always_fails:
  "\<exists>mp lost. tn_map_setup ok_priv ok_impl junk capacity = (TN_ERROR, mp, lost) \<and> map_table mp = None \<and>
    (ok_priv \<longrightarrow> (lost = None \<longleftrightarrow> mp_priv mp = PRIV_DANGLING)) \<and>
    tn_map_get mp key = None \<and> tn_map_set ok mp key v = None \<and> tn_map_remove mp key = None \<and> tn_map_clear mp = None \<and>
    tn_map_cleanup mp = None"
proof (cases ok_priv)
  case False
  then show ?thesis
    by (simp add: tn_map_setup_def Let_def map_table_def tn_map_get_def tn_map_set_def tn_map_remove_def tn_map_clear_def tn_map_cleanup_def)
next
  case True
  obtain rc p_impl where i: "aws_hash_table_init ok_impl junk capacity tn_map_key_hash_fn tn_map_key_cmp_fn False False = (rc, p_impl)"
    by (cases "aws_hash_table_init ok_impl junk capacity tn_map_key_hash_fn tn_map_key_cmp_fn False False")
  have "fst (aws_hash_table_init ok_impl junk capacity tn_map_key_hash_fn tn_map_key_cmp_fn False False) = 0 \<longleftrightarrow>
    snd (aws_hash_table_init ok_impl junk capacity tn_map_key_hash_fn tn_map_key_cmp_fn False False) \<noteq> None"
    by (simp add: aws_hash_table_init_def Let_def split: option.split)
  then have "rc = 0 \<longleftrightarrow> p_impl \<noteq> None" by (simp add: i)
  then show ?thesis using True i
    by (cases "rc = 0")
      (auto simp: tn_map_setup_def Let_def map_table_def tn_map_get_def tn_map_set_def tn_map_remove_def tn_map_clear_def tn_map_cleanup_def)
qed

theorem map_setup_always_fails_witness:
  "\<exists>mp lost. tn_map_setup True False
     \<lparr>hs_hash_fn = id, hs_equals_fn = (=), hs_destroy_key_fn = False, hs_destroy_value_fn = False, hs_size = 0, hs_entry_count = 0,
       hs_max_load = 0, hs_mask = 0, hs_slots = [], hs_calls = []\<rparr> 8 = (TN_ERROR, mp, lost) \<and> map_table mp = None"
  using map_setup_always_fails by metis

text \<open>The operations on a map whose table holds m.\<close>

lemma map_holds_set_table: "map_holds (set_table mp state) m \<longleftrightarrow> ht_holds state m"
  by (simp add: map_holds_def map_table_def set_table_def)

lemma map_get_ok:
  assumes "map_holds mp m"
  shows "tn_map_get mp key = Some (case m key of None \<Rightarrow> (TN_ERROR, 0) | Some v \<Rightarrow> (TN_SUCCESS, v))"
proof -
  obtain state k where s: "map_table mp = Some state" and t: "table_ok k m state" using assms by (auto simp: map_holds_def ht_holds_def)
  show ?thesis using s find_ok [OF t] by (simp add: tn_map_get_def split: option.splits)
qed

text \<open>Setting a key of the map always stores the value when there is memory, but reports an error unless the key is new;
removing reports an error unless the key was present. The results of reading tell the two apart.\<close>

theorem map_set_and_remove:
  assumes h: "map_holds mp m" and few: "card (dom m) < 2 ^ 31" and v: "v \<noteq> 0"
  shows "(\<exists>mp'. tn_map_set True mp key v = Some (if m key = None then TN_SUCCESS else TN_ERROR, mp') \<and> map_holds mp' (m(key \<mapsto> v)) \<and>
      tn_map_get mp' key = Some (TN_SUCCESS, v)) \<and>
    (\<exists>mp'. tn_map_remove mp key = Some (if m key = None then TN_ERROR else TN_SUCCESS, mp') \<and> map_holds mp' (m(key := None)) \<and>
      tn_map_get mp' key = Some (TN_ERROR, 0))"
proof -
  obtain state k where s: "map_table mp = Some state" and t: "table_ok k m state" using h by (auto simp: map_holds_def ht_holds_def)
  obtain state' k' where put: "aws_hash_table_put True state key v = Some (AWS_OP_SUCCESS, Some (m key = None), state')"
    and t': "table_ok k' (m(key \<mapsto> v)) state'"
    using put_every_case [OF t few] .
  have h': "map_holds (set_table mp state') (m(key \<mapsto> v))" using t' by (auto simp: map_holds_set_table ht_holds_def)
  have set: "tn_map_set True mp key v = Some (if m key = None then TN_SUCCESS else TN_ERROR, set_table mp state')"
    using s v put by (simp add: tn_map_set_def Let_def)
  obtain state2 where "aws_hash_table_remove False state key = Some (AWS_OP_SUCCESS, m key \<noteq> None, None, state2)"
    and t2: "table_ok k (m(key := None)) state2" using remove_ok [OF t, of False key] by auto
  then have rem: "tn_map_remove mp key = Some (if m key = None then TN_ERROR else TN_SUCCESS, set_table mp state2)"
    using s by (simp add: tn_map_remove_def)
  have h2: "map_holds (set_table mp state2) (m(key := None))" using t2 by (auto simp: map_holds_set_table ht_holds_def)
  show ?thesis using set h' rem h2 map_get_ok [OF h', of key] map_get_ok [OF h2, of key] by simp
qed

theorem map_set_and_remove_witness:
  "\<exists>mp. map_holds mp [5 \<mapsto> 7, 9 \<mapsto> 8] \<and> (\<exists>mp'. tn_map_set True mp 5 6 = Some (TN_ERROR, mp') \<and> tn_map_get mp' 5 = Some (TN_SUCCESS, 6))"
proof -
  obtain s where "ht_holds s [5 \<mapsto> 7, 9 \<mapsto> 8]" using sample_table by blast
  then have h: "map_holds \<lparr>mp_priv = PRIV_TABLE (Some s), mp_capacity = 2\<rparr> [5 \<mapsto> 7, 9 \<mapsto> 8]"
    by (simp add: map_holds_def map_table_def)
  have "card (dom [5 \<mapsto> (7 :: u64), (9 :: u64) \<mapsto> 8]) < 2 ^ 31" and "(6 :: u64) \<noteq> 0" by simp_all
  from map_set_and_remove [OF h this, of 5] show ?thesis using h by fastforce
qed


end
