(* ===== verification/Tn_Array_List.thy ===== *)
theory Tn_Array_List
  imports Tn_Prelude
begin

text \<open>
  The array list of aws-c-common (\<open>array_list.inl\<close>, \<open>array_list.c\<close>): items of equal size in one block of bytes. In static mode
  the block belongs to the caller; in dynamic mode it grows. A block is the list of its bytes; copying outside it has no result.
  \<open>al_alloc\<close> says whether there is an allocator. Whether an allocation succeeds and what the fresh block contains are inputs. The thread's
  last error code is left out, every error is \<open>AWS_OP_ERR\<close>.
\<close>

section \<open>Blocks of bytes\<close>

definition blk_read :: "u8 list \<Rightarrow> nat \<Rightarrow> nat \<Rightarrow> u8 list option" where
  "blk_read d off n = (if off + n \<le> length d then Some (take n (drop off d)) else None)"

definition blk_write :: "u8 list \<Rightarrow> nat \<Rightarrow> u8 list \<Rightarrow> u8 list option" where
  "blk_write d off bs = (if off + length bs \<le> length d then Some (take off d @ bs @ drop (off + length bs) d) else None)"

definition blk_acquire :: "bool \<Rightarrow> (nat \<Rightarrow> u8) \<Rightarrow> size_t \<Rightarrow> u8 list option" where
  "blk_acquire ok junk sz = (if ok then Some (map junk [0..<unat sz]) else None)"

section \<open>The array list\<close>

record aws_array_list =
  al_alloc :: bool
  al_current_size :: size_t
  al_length :: size_t
  al_item_size :: size_t
  al_data :: "u8 list option"

definition aws_array_list_init_dynamic ::
  "bool \<Rightarrow> (nat \<Rightarrow> u8) \<Rightarrow> bool \<Rightarrow> size_t \<Rightarrow> size_t \<Rightarrow> int \<times> aws_array_list" where
  "aws_array_list_init_dynamic ok junk alloc initial_item_allocation item_size =
     (let allocation_size = initial_item_allocation * item_size;
          l = \<lparr>al_alloc = alloc, al_current_size = 0, al_length = 0, al_item_size = item_size, al_data = None\<rparr>
      in if allocation_size > 0
         then case blk_acquire ok junk allocation_size of None \<Rightarrow> (AWS_OP_ERR, l)
              | Some d \<Rightarrow> (AWS_OP_SUCCESS, l\<lparr>al_data := Some d, al_current_size := allocation_size\<rparr>)
         else (AWS_OP_SUCCESS, l))"

definition aws_array_list_init_static :: "u8 list \<Rightarrow> size_t \<Rightarrow> size_t \<Rightarrow> aws_array_list option" where
  "aws_array_list_init_static raw_array item_count item_size = do {
     tn_assert (item_count \<noteq> 0);
     tn_assert (item_size \<noteq> 0);
     Some \<lparr>al_alloc = False, al_current_size = item_count * item_size, al_length = 0, al_item_size = item_size, al_data = Some raw_array\<rparr>
   }"

definition aws_array_list_clean_up :: "aws_array_list \<Rightarrow> aws_array_list" where
  "aws_array_list_clean_up l = \<lparr>al_alloc = False, al_current_size = 0, al_length = 0, al_item_size = 0, al_data = None\<rparr>"

definition aws_array_list_length :: "aws_array_list \<Rightarrow> size_t option" where
  "aws_array_list_length l = do {
     tn_assert (al_length l = 0 \<or> al_data l \<noteq> None);
     Some (al_length l)
   }"

definition aws_array_list_capacity :: "aws_array_list \<Rightarrow> size_t option" where
  "aws_array_list_capacity l = do {
     tn_assert (al_item_size l \<noteq> 0);
     Some (al_current_size l div al_item_size l)
   }"

definition aws_array_list_clear :: "aws_array_list \<Rightarrow> aws_array_list" where
  "aws_array_list_clear l = (if al_data l \<noteq> None then l\<lparr>al_length := 0\<rparr> else l)"

definition aws_array_list_ensure_capacity :: "bool \<Rightarrow> (nat \<Rightarrow> u8) \<Rightarrow> aws_array_list \<Rightarrow> size_t \<Rightarrow> (int \<times> aws_array_list) option" where
  "aws_array_list_ensure_capacity ok junk l index =
     (let necessary_size = (index + 1) * al_item_size l in
      if al_current_size l < necessary_size then
        if \<not> al_alloc l then Some (AWS_OP_ERR, l)
        else let next_allocation_size = push_bit 1 (al_current_size l);
                 new_size = (if next_allocation_size > necessary_size then next_allocation_size else necessary_size)
        in if new_size < al_current_size l then Some (AWS_OP_ERR, l)
        else case blk_acquire ok junk new_size of None \<Rightarrow> Some (AWS_OP_ERR, l)
        | Some temp \<Rightarrow> do {
            temp \<leftarrow> (case al_data l of None \<Rightarrow> Some temp
              | Some d \<Rightarrow> do { bs \<leftarrow> blk_read d 0 (unat (al_current_size l)); blk_write temp 0 bs });
            Some (AWS_OP_SUCCESS, l\<lparr>al_data := Some temp, al_current_size := new_size\<rparr>)
          }
      else Some (AWS_OP_SUCCESS, l))"

text \<open>The value is given by the bytes that can be read at its address.\<close>

definition aws_array_list_set_at :: "bool \<Rightarrow> (nat \<Rightarrow> u8) \<Rightarrow> aws_array_list \<Rightarrow> u8 list \<Rightarrow> size_t \<Rightarrow> (int \<times> aws_array_list) option" where
  "aws_array_list_set_at ok junk l val index = do {
     let necessary_size = (index + 1) * al_item_size l;
     (rc, l) \<leftarrow> (if al_current_size l < necessary_size then aws_array_list_ensure_capacity ok junk l index else Some (AWS_OP_SUCCESS, l));
     if rc \<noteq> 0 then Some (AWS_OP_ERR, l)
     else do {
       d \<leftarrow> al_data l;
       bs \<leftarrow> blk_read val 0 (unat (al_item_size l));
       d \<leftarrow> blk_write d (unat (al_item_size l * index)) bs;
       let l = l\<lparr>al_data := Some d\<rparr>;
       len \<leftarrow> aws_array_list_length l;
       Some (AWS_OP_SUCCESS, if index \<ge> len then l\<lparr>al_length := index + 1\<rparr> else l)
     }
   }"

definition aws_array_list_push_back :: "bool \<Rightarrow> (nat \<Rightarrow> u8) \<Rightarrow> aws_array_list \<Rightarrow> u8 list \<Rightarrow> (int \<times> aws_array_list) option" where
  "aws_array_list_push_back ok junk l val = do {
     len \<leftarrow> aws_array_list_length l;
     (rc, l) \<leftarrow> aws_array_list_set_at ok junk l val len;
     Some (rc, l)
   }"

text \<open>Reading gives the code and the bytes copied, none when nothing is copied.\<close>

definition aws_array_list_get_at :: "aws_array_list \<Rightarrow> size_t \<Rightarrow> (int \<times> u8 list option) option" where
  "aws_array_list_get_at l index = do {
     len \<leftarrow> aws_array_list_length l;
     if len > index then do {
       d \<leftarrow> al_data l;
       bs \<leftarrow> blk_read d (unat (al_item_size l * index)) (unat (al_item_size l));
       Some (AWS_OP_SUCCESS, Some bs)
     } else Some (AWS_OP_ERR, None)
   }"

text \<open>A pointer to an item is its offset in the block.\<close>

definition aws_array_list_get_at_ptr :: "aws_array_list \<Rightarrow> size_t \<Rightarrow> (int \<times> size_t option) option" where
  "aws_array_list_get_at_ptr l index = do {
     len \<leftarrow> aws_array_list_length l;
     Some (if len > index then (AWS_OP_SUCCESS, Some (al_item_size l * index)) else (AWS_OP_ERR, None))
   }"

definition aws_array_list_front :: "aws_array_list \<Rightarrow> (int \<times> u8 list option) option" where
  "aws_array_list_front l = do {
     len \<leftarrow> aws_array_list_length l;
     if len > 0 then do {
       d \<leftarrow> al_data l;
       bs \<leftarrow> blk_read d 0 (unat (al_item_size l));
       Some (AWS_OP_SUCCESS, Some bs)
     } else Some (AWS_OP_ERR, None)
   }"

definition aws_array_list_back :: "aws_array_list \<Rightarrow> (int \<times> u8 list option) option" where
  "aws_array_list_back l = do {
     len \<leftarrow> aws_array_list_length l;
     if len > 0 then do {
       d \<leftarrow> al_data l;
       bs \<leftarrow> blk_read d (unat (al_item_size l * (len - 1))) (unat (al_item_size l));
       Some (AWS_OP_SUCCESS, Some bs)
     } else Some (AWS_OP_ERR, None)
   }"

definition aws_array_list_pop_back :: "aws_array_list \<Rightarrow> (int \<times> aws_array_list) option" where
  "aws_array_list_pop_back l = do {
     len \<leftarrow> aws_array_list_length l;
     if len > 0 then do {
       d \<leftarrow> al_data l;
       d \<leftarrow> blk_write d (unat (al_item_size l * (len - 1))) (replicate (unat (al_item_size l)) 0);
       Some (AWS_OP_SUCCESS, l\<lparr>al_data := Some d, al_length := al_length l - 1\<rparr>)
     } else Some (AWS_OP_ERR, l)
   }"

definition aws_array_list_pop_front_n :: "aws_array_list \<Rightarrow> size_t \<Rightarrow> aws_array_list option" where
  "aws_array_list_pop_front_n l n = do {
     len \<leftarrow> aws_array_list_length l;
     if n \<ge> len then Some (aws_array_list_clear l)
     else if n > 0 then do {
       d \<leftarrow> al_data l;
       let popping_bytes = al_item_size l * n;
       let remaining_items = len - n;
       let remaining_bytes = remaining_items * al_item_size l;
       bs \<leftarrow> blk_read d (unat popping_bytes) (unat remaining_bytes);
       d \<leftarrow> blk_write d 0 bs;
       Some (l\<lparr>al_data := Some d, al_length := remaining_items\<rparr>)
     } else Some l
   }"

definition aws_array_list_pop_front :: "aws_array_list \<Rightarrow> (int \<times> aws_array_list) option" where
  "aws_array_list_pop_front l = do {
     len \<leftarrow> aws_array_list_length l;
     if len > 0 then do { l \<leftarrow> aws_array_list_pop_front_n l 1; Some (AWS_OP_SUCCESS, l) }
     else Some (AWS_OP_ERR, l)
   }"

text \<open>
  Swapping two items of the block, 128 bytes at a time and then the remainder. The two items are given by their offsets.
\<close>

definition swap_slice :: "u8 list \<Rightarrow> nat \<Rightarrow> nat \<Rightarrow> nat \<Rightarrow> u8 list option" where
  "swap_slice d item1 item2 n = do {
     temp \<leftarrow> blk_read d item1 n;
     bs \<leftarrow> blk_read d item2 n;
     d \<leftarrow> blk_write d item1 bs;
     blk_write d item2 temp
   }"

fun swap_slices :: "nat \<Rightarrow> u8 list \<Rightarrow> nat \<Rightarrow> nat \<Rightarrow> u8 list option" where
  "swap_slices 0 d item1 item2 = Some d"
| "swap_slices (Suc n) d item1 item2 = do { d \<leftarrow> swap_slice d item1 item2 128; swap_slices n d (item1 + 128) (item2 + 128) }"

definition aws_array_list_mem_swap :: "u8 list \<Rightarrow> nat \<Rightarrow> nat \<Rightarrow> size_t \<Rightarrow> u8 list option" where
  "aws_array_list_mem_swap d item1 item2 item_size = do {
     let slice_count = unat (item_size div 128);
     d \<leftarrow> swap_slices slice_count d item1 item2;
     let remainder = unat (item_size AND 127);
     swap_slice d (item1 + 128 * slice_count) (item2 + 128 * slice_count) remainder
   }"

definition aws_array_list_swap :: "aws_array_list \<Rightarrow> size_t \<Rightarrow> size_t \<Rightarrow> aws_array_list option" where
  "aws_array_list_swap l a b = do {
     tn_assert (a < al_length l);
     tn_assert (b < al_length l);
     if a = b then Some l
     else do {
       (_, item1) \<leftarrow> aws_array_list_get_at_ptr l a;
       (_, item2) \<leftarrow> aws_array_list_get_at_ptr l b;
       item1 \<leftarrow> item1;
       item2 \<leftarrow> item2;
       d \<leftarrow> al_data l;
       d \<leftarrow> aws_array_list_mem_swap d (unat item1) (unat item2) (al_item_size l);
       Some (l\<lparr>al_data := Some d\<rparr>)
     }
   }"

definition aws_array_list_shrink_to_fit :: "bool \<Rightarrow> (nat \<Rightarrow> u8) \<Rightarrow> aws_array_list \<Rightarrow> (int \<times> aws_array_list) option" where
  "aws_array_list_shrink_to_fit ok junk l =
     (if al_alloc l then
        let ideal_size = al_length l * al_item_size l in
        if ideal_size < al_current_size l then
          if ideal_size > 0 then
            case blk_acquire ok junk ideal_size of None \<Rightarrow> Some (AWS_OP_ERR, l)
            | Some raw_data \<Rightarrow> do {
                d \<leftarrow> al_data l;
                bs \<leftarrow> blk_read d 0 (unat ideal_size);
                raw_data \<leftarrow> blk_write raw_data 0 bs;
                Some (AWS_OP_SUCCESS, l\<lparr>al_data := Some raw_data, al_current_size := ideal_size\<rparr>)
              }
          else Some (AWS_OP_SUCCESS, l\<lparr>al_data := None, al_current_size := ideal_size\<rparr>)
        else Some (AWS_OP_SUCCESS, l)
      else Some (AWS_OP_ERR, l))"

definition aws_array_list_copy :: "bool \<Rightarrow> (nat \<Rightarrow> u8) \<Rightarrow> aws_array_list \<Rightarrow> aws_array_list \<Rightarrow> (int \<times> aws_array_list) option" where
  "aws_array_list_copy ok junk from to = do {
     tn_assert (al_item_size from = al_item_size to);
     d \<leftarrow> al_data from;
     let copy_size = al_length from * al_item_size from;
     if al_current_size to \<ge> copy_size then do {
       to \<leftarrow> (if copy_size > 0 then do {
           t \<leftarrow> al_data to;
           bs \<leftarrow> blk_read d 0 (unat copy_size);
           t \<leftarrow> blk_write t 0 bs;
           Some (to\<lparr>al_data := Some t\<rparr>)
         } else Some to);
       Some (AWS_OP_SUCCESS, to\<lparr>al_length := al_length from\<rparr>)
     }
     else if al_alloc to then
       (case blk_acquire ok junk copy_size of None \<Rightarrow> Some (AWS_OP_ERR, to)
        | Some tmp \<Rightarrow> do {
            bs \<leftarrow> blk_read d 0 (unat copy_size);
            tmp \<leftarrow> blk_write tmp 0 bs;
            Some (AWS_OP_SUCCESS, to\<lparr>al_data := Some tmp, al_length := al_length from, al_current_size := copy_size\<rparr>)
          })
     else Some (AWS_OP_ERR, to)
   }"

section \<open>Reading and writing a block\<close>

lemma length_blk_write: "blk_write d off bs = Some d' \<Longrightarrow> length d' = length d"
  by (auto simp: blk_write_def split: if_splits)

lemma nth_blk_write:
  "blk_write d off bs = Some d' \<Longrightarrow> x < length d \<Longrightarrow> d' ! x = (if off \<le> x \<and> x < off + length bs then bs ! (x - off) else d ! x)"
  by (auto simp: blk_write_def nth_append split: if_splits)

lemma blk_write_in: "off + length bs \<le> length d \<Longrightarrow> \<exists>d'. blk_write d off bs = Some d'"
  by (simp add: blk_write_def)

lemma nth_blk_read: "blk_read d off n = Some bs \<Longrightarrow> x < n \<Longrightarrow> bs ! x = d ! (off + x)"
  by (auto simp: blk_read_def split: if_splits)

lemma length_blk_read: "blk_read d off n = Some bs \<Longrightarrow> length bs = n"
  by (auto simp: blk_read_def split: if_splits)

text \<open>Swapping in slices is swapping at once, for items that do not overlap.\<close>

definition swapped :: "u8 list \<Rightarrow> nat \<Rightarrow> nat \<Rightarrow> nat \<Rightarrow> u8 list \<Rightarrow> bool" where
  "swapped d a b n d' \<longleftrightarrow> length d' = length d \<and> (\<forall>x < length d. d' ! x =
     (if a \<le> x \<and> x < a + n then d ! (b + (x - a)) else if b \<le> x \<and> x < b + n then d ! (a + (x - b)) else d ! x))"

definition apart :: "nat \<Rightarrow> nat \<Rightarrow> nat \<Rightarrow> bool" where
  "apart a b n \<longleftrightarrow> a + n \<le> b \<or> b + n \<le> a"

lemma swap_slice_swaps:
  assumes "a + n \<le> length d" and "b + n \<le> length d" and "apart a b n"
  shows "\<exists>d'. swap_slice d a b n = Some d' \<and> swapped d a b n d'"
proof -
  have r: "blk_read d a n = Some (take n (drop a d))" "blk_read d b n = Some (take n (drop b d))"
    using assms by (simp_all add: blk_read_def)
  have la: "length (take n (drop a d)) = n" and lb: "length (take n (drop b d)) = n" using assms by simp_all
  obtain d1 where d1: "blk_write d a (take n (drop b d)) = Some d1" using blk_write_in [of a "take n (drop b d)" d] lb assms by auto
  have l1: "length d1 = length d" using d1 by (rule length_blk_write)
  obtain d2 where d2: "blk_write d1 b (take n (drop a d)) = Some d2" using blk_write_in [of b "take n (drop a d)" d1] la l1 assms by auto
  have "d2 ! x = (if a \<le> x \<and> x < a + n then d ! (b + (x - a)) else if b \<le> x \<and> x < b + n then d ! (a + (x - b)) else d ! x)"
    if "x < length d" for x
    using nth_blk_write [OF d2, of x] nth_blk_write [OF d1, of x] that la lb l1 assms by (auto simp: apart_def)
  then have "swapped d a b n d2" using length_blk_write [OF d2] l1 by (simp add: swapped_def)
  then show ?thesis using r d1 d2 by (simp add: swap_slice_def)
qed

lemma swapped_join:
  assumes "swapped d a b n d1" and "swapped d1 (a + n) (b + n) m d2" and "apart a b (n + m)"
    and "a + n + m \<le> length d" and "b + n + m \<le> length d"
  shows "swapped d a b (n + m) d2"
  unfolding swapped_def
proof (intro conjI allI impI)
  show "length d2 = length d" using assms(1,2) by (simp add: swapped_def)
  fix x
  assume x: "x < length d"
  have 1: "d1 ! y = (if a \<le> y \<and> y < a + n then d ! (b + (y - a)) else if b \<le> y \<and> y < b + n then d ! (a + (y - b)) else d ! y)"
    if "y < length d" for y using assms(1) that by (simp add: swapped_def)
  have 2: "d2 ! x = (if a + n \<le> x \<and> x < a + n + m then d1 ! (b + n + (x - (a + n))) else
      if b + n \<le> x \<and> x < b + n + m then d1 ! (a + n + (x - (b + n))) else d1 ! x)"
    using assms(1,2) x by (simp add: swapped_def)
  consider "a \<le> x \<and> x < a + n" | "a + n \<le> x \<and> x < a + n + m" | "b \<le> x \<and> x < b + n" | "b + n \<le> x \<and> x < b + n + m"
    | "\<not> (a \<le> x \<and> x < a + n + m)" "\<not> (b \<le> x \<and> x < b + n + m)" by linarith
  then show "d2 ! x = (if a \<le> x \<and> x < a + (n + m) then d ! (b + (x - a)) else
      if b \<le> x \<and> x < b + (n + m) then d ! (a + (x - b)) else d ! x)"
  proof cases
    case 2
    then have "b + n + (x - (a + n)) = b + (x - a)" and "\<not> (a \<le> b + (x - a) \<and> b + (x - a) < a + n)" "\<not> (b + (x - a) < b + n)"
      using assms(3) by (auto simp: apart_def)
    then show ?thesis using 2 \<open>d2 ! x = _\<close> 1 [of "b + (x - a)"] assms(5) by auto
  next
    case 4
    then have "a + n + (x - (b + n)) = a + (x - b)" and "\<not> (a \<le> x \<and> x < a + n + m)"
      "\<not> (b \<le> a + (x - b) \<and> a + (x - b) < b + n)" "\<not> (a + (x - b) < a + n)"
      using assms(3) by (auto simp: apart_def)
    then show ?thesis using 4 \<open>d2 ! x = _\<close> 1 [of "a + (x - b)"] assms(4) by auto
  qed (use 2 1 [OF x] assms(3) in \<open>auto simp: apart_def\<close>)
qed

lemma swap_slices_swaps:
  assumes "a + 128 * n \<le> length d" and "b + 128 * n \<le> length d" and "apart a b (128 * n)"
  shows "\<exists>d'. swap_slices n d a b = Some d' \<and> swapped d a b (128 * n) d'"
  using assms
proof (induction n arbitrary: d a b)
  case 0
  then show ?case by (auto simp: swapped_def)
next
  case (Suc n)
  then obtain d1 where d1: "swap_slice d a b 128 = Some d1" "swapped d a b 128 d1"
    using swap_slice_swaps [of a 128 d b] by (auto simp: apart_def)
  then have l: "length d1 = length d" by (simp add: swapped_def)
  then obtain d2 where d2: "swap_slices n d1 (a + 128) (b + 128) = Some d2" "swapped d1 (a + 128) (b + 128) (128 * n) d2"
    using Suc.IH [of "a + 128" d1 "b + 128"] Suc.prems by (auto simp: apart_def)
  have "swapped d a b (128 + 128 * n) d2"
    using Suc.prems by (intro swapped_join [OF d1(2) d2(2)]) simp_all
  then show ?case using d1 d2 by simp
qed

lemma slices_sum: "128 * unat (n div 128) + unat (n AND 127) = unat (n :: u64)"
proof -
  have "unat (n AND (2 ^ 7 - 1)) = unat n mod 2 ^ 7" by (rule unat_and_pow2_mask)
  then have "unat (n AND 127) = unat n mod 128" by simp
  moreover have "unat (n div 128) = unat n div 128" by (simp add: unat_div_distrib)
  ultimately show ?thesis by simp
qed

lemma mem_swap_swaps:
  assumes "a + unat n \<le> length d" and "b + unat n \<le> length d" and "apart a b (unat n)"
  shows "\<exists>d'. aws_array_list_mem_swap d a b n = Some d' \<and> swapped d a b (unat n) d'"
proof -
  let ?k = "128 * unat (n div 128)" and ?r = "unat (n AND 127)"
  note s = slices_sum [of n]
  obtain d1 where d1: "swap_slices (unat (n div 128)) d a b = Some d1" "swapped d a b ?k d1"
    using swap_slices_swaps [of a "unat (n div 128)" d b] assms s by (auto simp: apart_def)
  then have l: "length d1 = length d" by (simp add: swapped_def)
  obtain d2 where d2: "swap_slice d1 (a + ?k) (b + ?k) ?r = Some d2" "swapped d1 (a + ?k) (b + ?k) ?r d2"
    using swap_slice_swaps [of "a + ?k" ?r d1 "b + ?k"] assms s l by (auto simp: apart_def)
  have "swapped d a b (?k + ?r) d2"
    using assms s by (intro swapped_join [OF d1(2) d2(2)]) simp_all
  then show ?thesis using d1 d2 s by (simp add: aws_array_list_mem_swap_def Let_def)
qed

section \<open>The list of items\<close>

definition chunk :: "nat \<Rightarrow> u8 list \<Rightarrow> nat \<Rightarrow> u8 list" where
  "chunk n d i = take n (drop (i * n) d)"

definition items :: "aws_array_list \<Rightarrow> u8 list list" where
  "items l = (case al_data l of None \<Rightarrow> [] | Some d \<Rightarrow> map (chunk (unat (al_item_size l)) d) [0..<unat (al_length l)])"

text \<open>The block has the size the list thinks it has, and offsets do not wrap.\<close>

definition al_inv :: "aws_array_list \<Rightarrow> bool" where
  "al_inv l \<longleftrightarrow> (\<exists>d. al_data l = Some d \<and> unat (al_current_size l) \<le> length d) \<and> 0 < al_item_size l \<and>
     unat (al_length l) * unat (al_item_size l) \<le> unat (al_current_size l) \<and>
     unat (al_current_size l) + unat (al_item_size l) < 2 ^ 64"

lemma al_inv_data:
  assumes "al_inv l"
  obtains d where "al_data l = Some d" and "unat (al_current_size l) \<le> length d"
  using assms by (auto simp: al_inv_def)

lemma length_items [simp]: "al_inv l \<Longrightarrow> length (items l) = unat (al_length l)"
  by (auto simp: items_def al_inv_def)

lemma nth_items: "al_data l = Some d \<Longrightarrow> i < unat (al_length l) \<Longrightarrow> items l ! i = chunk (unat (al_item_size l)) d i"
  by (simp add: items_def)

lemma item_end:
  assumes "al_inv l" and "i < unat (al_length l)"
  shows "i * unat (al_item_size l) + unat (al_item_size l) \<le> unat (al_current_size l)"
proof -
  have "Suc i * unat (al_item_size l) \<le> unat (al_length l) * unat (al_item_size l)" using assms(2) by (intro mult_le_mono1) simp
  then show ?thesis using assms(1) by (simp add: al_inv_def)
qed

lemma item_offset:
  assumes "al_inv l" and "i \<le> unat (al_length l)"
  shows "unat (al_item_size l * of_nat i) = i * unat (al_item_size l)"
proof -
  have n: "0 < unat (al_item_size l)" using assms(1) by (simp add: al_inv_def word_less_nat_alt)
  have "i * unat (al_item_size l) \<le> unat (al_length l) * unat (al_item_size l)" using assms(2) by (rule mult_le_mono1)
  also have "\<dots> < 2 ^ 64" using assms(1) by (simp add: al_inv_def)
  finally have lt: "i * unat (al_item_size l) < 2 ^ 64" .
  then have "i < 2 ^ 64" using n by (metis le_less_trans mult.right_neutral mult_le_mono2 Suc_leI One_nat_def)
  then have "unat (of_nat i :: u64) = i" by (rule unat_of_nat64)
  then show ?thesis using lt by (subst unat_mult64) (simp_all add: mult.commute)
qed

lemma chunk_read:
  assumes "al_inv l" and d: "al_data l = Some d" and i: "i < unat (al_length l)"
  shows "blk_read d (i * unat (al_item_size l)) (unat (al_item_size l)) = Some (items l ! i)"
  using item_end [OF assms(1) i] assms by (auto simp: blk_read_def nth_items chunk_def al_inv_def)

lemma chunk_write:
  assumes w: "blk_write d (i * n) bs = Some d'" and b: "length bs = n" and j: "j * n + n \<le> length d"
  shows "chunk n d' j = (if j = i then bs else chunk n d j)"
proof (rule nth_equalityI)
  have l: "length d' = length d" using w by (rule length_blk_write)
  show "length (chunk n d' j) = length (if j = i then bs else chunk n d j)" using l b j by (simp add: chunk_def)
  fix x
  assume "x < length (chunk n d' j)"
  then have x: "x < n" "j * n + x < length d" using j by (simp_all add: chunk_def)
  have "i * n \<le> j * n + x \<and> j * n + x < i * n + n \<longleftrightarrow> j = i"
  proof
    assume a: "i * n \<le> j * n + x \<and> j * n + x < i * n + n"
    have "(j * n + x) div n = i" using a by (intro div_nat_eqI) (simp_all add: mult.commute)
    moreover have "(j * n + x) div n = j" using x by simp
    ultimately show "j = i" by simp
  qed (use x in auto)
  then show "chunk n d' j ! x = (if j = i then bs else chunk n d j) ! x"
    using nth_blk_write [OF w x(2)] x b l by (auto simp: chunk_def)
qed

text \<open>What stays as it is when the block is written or the length changes.\<close>

definition same_shape :: "aws_array_list \<Rightarrow> aws_array_list \<Rightarrow> bool" where
  "same_shape l l' \<longleftrightarrow> al_inv l' \<and> al_alloc l' = al_alloc l \<and> al_item_size l' = al_item_size l \<and> al_current_size l' = al_current_size l"

lemma length_ok: "al_inv l \<Longrightarrow> aws_array_list_length l = Some (al_length l)"
  by (auto simp: aws_array_list_length_def al_inv_def)

lemma items_same_data:
  assumes i: "al_inv l" and d: "al_data l = Some d" and w: "blk_write d (j * unat (al_item_size l)) bs = Some d'"
    and b: "length bs = unat (al_item_size l)" and n: "unat len * unat (al_item_size l) \<le> unat (al_current_size l)"
  shows "same_shape l (l\<lparr>al_data := Some d', al_length := len\<rparr>)"
    and "items (l\<lparr>al_data := Some d', al_length := len\<rparr>) =
      map (\<lambda>i. if i = j then bs else chunk (unat (al_item_size l)) d i) [0..<unat len]"
proof -
  have l: "length d' = length d" using w by (rule length_blk_write)
  show "same_shape l (l\<lparr>al_data := Some d', al_length := len\<rparr>)" using i d n l by (simp add: same_shape_def al_inv_def)
  have "chunk (unat (al_item_size l)) d' q = (if q = j then bs else chunk (unat (al_item_size l)) d q)" if "q < unat len" for q
  proof (rule chunk_write [OF w b])
    have "Suc q * unat (al_item_size l) \<le> unat len * unat (al_item_size l)" using that by (intro mult_le_mono1) simp
    then show "q * unat (al_item_size l) + unat (al_item_size l) \<le> length d" using n i d by (auto simp: al_inv_def)
  qed
  then show "items (l\<lparr>al_data := Some d', al_length := len\<rparr>) =
      map (\<lambda>i. if i = j then bs else chunk (unat (al_item_size l)) d i) [0..<unat len]"
    by (simp add: items_def)
qed

lemma push_back_ok:
  assumes i: "al_inv l" and room: "Suc (unat (al_length l)) * unat (al_item_size l) \<le> unat (al_current_size l)"
    and v: "unat (al_item_size l) \<le> length val"
  obtains l' where "aws_array_list_push_back ok junk l val = Some (AWS_OP_SUCCESS, l')" and "same_shape l l'"
    and "items l' = items l @ [take (unat (al_item_size l)) val]" and "al_length l' = al_length l + 1"
proof -
  let ?n = "unat (al_item_size l)" and ?k = "unat (al_length l)"
  obtain d where d: "al_data l = Some d" "unat (al_current_size l) \<le> length d" using al_inv_data [OF i] .
  have n: "0 < ?n" using i by (simp add: al_inv_def word_less_nat_alt)
  have "Suc ?k * 1 \<le> Suc ?k * ?n" using n by (intro mult_le_mono2) simp
  then have k: "?k + unat (1 :: u64) < 2 ^ 64" using room i by (simp add: al_inv_def)
  have k1: "unat (al_length l + 1) = Suc ?k" using unat_add64 [OF k] by simp
  have "unat (al_length l + 1) * ?n < 2 ^ 64" using room i k1 by (simp add: al_inv_def)
  then have "unat ((al_length l + 1) * al_item_size l) = Suc ?k * ?n" using k1 by (subst unat_mult64) simp_all
  then have fits: "\<not> (al_current_size l < (al_length l + 1) * al_item_size l)" using room by (simp add: word_less_nat_alt)
  have off: "unat (al_item_size l * al_length l) = ?k * ?n" using item_offset [OF i order_refl] by simp
  have rd: "blk_read val 0 ?n = Some (take ?n val)" using v by (simp add: blk_read_def)
  have len: "length (take ?n val) = ?n" using v by simp
  obtain d' where w: "blk_write d (?k * ?n) (take ?n val) = Some d'"
    using blk_write_in [of "?k * ?n" "take ?n val" d] len room d(2) by auto
  let ?l = "l\<lparr>al_data := Some d', al_length := al_length l + 1\<rparr>"
  have "unat (al_length l + 1) * ?n \<le> unat (al_current_size l)" using room k1 by simp
  note s = items_same_data [OF i d(1) w len this]
  have "items ?l = items l @ [take ?n val]" unfolding s(2) k1 using d(1) by (simp add: items_def)
  moreover have "aws_array_list_push_back ok junk l val = Some (AWS_OP_SUCCESS, ?l)"
    using fits off rd w d(1) length_ok [OF i]
    by (simp add: aws_array_list_push_back_def aws_array_list_set_at_def aws_array_list_length_def Let_def)
  ultimately show thesis using that s(1) by simp
qed

lemma push_back_full:
  assumes i: "al_inv l" and full: "unat (al_current_size l) < Suc (unat (al_length l)) * unat (al_item_size l)" and st: "\<not> al_alloc l"
  shows "aws_array_list_push_back ok junk l val = Some (AWS_OP_ERR, l)"
proof -
  let ?n = "unat (al_item_size l)" and ?k = "unat (al_length l)"
  have n: "0 < ?n" using i by (simp add: al_inv_def word_less_nat_alt)
  have b: "Suc ?k * ?n < 2 ^ 64" using i by (simp add: al_inv_def)
  have "Suc ?k * 1 \<le> Suc ?k * ?n" using n by (intro mult_le_mono2) simp
  then have k1: "unat (al_length l + 1) = Suc ?k" using b unat_add64 [of "al_length l" 1] by simp
  then have "unat ((al_length l + 1) * al_item_size l) = Suc ?k * ?n" using b by (subst unat_mult64) simp_all
  then have "al_current_size l < (al_length l + 1) * al_item_size l" using full by (simp add: word_less_nat_alt)
  then show ?thesis using st length_ok [OF i]
    by (simp add: aws_array_list_push_back_def aws_array_list_set_at_def aws_array_list_ensure_capacity_def Let_def)
qed

lemma get_at_ok:
  assumes i: "al_inv l"
  shows "aws_array_list_get_at l index =
    Some (if unat index < length (items l) then (AWS_OP_SUCCESS, Some (items l ! unat index)) else (AWS_OP_ERR, None))"
proof -
  obtain d where d: "al_data l = Some d" using al_inv_data [OF i] .
  show ?thesis
    using d length_ok [OF i] item_offset [OF i, of "unat index"] chunk_read [OF i d, of "unat index"] i
    by (simp add: aws_array_list_get_at_def word_less_nat_alt)
qed

lemma no_items: "al_inv l \<Longrightarrow> items l = [] \<longleftrightarrow> al_length l = 0"
  using length_items [of l] by (auto simp: unsigned_eq_0_iff simp flip: length_0_conv)

lemma word_of_nat_unat: "of_nat (unat x) = (x :: u64)"
  by simp

lemma last_index:
  assumes "al_inv l" and "items l \<noteq> []"
  shows "0 < al_length l" and "unat (al_length l - 1) = length (items l) - 1"
    and "unat (al_item_size l * (al_length l - 1)) = (length (items l) - 1) * unat (al_item_size l)"
proof -
  have "0 < unat (al_length l)" using assms length_items [OF assms(1)] by (cases "items l") auto
  then show p: "0 < al_length l" by (simp add: word_less_nat_alt)
  then have nz: "al_length l \<noteq> 0" by auto
  show u: "unat (al_length l - 1) = length (items l) - 1" using unat_minus_one [OF nz] assms by simp
  have "unat (al_length l - 1) \<le> unat (al_length l)" using u assms by simp
  from item_offset [OF assms(1) this] show "unat (al_item_size l * (al_length l - 1)) = (length (items l) - 1) * unat (al_item_size l)"
    by (metis u word_of_nat_unat)
qed

lemma back_ok:
  assumes i: "al_inv l"
  shows "aws_array_list_back l = Some (if items l \<noteq> [] then (AWS_OP_SUCCESS, Some (last (items l))) else (AWS_OP_ERR, None))"
proof (cases "items l = []")
  case True
  then have "al_length l = 0" using no_items [OF i] by simp
  then show ?thesis using True length_ok [OF i] by (simp add: aws_array_list_back_def)
next
  case False
  obtain d where d: "al_data l = Some d" using al_inv_data [OF i] .
  have "length (items l) - 1 < unat (al_length l)" using False i by (simp flip: length_items)
  from chunk_read [OF i d this] show ?thesis
    using False last_index [OF i False] length_ok [OF i] d by (simp add: aws_array_list_back_def last_conv_nth)
qed

lemma pop_back_ok:
  assumes i: "al_inv l" and ne: "items l \<noteq> []"
  obtains l' where "aws_array_list_pop_back l = Some (AWS_OP_SUCCESS, l')" and "same_shape l l'" and "items l' = butlast (items l)"
proof -
  let ?n = "unat (al_item_size l)" and ?k = "length (items l) - 1"
  obtain d where d: "al_data l = Some d" "unat (al_current_size l) \<le> length d" using al_inv_data [OF i] .
  have k: "?k < unat (al_length l)" using ne i by (simp flip: length_items)
  obtain d' where w: "blk_write d (?k * ?n) (replicate ?n 0) = Some d'"
    using blk_write_in [of "?k * ?n" "replicate ?n 0" d] item_end [OF i k] d(2) by auto
  have u: "unat (al_length l - 1) = ?k" by (rule last_index [OF i ne])
  have "unat (al_length l - 1) * ?n \<le> unat (al_current_size l)" using item_end [OF i k] u by simp
  note s = items_same_data [OF i d(1) w length_replicate this]
  have "items (l\<lparr>al_data := Some d', al_length := al_length l - 1\<rparr>) = butlast (items l)"
    unfolding s(2) u using d(1) i by (intro nth_equalityI) (simp_all add: nth_butlast nth_items)
  then show thesis
    using that [OF _ s(1)] w d(1) last_index [OF i ne] length_ok [OF i] by (simp add: aws_array_list_pop_back_def)
qed

lemma pop_back_empty: "al_inv l \<Longrightarrow> items l = [] \<Longrightarrow> aws_array_list_pop_back l = Some (AWS_OP_ERR, l)"
  using no_items [of l] length_ok [of l] by (simp add: aws_array_list_pop_back_def)

lemma item_apart: "i \<noteq> j \<Longrightarrow> apart (i * n) (j * n) n"
proof -
  assume "i \<noteq> j"
  then have "Suc i * n \<le> j * n \<or> Suc j * n \<le> i * n" by (metis Suc_leI linorder_neqE_nat mult_le_mono1)
  then show ?thesis by (simp add: apart_def add.commute)
qed

lemma chunk_swapped:
  assumes s: "swapped d (a * n) (b * n) n d'" and ne: "a \<noteq> b" and j: "j * n + n \<le> length d"
    and ab: "a * n + n \<le> length d" "b * n + n \<le> length d"
  shows "chunk n d' j = chunk n d (if j = a then b else if j = b then a else j)"
proof (rule nth_equalityI)
  let ?c = "if j = a then b else if j = b then a else j"
  have l: "length d' = length d" using s by (simp add: swapped_def)
  show len: "length (chunk n d' j) = length (chunk n d ?c)" using l j ab by (simp add: chunk_def)
  fix x
  assume "x < length (chunk n d' j)"
  then have x: "x < n" "j * n + x < length d" using j by (simp_all add: chunk_def)
  have in_range: "i * n \<le> j * n + x \<and> j * n + x < i * n + n \<longleftrightarrow> j = i" for i
    using item_apart [of i j n] x by (cases "i = j") (auto simp: apart_def)
  have "d' ! (j * n + x) = d ! (?c * n + x)"
    using s x(2) ne by (auto simp: swapped_def in_range)
  then show "chunk n d' j ! x = chunk n d ?c ! x" using x l len by (auto simp: chunk_def)
qed

lemma swap_ok:
  assumes i: "al_inv l" and a: "unat a < length (items l)" and b: "unat b < length (items l)"
  obtains l' where "aws_array_list_swap l a b = Some l'" and "same_shape l l'"
    and "items l' = (items l)[unat a := items l ! unat b, unat b := items l ! unat a]"
proof (cases "a = b")
  case True
  then show thesis using that [of l] a i by (simp add: aws_array_list_swap_def word_less_nat_alt same_shape_def)
next
  case False
  let ?n = "unat (al_item_size l)"
  obtain d where d: "al_data l = Some d" "unat (al_current_size l) \<le> length d" using al_inv_data [OF i] .
  have ne: "unat a \<noteq> unat b" using False unsigned_word_eqI by blast
  have lt: "unat a < unat (al_length l)" "unat b < unat (al_length l)" using a b i by simp_all
  have off: "unat (al_item_size l * a) = unat a * ?n" "unat (al_item_size l * b) = unat b * ?n"
    using item_offset [OF i less_imp_le [OF lt(1)]] item_offset [OF i less_imp_le [OF lt(2)]] by (simp_all only: word_of_nat_unat)
  have e: "unat a * ?n + ?n \<le> length d" "unat b * ?n + ?n \<le> length d"
    using item_end [OF i lt(1)] item_end [OF i lt(2)] d(2) by simp_all
  obtain d' where run: "aws_array_list_mem_swap d (unat a * ?n) (unat b * ?n) (al_item_size l) = Some d'"
    and s: "swapped d (unat a * ?n) (unat b * ?n) ?n d'"
    using mem_swap_swaps [OF e item_apart [OF ne]] by blast
  let ?l = "l\<lparr>al_data := Some d'\<rparr>"
  have l: "length d' = length d" using s by (simp add: swapped_def)
  then have i': "al_inv ?l" using i d by (simp add: al_inv_def)
  have "items ?l = (items l)[unat a := items l ! unat b, unat b := items l ! unat a]"
  proof (rule nth_equalityI)
    show "length (items ?l) = length ((items l)[unat a := items l ! unat b, unat b := items l ! unat a])" using i i' by simp
    fix j
    assume "j < length (items ?l)"
    then have j: "j < unat (al_length l)" using i' by simp
    have "j * ?n + ?n \<le> length d" using item_end [OF i j] d(2) by simp
    from chunk_swapped [OF s ne this e] show "items ?l ! j = (items l)[unat a := items l ! unat b, unat b := items l ! unat a] ! j"
      using j lt i d(1) by (auto simp: nth_items nth_list_update)
  qed
  moreover have "aws_array_list_swap l a b = Some ?l"
    using run off lt False d(1) length_ok [OF i]
    by (simp add: aws_array_list_swap_def aws_array_list_get_at_ptr_def word_less_nat_alt)
  ultimately show thesis using that i' by (simp add: same_shape_def)
qed

lemma clear_items: "al_inv l \<Longrightarrow> same_shape l (aws_array_list_clear l) \<and> items (aws_array_list_clear l) = []"
  by (auto simp: aws_array_list_clear_def al_inv_def items_def same_shape_def)

section \<open>Exchanging and sorting\<close>

text \<open>The two lists are different objects with the same allocator; the result is the new content of both.\<close>

definition aws_array_list_swap_contents :: "aws_array_list \<Rightarrow> aws_array_list \<Rightarrow> (aws_array_list \<times> aws_array_list) option" where
  "aws_array_list_swap_contents list_a list_b = do {
     tn_assert (al_alloc list_a);
     tn_assert (al_alloc list_a = al_alloc list_b);
     tn_assert (al_item_size list_a = al_item_size list_b);
     Some (list_b, list_a)
   }"

text \<open>
  \<open>qsort\<close> of the C library puts the items of the block into an order. Which one is a parameter, as items that compare
  equal may come in any order.
\<close>

definition aws_array_list_sort ::
  "((u8 list \<Rightarrow> u8 list \<Rightarrow> int) \<Rightarrow> u8 list list \<Rightarrow> u8 list list) \<Rightarrow> (u8 list \<Rightarrow> u8 list \<Rightarrow> int) \<Rightarrow> aws_array_list \<Rightarrow> aws_array_list option" where
  "aws_array_list_sort qsort compare_fn l =
     (case al_data l of None \<Rightarrow> Some l
      | Some d \<Rightarrow> do {
          n \<leftarrow> aws_array_list_length l;
          d \<leftarrow> blk_write d 0 (concat (qsort compare_fn (map (chunk (unat (al_item_size l)) d) [0..<unat n])));
          Some (l\<lparr>al_data := Some d\<rparr>)
        })"

lemma chunk_concat:
  assumes "\<And>x. x \<in> set xs \<Longrightarrow> length x = n" and "i < length xs"
  shows "take n (drop (i * n) (concat xs @ rest)) = xs ! i"
  using assms
proof (induction xs arbitrary: i)
  case (Cons x xs)
  have x: "length x = n" using Cons.prems(1) by simp
  show ?case
  proof (cases i)
    case 0
    then show ?thesis using x by simp
  next
    case (Suc j)
    then show ?thesis using Cons.IH [of j] Cons.prems x by simp
  qed
qed simp

lemma length_concat_const: "(\<And>x. x \<in> set xs \<Longrightarrow> length x = n) \<Longrightarrow> length (concat xs) = length xs * n"
  by (induction xs) auto

lemma length_item: "al_inv l \<Longrightarrow> x \<in> set (items l) \<Longrightarrow> length x = unat (al_item_size l)"
proof -
  assume i: "al_inv l" and "x \<in> set (items l)"
  then obtain j where j: "j < unat (al_length l)" "x = items l ! j" by (auto simp: in_set_conv_nth)
  obtain d where d: "al_data l = Some d" using al_inv_data [OF i] by blast
  from chunk_read [OF i d j(1)] j(2) show ?thesis by (auto dest: length_blk_read)
qed

text \<open>Sorting replaces the items by the permutation that \<open>qsort\<close> chooses and leaves the rest of the list as it is.\<close>

lemma sort_ok:
  assumes i: "al_inv l" and perm: "\<And>xs. mset (qsort compare_fn xs) = mset xs"
  obtains l' where "aws_array_list_sort qsort compare_fn l = Some l'" and "same_shape l l'"
    and "items l' = qsort compare_fn (items l)"
proof -
  let ?n = "unat (al_item_size l)" and ?xs = "qsort compare_fn (items l)"
  obtain d where d: "al_data l = Some d" "unat (al_current_size l) \<le> length d" using al_inv_data [OF i] .
  have items: "map (chunk ?n d) [0..<unat (al_length l)] = items l" using d(1) by (simp add: items_def)
  have elem: "length x = ?n" if "x \<in> set ?xs" for x
    using that length_item [OF i] mset_eq_setD [OF perm] by metis
  have len: "length ?xs = unat (al_length l)" using mset_eq_length [OF perm] i by simp
  have tot: "length (concat ?xs) = unat (al_length l) * ?n" using length_concat_const [OF elem] len by simp
  then have fit: "length (concat ?xs) \<le> length d" using i d(2) by (simp add: al_inv_def)
  let ?d = "concat ?xs @ drop (length (concat ?xs)) d" and ?l = "l\<lparr>al_data := Some (concat ?xs @ drop (length (concat ?xs)) d)\<rparr>"
  have "aws_array_list_sort qsort compare_fn l = Some ?l"
    using d(1) length_ok [OF i] items fit by (simp add: aws_array_list_sort_def blk_write_def)
  moreover have "length ?d = length d" using fit by simp
  then have i': "al_inv ?l" using i d by (simp add: al_inv_def)
  moreover have "items ?l = ?xs"
  proof (rule nth_equalityI)
    show "length (items ?l) = length ?xs" using i' len by simp
    fix j assume "j < length (items ?l)"
    then have j: "j < unat (al_length l)" using i' by simp
    have "items ?l ! j = take ?n (drop (j * ?n) ?d)" using nth_items [of ?l ?d j] j by (simp add: chunk_def del: drop_append take_append)
    also have "\<dots> = ?xs ! j" by (rule chunk_concat) (use elem j len in simp_all)
    finally show "items ?l ! j = ?xs ! j" .
  qed
  ultimately show thesis using that by (simp add: same_shape_def)
qed

text \<open>With a comparison that the C library can sort by, the items end in order.\<close>

theorem sort_sorts:
  assumes "al_inv l" and "\<And>xs. mset (qsort compare_fn xs) = mset xs"
    and "\<And>xs. sorted_wrt (\<lambda>a b. compare_fn a b \<le> 0) (qsort compare_fn xs)"
  shows "\<exists>l'. aws_array_list_sort qsort compare_fn l = Some l' \<and> mset (items l') = mset (items l) \<and>
    sorted_wrt (\<lambda>a b. compare_fn a b \<le> 0) (items l')"
proof -
  obtain l' where "aws_array_list_sort qsort compare_fn l = Some l'" "items l' = qsort compare_fn (items l)"
    using sort_ok [of l qsort compare_fn] assms(1,2) by metis
  then show ?thesis using assms(2,3) by simp
qed

lemma swap_contents_ok:
  "al_inv a \<Longrightarrow> al_inv b \<Longrightarrow> al_alloc a \<Longrightarrow> al_alloc b \<Longrightarrow> al_item_size a = al_item_size b \<Longrightarrow>
   \<exists>a' b'. aws_array_list_swap_contents a b = Some (a', b') \<and> items a' = items b \<and> items b' = items a \<and> al_inv a' \<and> al_inv b'"
  by (simp add: aws_array_list_swap_contents_def tn_assert_def)

end
