(* ===== verification/Tn_List_Block.thy ===== *)
theory Tn_List_Block
  imports Tn_Array_List Tn_Machine Tn_List_Ptr
begin

text \<open>
  The list of fixed-size items of \<open>src/list_block.c\<close>, a wrapper of the array list in static mode. The block behind
  \<open>priv_data\<close> is the data of the array list. Released pointers are not reset.
\<close>

record tn_list_block =
  lb_priv_impl :: heap_ptr
  lb_priv_data :: heap_ptr
  lb_capacity :: u64
  lb_item_size :: u64
  lb_impl :: "aws_array_list option"

definition tn_list_block_setup :: "bool \<Rightarrow> bool \<Rightarrow> u64 \<Rightarrow> u64 \<Rightarrow> (int \<times> tn_list_block) option" where
  "tn_list_block_setup ok_data ok_impl capacity item_size =
     (let l = \<lparr>lb_priv_impl = PTR_NULL, lb_priv_data = PTR_NULL, lb_capacity = 0, lb_item_size = 0, lb_impl = None\<rparr>;
          priv_size = capacity * 8
      in if \<not> ok_data then Some (TN_ERROR, l)
      else if \<not> ok_impl then Some (TN_ERROR, l\<lparr>lb_priv_data := PTR_DANGLING\<rparr>)
      else do {
        impl \<leftarrow> aws_array_list_init_static (replicate (unat priv_size) 0) capacity item_size;
        Some (TN_SUCCESS, \<lparr>lb_priv_impl = PTR_VALID, lb_priv_data = PTR_VALID, lb_capacity = capacity, lb_item_size = item_size,
          lb_impl = Some (aws_array_list_clear impl)\<rparr>)
      })"

definition tn_list_block_cleanup :: "tn_list_block \<Rightarrow> tn_list_block option" where
  "tn_list_block_cleanup l = do {
     impl \<leftarrow> (if lb_priv_impl l \<noteq> PTR_NULL then do { tn_assert (lb_priv_impl l = PTR_VALID); Some (map_option aws_array_list_clean_up (lb_impl l)) }
              else Some (lb_impl l));
     p \<leftarrow> release_block (lb_priv_impl l);
     q \<leftarrow> release_block (lb_priv_data l);
     Some (l\<lparr>lb_impl := impl, lb_priv_impl := p, lb_priv_data := q\<rparr>)
   }"

text \<open>The array list, when the pointer to it is valid.\<close>

definition list_impl :: "tn_list_block \<Rightarrow> aws_array_list option" where
  "list_impl l = (if lb_priv_impl l = PTR_VALID then lb_impl l else None)"

text \<open>
  The item is given by the bytes that can be read at its address; the first eight are asserted not to be all zero. Pushing into a static
  list allocates nothing.
\<close>

definition tn_list_block_push_back :: "tn_list_block \<Rightarrow> u8 list \<Rightarrow> (int \<times> u64 \<times> tn_list_block) option" where
  "tn_list_block_push_back l item = do {
     tn_assert (8 \<le> length item \<and> take 8 item \<noteq> replicate 8 0);
     impl \<leftarrow> list_impl l;
     out_index \<leftarrow> aws_array_list_length impl;
     (rc, impl) \<leftarrow> aws_array_list_push_back False (\<lambda>_. 0) impl item;
     let l = l\<lparr>lb_impl := Some impl\<rparr>;
     if rc \<noteq> 0 then Some (TN_ERROR, out_index, l) else Some (TN_SUCCESS, out_index, l)
   }"

definition tn_list_block_pop_back :: "tn_list_block \<Rightarrow> (int \<times> u8 list option \<times> tn_list_block) option" where
  "tn_list_block_pop_back l = do {
     impl \<leftarrow> list_impl l;
     (rc, item) \<leftarrow> aws_array_list_back impl;
     if rc \<noteq> 0 then Some (TN_ERROR, item, l)
     else do {
       (rc, impl) \<leftarrow> aws_array_list_pop_back impl;
       let l = l\<lparr>lb_impl := Some impl\<rparr>;
       if rc \<noteq> 0 then Some (TN_ERROR, item, l) else Some (TN_SUCCESS, item, l)
     }
   }"

definition tn_list_block_count :: "tn_list_block \<Rightarrow> (int \<times> u64) option" where
  "tn_list_block_count l = do {
     impl \<leftarrow> list_impl l;
     n \<leftarrow> aws_array_list_length impl;
     Some (TN_SUCCESS, n)
   }"

definition tn_list_block_clear :: "tn_list_block \<Rightarrow> (int \<times> tn_list_block) option" where
  "tn_list_block_clear l = do {
     impl \<leftarrow> list_impl l;
     Some (TN_SUCCESS, l\<lparr>lb_impl := Some (aws_array_list_clear impl)\<rparr>)
   }"

definition tn_list_block_get :: "tn_list_block \<Rightarrow> u64 \<Rightarrow> (int \<times> u8 list option) option" where
  "tn_list_block_get l index = do {
     impl \<leftarrow> list_impl l;
     aws_array_list_get_at impl index
   }"

definition tn_list_block_remove :: "tn_list_block \<Rightarrow> u64 \<Rightarrow> (int \<times> tn_list_block) option" where
  "tn_list_block_remove l index = do {
     impl \<leftarrow> list_impl l;
     n \<leftarrow> aws_array_list_length impl;
     let last_idx = n - 1;
     impl \<leftarrow> aws_array_list_swap impl index last_idx;
     (rc, impl) \<leftarrow> aws_array_list_pop_back impl;
     Some (rc, l\<lparr>lb_impl := Some impl\<rparr>)
   }"

section \<open>A stack with removal\<close>

datatype lb_op = LB_push "u8 list" | LB_pop | LB_get u64 | LB_remove u64 | LB_clear

datatype lb_result = LB_code int | LB_item int "u8 list option"

definition lb_exec :: "lb_op \<Rightarrow> tn_list_block \<Rightarrow> (lb_result \<times> tn_list_block) option" where
  "lb_exec op l = (case op of
     LB_push item \<Rightarrow> map_option (\<lambda>(rc, _, l). (LB_code rc, l)) (tn_list_block_push_back l item)
   | LB_pop \<Rightarrow> map_option (\<lambda>(rc, item, l). (LB_item rc item, l)) (tn_list_block_pop_back l)
   | LB_get i \<Rightarrow> map_option (\<lambda>(rc, item). (LB_item rc item, l)) (tn_list_block_get l i)
   | LB_remove i \<Rightarrow> map_option (\<lambda>(rc, l). (LB_code rc, l)) (tn_list_block_remove l i)
   | LB_clear \<Rightarrow> map_option (\<lambda>(rc, l). (LB_code rc, l)) (tn_list_block_clear l))"

fun lb_run :: "lb_op list \<Rightarrow> tn_list_block \<Rightarrow> (lb_result list \<times> tn_list_block) option" where
  "lb_run [] l = Some ([], l)"
| "lb_run (op # ops) l = do { (r, l) \<leftarrow> lb_exec op l; (rs, l) \<leftarrow> lb_run ops l; Some (r # rs, l) }"

text \<open>The same on a list of items with a bound. An item is cut to the item size; an index out of range is not allowed when removing.\<close>

fun stack_exec :: "nat \<Rightarrow> nat \<Rightarrow> lb_op \<Rightarrow> u8 list list \<Rightarrow> (lb_result \<times> u8 list list) option" where
  "stack_exec n cap (LB_push item) xs =
     (if 8 \<le> length item \<and> take 8 item \<noteq> replicate 8 0
      then Some (if length xs < cap then (LB_code TN_SUCCESS, xs @ [take n item]) else (LB_code TN_ERROR, xs)) else None)"
| "stack_exec n cap LB_pop xs = Some (if xs = [] then (LB_item TN_ERROR None, xs) else (LB_item TN_SUCCESS (Some (last xs)), butlast xs))"
| "stack_exec n cap (LB_get i) xs = Some (if unat i < length xs then LB_item 0 (Some (xs ! unat i)) else LB_item AWS_OP_ERR None, xs)"
| "stack_exec n cap (LB_remove i) xs = (if unat i < length xs then Some (LB_code 0, butlast (xs[unat i := last xs])) else None)"
| "stack_exec n cap LB_clear xs = Some (LB_code TN_SUCCESS, [])"

fun stack_run :: "nat \<Rightarrow> nat \<Rightarrow> lb_op list \<Rightarrow> u8 list list \<Rightarrow> (lb_result list \<times> u8 list list) option" where
  "stack_run n cap [] xs = Some ([], xs)"
| "stack_run n cap (op # ops) xs = do { (r, xs) \<leftarrow> stack_exec n cap op xs; (rs, xs) \<leftarrow> stack_run n cap ops xs; Some (r # rs, xs) }"

definition lb_inv :: "u64 \<Rightarrow> u64 \<Rightarrow> tn_list_block \<Rightarrow> u8 list list \<Rightarrow> bool" where
  "lb_inv capacity item_size l xs \<longleftrightarrow> (\<exists>impl. list_impl l = Some impl \<and> al_inv impl \<and> items impl = xs \<and> \<not> al_alloc impl \<and>
     al_item_size impl = item_size \<and> al_current_size impl = capacity * item_size \<and> unat (capacity * item_size) = unat capacity * unat item_size)"

lemma list_impl_update: "list_impl l = Some i \<Longrightarrow> list_impl (l\<lparr>lb_impl := Some impl\<rparr>) = Some impl"
  by (simp add: list_impl_def split: if_splits)

lemma lb_inv_update:
  assumes "lb_inv c n l xs" and "list_impl l = Some impl" and "same_shape impl impl'" and "items impl' = ys"
  shows "lb_inv c n (l\<lparr>lb_impl := Some impl'\<rparr>) ys"
  using assms by (auto simp: lb_inv_def list_impl_update same_shape_def)

lemma stack_remove:
  assumes "lb_inv c n l xs" and l: "list_impl l = Some impl"
  shows "case stack_exec (unat n) (unat c) (LB_remove j) xs of None \<Rightarrow> lb_exec (LB_remove j) l = None
    | Some (r, ys) \<Rightarrow> \<exists>l'. lb_exec (LB_remove j) l = Some (r, l') \<and> lb_inv c n l' ys"
proof -
  have i: "al_inv impl" and x: "items impl = xs" using assms by (auto simp: lb_inv_def)
  have len: "unat (al_length impl) = length xs" using i x by auto
  show ?thesis
  proof (cases "unat j < length xs")
    case True
    then have ne: "items impl \<noteq> []" using x by auto
    have u: "unat (al_length impl - 1) = length xs - 1" using last_index(2) [OF i ne] x by simp
    obtain impl1 where s: "aws_array_list_swap impl j (al_length impl - 1) = Some impl1" "same_shape impl impl1"
      and y: "items impl1 = xs[unat j := xs ! (length xs - 1), length xs - 1 := xs ! unat j]"
    proof -
      have a: "unat j < length (items impl)" and b: "unat (al_length impl - 1) < length (items impl)" using True x u by auto
      show thesis using swap_ok [OF i a b] that unfolding x u by blast
    qed
    have i1: "al_inv impl1" using s(2) by (simp add: same_shape_def)
    have ne1: "items impl1 \<noteq> []" using y True by auto
    obtain impl2 where p: "aws_array_list_pop_back impl1 = Some (AWS_OP_SUCCESS, impl2)" "same_shape impl1 impl2" "items impl2 = butlast (items impl1)"
      using pop_back_ok [OF i1 ne1] by auto
    have sh: "same_shape impl impl2" using s(2) p(2) by (simp add: same_shape_def)
    have "items impl2 = butlast (xs[unat j := last xs])"
      using p(3) y True x ne by (simp add: butlast_list_update last_conv_nth list_update_swap split: if_splits) 
    from lb_inv_update [OF assms sh this] show ?thesis
      using True s(1) p(1) l length_ok [OF i] by (simp add: lb_exec_def tn_list_block_remove_def)
  next
    case False
    then have "\<not> (j < al_length impl)" using len by (simp add: word_less_nat_alt)
    then show ?thesis using False l length_ok [OF i] by (simp add: lb_exec_def tn_list_block_remove_def aws_array_list_swap_def)
  qed
qed

lemma lb_inv_cap:
  assumes "lb_inv c n l xs"
  shows "length xs \<le> unat c"
proof -
  obtain impl where i: "al_inv impl" and x: "items impl = xs" and n: "al_item_size impl = n" and cs: "al_current_size impl = c * n" "unat (c * n) = unat c * unat n"
    using assms by (auto simp: lb_inv_def)
  have "0 < unat n" using i n by (simp add: al_inv_def word_less_nat_alt)
  moreover have "unat (al_length impl) = length xs" using i x by auto
  then have "length xs * unat n \<le> unat c * unat n" using i n cs by (simp add: al_inv_def)
  ultimately show ?thesis by simp
qed

lemma push_back_full_same:
  assumes "lb_inv c n l xs" and "unat c \<le> length xs" and "8 \<le> length item" and "take 8 item \<noteq> replicate 8 0"
  shows "tn_list_block_push_back l item = Some (TN_ERROR, of_nat (length xs), l)"
proof -
  obtain impl where l: "list_impl l = Some impl" and i: "al_inv impl" and x: "items impl = xs" and st: "\<not> al_alloc impl"
    and n: "al_item_size impl = n" and cs: "al_current_size impl = c * n" "unat (c * n) = unat c * unat n"
    using assms(1) by (auto simp: lb_inv_def)
  have n0: "0 < unat n" using i n by (simp add: al_inv_def word_less_nat_alt)
  have len: "unat (al_length impl) = length xs" using i x by auto
  have "unat c * unat n < Suc (length xs) * unat n" using assms(2) n0 by (intro mult_strict_right_mono) simp_all
  then have "aws_array_list_push_back False (\<lambda>_. 0) impl item = Some (AWS_OP_ERR, impl)"
    using len n cs st by (intro push_back_full [OF i]) simp_all
  moreover have "l\<lparr>lb_impl := Some impl\<rparr> = l" using l by (simp add: list_impl_def split: if_splits)
  moreover have "al_length impl = of_nat (length xs)" using arg_cong [OF len, of "of_nat :: nat \<Rightarrow> u64"] by simp
  ultimately show ?thesis using assms(3,4) l length_ok [OF i] by (simp add: tn_list_block_push_back_def)
qed

lemma stack_push:
  assumes "lb_inv c n l xs" and small: "unat n \<le> 8"
  shows "case stack_exec (unat n) (unat c) (LB_push item) xs of None \<Rightarrow> lb_exec (LB_push item) l = None
    | Some (r, ys) \<Rightarrow> \<exists>l'. lb_exec (LB_push item) l = Some (r, l') \<and> lb_inv c n l' ys"
proof (cases "8 \<le> length item \<and> take 8 item \<noteq> replicate 8 0")
  case ok: True
  show ?thesis
  proof (cases "length xs < unat c")
    case True
    obtain impl where l: "list_impl l = Some impl" and i: "al_inv impl" and x: "items impl = xs"
      and n: "al_item_size impl = n" and cs: "al_current_size impl = c * n" "unat (c * n) = unat c * unat n"
      using assms(1) by (auto simp: lb_inv_def)
    have len: "unat (al_length impl) = length xs" using i x by auto
    have "Suc (length xs) * unat n \<le> unat c * unat n" using True by (intro mult_le_mono1) simp
    then obtain impl' where p: "aws_array_list_push_back False (\<lambda>_. 0) impl item = Some (AWS_OP_SUCCESS, impl')" "same_shape impl impl'"
      "items impl' = items impl @ [take (unat n) item]"
      using push_back_ok [OF i, of item False "\<lambda>_. 0"] len n cs ok small by auto
    show ?thesis
      using p ok True l length_ok [OF i] lb_inv_update [OF assms(1) l p(2) p(3)]
      by (simp add: lb_exec_def tn_list_block_push_back_def x)
  next
    case False
    then show ?thesis using push_back_full_same [OF assms(1)] ok assms(1) by (simp add: lb_exec_def)
  qed
qed (auto simp: lb_exec_def tn_list_block_push_back_def)

lemma stack_step:
  assumes "lb_inv c n l xs" and small: "unat n \<le> 8"
  shows "case stack_exec (unat n) (unat c) op xs of None \<Rightarrow> lb_exec op l = None
    | Some (r, ys) \<Rightarrow> \<exists>l'. lb_exec op l = Some (r, l') \<and> lb_inv c n l' ys"
proof -
  obtain impl where l: "list_impl l = Some impl" and i: "al_inv impl" and x: "items impl = xs"
    using assms(1) by (auto simp: lb_inv_def)
  show ?thesis
  proof (cases op)
    case (LB_push item)
    then show ?thesis using stack_push [OF assms, of item] by (simp only:)
  next
    case LB_pop
    show ?thesis
    proof (cases "xs = []")
      case True
      then show ?thesis using LB_pop l back_ok [OF i] x assms(1) by (simp add: lb_exec_def tn_list_block_pop_back_def)
    next
      case False
      obtain impl' where "aws_array_list_pop_back impl = Some (AWS_OP_SUCCESS, impl')" and s: "same_shape impl impl'" and y: "items impl' = butlast xs"
        using pop_back_ok [OF i] False x by auto
      then show ?thesis using LB_pop l back_ok [OF i] x False lb_inv_update [OF assms(1) l s y] by (simp add: lb_exec_def tn_list_block_pop_back_def)
    qed
  next
    case (LB_get j)
    then show ?thesis using l get_at_ok [OF i, of j] x assms(1) by (simp add: lb_exec_def tn_list_block_get_def)
  next
    case (LB_remove j)
    then show ?thesis using stack_remove [OF assms(1) l, of j] by (simp only:)
  next
    case LB_clear
    then show ?thesis using l clear_items [OF i] lb_inv_update [OF assms(1) l] by (simp add: lb_exec_def tn_list_block_clear_def)
  qed
qed

lemma stack_runs:
  assumes "lb_inv c n l xs" and small: "unat n \<le> 8"
  shows "map_option fst (lb_run ops l) = map_option fst (stack_run (unat n) (unat c) ops xs)"
  using assms(1)
proof (induction ops arbitrary: l xs)
  case (Cons op ops)
  note step = stack_step [OF Cons.prems small, of op]
  show ?case
  proof (cases "stack_exec (unat n) (unat c) op xs")
    case None
    then show ?thesis using step by simp
  next
    case (Some a)
    obtain r ys where a: "a = (r, ys)" by (cases a)
    obtain l' where l': "lb_exec op l = Some (r, l')" "lb_inv c n l' ys" using step Some a by auto
    have "map_option fst (map_option (\<lambda>(rs, x). (r # rs, x)) p) = map_option ((#) r) (map_option fst p)"
      for p :: "(lb_result list \<times> 'x) option" by (cases p) auto
    then show ?thesis using Cons.IH [OF l'(2)] l'(1) Some a
      by (cases "lb_run ops l'"; cases "stack_run (unat n) (unat c) ops ys") auto
  qed
qed simp

lemma setup_inv:
  assumes c: "capacity \<noteq> 0" and n: "item_size \<noteq> 0" and small: "unat item_size \<le> 8" and fits: "unat capacity * 8 + 8 < 2 ^ 64"
  obtains l where "tn_list_block_setup True True capacity item_size = Some (TN_SUCCESS, l)" and "lb_inv capacity item_size l []"
proof -
  have u8: "unat (capacity * 8) = unat capacity * 8" using fits by (subst unat_mult64) simp_all
  have le: "unat capacity * unat item_size \<le> unat capacity * 8" using small by (rule mult_le_mono2)
  then have "unat (capacity * item_size) = unat capacity * unat item_size" by (intro unat_mult64) (use le fits in linarith)
  moreover have "0 < item_size" using n by (simp add: word_gt_0)
  moreover have "unat capacity * unat item_size + unat item_size < 2 ^ 64" using le small fits by linarith
  ultimately show thesis using that c n le fits small u8
    by (simp add: tn_list_block_setup_def Let_def aws_array_list_init_static_def aws_array_list_clear_def lb_inv_def list_impl_def al_inv_def items_def)
qed

text \<open>Property C17. With items of at most eight bytes a block list behaves like a bounded stack of items that also reads by index and removes
by moving the last item into the gap: the codes and items of any sequence of calls are those of a list.\<close>

theorem list_block_refines_stack:
  assumes "capacity \<noteq> 0" and "item_size \<noteq> 0" and "unat item_size \<le> 8" and "unat capacity * 8 + 8 < 2 ^ 64"
  shows "\<exists>l. tn_list_block_setup True True capacity item_size = Some (TN_SUCCESS, l) \<and>
    map_option fst (lb_run ops l) = map_option fst (stack_run (unat item_size) (unat capacity) ops [])"
proof -
  obtain l where "tn_list_block_setup True True capacity item_size = Some (TN_SUCCESS, l)" and "lb_inv capacity item_size l []"
    using setup_inv [OF assms] .
  then show ?thesis using stack_runs assms(3) by blast
qed

theorem list_block_refines_stack_witness:
  "(2 :: u64) \<noteq> 0 \<and> (8 :: u64) \<noteq> 0 \<and> unat (8 :: u64) \<le> 8 \<and> unat (2 :: u64) * 8 + 8 < 2 ^ 64 \<and>
   (\<exists>l. tn_list_block_setup True True 2 8 = Some (TN_SUCCESS, l) \<and>
     map_option fst (lb_run [LB_push (replicate 8 1), LB_push (replicate 8 2), LB_push (replicate 8 3), LB_remove 0, LB_pop, LB_pop] l) =
       Some [LB_code 0, LB_code 0, LB_code (-1), LB_code 0, LB_item 0 (Some (replicate 8 2)), LB_item (-1) None])"
proof -
  have h: "(2 :: u64) \<noteq> 0" "(8 :: u64) \<noteq> 0" "unat (8 :: u64) \<le> 8" "unat (2 :: u64) * 8 + 8 < 2 ^ 64" by simp_all
  have "map_option fst (stack_run (unat (8 :: u64)) (unat (2 :: u64))
      [LB_push (replicate 8 1), LB_push (replicate 8 2), LB_push (replicate 8 3), LB_remove 0, LB_pop, LB_pop] []) =
    Some [LB_code 0, LB_code 0, LB_code (-1), LB_code 0, LB_item 0 (Some (replicate 8 2)), LB_item (-1) None]"
    by simp
  then show ?thesis using h list_block_refines_stack [OF h] by metis
qed

section \<open>Pointer-sized items\<close>

text \<open>What a client of pointer-sized items sees, and the contract of a bounded stack.\<close>

definition lb_holds :: "u64 \<Rightarrow> tn_list_block \<Rightarrow> bool" where
  "lb_holds capacity l \<longleftrightarrow> (\<exists>xs. lb_inv capacity 8 l xs)"

definition lb_items :: "tn_list_block \<Rightarrow> u8 list list" where
  "lb_items l = (case list_impl l of None \<Rightarrow> [] | Some impl \<Rightarrow> items impl)"

definition pointer_item :: "u8 list \<Rightarrow> bool" where
  "pointer_item item \<longleftrightarrow> length item = 8 \<and> item \<noteq> replicate 8 0"

definition push_item :: "tn_list_block \<Rightarrow> u8 list \<Rightarrow> (int \<times> tn_list_block) option" where
  "push_item l item = map_option (\<lambda>(rc, _, l). (rc, l)) (tn_list_block_push_back l item)"

lemma lb_items_inv: "lb_inv c n l xs \<Longrightarrow> lb_items l = xs"
  by (auto simp: lb_inv_def lb_items_def)

lemma lb_holdsI: "lb_inv c 8 l xs \<Longrightarrow> lb_holds c l \<and> lb_items l = xs"
  by (auto simp: lb_holds_def lb_items_inv)

lemma lb_holdsD: "lb_holds c l \<Longrightarrow> lb_inv c 8 l (lb_items l)"
  by (auto simp: lb_holds_def lb_items_inv)

lemma pop_empty: "lb_inv c 8 l [] \<Longrightarrow> tn_list_block_pop_back l = Some (TN_ERROR, None, l)"
  using back_ok by (fastforce simp: lb_inv_def tn_list_block_pop_back_def)

interpretation lb: bounded_stack "lb_holds c" lb_items "\<lambda>_. unat c" pointer_item push_item tn_list_block_pop_back tn_list_block_remove
proof (unfold_locales, goal_cases)
  case (1 l)
  then show ?case using lb_inv_cap [OF lb_holdsD] by simp
next
  case (2 l item)
  obtain l' where "lb_exec (LB_push item) l = Some (LB_code TN_SUCCESS, l')" "lb_inv c 8 l' (lb_items l @ [item])"
    using stack_step [OF lb_holdsD [OF 2(1)], of "LB_push item"] 2(2,3) by (auto simp: pointer_item_def)
  then show ?case using lb_holdsI [of c l'] by (auto simp: lb_exec_def push_item_def)
next
  case (3 l item)
  then show ?case using push_back_full_same [OF lb_holdsD [OF 3(1)], of item] by (simp add: push_item_def pointer_item_def)
next
  case (4 l xs item)
  obtain l' where "lb_exec LB_pop l = Some (LB_item TN_SUCCESS (Some item), l')" "lb_inv c 8 l' xs"
    using stack_step [OF lb_holdsD [OF 4(1)], of LB_pop] 4(2) by auto
  then show ?case using lb_holdsI [of c l' xs] by (auto simp: lb_exec_def)
next
  case (5 l)
  then show ?case using pop_empty lb_holdsD [OF 5(1)] by simp
next
  case (6 l j)
  obtain l' where "lb_exec (LB_remove j) l = Some (LB_code 0, l')" "lb_inv c 8 l' (butlast ((lb_items l)[unat j := last (lb_items l)]))"
    using stack_step [OF lb_holdsD [OF 6(1)], of "LB_remove j"] 6(2) by auto
  then show ?case using lb_holdsI [of c l'] by (auto simp: lb_exec_def)
qed

text \<open>Property C18. A block list of pointer-sized items and a pointer list of the same capacity are interchangeable: every sequence of pushes, pops and
removals inside the list gives the same codes and items on both.\<close>

theorem block_list_equals_pointer_list:
  assumes "capacity \<noteq> 0" and "unat capacity < 2 ^ 60" and "ops_allowed pointer_item (unat capacity) [] ops"
  shows "\<exists>l p outs. tn_list_block_setup True True capacity 8 = Some (TN_SUCCESS, l) \<and> tn_list_ptr_setup True junk capacity = (TN_SUCCESS, p) \<and>
    stack_results (stack_do push_item tn_list_block_pop_back tn_list_block_remove) l ops = Some outs \<and>
    stack_results (stack_do tn_list_ptr_push_back tn_list_ptr_pop_back tn_list_ptr_remove) p ops = Some outs"
proof -
  obtain l where l: "tn_list_block_setup True True capacity 8 = Some (TN_SUCCESS, l)" "lb_inv capacity 8 l []"
    using setup_inv [of capacity 8] assms(1,2) by auto
  obtain p where p: "tn_list_ptr_setup True junk capacity = (TN_SUCCESS, p)" "lp_inv p" "lp_elems p = []" "lp_cap p = unat capacity"
    using lp_setup_ok [of capacity junk] assms(2) by auto
  have h: "lb_holds capacity l" "lb_items l = []" using lb_holdsI [OF l(2)] by simp_all
  have "stack_results (stack_do push_item tn_list_block_pop_back tn_list_block_remove) l ops = Some (stack_spec_run (unat capacity) [] ops)"
    using lb.results_refine [OF h(1)] assms(3) h(2) by simp
  moreover have "stack_results (stack_do tn_list_ptr_push_back tn_list_ptr_pop_back tn_list_ptr_remove) p ops = Some (stack_spec_run (unat capacity) [] ops)"
    using lp.results_refine [OF p(2)] ops_allowed_weaken [OF assms(3)] p(3,4) by simp
  ultimately show ?thesis using l(1) p(1) by blast
qed

theorem block_list_equals_pointer_list_witness:
  "\<exists>l p outs. tn_list_block_setup True True 2 8 = Some (TN_SUCCESS, l) \<and> tn_list_ptr_setup True (\<lambda>_. []) 2 = (TN_SUCCESS, p) \<and>
    stack_results (stack_do push_item tn_list_block_pop_back tn_list_block_remove) l
      [St_push (replicate 8 1), St_push (replicate 8 2), St_push (replicate 8 3), St_remove 0, St_pop, St_pop] = Some outs \<and>
    stack_results (stack_do tn_list_ptr_push_back tn_list_ptr_pop_back tn_list_ptr_remove) p
      [St_push (replicate 8 1), St_push (replicate 8 2), St_push (replicate 8 3), St_remove 0, St_pop, St_pop] = Some outs"
  by (rule block_list_equals_pointer_list) (simp_all add: pointer_item_def replicate_eq_replicate)

text \<open>The block of a list whose items are larger than a pointer.\<close>

definition too_small :: "u64 \<Rightarrow> u64 \<Rightarrow> nat \<Rightarrow> tn_list_block \<Rightarrow> bool" where
  "too_small capacity item_size k l \<longleftrightarrow> (\<exists>d. list_impl l = Some \<lparr>al_alloc = False, al_current_size = capacity * item_size, al_length = of_nat k,
     al_item_size = item_size, al_data = Some d\<rparr> \<and> length d = unat capacity * 8)"

lemma push_too_small:
  assumes s: "too_small c n k l" and k: "k < unat c" and fits: "unat c * unat n < 2 ^ 64"
    and item: "unat n \<le> length item" "8 \<le> length item" "take 8 item \<noteq> replicate 8 0" and n: "n \<noteq> 0"
  shows "(Suc k * unat n \<le> unat c * 8 \<longrightarrow> (\<exists>r l'. lb_exec (LB_push item) l = Some (r, l') \<and> too_small c n (Suc k) l')) \<and>
    (unat c * 8 < Suc k * unat n \<longrightarrow> lb_exec (LB_push item) l = None)"
proof -
  obtain d where l: "list_impl l = Some \<lparr>al_alloc = False, al_current_size = c * n, al_length = of_nat k, al_item_size = n, al_data = Some d\<rparr>"
    and d: "length d = unat c * 8" using s by (auto simp: too_small_def)
  have "Suc k < 2 ^ 64" using k unat_lt64 [of c] by simp
  then have k1: "unat (of_nat k + 1 :: u64) = Suc k" and k0: "unat (of_nat k :: u64) = k"
    using unat_of_nat64 [of "Suc k"] unat_of_nat64 [of k] by (simp_all add: add.commute)
  have le: "Suc k * unat n \<le> unat c * unat n" using k by (intro mult_le_mono1) simp
  have "unat ((of_nat k + 1) * n) = Suc k * unat n" using le fits k1 by (subst unat_mult64) simp_all
  moreover have "unat (c * n) = unat c * unat n" using fits by (rule unat_mult64)
  ultimately have c1: "\<not> (c * n < (of_nat k + 1) * n)" using le by (simp add: word_less_nat_alt)
  have off: "unat (n * of_nat k) = k * unat n" using le fits k0 by (subst unat_mult64) (simp_all add: mult.commute)
  have rd: "blk_read item 0 (unat n) = Some (take (unat n) item)" using item by (simp add: blk_read_def)
  have "lb_exec (LB_push item) l = None" if "unat c * 8 < Suc k * unat n"
  proof -
    have "blk_write d (k * unat n) (take (unat n) item) = None" using that d item by (simp add: blk_write_def min_def)
    then show ?thesis using l item c1 off rd
      by (simp add: lb_exec_def tn_list_block_push_back_def aws_array_list_push_back_def aws_array_list_set_at_def aws_array_list_length_def Let_def)
  qed
  moreover have "\<exists>r l'. lb_exec (LB_push item) l = Some (r, l') \<and> too_small c n (Suc k) l'" if small: "Suc k * unat n \<le> unat c * 8"
  proof -
    obtain d' where w: "blk_write d (k * unat n) (take (unat n) item) = Some d'"
      using blk_write_in [of "k * unat n" "take (unat n) item" d] small d item by auto
    then have "length d' = unat c * 8" using length_blk_write d by metis
    then have "too_small c n (Suc k) (l\<lparr>lb_impl := Some \<lparr>al_alloc = False, al_current_size = c * n, al_length = of_nat k + 1, al_item_size = n, al_data = Some d'\<rparr>\<rparr>)"
      using l by (simp add: too_small_def list_impl_update add.commute)
    then show ?thesis using l item c1 off rd w
      by (simp add: lb_exec_def tn_list_block_push_back_def aws_array_list_push_back_def aws_array_list_set_at_def aws_array_list_length_def Let_def)
  qed
  ultimately show ?thesis by blast
qed

lemma fill_too_small:
  assumes "too_small c n k l" and "k + m = unat c" and "0 < m" and fits: "unat c * unat n < 2 ^ 64" and big: "8 < unat n"
    and item: "unat n \<le> length item" "take 8 item \<noteq> replicate 8 0"
  shows "lb_run (replicate m (LB_push item)) l = None"
  using assms(1-3)
proof (induction m arbitrary: k l)
  case (Suc m)
  have n0: "n \<noteq> 0" using big by auto
  have i8: "8 \<le> length item" using big item by simp
  have k: "k < unat c" using Suc.prems by simp
  note step = push_too_small [OF Suc.prems(1) k fits item(1) i8 item(2) n0]
  show ?case
  proof (cases "unat c * 8 < Suc k * unat n")
    case True
    then show ?thesis using step by simp
  next
    case False
    have "m \<noteq> 0"
    proof
      assume "m = 0"
      then have "unat c = Suc k" using Suc.prems by simp
      then show False using False big mult_less_mono2 [of 8 "unat n" "Suc k"] by simp
    qed
    moreover obtain r l' where "lb_exec (LB_push item) l = Some (r, l')" "too_small c n (Suc k) l'" using step False by auto
    ultimately show ?thesis using Suc.IH [of "Suc k" l'] Suc.prems by simp
  qed
qed simp

text \<open>The block is allocated for pointers whatever the item size is. With larger items, filling a list to its capacity writes behind
the block.\<close>

theorem list_block_overflows:
  assumes "capacity \<noteq> 0" and "8 < unat item_size" and "unat capacity * unat item_size < 2 ^ 64"
    and "unat item_size \<le> length item" and "take 8 item \<noteq> replicate 8 0"
  shows "\<exists>l. tn_list_block_setup True True capacity item_size = Some (TN_SUCCESS, l) \<and>
    lb_run (replicate (unat capacity) (LB_push item)) l = None"
proof -
  have "unat capacity * 8 < 2 ^ 64" using assms(2,3) mult_le_mono2 [of 8 "unat item_size" "unat capacity"] by linarith
  then have "unat (capacity * 8) = unat capacity * 8" by (subst unat_mult64) simp_all
  moreover have "item_size \<noteq> 0" using assms(2) by auto
  ultimately obtain l where "tn_list_block_setup True True capacity item_size = Some (TN_SUCCESS, l)" and "too_small capacity item_size 0 l"
    using assms(1) by (auto simp: tn_list_block_setup_def Let_def aws_array_list_init_static_def aws_array_list_clear_def too_small_def list_impl_def)
  moreover have "0 < unat capacity" using assms(1) by (simp add: unat_gt_0)
  ultimately show ?thesis using fill_too_small [of capacity item_size 0 l "unat capacity"] assms(2-) by auto
qed

theorem list_block_overflows_witness:
  "(3 :: u64) \<noteq> 0 \<and> 8 < unat (24 :: u64) \<and>
   (\<exists>l. tn_list_block_setup True True 3 24 = Some (TN_SUCCESS, l) \<and> lb_run (replicate 3 (LB_push (replicate 24 1))) l = None)"
  using list_block_overflows [of 3 24 "replicate 24 1"] by simp

end
