(* ===== verification/Tn_Fslog.thy ===== *)
theory Tn_Fslog
  imports Tn_Service Tn_Runtime
begin

text \<open>
  The file log of \<open>src/fslog.c\<close>: a thread with a libuv loop that opens a file and reads it into a pooled buffer. The private
  struct is part of the record; results of allocations and libuv calls are inputs. The reads and closes handed to libuv are recorded.
  \<open>uv_run\<close> returns only when no handle of the loop is active; the only handle here is the timer.
\<close>

datatype tn_fslog_state = TN_FSLOG_STATE_NEW | TN_FSLOG_STATE_STARTING | TN_FSLOG_STATE_STARTED | TN_FSLOG_STATE_STOPPING
  | TN_FSLOG_STATE_STOPPED | TN_FSLOG_STATE_ERROR | TN_FSLOG_STATE_INVALID

datatype tn_fslog_type = TN_FSLOG_TYPE_NONE | TN_FSLOG_TYPE_READ | TN_FSLOG_TYPE_WRITE | TN_FSLOG_TYPE_INVALID

record tn_fslog =
  fl_priv :: heap_ptr
  fl_uv_loop :: heap_ptr
  fl_uv_timer :: heap_ptr
  fl_timer_active :: bool
  fl_open_result :: int
  fl_thread_io :: tn_thread
  fl_pool :: tn_buffer_pool
  fl_buffer :: "nat option"
  fl_state :: tn_fslog_state
  fl_type :: tn_fslog_type
  fl_reads :: "(int \<times> addr \<times> size_t) list"
  fl_closes :: "int list"

definition tn_fslog_set_state :: "tn_fslog \<Rightarrow> tn_fslog_state \<Rightarrow> tn_fslog" where
  "tn_fslog_set_state fslog state = fslog\<lparr>fl_state := state\<rparr>"

definition tn_fslog_get_state :: "tn_fslog \<Rightarrow> tn_fslog_state" where
  "tn_fslog_get_state fslog = fl_state fslog"

section \<open>Callbacks\<close>

text \<open>\<open>own_req\<close> says whether the request is the one the callback belongs to.\<close>

definition on_write :: "bool \<Rightarrow> int \<Rightarrow> tn_fslog \<Rightarrow> tn_fslog option" where
  "on_write own_req result fslog = do {
     tn_assert (fl_priv fslog = PTR_VALID);
     if \<not> own_req then Some fslog
     else if result < 0 then Some (tn_fslog_set_state fslog TN_FSLOG_STATE_ERROR)
     else Some fslog
   }"

text \<open>\<open>uv_fs_read\<close> into the buffer of the log; a code other than 0 means that nothing was started.\<close>

definition start_read :: "int \<Rightarrow> int \<Rightarrow> tn_fslog \<Rightarrow> tn_fslog option" where
  "start_read rc_read file fslog = do {
     i \<leftarrow> fl_buffer fslog;
     b \<leftarrow> arr_get (bp_tn_buffers (fl_pool fslog)) i;
     len \<leftarrow> tn_buffer_capacity (\<lambda>_. bp_block_size (fl_pool fslog)) b;
     Some (if rc_read \<noteq> 0 then fslog
           else fslog\<lparr>fl_reads := fl_reads fslog @ [(file, tn_buffer_write_ptr b, len)]\<rparr>)
   }"

definition on_fslog_read_cb :: "bool \<Rightarrow> int \<Rightarrow> int \<Rightarrow> int \<Rightarrow> tn_fslog \<Rightarrow> tn_fslog option" where
  "on_fslog_read_cb own_req result rc_close rc_read fslog = do {
     tn_assert (fl_priv fslog = PTR_VALID);
     if \<not> own_req then Some fslog
     else if result < 0 then Some (tn_fslog_set_state fslog TN_FSLOG_STATE_ERROR)
     else if result = 0 then
       let fslog = fslog\<lparr>fl_closes := fl_closes fslog @ [fl_open_result fslog]\<rparr>
       in Some (if rc_close \<noteq> 0 then tn_fslog_set_state fslog TN_FSLOG_STATE_ERROR else fslog)
     else start_read rc_read result fslog
   }"

text \<open>The result of the open request is stored by libuv.\<close>

definition on_fslog_open_cb :: "bool \<Rightarrow> int \<Rightarrow> int \<Rightarrow> tn_fslog \<Rightarrow> tn_fslog option" where
  "on_fslog_open_cb own_req result rc_read fslog = do {
     tn_assert (fl_priv fslog = PTR_VALID);
     if \<not> own_req then Some fslog
     else
     let fslog = fslog\<lparr>fl_open_result := result\<rparr> in
     if result \<ge> 0 then
       if fl_type fslog = TN_FSLOG_TYPE_READ then do {
         (rc, fslog) \<leftarrow> (if fl_buffer fslog = None then do {
             (rc, out, pool) \<leftarrow> tn_buffer_pool_pop_back (fl_pool fslog);
             Some (rc, fslog\<lparr>fl_buffer := out, fl_pool := pool\<rparr>)
           } else Some (0, fslog));
         if rc \<noteq> 0 then Some fslog else start_read rc_read result fslog
       } else Some fslog
     else Some (tn_fslog_set_state fslog TN_FSLOG_STATE_ERROR)
   }"

definition on_fslog_timer_cb :: "tn_fslog \<Rightarrow> tn_fslog" where
  "on_fslog_timer_cb fslog = fslog"

text \<open>The only handle of the loop is the timer.\<close>

definition on_fslog_walk_cb :: "tn_fslog \<Rightarrow> tn_fslog" where
  "on_fslog_walk_cb fslog = (if fl_timer_active fslog then fslog\<lparr>fl_timer_active := False\<rparr> else fslog)"

section \<open>The thread\<close>

record fslog_env =
  fe_priv :: bool
  fe_blocks :: addr
  fe_bufs :: bool
  fe_junk_bufs :: "nat \<Rightarrow> tn_buffer"
  fe_queue :: bool
  fe_junk_queue :: "nat \<Rightarrow> nat"
  fe_loop :: bool
  fe_loop_init :: int
  fe_timer :: bool
  fe_timer_init :: int
  fe_timer_start :: int
  fe_fs_open :: int
  fe_loop_close :: int
  fe_loop_close_again :: int

datatype thread_end = Thread_ended tn_fslog | Thread_running tn_fslog

definition fslog_finish :: "int \<Rightarrow> tn_fslog \<Rightarrow> thread_end option" where
  "fslog_finish ret fslog = do {
     let fslog = (if ret \<noteq> TN_SUCCESS then tn_fslog_set_state fslog TN_FSLOG_STATE_ERROR else fslog);
     let fslog = fslog\<lparr>fl_pool := tn_buffer_pool_cleanup (fl_pool fslog)\<rparr>;
     t \<leftarrow> release_block (fl_uv_timer fslog);
     l \<leftarrow> release_block (fl_uv_loop fslog);
     p \<leftarrow> release_block (fl_priv fslog);
     Some (Thread_ended (fslog\<lparr>fl_uv_timer := t, fl_uv_loop := l, fl_priv := p\<rparr>))
   }"

text \<open>Closing the loop, and again after its handles were closed.\<close>

definition close_loop :: "fslog_env \<Rightarrow> tn_fslog \<Rightarrow> thread_end option" where
  "close_loop env fslog =
     (if fe_loop_close env \<noteq> 0 then
        let fslog = on_fslog_walk_cb fslog in
        if fe_loop_close_again env \<noteq> 0 then fslog_finish (fe_loop_close_again env) fslog
        else fslog_finish TN_SUCCESS fslog
      else fslog_finish TN_SUCCESS fslog)"

text \<open>
  Opening the file and running the loop. The flags for the file are not initialised for other types than reading and writing.
  While the timer is active \<open>uv_run\<close> does not return.
\<close>

definition run_loop :: "fslog_env \<Rightarrow> tn_fslog \<Rightarrow> thread_end option" where
  "run_loop env fslog =
     (if tn_fslog_get_state fslog = TN_FSLOG_STATE_STARTING then do {
        let fslog = tn_fslog_set_state fslog TN_FSLOG_STATE_STARTED;
        tn_assert (fl_type fslog = TN_FSLOG_TYPE_READ \<or> fl_type fslog = TN_FSLOG_TYPE_WRITE);
        if fe_fs_open env \<noteq> 0 then fslog_finish 0 fslog
        else if fl_timer_active fslog then Some (Thread_running fslog)
        else close_loop env fslog
      } else close_loop env fslog)"

definition tn_fslog_thread :: "fslog_env \<Rightarrow> tn_fslog \<Rightarrow> thread_end option" where
  "tn_fslog_thread env fslog = do {
     tn_assert (fe_priv env);
     let fslog = fslog\<lparr>fl_priv := PTR_VALID, fl_uv_loop := PTR_NULL, fl_uv_timer := PTR_NULL, fl_open_result := 0\<rparr>;
     (rc, pool) \<leftarrow> tn_buffer_pool_setup 0 (fe_blocks env) (fe_bufs env) (fe_junk_bufs env) (fe_queue env) (fe_junk_queue env)
       (fl_pool fslog) TN_SERVICE_MAX_CLIENTS TN_SERVICE_MAX_READ;
     let fslog = fslog\<lparr>fl_pool := pool\<rparr>;
     if rc \<noteq> 0 then fslog_finish UV_ENOMEM fslog else do {
     let fslog = fslog\<lparr>fl_uv_loop := block (fe_loop env)\<rparr>;
     if \<not> fe_loop env then fslog_finish UV_ENOMEM fslog
     else if fe_loop_init env \<noteq> 0 then fslog_finish (fe_loop_init env) fslog else do {
     let fslog = fslog\<lparr>fl_uv_timer := block (fe_timer env)\<rparr>;
     if \<not> fe_timer env then fslog_finish (fe_loop_init env) fslog
     else if fe_timer_init env \<noteq> 0 then fslog_finish (fe_timer_init env) fslog
     else if fe_timer_start env \<noteq> 0 then fslog_finish (fe_timer_start env) fslog
     else run_loop env (fslog\<lparr>fl_timer_active := True\<rparr>)
   }}}"

section \<open>The operations\<close>

definition tn_fslog_setup :: "launch_env \<Rightarrow> tn_fslog \<Rightarrow> tn_fslog_type \<Rightarrow> int \<times> tn_fslog" where
  "tn_fslog_setup env blank type =
     (let fslog = blank\<lparr>fl_priv := PTR_NULL, fl_uv_loop := PTR_NULL, fl_uv_timer := PTR_NULL, fl_timer_active := False, fl_buffer := None,
        fl_state := TN_FSLOG_STATE_NEW, fl_type := type, fl_reads := [], fl_closes := []\<rparr>;
          fslog = tn_fslog_set_state fslog TN_FSLOG_STATE_STARTING
      in case tn_thread_launch env (fl_thread_io fslog) of (rc, t, _) \<Rightarrow>
        let fslog = fslog\<lparr>fl_thread_io := t\<rparr> in
        if rc \<noteq> 0 then (TN_ERROR, fslog) else (TN_SUCCESS, fslog))"

text \<open>What the thread does until it ends is given by \<open>thread\<close>: the log as the thread leaves it, or None when it never ends.\<close>

definition tn_fslog_cleanup :: "(tn_fslog \<Rightarrow> tn_fslog option) \<Rightarrow> tn_fslog \<Rightarrow> tn_fslog option" where
  "tn_fslog_cleanup thread fslog =
     (let state = tn_fslog_get_state fslog in
      if state \<noteq> TN_FSLOG_STATE_STARTING \<and> state \<noteq> TN_FSLOG_STATE_STARTED then Some fslog
      else do {
        let fslog = tn_fslog_set_state fslog TN_FSLOG_STATE_STOPPING;
        let after = thread fslog;
        (_, t) \<leftarrow> tn_thread_join (map_option (\<lambda>_. 0) after) (fl_thread_io fslog);
        let fslog = (case after of None \<Rightarrow> fslog | Some f \<Rightarrow> f);
        Some (tn_fslog_set_state (fslog\<lparr>fl_thread_io := tn_thread_cleanup t\<rparr>) TN_FSLOG_STATE_STOPPED)
      })"

definition tn_fslog_open :: "tn_fslog \<Rightarrow> int option" where
  "tn_fslog_open fslog = do { tn_assert (fl_priv fslog \<noteq> PTR_NULL); Some TN_SUCCESS }"

definition tn_fslog_close :: "tn_fslog \<Rightarrow> int option" where
  "tn_fslog_close fslog = do { tn_assert (fl_priv fslog \<noteq> PTR_NULL); Some TN_SUCCESS }"

definition tn_fslog_read :: "tn_fslog \<Rightarrow> int option" where
  "tn_fslog_read fslog = do { tn_assert (fl_priv fslog \<noteq> PTR_NULL \<and> fl_type fslog = TN_FSLOG_TYPE_READ); Some TN_SUCCESS }"

definition tn_fslog_write :: "tn_fslog \<Rightarrow> int option" where
  "tn_fslog_write fslog = do { tn_assert (fl_priv fslog \<noteq> PTR_NULL \<and> fl_type fslog = TN_FSLOG_TYPE_WRITE); Some TN_SUCCESS }"

section \<open>What the callbacks keep\<close>

text \<open>The callbacks libuv may call while the loop runs, with what libuv passes and answers.\<close>

datatype fslog_cb = Fs_opened bool int int | Fs_read_done bool int int int | Fs_written bool int | Fs_timer

fun fslog_cb_step :: "fslog_cb \<Rightarrow> tn_fslog \<Rightarrow> tn_fslog option" where
  "fslog_cb_step (Fs_opened own result rc) fslog = on_fslog_open_cb own result rc fslog"
| "fslog_cb_step (Fs_read_done own result rc_close rc) fslog = on_fslog_read_cb own result rc_close rc fslog"
| "fslog_cb_step (Fs_written own result) fslog = on_write own result fslog"
| "fslog_cb_step Fs_timer fslog = Some (on_fslog_timer_cb fslog)"

abbreviation fslog_run :: "fslog_cb list \<Rightarrow> tn_fslog \<Rightarrow> tn_fslog option" where
  "fslog_run \<equiv> machine_run fslog_cb_step"

text \<open>What the thread does after a change of the state: \<open>uv_run\<close> returns only without an active handle.\<close>

definition fslog_rest :: "fslog_env \<Rightarrow> tn_fslog \<Rightarrow> tn_fslog option" where
  "fslog_rest env fslog =
     (if fl_timer_active fslog then None
      else case close_loop env fslog of Some (Thread_ended f) \<Rightarrow> Some f | _ \<Rightarrow> None)"

definition same_thread :: "tn_fslog \<Rightarrow> tn_fslog \<Rightarrow> bool" where
  "same_thread f g \<longleftrightarrow> fl_timer_active g = fl_timer_active f \<and> fl_thread_io g = fl_thread_io f \<and> fl_priv g = fl_priv f \<and>
     fl_type g = fl_type f \<and> (fl_state g = fl_state f \<or> fl_state g = TN_FSLOG_STATE_ERROR)"

named_theorems fslog_defs

lemmas [fslog_defs] = on_write_def start_read_def on_fslog_read_cb_def on_fslog_open_cb_def on_fslog_timer_cb_def
  tn_fslog_set_state_def tn_fslog_get_state_def fslog_finish_def close_loop_def run_loop_def tn_fslog_thread_def Let_def

lemma same_thread_refl [simp]: "same_thread f f"
  by (simp add: same_thread_def)

lemma same_thread_trans: "same_thread f g \<Longrightarrow> same_thread g h \<Longrightarrow> same_thread f h"
  by (auto simp: same_thread_def)

lemma same_thread_error [simp]: "same_thread f (tn_fslog_set_state g TN_FSLOG_STATE_ERROR) \<longleftrightarrow>
    fl_timer_active g = fl_timer_active f \<and> fl_thread_io g = fl_thread_io f \<and> fl_priv g = fl_priv f \<and> fl_type g = fl_type f"
  by (simp add: same_thread_def tn_fslog_set_state_def)

lemma start_read_same: "start_read rc file f = Some g \<Longrightarrow> same_thread f g"
  by (auto simp: start_read_def bind_eq_Some_conv same_thread_def split: if_splits)

lemma on_write_same: "on_write own n f = Some g \<Longrightarrow> same_thread f g"
  by (auto simp: on_write_def tn_assert_def split: if_splits)

lemma on_fslog_read_cb_same: "on_fslog_read_cb own n rc_close rc f = Some g \<Longrightarrow> same_thread f g"
  by (auto simp: on_fslog_read_cb_def tn_assert_def Let_def same_thread_def tn_fslog_set_state_def dest: start_read_same split: if_splits)

lemma on_fslog_open_cb_same:
  assumes "on_fslog_open_cb own n rc f = Some g"
  shows "same_thread f g"
proof -
  have w: "same_thread f (f\<lparr>fl_open_result := n\<rparr>)" "same_thread f (f\<lparr>fl_open_result := n, fl_buffer := b, fl_pool := p\<rparr>)" for b p
    by (simp_all add: same_thread_def)
  show ?thesis
  proof (cases "own \<and> 0 \<le> n \<and> fl_type f = TN_FSLOG_TYPE_READ")
    case True
    then show ?thesis
      using assms by (auto simp: on_fslog_open_cb_def Let_def tn_assert_def bind_eq_Some_conv w split: if_splits
          dest!: start_read_same intro: same_thread_trans [OF w(1)] same_thread_trans [OF w(2)])
  next
    case False
    then show ?thesis using assms by (auto simp: on_fslog_open_cb_def Let_def tn_assert_def w split: if_splits)
  qed
qed

lemma fslog_cb_step_same: "fslog_cb_step c f = Some g \<Longrightarrow> same_thread f g"
  by (cases c) (auto simp: on_fslog_timer_cb_def dest: on_write_same on_fslog_read_cb_same on_fslog_open_cb_same)

lemma fslog_run_same: "fslog_run cs f = Some g \<Longrightarrow> same_thread f g"
proof (induction cs arbitrary: f)
  case Nil
  then show ?case by simp
next
  case (Cons c cs)
  then obtain h where h: "fslog_cb_step c f = Some h" "fslog_run cs h = Some g" by (auto simp: bind_eq_Some_conv)
  have "same_thread f h" "same_thread h g" by (rule fslog_cb_step_same [OF h(1)], rule Cons.IH [OF h(2)])
  then show ?case by (rule same_thread_trans)
qed

section \<open>How the thread ends\<close>

definition fslog_env_ok :: "fslog_env \<Rightarrow> bool" where
  "fslog_env_ok env \<longleftrightarrow> fe_bufs env \<and> fe_queue env \<and> (fe_blocks env = 0 \<or> setup_pre (fe_blocks env) TN_SERVICE_MAX_CLIENTS TN_SERVICE_MAX_READ)"

text \<open>Everything before the file is opened went well.\<close>

definition fslog_prepared :: "fslog_env \<Rightarrow> bool" where
  "fslog_prepared env \<longleftrightarrow> fe_blocks env \<noteq> 0 \<and> fe_loop env \<and> fe_loop_init env = 0 \<and> fe_timer env \<and> fe_timer_init env = 0 \<and> fe_timer_start env = 0"

lemma fslog_pool_setup:
  assumes "fslog_env_ok env"
  obtains rc pool' where "tn_buffer_pool_setup 0 (fe_blocks env) (fe_bufs env) (fe_junk_bufs env) (fe_queue env) (fe_junk_queue env)
       pool TN_SERVICE_MAX_CLIENTS TN_SERVICE_MAX_READ = Some (rc, pool')" "rc = TN_SUCCESS \<longleftrightarrow> fe_blocks env \<noteq> 0"
proof (cases "fe_blocks env = 0")
  case True
  then show thesis by (intro that [where rc = TN_ERROR]) (simp_all add: tn_buffer_pool_setup_def TN_SERVICE_MAX_CLIENTS_def TN_SERVICE_MAX_READ_def Let_def)
next
  case False
  then have "setup_pre (fe_blocks env) TN_SERVICE_MAX_CLIENTS TN_SERVICE_MAX_READ" using assms by (simp add: fslog_env_ok_def)
  from pool_setup_ok [OF this] show thesis using that assms False by (metis fslog_env_ok_def)
qed

text \<open>
  Property C0. The thread of a log that is starting. If its private struct cannot be allocated it uses an uninitialised pointer. If
  preparing fails it releases what it has acquired and ends, and reports that in the state unless it was the allocation of the timer that
  failed. If the file cannot be opened it ends too, with the log reported as started. Otherwise its loop runs.
\<close>

theorem fslog_thread_outcome:
  assumes "fslog_env_ok env" and "fl_state fslog = TN_FSLOG_STATE_STARTING" and "fl_type fslog \<in> {TN_FSLOG_TYPE_READ, TN_FSLOG_TYPE_WRITE}"
  shows "case tn_fslog_thread env fslog of
      None \<Rightarrow> \<not> fe_priv env
    | Some (Thread_running f) \<Rightarrow> fslog_prepared env \<and> fe_fs_open env = 0 \<and> fl_state f = TN_FSLOG_STATE_STARTED \<and> fl_timer_active f
    | Some (Thread_ended f) \<Rightarrow> \<not> (fslog_prepared env \<and> fe_fs_open env = 0) \<and>
        fl_priv f = PTR_DANGLING \<and> fl_uv_loop f \<noteq> PTR_VALID \<and> fl_uv_timer f \<noteq> PTR_VALID \<and>
        (fl_state f = TN_FSLOG_STATE_ERROR \<longleftrightarrow>
           fe_blocks env = 0 \<or> \<not> fe_loop env \<or> fe_loop_init env \<noteq> 0 \<or> fe_timer env \<and> (fe_timer_init env \<noteq> 0 \<or> fe_timer_start env \<noteq> 0))"
proof (cases "fe_priv env")
  case True
  let ?f = "fslog\<lparr>fl_priv := PTR_VALID, fl_uv_loop := PTR_NULL, fl_uv_timer := PTR_NULL, fl_open_result := 0\<rparr>"
  obtain rc pool' where p: "tn_buffer_pool_setup 0 (fe_blocks env) (fe_bufs env) (fe_junk_bufs env) (fe_queue env) (fe_junk_queue env)
       (fl_pool ?f) TN_SERVICE_MAX_CLIENTS TN_SERVICE_MAX_READ = Some (rc, pool')" "rc = TN_SUCCESS \<longleftrightarrow> fe_blocks env \<noteq> 0"
    by (rule fslog_pool_setup [OF assms(1)])
  show ?thesis
    using True assms(2,3) p by (auto simp: fslog_defs fslog_prepared_def release_block_def block_def UV_ENOMEM_def)
qed (simp add: tn_fslog_thread_def)

lemma fslog_finish_not_running: "fslog_finish ret f \<noteq> Some (Thread_running g)"
  by (simp add: fslog_finish_def Let_def bind_eq_Some_conv)

lemma running_thread:
  assumes "tn_fslog_thread env fslog = Some (Thread_running f)"
  shows "fl_timer_active f \<and> fl_state f = TN_FSLOG_STATE_STARTED \<and> fl_thread_io f = fl_thread_io fslog"
  using assms by (auto simp: tn_fslog_thread_def run_loop_def close_loop_def fslog_finish_not_running Let_def tn_fslog_set_state_def
      tn_assert_def bind_eq_Some_conv split: if_splits)


text \<open>A log whose pool holds one buffer, and an environment in which everything goes well, for the witnesses.\<close>

definition env0 :: fslog_env where
  "env0 = \<lparr>fe_priv = True, fe_blocks = 4096, fe_bufs = True, fe_junk_bufs = (\<lambda>_. buf64), fe_queue = True, fe_junk_queue = (\<lambda>_. 0),
     fe_loop = True, fe_loop_init = 0, fe_timer = True, fe_timer_init = 0, fe_timer_start = 0, fe_fs_open = 0, fe_loop_close = 0,
     fe_loop_close_again = 0\<rparr>"

definition thread0 :: tn_thread where
  "thread0 = \<lparr>th_detach_state = 1, th_thread_id = 0, th_running = False\<rparr>"

definition fslog0 :: tn_fslog where
  "fslog0 = \<lparr>fl_priv = PTR_NULL, fl_uv_loop = PTR_NULL, fl_uv_timer = PTR_NULL, fl_timer_active = False, fl_open_result = 0, fl_thread_io = thread0,
     fl_pool = pool_raw, fl_buffer = None, fl_state = TN_FSLOG_STATE_STARTING, fl_type = TN_FSLOG_TYPE_READ, fl_reads = [], fl_closes = []\<rparr>"

lemma env0_ok: "fslog_env_ok env0" "fslog_prepared env0" "fe_priv env0" "fe_fs_open env0 = 0"
  by (simp_all add: fslog_env_ok_def fslog_prepared_def env0_def setup_pre_def SIZE_HALF_eq TN_SERVICE_MAX_CLIENTS_def TN_SERVICE_MAX_READ_def)

theorem fslog_thread_outcome_witness:
  "\<exists>f. tn_fslog_thread env0 fslog0 = Some (Thread_running f) \<and> fl_state f = TN_FSLOG_STATE_STARTED \<and> fl_timer_active f"
  using fslog_thread_outcome [OF env0_ok(1), of fslog0] env0_ok(2-4)
  by (auto simp: fslog0_def split: option.splits thread_end.splits)

lemma env0_runs:
  assumes "fl_state f = TN_FSLOG_STATE_STARTING" and "fl_type f = TN_FSLOG_TYPE_READ"
  shows "\<exists>g. tn_fslog_thread env0 f = Some (Thread_running g) \<and> fl_state g = TN_FSLOG_STATE_STARTED"
proof -
  obtain rc pool' where p: "tn_buffer_pool_setup 0 (fe_blocks env0) (fe_bufs env0) (fe_junk_bufs env0) (fe_queue env0) (fe_junk_queue env0)
       (fl_pool f) TN_SERVICE_MAX_CLIENTS TN_SERVICE_MAX_READ = Some (rc, pool')" "rc = TN_SUCCESS \<longleftrightarrow> fe_blocks env0 \<noteq> 0"
    by (rule fslog_pool_setup [OF env0_ok(1)])
  show ?thesis
    using p env0_ok assms by (auto simp: tn_fslog_thread_def run_loop_def fslog_prepared_def tn_fslog_get_state_def tn_fslog_set_state_def Let_def)
qed

definition launch0 :: launch_env where
  "launch0 = \<lparr>le_attr_init = 0, le_wrapper = True, le_create = 0, le_id = 7\<rparr>"


text \<open>
  Property C0. A log for reading whose file was opened as \<open>fd\<close> reads \<open>fd\<close> first, into the free room of its buffer. When that read has
  delivered \<open>n\<close> bytes, the next one reads the descriptor with the number \<open>n\<close>, into the same place.
\<close>

theorem fslog_reads_wrong_descriptor:
  assumes "fl_priv f = PTR_VALID" and "fl_type f = TN_FSLOG_TYPE_READ" and "0 \<le> fd" and "0 < n"
    and "fl_buffer f = Some i" and "arr_get (bp_tn_buffers (fl_pool f)) i = Some b" and "tb_pool b = Some pid"
  shows "map_option fl_reads (fslog_run [Fs_opened True fd 0, Fs_read_done True n 0 0] f) =
      Some (fl_reads f @ [(fd, tn_buffer_write_ptr b, bp_block_size (fl_pool f)), (n, tn_buffer_write_ptr b, bp_block_size (fl_pool f))])"
  using assms by (simp add: on_fslog_open_cb_def on_fslog_read_cb_def start_read_def tn_buffer_capacity_def Let_def)

definition fslog1 :: tn_fslog where
  "fslog1 = fslog0\<lparr>fl_priv := PTR_VALID, fl_pool := pool_raw\<lparr>bp_block_size := 100, bp_tn_buffers := [buf64\<lparr>tb_pool := Some 0\<rparr>]\<rparr>, fl_buffer := Some 0\<rparr>"

theorem fslog_reads_wrong_descriptor_witness:
  "map_option (map fst) (map_option fl_reads (fslog_run [Fs_opened True 5 0, Fs_read_done True 100 0 0] fslog1)) = Some [5, 100]"
proof -
  have "map_option fl_reads (fslog_run [Fs_opened True 5 0, Fs_read_done True 100 0 0] fslog1) =
      Some (fl_reads fslog1 @ [(5, tn_buffer_write_ptr (buf64\<lparr>tb_pool := Some 0\<rparr>), bp_block_size (fl_pool fslog1)),
        (100, tn_buffer_write_ptr (buf64\<lparr>tb_pool := Some 0\<rparr>), bp_block_size (fl_pool fslog1))])"
    by (rule fslog_reads_wrong_descriptor [where i = 0 and pid = 0]) (simp_all add: fslog1_def fslog0_def arr_get_def)
  then show ?thesis by (simp only: option.map) (simp add: fslog1_def fslog0_def)
qed

end
