(* ===== verification/Tn_Log.thy ===== *)
theory Tn_Log
  imports Tn_Runtime
begin

text \<open>
  Mutexes (\<open>src/mutex.c\<close> on \<open>posix/mutex.c\<close> of aws-c-common) and the application log (\<open>src/log.c\<close>) as one thread uses it: the
  global variables of the file are one record, with what was printed to the error stream and to each opened file, and with the number of
  exit handlers registered. The clock, the results of \<open>fopen\<close> and of the pthread calls, and the text made from a format are inputs.
\<close>

section \<open>Mutexes\<close>

text \<open>A pthread mutex of the normal type; using one that is not initialised is undefined, and locking one that is held never returns.\<close>

datatype mutex = MTX_RAW | MTX_UNLOCKED | MTX_LOCKED | MTX_DESTROYED

definition aws_private_convert_and_raise_error_code :: "int \<Rightarrow> int" where
  "aws_private_convert_and_raise_error_code error_code = (if error_code = 0 then AWS_OP_SUCCESS else AWS_OP_ERR)"

record mutex_env =
  me_attr_init :: int
  me_settype :: int
  me_init :: int

definition aws_mutex_init :: "mutex_env \<Rightarrow> mutex \<Rightarrow> int \<times> mutex" where
  "aws_mutex_init env m =
     (if me_attr_init env = 0 then
        if me_settype env \<noteq> 0 then (aws_private_convert_and_raise_error_code (me_settype env), m)
        else if me_init env \<noteq> 0 then (aws_private_convert_and_raise_error_code (me_init env), m)
        else (AWS_OP_SUCCESS, MTX_UNLOCKED)
      else (aws_private_convert_and_raise_error_code (me_attr_init env), m))"

definition aws_mutex_lock :: "mutex \<Rightarrow> (int \<times> mutex) option" where
  "aws_mutex_lock m = do { tn_assert (m = MTX_UNLOCKED); Some (aws_private_convert_and_raise_error_code 0, MTX_LOCKED) }"

definition aws_mutex_unlock :: "mutex \<Rightarrow> (int \<times> mutex) option" where
  "aws_mutex_unlock m = do { tn_assert (m = MTX_LOCKED); Some (aws_private_convert_and_raise_error_code 0, MTX_UNLOCKED) }"

definition aws_mutex_clean_up :: "mutex \<Rightarrow> mutex option" where
  "aws_mutex_clean_up m = do { tn_assert (m = MTX_UNLOCKED); Some MTX_DESTROYED }"

definition tn_mutex_setup :: "mutex_env \<Rightarrow> mutex \<Rightarrow> int \<times> mutex" where
  "tn_mutex_setup env mtx = aws_mutex_init env mtx"

definition tn_mutex_lock :: "mutex \<Rightarrow> (int \<times> mutex) option" where
  "tn_mutex_lock mtx = aws_mutex_lock mtx"

definition tn_mutex_unlock :: "mutex \<Rightarrow> (int \<times> mutex) option" where
  "tn_mutex_unlock mtx = aws_mutex_unlock mtx"

definition tn_mutex_cleanup :: "mutex \<Rightarrow> mutex option" where
  "tn_mutex_cleanup mtx = aws_mutex_clean_up mtx"

section \<open>The log\<close>

definition level_names :: "string list" where
  "level_names = [''TRACE'', ''DEBUG'', ''INFO'', ''WARN'', ''ERROR'', ''FATAL'']"

definition esc :: "string \<Rightarrow> string" where
  "esc s = char_of (27 :: nat) # s"

definition level_colors :: "string list" where
  "level_colors = [esc ''[90m'', esc ''[36m'', esc ''[32m'', esc ''[33m'', esc ''[31m'', esc ''[35m'']"

text \<open>The lock function of the context: none, \<open>tn_log_lock_impl\<close>, or one of the client. Mutexes and files are numbered; mutex 0 is \<open>tn_log_mtx\<close>.\<close>

datatype lock_fn = LOCK_NULL | LOCK_IMPL | LOCK_CLIENT

record tn_log =
  lx_udata :: "nat option"
  lx_lock :: lock_fn
  lx_fp :: "nat option"
  lx_level :: int
  lx_quiet :: bool
  lx_color :: bool

definition log_zero :: tn_log where
  "log_zero = \<lparr>lx_udata = None, lx_lock = LOCK_NULL, lx_fp = None, lx_level = 0, lx_quiet = False, lx_color = False\<rparr>"

record log_state =
  lg_ctx :: tn_log
  lg_mutexes :: "mutex list"
  lg_fp :: "nat option"
  lg_ready :: bool
  lg_files :: "(bool \<times> string list) list"
  lg_stderr :: "string list"
  lg_atexit :: nat

record log_env =
  ge_client_lock :: "nat option \<Rightarrow> bool \<Rightarrow> log_state \<Rightarrow> log_state option"
  ge_mutex :: mutex_env
  ge_fopen :: "nat \<Rightarrow> bool"
  ge_time_short :: string
  ge_time_long :: string
  ge_thread :: u64

record log_call =
  lc_level :: int
  lc_func :: string
  lc_file :: string
  lc_line :: nat
  lc_thread :: u64
  lc_msg :: string

text \<open>Any \<open>udata\<close> that is not a mutex makes the lock function access memory that is none.\<close>

definition tn_log_lock_impl :: "nat option \<Rightarrow> bool \<Rightarrow> log_state \<Rightarrow> log_state option" where
  "tn_log_lock_impl udata lock s = do {
     i \<leftarrow> udata;
     m \<leftarrow> arr_get (lg_mutexes s) i;
     (_, m) \<leftarrow> (if lock then aws_mutex_lock m else aws_mutex_unlock m);
     ms \<leftarrow> arr_set (lg_mutexes s) i m;
     Some (s\<lparr>lg_mutexes := ms\<rparr>)
   }"

definition call_lock :: "log_env \<Rightarrow> bool \<Rightarrow> log_state \<Rightarrow> log_state option" where
  "call_lock env lock s =
     (case lx_lock (lg_ctx s) of LOCK_NULL \<Rightarrow> Some s
      | LOCK_IMPL \<Rightarrow> tn_log_lock_impl (lx_udata (lg_ctx s)) lock s
      | LOCK_CLIENT \<Rightarrow> ge_client_lock env (lx_udata (lg_ctx s)) lock s)"

definition tn_log_lock :: "log_env \<Rightarrow> log_state \<Rightarrow> log_state option" where
  "tn_log_lock env s = call_lock env True s"

definition tn_log_unlock :: "log_env \<Rightarrow> log_state \<Rightarrow> log_state option" where
  "tn_log_unlock env s = call_lock env False s"

definition tn_log_color :: "bool \<Rightarrow> log_state \<Rightarrow> log_state" where
  "tn_log_color enable s = s\<lparr>lg_ctx := lg_ctx s\<lparr>lx_color := enable\<rparr>\<rparr>"

definition tn_log_set_udata :: "nat option \<Rightarrow> log_state \<Rightarrow> log_state" where
  "tn_log_set_udata udata s = s\<lparr>lg_ctx := lg_ctx s\<lparr>lx_udata := udata\<rparr>\<rparr>"

definition tn_log_set_lock :: "lock_fn \<Rightarrow> log_state \<Rightarrow> log_state" where
  "tn_log_set_lock fn s = s\<lparr>lg_ctx := lg_ctx s\<lparr>lx_lock := fn\<rparr>\<rparr>"

definition tn_log_set_fp :: "nat option \<Rightarrow> log_state \<Rightarrow> log_state" where
  "tn_log_set_fp fp s = s\<lparr>lg_ctx := lg_ctx s\<lparr>lx_fp := fp\<rparr>\<rparr>"

definition tn_log_set_level :: "int \<Rightarrow> log_state \<Rightarrow> log_state" where
  "tn_log_set_level level s = s\<lparr>lg_ctx := lg_ctx s\<lparr>lx_level := level\<rparr>\<rparr>"

definition tn_log_set_quiet :: "bool \<Rightarrow> log_state \<Rightarrow> log_state" where
  "tn_log_set_quiet enable s = s\<lparr>lg_ctx := lg_ctx s\<lparr>lx_quiet := enable\<rparr>\<rparr>"

text \<open>An entry of a table of names, for a level outside it an access out of range.\<close>

definition level_entry :: "string list \<Rightarrow> int \<Rightarrow> string option" where
  "level_entry names level = (if level < 0 then None else arr_get names (nat level))"

text \<open>A name filled up to five characters (\<open>%-5s\<close>), and the part of a line behind it.\<close>

definition pad5 :: "string \<Rightarrow> string" where
  "pad5 s = s @ replicate (5 - length s) CHR '' ''"

definition origin :: "log_call \<Rightarrow> string" where
  "origin c = dec (unat (lc_thread c)) @ '':'' @ lc_file c @ '':'' @ dec (lc_line c) @ '' - '' @ lc_func c @ '': ''"

definition plain_line :: "string \<Rightarrow> string \<Rightarrow> log_call \<Rightarrow> string" where
  "plain_line time name c = time @ '' '' @ pad5 name @ '' '' @ origin c @ lc_msg c"

definition color_line :: "string \<Rightarrow> string \<Rightarrow> string \<Rightarrow> log_call \<Rightarrow> string" where
  "color_line time color name c = time @ '' '' @ color @ pad5 name @ esc ''[0m '' @ esc ''[90m'' @ origin c @ esc ''[0m '' @ lc_msg c"

text \<open>Printing to a file that is not open is undefined.\<close>

definition file_print :: "nat \<Rightarrow> string \<Rightarrow> log_state \<Rightarrow> log_state option" where
  "file_print k text s = do {
     (opened, texts) \<leftarrow> arr_get (lg_files s) k;
     tn_assert opened;
     files \<leftarrow> arr_set (lg_files s) k (True, texts @ [text]);
     Some (s\<lparr>lg_files := files\<rparr>)
   }"

text \<open>\<open>tn_log_log\<close> after the log was set up.\<close>

definition log_print :: "log_env \<Rightarrow> log_call \<Rightarrow> log_state \<Rightarrow> log_state option" where
  "log_print env c s =
     (if lc_level c < lx_level (lg_ctx s) then Some s
      else do {
        s \<leftarrow> tn_log_lock env s;
        s \<leftarrow> (if lx_quiet (lg_ctx s) then Some s
              else if lx_color (lg_ctx s) then do {
                color \<leftarrow> level_entry level_colors (lc_level c);
                name \<leftarrow> level_entry level_names (lc_level c);
                Some (s\<lparr>lg_stderr := lg_stderr s @ [color_line (ge_time_short env) color name c]\<rparr>)
              } else do {
                name \<leftarrow> level_entry level_names (lc_level c);
                Some (s\<lparr>lg_stderr := lg_stderr s @ [plain_line (ge_time_short env) name c]\<rparr>)
              });
        s \<leftarrow> (case lx_fp (lg_ctx s) of None \<Rightarrow> Some s
              | Some k \<Rightarrow> do {
                  name \<leftarrow> level_entry level_names (lc_level c);
                  file_print k (plain_line (ge_time_long env) name c) s
                });
        tn_log_unlock env s
      })"

text \<open>\<open>fopen\<close> of the log file.\<close>

definition open_log_file :: "log_env \<Rightarrow> log_state \<Rightarrow> log_state" where
  "open_log_file env s =
     (if ge_fopen env (length (lg_files s)) then
        tn_log_set_fp (Some (length (lg_files s))) (s\<lparr>lg_fp := Some (length (lg_files s)), lg_files := lg_files s @ [(True, [])]\<rparr>)
      else s\<lparr>lg_fp := None\<rparr>)"

definition start_call :: "log_env \<Rightarrow> log_call" where
  "start_call env = \<lparr>lc_level = 0, lc_func = ''tn_log_setup'', lc_file = ''log.c'', lc_line = 115, lc_thread = ge_thread env,
     lc_msg = ''Application logging started ... ''\<rparr>"

definition stop_call :: "log_env \<Rightarrow> log_call" where
  "stop_call env = \<lparr>lc_level = 0, lc_func = ''tn_log_cleanup'', lc_file = ''log.c'', lc_line = 125, lc_thread = ge_thread env,
     lc_msg = ''Application logging completed''\<rparr>"

definition log_init :: "log_env \<Rightarrow> log_state \<Rightarrow> log_state option" where
  "log_init env s = do {
     let s = tn_log_color True (s\<lparr>lg_ready := True, lg_ctx := log_zero\<rparr>);
     m \<leftarrow> arr_get (lg_mutexes s) 0;
     ms \<leftarrow> arr_set (lg_mutexes s) 0 (snd (aws_mutex_init (ge_mutex env) m));
     Some (open_log_file env (tn_log_set_lock LOCK_IMPL (tn_log_set_udata (Some 0) (s\<lparr>lg_mutexes := ms\<rparr>))))
   }"

lemma log_init_ready: "log_init env s = Some s' \<Longrightarrow> lg_ready s'"
  by (auto simp: log_init_def open_log_file_def tn_log_color_def tn_log_set_lock_def tn_log_set_udata_def tn_log_set_fp_def Let_def bind_eq_Some_conv)

text \<open>Setting up logs a line, and logging sets up; the flag is set first.\<close>

function tn_log_setup :: "log_env \<Rightarrow> log_state \<Rightarrow> log_state option" and tn_log_log :: "log_env \<Rightarrow> log_call \<Rightarrow> log_state \<Rightarrow> log_state option" where
  "tn_log_setup env s =
     (if lg_ready s then Some s
      else case log_init env s of None \<Rightarrow> None
        | Some s' \<Rightarrow> do { s \<leftarrow> tn_log_log env (start_call env) s'; Some (s\<lparr>lg_atexit := lg_atexit s + 1\<rparr>) })"
| "tn_log_log env c s = do { s \<leftarrow> (if \<not> lg_ready s then tn_log_setup env s else Some s); log_print env c s }"
  by pat_completeness auto
termination
  by (relation "measure (case_sum (\<lambda>(env, s). if lg_ready s then 0 else 2) (\<lambda>(env, c, s). if lg_ready s then 1 else (3 :: nat)))")
    (auto dest: log_init_ready)

declare tn_log_setup.simps [simp del] tn_log_log.simps [simp del]

text \<open>\<open>fclose\<close> of a file that is not open is undefined.\<close>

definition file_close :: "nat \<Rightarrow> log_state \<Rightarrow> log_state option" where
  "file_close k s = do {
     (opened, texts) \<leftarrow> arr_get (lg_files s) k;
     tn_assert opened;
     files \<leftarrow> arr_set (lg_files s) k (False, texts);
     Some (s\<lparr>lg_files := files\<rparr>)
   }"

definition tn_log_cleanup :: "log_env \<Rightarrow> log_state \<Rightarrow> log_state option" where
  "tn_log_cleanup env s = do {
     s \<leftarrow> tn_log_log env (stop_call env) s;
     if \<not> lg_ready s then Some s
     else do {
       let s = s\<lparr>lg_ready := False\<rparr>;
       m \<leftarrow> arr_get (lg_mutexes s) 0;
       m \<leftarrow> aws_mutex_clean_up m;
       ms \<leftarrow> arr_set (lg_mutexes s) 0 m;
       let s = s\<lparr>lg_mutexes := ms\<rparr>;
       case lg_fp s of None \<Rightarrow> Some s | Some k \<Rightarrow> file_close k s
     }
   }"

text \<open>
  What \<open>exit\<close> does with the registered handlers, all of them \<open>tn_log_cleanup\<close>: one registered by a handler is called too. None also means
  that the calls given by the first argument were not enough.
\<close>

fun run_exit_handlers :: "nat \<Rightarrow> log_env \<Rightarrow> log_state \<Rightarrow> log_state option" where
  "run_exit_handlers 0 env s = (if lg_atexit s = 0 then Some s else None)"
| "run_exit_handlers (Suc n) env s =
     (if lg_atexit s = 0 then Some s
      else do { s \<leftarrow> tn_log_cleanup env (s\<lparr>lg_atexit := lg_atexit s - 1\<rparr>); run_exit_handlers n env s })"

section \<open>Invariant\<close>

text \<open>
  While the log is ready its mutex is free and the file of the context, if there is one, is open; no other file is open. This is the
  log whose lock and file the client has not replaced.
\<close>

definition only_open :: "(bool \<times> string list) list \<Rightarrow> nat option \<Rightarrow> bool" where
  "only_open files fp \<longleftrightarrow> (\<forall>k < length files. fst (files ! k) \<longrightarrow> fp = Some k) \<and>
     (case fp of None \<Rightarrow> True | Some k \<Rightarrow> k < length files \<and> fst (files ! k))"

definition ctx_ok :: "tn_log \<Rightarrow> nat option \<Rightarrow> bool" where
  "ctx_ok ctx fp \<longleftrightarrow> lx_lock ctx = LOCK_IMPL \<and> lx_udata ctx = Some 0 \<and> lx_fp ctx = fp"

definition log_inv :: "log_state \<Rightarrow> bool" where
  "log_inv s \<longleftrightarrow> (\<exists>m ms. lg_mutexes s = m # ms \<and> (lg_ready s \<longrightarrow> m = MTX_UNLOCKED)) \<and>
     only_open (lg_files s) (if lg_ready s then lg_fp s else None) \<and> (lg_ready s \<longrightarrow> ctx_ok (lg_ctx s) (lg_fp s))"

lemma only_openD: "only_open files (Some k) \<Longrightarrow> k < length files" "only_open files (Some k) \<Longrightarrow> fst (files ! k)"
  by (auto simp: only_open_def)

lemma only_open_print: "only_open files (Some k) \<Longrightarrow> only_open (files[k := (True, x)]) (Some k)"
  by (auto simp: only_open_def nth_list_update)

lemma only_open_close: "only_open files (Some k) \<Longrightarrow> only_open (files[k := (False, x)]) None"
  by (auto simp: only_open_def nth_list_update)

lemma only_open_new: "only_open files None \<Longrightarrow> only_open (files @ [(True, x)]) (Some (length files))"
  by (auto simp: only_open_def nth_append)

definition log_env_ok :: "log_env \<Rightarrow> bool" where
  "log_env_ok env \<longleftrightarrow> me_attr_init (ge_mutex env) = 0 \<and> me_settype (ge_mutex env) = 0 \<and> me_init (ge_mutex env) = 0"

definition valid_level :: "int \<Rightarrow> bool" where
  "valid_level level \<longleftrightarrow> 0 \<le> level \<and> level < 6"

definition stderr_line :: "log_env \<Rightarrow> log_call \<Rightarrow> tn_log \<Rightarrow> string" where
  "stderr_line env c ctx =
     (if lx_color ctx then color_line (ge_time_short env) (level_colors ! nat (lc_level c)) (level_names ! nat (lc_level c)) c
      else plain_line (ge_time_short env) (level_names ! nat (lc_level c)) c)"

text \<open>The state after a line was printed.\<close>

definition printed :: "log_env \<Rightarrow> log_call \<Rightarrow> log_state \<Rightarrow> log_state" where
  "printed env c s =
     (if lc_level c < lx_level (lg_ctx s) then s
      else s\<lparr>lg_stderr := lg_stderr s @ (if lx_quiet (lg_ctx s) then [] else [stderr_line env c (lg_ctx s)]),
             lg_files := (case lg_fp s of None \<Rightarrow> lg_files s
               | Some k \<Rightarrow> (lg_files s)[k := (True, snd (lg_files s ! k) @ [plain_line (ge_time_long env) (level_names ! nat (lc_level c)) c])])\<rparr>)"

lemma level_entries:
  assumes "valid_level level"
  shows "level_entry level_names level = Some (level_names ! nat level)" "level_entry level_colors level = Some (level_colors ! nat level)"
proof -
  have "nat level < length level_names" "nat level < length level_colors"
    using assms by (auto simp: valid_level_def level_names_def level_colors_def)
  then show "level_entry level_names level = Some (level_names ! nat level)" "level_entry level_colors level = Some (level_colors ! nat level)"
    using assms by (simp_all add: level_entry_def valid_level_def arr_get_def)
qed

lemma lock_free:
  assumes "ctx_ok (lg_ctx s) fp" and "lg_mutexes s = MTX_UNLOCKED # ms"
  shows "tn_log_lock env s = Some (s\<lparr>lg_mutexes := MTX_LOCKED # ms\<rparr>)"
  using assms by (simp add: ctx_ok_def tn_log_lock_def call_lock_def tn_log_lock_impl_def arr_get_def arr_set_def aws_mutex_lock_def)

lemma unlock_held:
  assumes "ctx_ok (lg_ctx s) fp" and "lg_mutexes s = MTX_LOCKED # ms"
  shows "tn_log_unlock env s = Some (s\<lparr>lg_mutexes := MTX_UNLOCKED # ms\<rparr>)"
  using assms by (simp add: ctx_ok_def tn_log_unlock_def call_lock_def tn_log_lock_impl_def arr_get_def arr_set_def aws_mutex_unlock_def)

lemma file_print_open:
  assumes "only_open (lg_files s) (Some k)"
  shows "file_print k text s = Some (s\<lparr>lg_files := (lg_files s)[k := (True, snd (lg_files s ! k) @ [text])]\<rparr>)"
  using only_openD [OF assms] by (cases "lg_files s ! k") (simp add: file_print_def arr_get_def arr_set_def)

lemma log_print_exact:
  assumes "log_inv s" and "lg_ready s" and "valid_level (lc_level c)"
  shows "log_print env c s = Some (printed env c s)"
proof -
  obtain ms where m: "lg_mutexes s = MTX_UNLOCKED # ms" using assms(1,2) by (auto simp: log_inv_def)
  have x: "ctx_ok (lg_ctx s) (lg_fp s)" "only_open (lg_files s) (lg_fp s)" using assms(1,2) by (simp_all add: log_inv_def)
  then have f: "lx_fp (lg_ctx s) = lg_fp s" by (simp add: ctx_ok_def)
  have s: "s\<lparr>lg_mutexes := MTX_UNLOCKED # ms\<rparr> = s" using m by simp
  show ?thesis
  proof (cases "lg_fp s")
    case None
    then show ?thesis
      using x(1) f m by (simp add: log_print_def printed_def lock_free [OF x(1) m] unlock_held [where ms = ms] level_entries [OF assms(3)] stderr_line_def)
  next
    case (Some k)
    then show ?thesis
      using x f m
      by (simp add: log_print_def printed_def lock_free [OF x(1) m] unlock_held [where ms = ms] level_entries [OF assms(3)] file_print_open stderr_line_def)
  qed
qed

lemma printed_inv:
  assumes "log_inv s" and "lg_ready s"
  shows "log_inv (printed env c s)"
proof (cases "lg_fp s")
  case (Some k)
  then show ?thesis using assms by (simp add: log_inv_def printed_def only_open_print)
qed (use assms in \<open>simp add: log_inv_def printed_def\<close>)

lemma printed_simps [simp]:
  "lg_ready (printed env c s) = lg_ready s" "lg_ctx (printed env c s) = lg_ctx s" "lg_atexit (printed env c s) = lg_atexit s"
  "lg_fp (printed env c s) = lg_fp s" "lg_mutexes (printed env c s) = lg_mutexes s"
  by (simp_all add: printed_def)

lemma atexit_inv [simp]: "log_inv (s\<lparr>lg_atexit := n\<rparr>) = log_inv s"
  by (simp add: log_inv_def)

lemmas setters = tn_log_color_def tn_log_set_fp_def tn_log_set_lock_def tn_log_set_udata_def tn_log_set_level_def tn_log_set_quiet_def

lemma log_init_ok:
  assumes "log_inv s" and "\<not> lg_ready s" and "log_env_ok env"
  shows "\<exists>s'. log_init env s = Some s' \<and> log_inv s' \<and> lg_ready s' \<and> lg_atexit s' = lg_atexit s"
proof -
  obtain m ms where m: "lg_mutexes s = m # ms" using assms(1) by (auto simp: log_inv_def)
  have "only_open (lg_files s) None" using assms(1,2) by (simp add: log_inv_def)
  then show ?thesis
    using m assms(3) by (simp add: log_init_def log_env_ok_def log_inv_def open_log_file_def aws_mutex_init_def ctx_ok_def log_zero_def setters
      arr_get_def arr_set_def Let_def only_open_new)
qed

lemma tn_log_log_ready: "lg_ready s \<Longrightarrow> tn_log_log env c s = log_print env c s"
  by (simp add: tn_log_log.simps)

lemma tn_log_setup_ok:
  assumes "log_inv s" and "\<not> lg_ready s" and "log_env_ok env"
  shows "\<exists>s'. tn_log_setup env s = Some s' \<and> log_inv s' \<and> lg_ready s' \<and> lg_atexit s' = Suc (lg_atexit s)"
proof -
  obtain s1 where s1: "log_init env s = Some s1" "log_inv s1" "lg_ready s1" "lg_atexit s1 = lg_atexit s"
    using log_init_ok [OF assms] by blast
  have "log_print env (start_call env) s1 = Some (printed env (start_call env) s1)"
    by (rule log_print_exact [OF s1(2,3)]) (simp add: start_call_def valid_level_def)
  then show ?thesis
    using assms(2) s1 printed_inv [OF s1(2,3)] by (simp add: tn_log_setup.simps tn_log_log_ready)
qed

lemma tn_log_log_ok:
  assumes "log_inv s" and "log_env_ok env" and "valid_level (lc_level c)"
  shows "\<exists>s'. tn_log_log env c s = Some s' \<and> log_inv s' \<and> lg_ready s' \<and> lg_atexit s' = (if lg_ready s then lg_atexit s else Suc (lg_atexit s))"
proof (cases "lg_ready s")
  case True
  then show ?thesis using assms by (simp add: tn_log_log_ready log_print_exact printed_inv)
next
  case False
  then obtain s1 where "tn_log_setup env s = Some s1" "log_inv s1" "lg_ready s1" "lg_atexit s1 = Suc (lg_atexit s)"
    using tn_log_setup_ok assms by blast
  then show ?thesis using False assms(3) by (simp add: tn_log_log.simps log_print_exact printed_inv)
qed

lemma tn_log_cleanup_ok:
  assumes "log_inv s" and "log_env_ok env"
  shows "\<exists>s'. tn_log_cleanup env s = Some s' \<and> log_inv s' \<and> \<not> lg_ready s' \<and> lg_atexit s' = (if lg_ready s then lg_atexit s else Suc (lg_atexit s))"
proof -
  have "valid_level (lc_level (stop_call env))" by (simp add: stop_call_def valid_level_def)
  then obtain s1 where s1: "tn_log_log env (stop_call env) s = Some s1" "log_inv s1" "lg_ready s1"
      "lg_atexit s1 = (if lg_ready s then lg_atexit s else Suc (lg_atexit s))"
    using tn_log_log_ok assms by blast
  obtain ms where m: "lg_mutexes s1 = MTX_UNLOCKED # ms" using s1(2,3) by (auto simp: log_inv_def)
  have o: "only_open (lg_files s1) (lg_fp s1)" using s1(2,3) by (simp add: log_inv_def)
  show ?thesis
  proof (cases "lg_fp s1")
    case None
    then show ?thesis
      using s1 m o by (simp add: tn_log_cleanup_def log_inv_def arr_get_def arr_set_def aws_mutex_clean_up_def Let_def)
  next
    case (Some k)
    then show ?thesis
      using s1 m o only_openD [of "lg_files s1" k]
      by (cases "lg_files s1 ! k") (simp add: tn_log_cleanup_def log_inv_def arr_get_def arr_set_def aws_mutex_clean_up_def file_close_def
          only_open_close Let_def)
  qed
qed

section \<open>Using the log\<close>

datatype log_op = Op_log log_call | Op_setup | Op_cleanup | Op_level int | Op_quiet bool | Op_color bool

fun log_step :: "log_env \<Rightarrow> log_op \<Rightarrow> log_state \<Rightarrow> log_state option" where
  "log_step env (Op_log c) s = tn_log_log env c s"
| "log_step env Op_setup s = tn_log_setup env s"
| "log_step env Op_cleanup s = tn_log_cleanup env s"
| "log_step env (Op_level n) s = Some (tn_log_set_level n s)"
| "log_step env (Op_quiet b) s = Some (tn_log_set_quiet b s)"
| "log_step env (Op_color b) s = Some (tn_log_color b s)"

definition log_run :: "log_env \<Rightarrow> log_op list \<Rightarrow> log_state \<Rightarrow> log_state option" where
  "log_run env = machine_run (log_step env)"

fun op_valid :: "log_op \<Rightarrow> bool" where
  "op_valid (Op_log c) = valid_level (lc_level c)"
| "op_valid _ = True"

definition open_files :: "log_state \<Rightarrow> nat list" where
  "open_files s = filter (\<lambda>k. fst (lg_files s ! k)) [0..<length (lg_files s)]"

text \<open>The state when the program starts.\<close>

definition log_fresh :: log_state where
  "log_fresh = \<lparr>lg_ctx = log_zero, lg_mutexes = [MTX_RAW], lg_fp = None, lg_ready = False, lg_files = [], lg_stderr = [], lg_atexit = 0\<rparr>"

lemma log_fresh_inv: "log_inv log_fresh"
  by (simp add: log_inv_def log_fresh_def only_open_def)

lemma log_step_ok:
  assumes "log_inv s" and "log_env_ok env" and "op_valid op"
  shows "\<exists>s'. log_step env op s = Some s' \<and> log_inv s'"
proof (cases op)
  case Op_setup
  then show ?thesis using tn_log_setup_ok [OF assms(1) _ assms(2)] assms(1) by (cases "lg_ready s") (auto simp: tn_log_setup.simps)
next
  case (Op_log c)
  then show ?thesis using tn_log_log_ok [OF assms(1,2), of c] assms(3) by auto
next
  case Op_cleanup
  then show ?thesis using tn_log_cleanup_ok [OF assms(1,2)] by auto
qed (use assms(1) in \<open>simp_all add: log_inv_def ctx_ok_def setters split: if_splits\<close>)

interpretation lg: guarded_machine "log_step env" "\<lambda>op s. log_env_ok env \<and> op_valid op" log_inv
  by unfold_locales (use log_step_ok in blast)

lemma log_run_ok:
  assumes "log_inv s" and "log_env_ok env" and "list_all op_valid ops"
  shows "\<exists>s'. log_run env ops s = Some s' \<and> log_inv s'"
  unfolding log_run_def using assms(2,3) by (intro lg.run_ok [OF assms(1)]) (simp add: list_all_iff)

lemma filter_upt_single: "k < n \<Longrightarrow> filter (\<lambda>j. j = k) [0..<n] = [k]"
proof (induction n)
  case (Suc n)
  have "filter (\<lambda>j. j = k) [0..<n] = []" if "k = n" using that by (simp add: filter_empty_conv)
  then show ?case using Suc by (cases "k = n") simp_all
qed simp

lemma open_files_only:
  assumes "only_open (lg_files s) fp"
  shows "open_files s = (case fp of None \<Rightarrow> [] | Some k \<Rightarrow> [k])"
proof (cases fp)
  case None
  then show ?thesis using assms by (auto simp: open_files_def only_open_def)
next
  case (Some k)
  have e: "open_files s = filter (\<lambda>j. j = k) [0..<length (lg_files s)]"
    unfolding open_files_def using assms Some by (intro filter_cong) (auto simp: only_open_def)
  have "k < length (lg_files s)" using assms Some only_openD by blast
  then have "filter (\<lambda>j. j = k) [0..<length (lg_files s)] = [k]" by (rule filter_upt_single)
  then show ?thesis using e Some by simp
qed


section \<open>Leaving the program\<close>

lemma exit_not_ready:
  assumes "log_env_ok env"
  shows "log_inv s \<Longrightarrow> \<not> lg_ready s \<Longrightarrow> lg_atexit s = Suc k \<Longrightarrow> run_exit_handlers n env s = None"
proof (induction n arbitrary: s)
  case (Suc n)
  obtain s1 where "tn_log_cleanup env (s\<lparr>lg_atexit := k\<rparr>) = Some s1" "log_inv s1" "\<not> lg_ready s1" "lg_atexit s1 = Suc k"
    using tn_log_cleanup_ok [of "s\<lparr>lg_atexit := k\<rparr>", OF _ assms] Suc.prems by auto
  then show ?case using Suc by simp
qed simp

text \<open>
  Property C0. Leaving the program ends only if the log was never set up, or is still ready and was set up once. After \<open>tn_log_cleanup\<close>
  was called by the program itself, every call of the exit handler sets the log up again and registers another handler.
\<close>

theorem log_exit_ends_iff:
  assumes "log_env_ok env" and "list_all op_valid ops" and "log_run env ops log_fresh = Some s"
  shows "(\<exists>n s'. run_exit_handlers n env s = Some s') \<longleftrightarrow> lg_atexit s = 0 \<or> lg_ready s \<and> lg_atexit s = 1"
proof -
  have i: "log_inv s" using log_run_ok [OF log_fresh_inv assms(1,2)] assms(3) by simp
  show ?thesis
  proof (cases "lg_atexit s")
    case 0
    then have "run_exit_handlers 0 env s = Some s" by simp
    then show ?thesis using 0 by blast
  next
    case (Suc k)
    show ?thesis
    proof (cases "lg_ready s")
      case False
      then show ?thesis using exit_not_ready [OF assms(1) i False Suc] Suc by simp
    next
      case True
      then obtain s1 where s1: "tn_log_cleanup env (s\<lparr>lg_atexit := k\<rparr>) = Some s1" "log_inv s1" "\<not> lg_ready s1" "lg_atexit s1 = k"
        using tn_log_cleanup_ok [of "s\<lparr>lg_atexit := k\<rparr>", OF _ assms(1)] i by auto
      have r: "run_exit_handlers (Suc n) env s = run_exit_handlers n env s1" for n using Suc s1(1) by simp
      show ?thesis
      proof (cases k)
        case 0
        then have "run_exit_handlers (Suc 0) env s = Some s1" using r [of 0] s1(4) by simp
        then have "\<exists>n s'. run_exit_handlers n env s = Some s'" by blast
        then show ?thesis using 0 Suc True by simp
      next
        case (Suc j)
        then have "run_exit_handlers n env s1 = None" for n by (intro exit_not_ready [OF assms(1) s1(2,3)]) (simp add: s1(4))
        then have "run_exit_handlers n env s = None" for n using r \<open>lg_atexit s = Suc k\<close> by (cases n) simp_all
        then show ?thesis using Suc \<open>lg_atexit s = Suc k\<close> by simp
      qed
    qed
  qed
qed

text \<open>
  Property C0. A call of a ready log adds exactly one line to the error stream unless the log is quiet and one to its file if it has one,
  each with the name of the level, and changes nothing else; a call below the level of the log adds none.
\<close>

theorem log_call_exact:
  assumes "log_env_ok env" and "list_all op_valid ops" and "log_run env ops log_fresh = Some s" and "lg_ready s" and "valid_level (lc_level c)"
  shows "tn_log_log env c s =
      Some (if lc_level c < lx_level (lg_ctx s) then s
            else s\<lparr>lg_stderr := lg_stderr s @ (if lx_quiet (lg_ctx s) then [] else [stderr_line env c (lg_ctx s)]),
                   lg_files := (case lg_fp s of None \<Rightarrow> lg_files s
                     | Some k \<Rightarrow> (lg_files s)[k := (True, snd (lg_files s ! k) @ [plain_line (ge_time_long env) (level_names ! nat (lc_level c)) c])])\<rparr>)"
proof -
  have "log_inv s" using log_run_ok [OF log_fresh_inv assms(1,2)] assms(3) by simp
  then show ?thesis using log_print_exact assms(4,5) by (simp add: tn_log_log_ready printed_def)
qed

text \<open>An environment in which the log file can be opened, and a program that logs a line, for the witnesses.\<close>

definition log_env0 :: log_env where
  "log_env0 = \<lparr>ge_client_lock = (\<lambda>_ _ _. None), ge_mutex = \<lparr>me_attr_init = 0, me_settype = 0, me_init = 0\<rparr>, ge_fopen = (\<lambda>_. True),
     ge_time_short = ''12:00:00'', ge_time_long = ''2019-01-01 12:00:00'', ge_thread = 1\<rparr>"

definition call0 :: log_call where
  "call0 = \<lparr>lc_level = 3, lc_func = ''f'', lc_file = ''a.c'', lc_line = 7, lc_thread = 1, lc_msg = ''hello''\<rparr>"

lemma log_env0_ok: "log_env_ok log_env0" "list_all op_valid [Op_log call0]" "list_all op_valid [Op_log call0, Op_cleanup]"
  by (simp_all add: log_env_ok_def log_env0_def call0_def valid_level_def)


lemma log_once: "\<exists>s. log_run log_env0 [Op_log call0] log_fresh = Some s \<and> lg_ready s \<and> lg_atexit s = 1"
  using tn_log_log_ok [OF log_fresh_inv log_env0_ok(1), of call0] by (auto simp: log_run_def call0_def valid_level_def log_fresh_def)

lemma log_then_cleanup: "\<exists>s. log_run log_env0 [Op_log call0, Op_cleanup] log_fresh = Some s \<and> \<not> lg_ready s \<and> lg_atexit s = 1"
proof -
  obtain s where s: "tn_log_log log_env0 call0 log_fresh = Some s" "log_inv s" "lg_ready s" "lg_atexit s = 1"
    using tn_log_log_ok [OF log_fresh_inv log_env0_ok(1), of call0] by (auto simp: call0_def valid_level_def log_fresh_def)
  then show ?thesis using tn_log_cleanup_ok [OF s(2) log_env0_ok(1)] by (auto simp: log_run_def)
qed

theorem log_exit_ends_iff_witness:
  "(\<exists>s. log_run log_env0 [Op_log call0] log_fresh = Some s \<and> (\<exists>n s'. run_exit_handlers n log_env0 s = Some s')) \<and>
   (\<exists>s. log_run log_env0 [Op_log call0, Op_cleanup] log_fresh = Some s \<and> (\<nexists>n s'. run_exit_handlers n log_env0 s = Some s'))"
  using log_exit_ends_iff [OF log_env0_ok(1,2)] log_exit_ends_iff [OF log_env0_ok(1,3)] log_once log_then_cleanup by fastforce

lemma log_configured:
  "\<exists>s. log_run log_env0 [Op_setup, Op_level 3, Op_quiet False, Op_color False] log_fresh = Some s \<and> lg_ready s \<and>
     lx_level (lg_ctx s) = 3 \<and> \<not> lx_quiet (lg_ctx s) \<and> \<not> lx_color (lg_ctx s)"
  using tn_log_setup_ok [OF log_fresh_inv _ log_env0_ok(1)] by (auto simp: log_run_def log_fresh_def setters)

theorem log_call_exact_witness:
  "\<exists>s s'. log_run log_env0 [Op_setup, Op_level 3, Op_quiet False, Op_color False] log_fresh = Some s \<and>
     tn_log_log log_env0 call0 s = Some s' \<and> lg_stderr s' = lg_stderr s @ [plain_line ''12:00:00'' ''WARN'' call0]"
proof -
  let ?ops = "[Op_setup, Op_level 3, Op_quiet False, Op_color False]"
  obtain s where s: "log_run log_env0 ?ops log_fresh = Some s" "lg_ready s"
      "lx_level (lg_ctx s) = 3" "\<not> lx_quiet (lg_ctx s)" "\<not> lx_color (lg_ctx s)"
    using log_configured by blast
  have l: "lc_level call0 = 3" "valid_level (lc_level call0)" "level_names ! 3 = ''WARN''" "ge_time_short log_env0 = ''12:00:00''"
    by (simp_all add: call0_def valid_level_def level_names_def log_env0_def numeral_3_eq_3)
  have "list_all op_valid ?ops" by simp
  from log_call_exact [OF log_env0_ok(1) this s(1,2) l(2)] show ?thesis
    using s(1) by (auto simp: l s(3-5) stderr_line_def)
qed

end
