(* ===== verification/Tn_Sniff.thy ===== *)
theory Tn_Sniff
  imports Tn_Prelude
begin

text \<open>
  The packet counter of \<open>src/sniff/sniff.c\<close>: \<open>main\<close> and the callback it passes to libpcap. The results of the libpcap calls are inputs. The
  output that is kept is the two numbers printed after each batch of packets; the static functions of the file that nothing calls are left out.
\<close>

text \<open>The callback counts in an \<open>int\<close>, whose overflow is undefined.\<close>

definition countme :: "int \<Rightarrow> int option" where
  "countme counter = (if counter + 1 < 2 ^ 31 then Some (counter + 1) else None)"

fun count_packets :: "nat \<Rightarrow> int \<Rightarrow> int option" where
  "count_packets 0 counter = Some counter"
| "count_packets (Suc n) counter = Option.bind (countme counter) (count_packets n)"

text \<open>
  The devices found: None when the call fails and leaves the list uninitialised, else their names. \<open>se_dispatch\<close> holds what the calls of
  \<open>pcap_dispatch\<close> return and for how many packets each calls back.
\<close>

record sniff_env =
  se_devices :: "string list option"
  se_create :: bool
  se_set_snaplen :: int
  se_set_timeout :: int
  se_activate :: int
  se_lookupnet :: int
  se_compile :: int
  se_setfilter :: int
  se_setnonblock :: int
  se_dispatch :: "(int \<times> nat) list"

text \<open>The loop; None also when it has not ended with the calls given.\<close>

fun sniff_loop :: "(int \<times> nat) list \<Rightarrow> (int \<times> int) list \<Rightarrow> (int \<times> (int \<times> int) list) option" where
  "sniff_loop [] reports = None"
| "sniff_loop ((status, packets) # calls) reports = do {
     packet_count \<leftarrow> count_packets packets 0;
     if status < 0 then Some (status, reports)
     else sniff_loop calls (if status \<noteq> 0 then reports @ [(status, packet_count)] else reports)
   }"

text \<open>
  \<open>main\<close>. Each failed call is only logged. The first device is used without a test that there is one, the capture handle without a test
  that it was created; a filter that was not compiled is uninitialised. The result is the exit code, the calls whose failure was logged, and
  the numbers printed.
\<close>

definition logged :: "bool \<Rightarrow> string \<Rightarrow> string list \<Rightarrow> string list" where
  "logged failed call logs = (if failed then logs @ [call] else logs)"

definition sniff_main :: "sniff_env \<Rightarrow> (int \<times> string list \<times> (int \<times> int) list) option" where
  "sniff_main env = do {
     devlist \<leftarrow> se_devices env;
     device \<leftarrow> arr_get devlist 0;
     tn_assert (se_create env);
     let logs = logged (se_set_snaplen env \<noteq> 0) ''pcap_set_snaplen'' [];
     let logs = logged (se_set_timeout env \<noteq> 0) ''pcap_set_timeout'' logs;
     let logs = logged (se_activate env \<noteq> 0) ''pcap_activate'' logs;
     let logs = logged (se_lookupnet env < 0) ''pcap_lookupnet'' logs;
     tn_assert (se_compile env \<ge> 0);
     let logs = logged (se_setfilter env < 0) ''pcap_setfilter'' logs;
     let logs = logged (se_setnonblock env = -1) ''pcap_setnonblock'' logs;
     (status, reports) \<leftarrow> sniff_loop (se_dispatch env) [];
     Some (if status = -1 then 1 else 0, logs, reports)
   }"

definition failures :: "sniff_env \<Rightarrow> string list" where
  "failures env = map fst (filter snd
     [(''pcap_set_snaplen'', se_set_snaplen env \<noteq> 0), (''pcap_set_timeout'', se_set_timeout env \<noteq> 0), (''pcap_activate'', se_activate env \<noteq> 0),
      (''pcap_lookupnet'', se_lookupnet env < 0), (''pcap_setfilter'', se_setfilter env < 0), (''pcap_setnonblock'', se_setnonblock env = -1)])"

lemma count_packets_ok: "0 \<le> c \<Longrightarrow> c + int n < 2 ^ 31 \<Longrightarrow> count_packets n c = Some (c + int n)"
  by (induction n arbitrary: c) (simp_all add: countme_def)

definition first_error :: "(int \<times> nat) list \<Rightarrow> int option" where
  "first_error calls = map_option fst (List.find (\<lambda>(status, _). status < 0) calls)"

definition reported :: "(int \<times> nat) list \<Rightarrow> (int \<times> int) list" where
  "reported calls = map (\<lambda>(status, n). (status, int n)) (filter (\<lambda>(status, _). 0 < status) (takeWhile (\<lambda>(status, _). 0 \<le> status) calls))"

lemma sniff_loop_result:
  assumes "\<forall>c \<in> set calls. snd c < 2 ^ 31"
  shows "sniff_loop calls reports = map_option (\<lambda>status. (status, reports @ reported calls)) (first_error calls)"
  using assms
proof (induction calls arbitrary: reports)
  case (Cons c calls)
  obtain status n where c: "c = (status, n)" by (cases c) simp
  have n: "count_packets n 0 = Some (int n)" using Cons.prems c count_packets_ok [of 0 n] by simp
  show ?case using Cons.IH Cons.prems n by (simp add: c first_error_def reported_def option.map_comp)
qed (simp add: first_error_def)

text \<open>
  Property C0. The packet counter crashes exactly when the device list cannot be read or is empty, the capture handle is not created, or
  the filter is not compiled; every other failure is logged and passed over. Otherwise it runs until \<open>pcap_dispatch\<close> returns a negative number, having
  printed the numbers of all batches that were not empty, and exits with 1 for -1 and with 0 for any other.
\<close>

theorem sniff_outcome:
  assumes "\<forall>c \<in> set (se_dispatch env). snd c < 2 ^ 31"
  shows "sniff_main env =
     (if (\<exists>name names. se_devices env = Some (name # names)) \<and> se_create env \<and> 0 \<le> se_compile env
      then map_option (\<lambda>status. (if status = -1 then 1 else 0, failures env, reported (se_dispatch env))) (first_error (se_dispatch env))
      else None)"
proof (cases "se_devices env")
  case (Some names)
  then show ?thesis
    using sniff_loop_result [OF assms, of "[]"]
    by (cases names; cases "first_error (se_dispatch env)") (auto simp: sniff_main_def arr_get_def tn_assert_def Let_def logged_def failures_def)
qed (simp add: sniff_main_def)

definition sniff_sample :: sniff_env where
  "sniff_sample = \<lparr>se_devices = Some [''eth0''], se_create = True, se_set_snaplen = 0, se_set_timeout = 0, se_activate = -1,
     se_lookupnet = 0, se_compile = 0, se_setfilter = 0, se_setnonblock = 0, se_dispatch = [(2, 2), (0, 0), (-2, 0)]\<rparr>"

theorem sniff_outcome_witness: "sniff_main sniff_sample = Some (0, [''pcap_activate''], [(2, 2)])"
  using sniff_outcome [of sniff_sample] by (simp add: sniff_sample_def reported_def first_error_def failures_def)

end
