(* ===== verification/Tn_Sniff_Print.thy ===== *)
theory Tn_Sniff_Print
  imports Tn_Sniff Tn_Decimal Tn_Memory
begin

text \<open>
  The helpers of \<open>src/sniff/sniff.c\<close> that make text: \<open>ifprint\<close> describes a network interface,
  \<open>iptos\<close> formats an IPv4 address into one of twelve static buffers, \<open>pcap_statustostr\<close> is the
  replacement of libpcap's function on Windows. The text of \<open>inet_ntop\<close> is a parameter.
\<close>

section \<open>Status texts\<close>

definition sdec :: "int \<Rightarrow> string" where
  "sdec n = (if n < 0 then CHR ''-'' # dec (nat (- n)) else dec (nat n))"

text \<open>\<open>snprintf\<close> with a buffer of \<open>sz\<close> bytes keeps one for the end of the string.\<close>

definition snprintf_to :: "nat \<Rightarrow> string \<Rightarrow> string" where
  "snprintf_to sz s = take (sz - 1) s"

definition status_text :: "int \<Rightarrow> string option" where
  "status_text errnum = map_of
     [(1, ''Generic warning''),
      (3, ''That type of time stamp is not supported by that device''),
      (2, ''That device doesn't support promiscuous mode''),
      (-1, ''Generic error''),
      (-2, ''Loop terminated by pcap_breakloop''),
      (-3, ''The pcap_t has not been activated''),
      (-4, ''The setting can't be changed after the pcap_t is activated''),
      (-5, ''No such device exists''),
      (-6, ''That device doesn't support monitor mode''),
      (-7, ''That operation is supported only in monitor mode''),
      (-8, ''You don't have permission to capture on that device''),
      (-9, ''That device is not up''),
      (-10, ''That device doesn't support setting the time stamp type''),
      (-11, ''You don't have permission to capture in promiscuous mode on that device''),
      (-12, ''That device doesn't support that time stamp precision'')] errnum"

definition pcap_statustostr :: "int \<Rightarrow> string" where
  "pcap_statustostr errnum = (case status_text errnum of
     Some text_known \<Rightarrow> text_known
   | None \<Rightarrow> snprintf_to (15 + 10 + 1) (''Unknown error: '' @ sdec errnum))"

section \<open>Addresses in static buffers\<close>

record iptos_state =
  ip_output :: "string list"
  ip_which :: nat

definition iptos_init :: iptos_state where
  "iptos_init = \<lparr>ip_output = replicate 12 [], ip_which = 0\<rparr>"

definition dotted :: "u8 list \<Rightarrow> string" where
  "dotted p = dec (unat (p ! 0)) @ ''.'' @ dec (unat (p ! 1)) @ ''.'' @ dec (unat (p ! 2)) @ ''.'' @ dec (unat (p ! 3))"

text \<open>The result is the index of the buffer. A text that does not fit with its zero byte into the 16 bytes has no result.\<close>

definition iptos :: "bool \<Rightarrow> u32 \<Rightarrow> iptos_state \<Rightarrow> (nat \<times> iptos_state) option" where
  "iptos be inp s = do {
     let p = obj_bytes be 4 inp;
     let which = (if ip_which s + 1 = 12 then 0 else ip_which s + 1);
     tn_assert (length (dotted p) + 1 \<le> 3 * 4 + 3 + 1);
     output \<leftarrow> arr_set (ip_output s) which (dotted p);
     Some (which, \<lparr>ip_output = output, ip_which = which\<rparr>)
   }"

fun iptos_run :: "bool \<Rightarrow> u32 list \<Rightarrow> iptos_state \<Rightarrow> iptos_state option" where
  "iptos_run be [] s = Some s"
| "iptos_run be (x # xs) s = do { (_, s) \<leftarrow> iptos be x s; iptos_run be xs s }"

section \<open>Interfaces\<close>

record sockaddr =
  sa_family :: int
  sa_data :: "u8 list"

record pcap_addr =
  pa_addr :: "sockaddr option"
  pa_netmask :: "sockaddr option"
  pa_broadaddr :: "sockaddr option"
  pa_dstaddr :: "sockaddr option"

record pcap_if =
  pi_name :: string
  pi_description :: "string option"
  pi_addresses :: "pcap_addr list"
  pi_flags :: u32

definition AF_INET_sniff :: int where "AF_INET_sniff = 2"
definition AF_INET6_sniff :: int where "AF_INET6_sniff = 10"

definition nl :: string where "nl = [CHR 0x0A]"
definition tab :: string where "tab = [CHR 0x09]"

text \<open>One flag: the text printed so far and the separator.\<close>

definition flag_print :: "bool \<Rightarrow> string \<Rightarrow> string \<times> string \<Rightarrow> string \<times> string" where
  "flag_print on name st = (case st of (out, sep) \<Rightarrow> if on then (out @ sep @ name, '', '') else (out, sep))"

definition status_print :: "bool \<Rightarrow> u32 \<Rightarrow> string" where
  "status_print wireless status =
     (if status = 0x00 then (if wireless then '' (association status unknown)'' else '' (connection status unknown)'')
      else if status = 0x10 then (if wireless then '' (associated)'' else '' (connected)'')
      else if status = 0x20 then (if wireless then '' (not associated)'' else '' (disconnected)'')
      else '''')"

definition flags_print :: "u32 \<Rightarrow> string" where
  "flags_print flags =
     (let st = ('''', '''');
          st = flag_print (flags AND 0x2 \<noteq> 0) ''UP'' st;
          st = flag_print (flags AND 0x4 \<noteq> 0) ''RUNNING'' st;
          st = flag_print (flags AND 0x1 \<noteq> 0) ''LOOPBACK'' st;
          st = flag_print (flags AND 0x8 \<noteq> 0) ''WIRELESS'' st
      in fst st @ status_print (flags AND 0x8 \<noteq> 0) (flags AND 0x30))"

definition line_print :: "(int \<Rightarrow> sockaddr \<Rightarrow> string) \<Rightarrow> int \<Rightarrow> string \<Rightarrow> sockaddr option \<Rightarrow> string" where
  "line_print ntop family name a =
     (case a of None \<Rightarrow> '''' | Some a \<Rightarrow> tab @ tab @ name @ '': '' @ ntop family a @ nl)"

definition family_print :: "(int \<Rightarrow> sockaddr \<Rightarrow> string) \<Rightarrow> int \<Rightarrow> string \<Rightarrow> pcap_addr \<Rightarrow> string" where
  "family_print ntop family name a =
     tab @ ''Address Family: '' @ name @ nl @
     line_print ntop family ''Address'' (pa_addr a) @ line_print ntop family ''Netmask'' (pa_netmask a) @
     line_print ntop family ''Broadcast Address'' (pa_broadaddr a) @ line_print ntop family ''Destination Address'' (pa_dstaddr a)"

text \<open>The loop over the addresses: status, standard output and standard error so far.\<close>

fun addresses_print ::
  "(int \<Rightarrow> sockaddr \<Rightarrow> string) \<Rightarrow> pcap_addr list \<Rightarrow> int \<times> string \<times> string \<Rightarrow> int \<times> string \<times> string" where
  "addresses_print ntop [] st = st"
| "addresses_print ntop (a # as) (status, out, err) = addresses_print ntop as (case pa_addr a of
     None \<Rightarrow> (0, out, err @ tab @ ''Warning: a->addr is NULL, skipping this address.'' @ nl)
   | Some addr \<Rightarrow>
       if sa_family addr = AF_INET_sniff then (status, out @ family_print ntop AF_INET_sniff ''AF_INET'' a, err)
       else if sa_family addr = AF_INET6_sniff then (status, out @ family_print ntop AF_INET6_sniff ''AF_INET6'' a, err)
       else (status, out @ tab @ ''Address Family: Unknown ('' @ sdec (sa_family addr) @ '')'' @ nl, err))"

definition ifprint :: "(int \<Rightarrow> sockaddr \<Rightarrow> string) \<Rightarrow> pcap_if \<Rightarrow> int \<times> string \<times> string" where
  "ifprint ntop d =
     (let out = pi_name d @ nl;
          out = out @ (case pi_description d of None \<Rightarrow> '''' | Some t \<Rightarrow> tab @ ''Description: '' @ t @ nl);
          out = out @ tab @ ''Flags: '' @ flags_print (pi_flags d) @ nl;
          (status, out, err) = addresses_print ntop (pi_addresses d) (1, out, '''')
      in (status, out @ nl, err))"

section \<open>Lemmas\<close>

lemma length_sdec: "\<bar>n\<bar> < 10 ^ k \<Longrightarrow> 0 < k \<Longrightarrow> length (sdec n) \<le> k + (if n < 0 then 1 else 0)"
  using length_dec [of "nat \<bar>n\<bar>" k] by (auto simp: sdec_def nat_less_iff)

text \<open>A status that no text is known for is reported in full unless its number needs eleven characters.\<close>

theorem statustostr_unknown:
  assumes "status_text errnum = None" and "\<bar>errnum\<bar> < 10 ^ 9"
  shows "pcap_statustostr errnum = ''Unknown error: '' @ sdec errnum"
proof -
  have "length (sdec errnum) \<le> 10" using length_sdec [of errnum 9] assms(2) by (simp split: if_splits)
  then show ?thesis using assms(1) by (simp add: pcap_statustostr_def snprintf_to_def)
qed

text \<open>The four numbers of an address fit into a buffer, so every call has a result.\<close>

lemma length_dotted: "length (dotted p) \<le> 15"
proof -
  have "length (dec (unat x)) \<le> 3" for x :: u8
  proof (rule length_dec)
    show "unat x < 10 ^ 3" using unsigned_less [of x, where 'a = nat] by simp
  qed simp
  from this [of "p ! 0"] this [of "p ! 1"] this [of "p ! 2"] this [of "p ! 3"] show ?thesis by (simp add: dotted_def)
qed

definition iptos_ok :: "iptos_state \<Rightarrow> bool" where
  "iptos_ok s \<longleftrightarrow> length (ip_output s) = 12 \<and> ip_which s < 12"

lemma iptos_result:
  assumes "iptos_ok s"
  shows "iptos be x s = Some ((ip_which s + 1) mod 12, \<lparr>ip_output = (ip_output s)[(ip_which s + 1) mod 12 := dotted (obj_bytes be 4 x)],
    ip_which = (ip_which s + 1) mod 12\<rparr>)"
proof -
  have "(if ip_which s + 1 = 12 then 0 else ip_which s + 1) = (ip_which s + 1) mod 12"
    using assms by (auto simp: iptos_ok_def)
  then show ?thesis using assms length_dotted [of "obj_bytes be 4 x"]
    by (simp add: iptos_def iptos_ok_def tn_assert_def Let_def)
qed

lemma iptos_ok_next: "iptos_ok s \<Longrightarrow> iptos be x s = Some (i, s') \<Longrightarrow> iptos_ok s' \<and> i < 12 \<and> ip_which s' = i"
  by (auto simp: iptos_result) (auto simp: iptos_ok_def)

lemma iptos_run_other:
  assumes "iptos_ok s" and "\<And>j. 0 < j \<Longrightarrow> j \<le> length xs \<Longrightarrow> (ip_which s + j) mod 12 \<noteq> i"
  shows "\<exists>s'. iptos_run be xs s = Some s' \<and> iptos_ok s' \<and> ip_output s' ! i = ip_output s ! i"
  using assms
proof (induction xs arbitrary: s)
  case (Cons x xs)
  let ?w = "(ip_which s + 1) mod 12"
  let ?s = "\<lparr>ip_output = (ip_output s)[?w := dotted (obj_bytes be 4 x)], ip_which = ?w\<rparr>"
  have ne: "?w \<noteq> i" using Cons.prems(2) [of 1] by simp
  have ok: "iptos_ok ?s" using Cons.prems(1) by (simp add: iptos_ok_def)
  have "(ip_which ?s + j) mod 12 \<noteq> i" if "0 < j" "j \<le> length xs" for j
    using Cons.prems(2) [of "Suc j"] that by (simp add: mod_simps add.assoc)
  from Cons.IH [OF ok this] ne show ?case by (simp add: iptos_result [OF Cons.prems(1)])
qed simp

text \<open>The text of an address stays in its buffer for the next eleven calls.\<close>

theorem iptos_survives:
  assumes "iptos_ok s" and "iptos be x s = Some (i, s1)" and "length xs \<le> 11"
  shows "\<exists>s2. iptos_run be xs s1 = Some s2 \<and> ip_output s2 ! i = dotted (obj_bytes be 4 x)"
proof -
  have ok: "iptos_ok s1" "i < 12" "ip_which s1 = i" using iptos_ok_next [OF assms(1,2)] by blast+
  have text_there: "ip_output s1 ! i = dotted (obj_bytes be 4 x)"
    using assms(1,2) by (auto simp: iptos_result iptos_ok_def)
  have "(ip_which s1 + j) mod 12 \<noteq> i" if "0 < j" "j \<le> length xs" for j
  proof (cases "i + j < 12")
    case True
    then show ?thesis using that ok by simp
  next
    case False
    then have "(i + j) mod 12 = i + j - 12" using that assms(3) ok(2) by (simp add: le_mod_geq)
    then show ?thesis using that assms(3) ok False by simp
  qed
  from iptos_run_other [OF ok(1) this] text_there show ?thesis by auto
qed

text \<open>\<open>ifprint\<close> fails exactly when an address entry has no address.\<close>

lemma addresses_print_status:
  "fst (addresses_print ntop as st) = (if list_ex (\<lambda>a. pa_addr a = None) as then 0 else fst st)"
proof (induction as arbitrary: st)
  case (Cons a as)
  obtain status out err where st: "st = (status, out, err)" by (cases st)
  show ?case by (cases "pa_addr a") (simp_all add: st Cons.IH)
qed simp

theorem ifprint_status:
  "fst (ifprint ntop d) = (if list_ex (\<lambda>a. pa_addr a = None) (pi_addresses d) then 0 else 1)"
proof -
  have "\<exists>st. fst (ifprint ntop d) = fst (addresses_print ntop (pi_addresses d) st) \<and> fst st = 1"
    by (intro exI conjI) (auto simp: ifprint_def Let_def case_prod_unfold)
  then show ?thesis using addresses_print_status [of ntop "pi_addresses d"] by auto
qed

end
