(* ===== verification/Spec2Isabelle.thy ===== *)
theory Spec2Isabelle
  imports Tn_Byte_Buf_Ops Tn_Queue_Lin Tn_Queue_Relaxed Tn_Echo_Path Tn_Serv_Main Tn_Io_Thread Tn_Lg_Main Tn_Map Tn_List_Block Tn_Fslog Tn_Log Tn_Sniff_Print
begin

text \<open>
  A model of tcpeen, a TCP service library in C on top of libuv, and of the programs built from it.

  \<^bold>\<open>The program.\<close> The library (\<open>src/src\<close>, \<open>src/include/tn\<close>) moves messages between an application thread and an IO
  thread. The two share only single-producer single-consumer queues of pointers; everything else
  (buffers, events, channels, write requests) is allocated once and handed around by pointer. The IO thread
  runs a libuv loop whose callbacks accept clients, read into pooled buffers, post events and write
  queued requests. Around it there are a client connection with a length-prefixed message format
  (\<open>tcp_connection.c\<close>, \<open>tcp_context.c\<close>), a load generator (\<open>src/tcplg\<close>), an echo server on the service (\<open>src/tcpserv/tcpserv_unity.c\<close>),
  an echo server directly on libuv (\<open>src/tcpserv/tcpserv.c\<close>), and the functions exported to Unity (\<open>src/unity\<close>). It builds
  on the byte buffers, the byte order functions, the clock, the hash table, the array list, threads and mutexes of aws-c-common (\<open>src/deps\<close>).

  \<^bold>\<open>Conventions\<close> (\<open>Tn_Prelude\<close>). Machine integers are words of the width of the C type. An operation is a function of the same
  name that returns the code, the out-parameters and the new state inside an option; None is a failed assertion, an access
  outside an array, a NULL or dangling pointer, a division by zero, or a loop that does not end. So every theorem that an operation
  equals \<open>Some\<close> also says that none of these happens. Objects in preallocated arrays are identified by their index. What
  the program gets from outside (results of allocations and of libuv calls, clock readings, bytes received, content of fresh memory)
  are arguments over which the theorems quantify. \<open>Tn_Memory\<close> has byte-addressed memory and the byte order of the host as a parameter.

  \<^bold>\<open>Theories and sources.\<close>
  \<^item> \<open>Tn_Queue\<close>: \<open>queue_spsc.c\<close> (struct, all operations, the rounding of the capacity). The ring implements the contracts
    \<open>bounded_fifo\<close> and \<open>peekable_fifo\<close> of \<open>Tn_Fifo\<close>; any sequence of calls gives the results of a list.
    \<open>Tn_Queue_Conc\<close>: the same operations cut into their accesses to shared memory, interleaved arbitrarily: order is kept and nothing is lost,
    no slot is accessed by both threads, neither thread blocks; with two producers a pointer can be lost.
    \<open>Tn_Queue_Lin\<close>: every such interleaving is equivalent to complete calls in the order in which they take effect, which is why the
    components above use the operations of \<open>Tn_Queue\<close>.
    \<open>Tn_Atomic\<close>: \<open>atomic.c\<close> on aws-c-common, and the queue operations once more over atomic variables whose accesses carry their memory
    order: they equal those of \<open>Tn_Queue\<close>, and of the orders in which another thread may see the accesses only those of \<open>pop_all\<close> have a slot
    given back before it is read. \<open>Tn_Queue_Relaxed\<close>: the two threads with such a \<open>pop_all\<close>; a full queue can lose a pointer, a queue used as the
    event list uses it cannot.
  \<^item> \<open>Tn_Byte_Buf\<close>, \<open>Tn_Buffer\<close>, \<open>Tn_Buffer_Pool\<close>: \<open>byte_buf.h\<close>, \<open>byte_order.h\<close>, \<open>buffer.c\<close>, \<open>buffer_pool.c\<close>. A buffer refines a
    byte stream with bounded room, fields are read back as written on hosts of either byte order, a write stays inside its buffer, and
    buffers of one pool do not overlap. \<open>Tn_Byte_Buf_Ops\<close>: the functions of \<open>byte_buf.c\<close> the program does not call, copying, appending,
    concatenating, comparing and wiping.
  \<^item> \<open>Tn_Handles\<close>: the contract \<open>handle_pool\<close> of a free list over preallocated objects, with the conservation of handles;
    implemented by the buffer pool, the event list (\<open>Tn_Event\<close>, \<open>event.c\<close>) and the channel list (\<open>Tn_Channel\<close>, \<open>tcp_channel.c\<close>, with the reading of frames).
    \<open>Tn_List_Ptr\<close>: \<open>list_ptr.c\<close>; \<open>Tn_Endpoint\<close>: \<open>endpoint.c\<close>, with the address functions of libuv as parameters; \<open>Tn_Time\<close>: \<open>time.c\<close>, \<open>clock.h\<close>.
  \<^item> \<open>Tn_Service\<close>, \<open>Tn_Service_IO\<close>: \<open>tcp_service.c\<close> and \<open>tcp_service_internal.c\<close>, one definition per call and per callback.
    \<open>Tn_Service_Inv\<close>, \<open>Tn_Service_Read\<close>, \<open>Tn_Service_Sys\<close>: the ownership invariant and that every operation keeps it.
    \<open>Tn_Service_Run\<close>: the service as a machine over all calls and callbacks (\<open>guarded_machine\<close> of \<open>Tn_Machine\<close>, also used for the plain echo server and the log). \<open>Tn_Service_Props\<close>: the
    behaviour of sending, receiving, draining, closing and starting, errors included.
    \<open>Tn_Io_Thread\<close>: the IO thread's setup and teardown on every path, and stopping.
  \<^item> \<open>Tn_Connection\<close>, \<open>Tn_Wire\<close>, \<open>Tn_Conn_Props\<close>: the client connection. What one end writes the other end reads, however the stream is cut;
    the receive callback ends on any input; the life cycle of the handle.
    \<open>Tn_Echo_Path\<close>: the client connection and the plain echo server as one system with the bytes between them, interleaved arbitrarily.
  \<^item> \<open>Tn_Unity\<close>: the plugin functions and the echo server on the service, with the echo proved from received chunk to write request. \<open>Tn_Serv_Main\<close>: how its \<open>main\<close> starts.
    \<open>Tn_Tcpserv\<close>: the plain echo server with its heap. \<open>Tn_Cmdargs\<close>, \<open>Tn_Loadgen\<close>, \<open>Tn_Lg_Main\<close>: command line, phases
    and \<open>main\<close> of the load generator. \<open>Tn_Sniff\<close>, \<open>Tn_Sniff_Print\<close>: \<open>sniff.c\<close>, the packet counter and its functions that make text.
  \<^item> \<open>Tn_Hash_Table\<close>: \<open>hash_table.c\<close>, its sizes with 64-bit wrap-around, search, Robin Hood insertion, growth, backward-shift deletion, iterators.
    \<open>Tn_Robin_Hood\<close>: the layout invariant on the ring of slots, and that the loops end. \<open>Tn_Hash_Map\<close>: the table as a map.
    \<open>Tn_Map\<close>: the contract \<open>keyed_store\<close>, implemented by the table, and \<open>map.c\<close>.
  \<^item> \<open>Tn_Array_List\<close>: \<open>array_list.inl\<close> and \<open>array_list.c\<close>, items in one block of bytes, read as a list of items.
    \<open>Tn_List_Block\<close>: \<open>list_block.c\<close>, which refines a bounded list for items of at most the size of a pointer and overflows its block for larger ones.
    \<open>Tn_Stack\<close>: the contract \<open>bounded_stack\<close>, implemented by this list and by \<open>Tn_List_Ptr\<close>, which are therefore interchangeable.
  \<^item> \<open>Tn_Runtime\<close>: \<open>allocator.c\<close>, \<open>uuid.c\<close>, \<open>thread.c\<close> with \<open>posix/thread.c\<close> and the environment functions of libuv, \<open>system.c\<close>;
    the states of thread objects and the round trip of the number of workers. \<open>Tn_Decimal\<close>: \<open>atoi\<close> and decimal printing.
  \<^item> \<open>Tn_Log\<close>: \<open>mutex.c\<close> and \<open>log.c\<close>: what a call prints, that the log never deadlocks, and when leaving the program ends.
    \<open>Tn_Fslog\<close>: \<open>fslog.c\<close>: how its thread ends and that cleaning up waits forever.

  \<^bold>\<open>Fuel and partial functions.\<close> Loops with a bound in the code are structural. The drain loop of \<open>on_prep_cb\<close> has as fuel one more than the
  length of the ready queue, enough because every round removes one request. \<open>size_loop\<close> has fuel 65, enough because the size is 0 after 64
  shifts. The exit handlers run with fuel, over which \<open>log_exit_ends_iff\<close> quantifies. Setting up the log and logging call each other; the
  flag that is set first makes them end. The receive loop of a connection and the loops of the hash table are partial functions, and \<open>recv_always_returns\<close> and
  \<open>hash_table_refines_map\<close> show that they return.

  \<^bold>\<open>Not modelled.\<close> The log lines of the other components and the texts printed by the load generator and by \<open>main\<close> of the packet counter; several
  threads logging at once; memory more relaxed than reordering within one thread (the service machine and \<open>Tn_Queue_Conc\<close> are sequentially
  consistent, which \<open>Tn_Atomic\<close> and \<open>Tn_Queue_Relaxed\<close> relate to the orders in the code); the atomics of aws-c-common for other compilers; the
  test harness; libuv, libpcap and the rest of aws-c-common. The bytes of
  heap blocks are modelled where the program does address arithmetic on them (buffers, pools, frames); elsewhere a block is only
  allocated, released or dangling. The hash functions of \<open>hash_table.c\<close> are a parameter of the table; iterating while
  deleting is defined, and theorems about iterating are for callbacks that do not delete.
\<close>

end
